(* ===== verification/Prelude.thy ===== *)
theory Prelude
  imports Main "HOL-Library.Word" "HOL-Library.AList" "HOL-Library.While_Combinator"
    "HOL-Library.Multiset"
begin

text \<open>
  Shared vocabulary of the development: the machine integers of the sources, the page
  arithmetic of \<^verbatim>\<open>src/memory/page_table.cpp\<close>, the C++ containers as association
  lists, and the loop lemmas that the components use.  A \<^verbatim>\<open>std::unordered_map\<close> is an
  association list whose order is the container's iteration order; every lemma is about an
  arbitrary list, so no result depends on a particular order.
\<close>

unbundle bit_operations_syntax

type_synonym u8 = "8 word"
type_synonym u16 = "16 word"
type_synonym u32 = "32 word"
type_synonym u64 = "64 word"
type_synonym i32 = "32 word"
type_synonym ptr = "64 word"

text \<open>\<open>pool_simps\<close> unfolds the stream pool of the micro-kernel, \<open>demo_simps\<close> the concrete page
  table on which the witnesses run.\<close>

named_theorems pool_simps
named_theorems demo_simps

subsection \<open>Association lists\<close>

type_synonym ('k, 'v) umap = "('k \<times> 'v) list"

definition um_wf :: "('k, 'v) umap \<Rightarrow> bool" where
  "um_wf m = distinct (map fst m)"

definition um_count :: "('v \<Rightarrow> bool) \<Rightarrow> ('k, 'v) umap \<Rightarrow> nat" where
  "um_count P m = length (filter (\<lambda>kv. P (snd kv)) m)"

lemma length_update: "length (AList.update k v m) = (if k \<in> fst ` set m then length m else Suc (length m))"
  by (induction m) auto

lemma length_update_known: "map_of m k = Some v \<Longrightarrow> length (AList.update k w m) = length m"
  by (auto simp: length_update dest!: map_of_SomeD) (metis fst_conv image_eqI)

lemma length_fold_update: "length (fold (\<lambda>a. AList.update a (f a)) xs m) \<le> length m + length xs"
proof (induction xs arbitrary: m)
  case (Cons x xs)
  have "length (AList.update x (f x) m) \<le> Suc (length m)" by (simp add: length_update)
  with Cons [of "AList.update x (f x) m"] show ?case by simp
qed simp

lemma um_wf_Nil [simp]: "um_wf []"
  by (simp add: um_wf_def)

lemma um_wf_update [simp]: "um_wf (AList.update k v m) = um_wf m"
proof -
  have "um_wf m \<Longrightarrow> um_wf (AList.update k v m)"
    by (simp add: um_wf_def distinct_update)
  moreover have "um_wf (AList.update k v m) \<Longrightarrow> um_wf m"
    by (auto simp: um_wf_def update_keys split: if_splits)
  ultimately show ?thesis by blast
qed

lemma um_wf_delete [simp]: "um_wf m \<Longrightarrow> um_wf (AList.delete k m)"
  by (simp add: um_wf_def distinct_delete)

lemma map_of_update [simp]: "map_of (AList.update k v m) = (map_of m)(k \<mapsto> v)"
  by (rule update_conv')

lemma map_of_delete_eq [simp]: "map_of (AList.delete k m) = (map_of m)(k := None)"
  by (rule delete_conv')

lemma um_in_map_of: "um_wf m \<Longrightarrow> (k, v) \<in> set m \<longleftrightarrow> map_of m k = Some v"
  by (auto simp: um_wf_def map_of_is_SomeI dest: map_of_SomeD)

lemma um_count_le: "um_count P m \<le> length m"
  by (simp add: um_count_def)

lemma um_count_update:
  "um_wf m \<Longrightarrow> map_of m k = Some v \<Longrightarrow>
     um_count P (AList.update k v' m) + (if P v then 1 else 0) = um_count P m + (if P v' then 1 else 0)"
proof (induction m)
  case Nil
  then show ?case by simp
next
  case (Cons kv m)
  show ?case
  proof (cases "fst kv = k")
    case True
    then show ?thesis using Cons.prems by (cases kv) (auto simp: um_count_def)
  next
    case False
    then have "map_of m k = Some v" "um_wf m"
      using Cons.prems by (cases kv; auto simp: um_wf_def)+
    from Cons.IH [OF this(2,1)] False show ?thesis
      by (cases kv) (auto simp: um_count_def)
  qed
qed

lemma um_count_map_of:
  "um_wf m \<Longrightarrow> um_count P m = card {k. \<exists>v. map_of m k = Some v \<and> P v}"
proof (induction m)
  case Nil
  then show ?case by (simp add: um_count_def)
next
  case (Cons kv m)
  obtain k v where kv: "kv = (k, v)" by force
  have wf: "um_wf m" and nin: "map_of m k = None"
    using Cons.prems by (auto simp: um_wf_def kv map_of_eq_None_iff)
  have fin: "finite {k. \<exists>v. map_of m k = Some v \<and> P v}"
    by (rule finite_subset [OF _ finite_dom_map_of [of m]]) auto
  have "{k'. \<exists>v'. map_of (kv # m) k' = Some v' \<and> P v'}
      = (if P v then insert k else id) {k. \<exists>v. map_of m k = Some v \<and> P v}"
    using nin by (auto simp: kv)
  then show ?case
    using Cons.IH [OF wf] fin nin by (auto simp: um_count_def kv)
qed

subsection \<open>Loops over a list with an early return\<close>

fun fold_until :: "('s \<Rightarrow> bool) \<Rightarrow> ('a \<Rightarrow> 's \<Rightarrow> 's) \<Rightarrow> 'a list \<Rightarrow> 's \<Rightarrow> 's" where
  "fold_until stop f [] s = s"
| "fold_until stop f (x # xs) s = (if stop s then s else fold_until stop f xs (f x s))"

lemma fold_until_False [simp]: "fold_until (\<lambda>_. False) f xs s = fold f xs s"
  by (induction xs arbitrary: s) auto

lemma fold_until_stop [simp]: "stop s \<Longrightarrow> fold_until stop f xs s = s"
  by (cases xs) auto

lemma fold_until_invariant:
  assumes "\<And>x s. x \<in> set xs \<Longrightarrow> I s \<Longrightarrow> \<not> stop s \<Longrightarrow> I (f x s)" and "I s"
  shows "I (fold_until stop f xs s)"
  using assms by (induction xs arbitrary: s) auto

subsection \<open>Page arithmetic\<close>

lemma unat_u64_less: "unat (x :: u64) < 2 ^ 64"
proof -
  have "unat x < 2 ^ LENGTH(64)" by (rule unsigned_less)
  then show ?thesis by simp
qed

lemma unat_pow2: "s < 64 \<Longrightarrow> unat ((2::u64) ^ s) = 2 ^ s"
proof -
  assume "s < 64"
  then have "(2::nat) ^ s < 2 ^ 64" by (rule power_strict_increasing) simp
  then have "unat (word_of_nat (2 ^ s) :: u64) = 2 ^ s" by (subst unat_of_nat) simp
  then show ?thesis by simp
qed

lemma unat_of_nat64: "k < 2 ^ 64 \<Longrightarrow> unat (word_of_nat k :: u64) = k"
  by (subst unat_of_nat) simp

lemma unat_u32_less: "unat (x :: u32) < 2 ^ 32"
proof -
  have "unat x < 2 ^ LENGTH(32)" by (rule unsigned_less)
  then show ?thesis by simp
qed

lemma unat_ucast32 [simp]: "unat (ucast (i :: u32) :: u64) = unat i"
proof -
  have "unat i < 2 ^ 32" using unsigned_less [of i] by simp
  then have "unat i < 2 ^ 64" by (rule less_trans) simp
  then have "take_bit 64 (unat i) = unat i" by (simp add: take_bit_nat_eq_self_iff)
  then show ?thesis by (simp add: unsigned_ucast_eq)
qed

definition align_down :: "u64 \<Rightarrow> u64 \<Rightarrow> u64" where
  "align_down pb v = v AND NOT (pb - 1)"

lemma unat_align_down:
  assumes "s < 64"
  shows "unat (align_down (2 ^ s) v) = unat v div 2 ^ s * 2 ^ s"
proof -
  have "NOT v AND take_bit s v = 0"
    by (rule bit_eqI) (auto simp: bit_simps)
  then have "v - take_bit s v = v AND NOT (take_bit s v)"
    by (rule disjunctive_diff_eq_and_not)
  also have "\<dots> = v AND NOT (mask s)"
    by (rule bit_eqI) (auto simp: bit_simps)
  finally have eq: "align_down (2 ^ s) v = v - take_bit s v"
    by (simp add: align_down_def mask_eq_exp_minus_1)
  have tb: "unat (take_bit s v) = unat v mod 2 ^ s"
    by (simp add: unsigned_take_bit_eq flip: take_bit_eq_mod)
  have "take_bit s v \<le> v"
    by (simp add: word_le_nat_alt tb)
  then have "unat (v - take_bit s v) = unat v - unat v mod 2 ^ s"
    by (simp add: unat_sub tb)
  then show ?thesis
    by (simp add: eq minus_mod_eq_div_mult)
qed

lemma round_up_ge:
  assumes "0 < (P::nat)"
  shows "n \<le> (n + (P - 1)) div P * P"
proof -
  have "(n + (P - 1)) div P * P + (n + (P - 1)) mod P = n + (P - 1)"
    by (rule div_mult_mod_eq)
  moreover have "(n + (P - 1)) mod P < P" using assms by simp
  ultimately show ?thesis by linarith
qed

definition page_addr :: "nat \<Rightarrow> nat \<Rightarrow> u64" where
  "page_addr s k = word_of_nat (k * 2 ^ s)"

definition page_seq :: "nat \<Rightarrow> nat \<Rightarrow> nat \<Rightarrow> u64 list" where
  "page_seq s i j = map (page_addr s) [i..<j]"

lemma unat_page_addr: "k * 2 ^ s < 2 ^ 64 \<Longrightarrow> unat (page_addr s k) = k * 2 ^ s"
  unfolding page_addr_def by (subst unat_of_nat) simp

lemma page_addr_unat: "unat a = k * 2 ^ s \<Longrightarrow> page_addr s k = a"
  unfolding page_addr_def by (metis of_nat_unat ucast_id)

lemma page_seq_Cons: "i < j \<Longrightarrow> page_seq s i j = page_addr s i # page_seq s (Suc i) j"
  by (simp add: page_seq_def upt_conv_Cons)

lemma page_loop_returns:
  fixes a e :: u64
  assumes "s < 64" and "unat a = i * 2 ^ s" and "unat e = j * 2 ^ s"
  shows "\<exists>a'. while_option (\<lambda>(a, st). a < e \<and> \<not> stop st) (\<lambda>(a, st). (a + 2 ^ s, f a st)) (a, st)
    = Some (a', fold_until stop f (page_seq s i j) st)"
  using assms
proof (induction "j - i" arbitrary: i a st)
  case 0
  then have "\<not> a < e" by (simp add: word_less_nat_alt)
  moreover have "page_seq s i j = []" using 0 by (simp add: page_seq_def)
  ultimately show ?case by (subst while_option_unfold) auto
next
  case (Suc n)
  have ij: "i < j" using Suc.hyps by simp
  have lt: "a < e" using Suc.prems ij by (simp add: word_less_nat_alt)
  have "Suc i * 2 ^ s \<le> j * 2 ^ s" using ij by (intro mult_le_mono1) simp
  moreover have "j * 2 ^ s < 2 ^ 64" using Suc.prems(3) unat_u64_less [of e] by simp
  ultimately have nowrap: "Suc i * 2 ^ s < 2 ^ 64" by (rule le_less_trans)
  have us: "unat ((2::u64) ^ s) = 2 ^ s"
    using Suc.prems(1) by (rule unat_pow2)
  have step: "unat (a + 2 ^ s) = Suc i * 2 ^ s"
    using nowrap by (simp add: unat_word_ariths us Suc.prems(2))
  have a: "page_addr s i = a"
    using Suc.prems(2) by (rule page_addr_unat)
  show ?case
  proof (cases "stop st")
    case True
    then show ?thesis by (subst while_option_unfold) auto
  next
    case False
    have n: "n = j - Suc i" using Suc.hyps(2) by simp
    obtain a' where "while_option (\<lambda>(a, st). a < e \<and> \<not> stop st) (\<lambda>(a, st). (a + 2 ^ s, f a st))
        (a + 2 ^ s, f a st) = Some (a', fold_until stop f (page_seq s (Suc i) j) (f a st))"
      using Suc.hyps(1) [OF n Suc.prems(1) step Suc.prems(3), of "f a st"] by blast
    then show ?thesis
      using lt False a ij by (subst while_option_unfold) (auto simp: page_seq_Cons)
  qed
qed

end
