(* ===== verification/FwTypes.thy ===== *)
theory FwTypes
  imports Prelude
begin

text \<open>
  The shared types of the firmware layer (\<^verbatim>\<open>src/firmware/types.hpp\<close>) and the plain
  data types that cross the platform boundary: stream handles and kernel modules
  (\<^verbatim>\<open>microkernel.hpp\<close>), DMA requests (\<^verbatim>\<open>dma_engine.hpp\<close>), TMA descriptors
  (\<^verbatim>\<open>tma_engine.hpp\<close>), boot options (\<^verbatim>\<open>boot.hpp\<close>).  Pointers are 64-bit words, as
  the sources' \<^verbatim>\<open>reinterpret_cast<uint64_t>\<close> reads them; the null pointer is 0.
\<close>

subsection \<open>Vendors, architectures, features\<close>

datatype vendor = Unknown_vendor | Nvidia | Apple

datatype arch = Unknown_arch | Ampere | Hopper | AppleSilicon | Pascal | Turing

definition vendor_code :: "vendor \<Rightarrow> int" where
  "vendor_code v = (case v of Unknown_vendor \<Rightarrow> 0 | Nvidia \<Rightarrow> 1 | Apple \<Rightarrow> 2)"

definition arch_code :: "arch \<Rightarrow> int" where
  "arch_code a = (case a of Unknown_arch \<Rightarrow> 0 | Ampere \<Rightarrow> 1 | Hopper \<Rightarrow> 2
     | AppleSilicon \<Rightarrow> 3 | Pascal \<Rightarrow> 4 | Turing \<Rightarrow> 5)"

record feature_flags =
  ff_tma :: bool
  ff_ilc :: bool
  ff_dsm :: bool
  ff_gds :: bool
  ff_grdma :: bool
  ff_clusters :: bool
  ff_unified_native :: bool

definition no_features :: feature_flags where
  "no_features = \<lparr>ff_tma = False, ff_ilc = False, ff_dsm = False, ff_gds = False,
     ff_grdma = False, ff_clusters = False, ff_unified_native = False\<rparr>"

record device_desc =
  dd_vendor :: vendor
  dd_arch :: arch
  dd_name :: string
  dd_cc_major :: int
  dd_cc_minor :: int
  dd_hbm_capacity_bytes :: u64
  dd_hbm_bandwidth_bps :: u64
  dd_sm_count :: u32
  dd_smem_per_sm_bytes :: u32
  dd_nvlink_bandwidth_gbs :: u32
  dd_features :: feature_flags

definition device_desc_default :: device_desc where
  "device_desc_default = \<lparr>dd_vendor = Unknown_vendor, dd_arch = Unknown_arch, dd_name = '''',
     dd_cc_major = 0, dd_cc_minor = 0, dd_hbm_capacity_bytes = 0, dd_hbm_bandwidth_bps = 0,
     dd_sm_count = 0, dd_smem_per_sm_bytes = 0, dd_nvlink_bandwidth_gbs = 0,
     dd_features = no_features\<rparr>"

subsection \<open>Stream classes, allocation hints\<close>

datatype stream_class = Compute | Dma | Fence | Control

record alloc_hints =
  ah_ilc :: bool
  ah_read_mostly :: bool
  ah_pinned_host :: bool
  ah_gds_readable :: bool
  ah_grdma_visible :: bool
  ah_preferred_location :: string

definition alloc_hints_default :: alloc_hints where
  "alloc_hints_default = \<lparr>ah_ilc = False, ah_read_mostly = False, ah_pinned_host = False,
     ah_gds_readable = False, ah_grdma_visible = False, ah_preferred_location = ''device''\<rparr>"

subsection \<open>Result codes\<close>

datatype status = Ok | InvalidArgument | OutOfMemory | OutOfHbm | DeviceNotFound | DriverError
  | NotImplemented | FaultBufferOverflow | ContractViolation | Timeout | IoError | Aborted

definition status_code :: "status \<Rightarrow> int" where
  "status_code s = (case s of Ok \<Rightarrow> 0 | InvalidArgument \<Rightarrow> -1 | OutOfMemory \<Rightarrow> -2
     | OutOfHbm \<Rightarrow> -3 | DeviceNotFound \<Rightarrow> -4 | DriverError \<Rightarrow> -5 | NotImplemented \<Rightarrow> -6
     | FaultBufferOverflow \<Rightarrow> -7 | ContractViolation \<Rightarrow> -8 | Timeout \<Rightarrow> -9 | IoError \<Rightarrow> -10
     | Aborted \<Rightarrow> -11)"

definition ok :: "status \<Rightarrow> bool" where
  "ok s = (status_code s \<ge> 0)"

definition status_string :: "status \<Rightarrow> string" where
  "status_string s = (case s of
     Ok \<Rightarrow> ''ok''
   | InvalidArgument \<Rightarrow> ''invalid argument''
   | OutOfMemory \<Rightarrow> ''out of memory''
   | OutOfHbm \<Rightarrow> ''out of HBM''
   | DeviceNotFound \<Rightarrow> ''device not found''
   | DriverError \<Rightarrow> ''driver error''
   | NotImplemented \<Rightarrow> ''not implemented''
   | FaultBufferOverflow \<Rightarrow> ''fault buffer overflow''
   | ContractViolation \<Rightarrow> ''contract violation''
   | Timeout \<Rightarrow> ''timeout''
   | IoError \<Rightarrow> ''I/O error''
   | Aborted \<Rightarrow> ''aborted'')"

text \<open>\<^verbatim>\<open>ok\<close> is the test \<^verbatim>\<open>code >= 0\<close>; \<^verbatim>\<open>Ok\<close> is the only code that passes it.\<close>

lemma ok_iff [simp]: "ok s \<longleftrightarrow> s = Ok"
  by (cases s) (simp_all add: ok_def status_code_def)

lemma status_code_inject: "status_code s = status_code t \<longleftrightarrow> s = t"
  by (cases s; cases t) (simp_all add: status_code_def)

lemma status_string_inject: "status_string s = status_string t \<longleftrightarrow> s = t"
  by (cases s; cases t) (simp_all add: status_string_def)

subsection \<open>Streams, kernel modules, DMA requests, TMA descriptors\<close>

record stream_handle =
  sh_id :: u64
  sh_raw :: ptr
  sh_klass :: stream_class
  sh_priority :: int

definition stream_handle_default :: stream_handle where
  "stream_handle_default = \<lparr>sh_id = 0, sh_raw = 0, sh_klass = Compute, sh_priority = 0\<rparr>"

record kernel_module =
  km_id :: u64
  km_name :: string
  km_raw_module :: ptr
  km_functions :: "(string, ptr) umap"

datatype dma_kind = GdsRead | GdsWrite | GrdmaSend | GrdmaRecv | H2D | D2H | D2D

record dma_request =
  dr_kind :: dma_kind
  dr_dst :: ptr
  dr_src :: ptr
  dr_bytes :: u64
  dr_dst_device :: int
  dr_src_device :: int
  dr_nvme_path :: string
  dr_nvme_offset :: u64

definition dma_request_default :: dma_request where
  "dma_request_default = \<lparr>dr_kind = D2D, dr_dst = 0, dr_src = 0, dr_bytes = 0,
     dr_dst_device = 0, dr_src_device = 0, dr_nvme_path = '''', dr_nvme_offset = 0\<rparr>"

datatype tma_swizzle = Swizzle_None | B32 | B64 | B128

record tma_descriptor =
  td_id :: u64
  td_raw :: ptr
  td_host_ptr :: ptr
  td_host_size :: u64
  td_shape :: "u64 list"
  td_stride :: "u64 list"
  td_swizzle :: tma_swizzle
  td_elem_size :: u32
  td_multicast :: bool
  td_cluster_size :: u32

definition tma_descriptor_default :: tma_descriptor where
  "tma_descriptor_default = \<lparr>td_id = 0, td_raw = 0, td_host_ptr = 0, td_host_size = 0,
     td_shape = [0, 0, 0, 0, 0], td_stride = [0, 0, 0, 0, 0], td_swizzle = B128,
     td_elem_size = 2, td_multicast = False, td_cluster_size = 1\<rparr>"

end
