(* ===== verification/Platform.thy ===== *)
theory Platform
  imports FwTypes
begin

text \<open>
  The platform boundary (\<^verbatim>\<open>src/platform/dispatch.hpp\<close>, \<^verbatim>\<open>src/platform/dispatch.cpp\<close>).
  \<^verbatim>\<open>PlatformInterface\<close> is a record of functions over the state \<^typ>\<open>'p\<close> of the driver
  behind it; every component takes such a record as an argument, as the code reaches the
  hardware only through it.  The part of a \<^verbatim>\<open>FirmwareContext\<close> that a backend reads or
  writes is the record \<open>env\<close>.  \<open>null_backend\<close> is the code's own fallback backend.
\<close>

subsection \<open>The environment a backend call sees\<close>

record platform_handle =
  ph_raw_primary_ctx :: ptr
  ph_raw_command_queue :: ptr
  ph_vaddress_base :: u64
  ph_vaddress_size :: u64

definition platform_handle_default :: platform_handle where
  "platform_handle_default = \<lparr>ph_raw_primary_ctx = 0, ph_raw_command_queue = 0,
     ph_vaddress_base = 0, ph_vaddress_size = 0\<rparr>"

record 'p env =
  e_device :: device_desc
  e_hbm_pool_bytes :: u64
  e_plat :: platform_handle
  e_hw :: 'p

subsection \<open>PlatformInterface\<close>

record 'p backend =
  b_probe :: "'p \<Rightarrow> bool \<times> 'p"
  b_describe_device :: "string \<Rightarrow> 'p \<Rightarrow> device_desc \<times> 'p"
  b_lock_clocks :: "device_desc \<Rightarrow> 'p env \<Rightarrow> status \<times> 'p env"
  b_reserve_vaddress :: "u64 \<Rightarrow> 'p env \<Rightarrow> status \<times> 'p env"
  b_map_hbm_pool :: "'p env \<Rightarrow> status \<times> 'p env"
  b_release_vaddress :: "'p env \<Rightarrow> status \<times> 'p env"
  b_alloc_hbm :: "u64 \<Rightarrow> 'p env \<Rightarrow> status \<times> ptr \<times> 'p env"
  b_free_hbm :: "ptr \<Rightarrow> 'p env \<Rightarrow> status \<times> 'p env"
  b_prefetch_range :: "u64 \<Rightarrow> u64 \<Rightarrow> 'p env \<Rightarrow> status \<times> 'p env"
  b_create_stream :: "stream_class \<Rightarrow> int \<Rightarrow> 'p env \<Rightarrow> status \<times> ptr \<times> 'p env"
  b_destroy_stream :: "ptr \<Rightarrow> 'p env \<Rightarrow> status \<times> 'p env"
  b_sync_stream :: "ptr \<Rightarrow> 'p env \<Rightarrow> status \<times> 'p env"
  b_load_module :: "string \<Rightarrow> string \<Rightarrow> kernel_module \<Rightarrow> 'p env \<Rightarrow> status \<times> kernel_module \<times> 'p env"
  b_launch_kernel :: "ptr \<Rightarrow> u32 \<times> u32 \<times> u32 \<Rightarrow> u32 \<times> u32 \<times> u32 \<Rightarrow> u32 \<Rightarrow> ptr \<Rightarrow> ptr list
    \<Rightarrow> 'p env \<Rightarrow> status \<times> 'p env"
  b_gds_init :: "'p env \<Rightarrow> status \<times> 'p env"
  b_gds_fini :: "'p env \<Rightarrow> status \<times> 'p env"
  b_gds_read_fallback :: "string \<Rightarrow> u64 \<Rightarrow> ptr \<Rightarrow> u64 \<Rightarrow> 'p env \<Rightarrow> status \<times> 'p env"
  b_gds_write_fallback :: "string \<Rightarrow> u64 \<Rightarrow> ptr \<Rightarrow> u64 \<Rightarrow> 'p env \<Rightarrow> status \<times> 'p env"
  b_grdma_init :: "'p env \<Rightarrow> status \<times> 'p env"
  b_grdma_fini :: "'p env \<Rightarrow> status \<times> 'p env"
  b_install_fault_buffer :: "ptr \<Rightarrow> u32 \<Rightarrow> 'p env \<Rightarrow> status \<times> 'p env"
  b_uninstall_fault_buffer :: "ptr \<Rightarrow> 'p env \<Rightarrow> status \<times> 'p env"
  b_resolve_fault :: "u64 \<Rightarrow> 'p env \<Rightarrow> status \<times> 'p env"
  b_tma_encode :: "tma_descriptor \<Rightarrow> 'p env \<Rightarrow> status \<times> tma_descriptor \<times> 'p env"
  b_tma_issue_copy :: "tma_descriptor \<Rightarrow> ptr \<Rightarrow> u64 \<Rightarrow> u64 \<Rightarrow> ptr \<Rightarrow> 'p env \<Rightarrow> status \<times> 'p env"
  b_tma_release :: "ptr \<Rightarrow> 'p env \<Rightarrow> status \<times> 'p env"
  b_ilc_tag :: "ptr \<Rightarrow> 'p env \<Rightarrow> status \<times> 'p env"
  b_ilc_untag :: "ptr \<Rightarrow> 'p env \<Rightarrow> status \<times> 'p env"
  b_dma_submit :: "dma_request \<Rightarrow> 'p env \<Rightarrow> status \<times> ptr \<times> 'p env"
  b_dma_wait :: "ptr \<Rightarrow> u32 \<Rightarrow> 'p env \<Rightarrow> status \<times> 'p env"

subsection \<open>The fallback backend of dispatch.cpp\<close>

definition null_backend :: "'p backend" where
  "null_backend = \<lparr>
     b_probe = (\<lambda>hw. (False, hw)),
     b_describe_device = (\<lambda>_ hw. (device_desc_default, hw)),
     b_lock_clocks = (\<lambda>_ e. (DeviceNotFound, e)),
     b_reserve_vaddress = (\<lambda>_ e. (DeviceNotFound, e)),
     b_map_hbm_pool = (\<lambda>e. (DeviceNotFound, e)),
     b_release_vaddress = (\<lambda>e. (Ok, e)),
     b_alloc_hbm = (\<lambda>_ e. (OutOfMemory, 0, e)),
     b_free_hbm = (\<lambda>_ e. (Ok, e)),
     b_prefetch_range = (\<lambda>_ _ e. (Ok, e)),
     b_create_stream = (\<lambda>_ _ e. (DeviceNotFound, 0, e)),
     b_destroy_stream = (\<lambda>_ e. (Ok, e)),
     b_sync_stream = (\<lambda>_ e. (Ok, e)),
     b_load_module = (\<lambda>_ _ m e. (DeviceNotFound, m, e)),
     b_launch_kernel = (\<lambda>_ _ _ _ _ _ e. (DeviceNotFound, e)),
     b_gds_init = (\<lambda>e. (NotImplemented, e)),
     b_gds_fini = (\<lambda>e. (Ok, e)),
     b_gds_read_fallback = (\<lambda>_ _ _ _ e. (IoError, e)),
     b_gds_write_fallback = (\<lambda>_ _ _ _ e. (IoError, e)),
     b_grdma_init = (\<lambda>e. (NotImplemented, e)),
     b_grdma_fini = (\<lambda>e. (Ok, e)),
     b_install_fault_buffer = (\<lambda>_ _ e. (Ok, e)),
     b_uninstall_fault_buffer = (\<lambda>_ e. (Ok, e)),
     b_resolve_fault = (\<lambda>_ e. (Ok, e)),
     b_tma_encode = (\<lambda>d e. (NotImplemented, d, e)),
     b_tma_issue_copy = (\<lambda>_ _ _ _ _ e. (NotImplemented, e)),
     b_tma_release = (\<lambda>_ e. (Ok, e)),
     b_ilc_tag = (\<lambda>_ e. (NotImplemented, e)),
     b_ilc_untag = (\<lambda>_ e. (Ok, e)),
     b_dma_submit = (\<lambda>_ e. (NotImplemented, 0, e)),
     b_dma_wait = (\<lambda>_ _ e. (Ok, e))\<rparr>"

subsection \<open>PlatformDispatch\<close>

record 'p dispatch =
  d_backends :: "(vendor, 'p backend) umap"
  d_active :: "'p backend option"

definition dispatch_init :: "'p dispatch" where
  "dispatch_init = \<lparr>d_backends = [], d_active = None\<rparr>"

definition register_backend :: "vendor \<Rightarrow> 'p backend \<Rightarrow> 'p dispatch \<Rightarrow> 'p dispatch" where
  "register_backend v impl d = d\<lparr>d_backends := AList.update v impl (d_backends d)\<rparr>"

fun probe_order :: "vendor list \<Rightarrow> 'p dispatch \<Rightarrow> 'p \<Rightarrow> bool \<times> 'p dispatch \<times> 'p" where
  "probe_order [] d hw = (False, d, hw)"
| "probe_order (v # vs) d hw =
     (case map_of (d_backends d) v of
        None \<Rightarrow> probe_order vs d hw
      | Some impl \<Rightarrow>
          (let (found, hw') = b_probe impl hw
           in if found then (True, d\<lparr>d_active := Some impl\<rparr>, hw')
              else probe_order vs d hw'))"

definition dispatch_probe :: "'p dispatch \<Rightarrow> 'p \<Rightarrow> bool \<times> 'p dispatch \<times> 'p" where
  "dispatch_probe d hw =
     (if d_active d \<noteq> None then (True, d, hw) else probe_order [Nvidia, Apple] d hw)"

definition dispatch_backend :: "'p dispatch \<Rightarrow> 'p \<Rightarrow> 'p backend \<times> 'p dispatch \<times> 'p" where
  "dispatch_backend d hw =
     (let (d', hw') = (if d_active d = None then snd (dispatch_probe d hw) else (d, hw))
      in (case d_active d' of None \<Rightarrow> null_backend | Some b \<Rightarrow> b, d', hw'))"

subsection \<open>A working backend\<close>

text \<open>A backend on which every operation succeeds, over a counter that numbers the objects it
  hands out.  It is not part of the program: the witnesses run the components on it.\<close>

definition sim_backend :: "u64 backend" where
  "sim_backend = null_backend\<lparr>
     b_probe := (\<lambda>hw. (True, hw)),
     b_lock_clocks := (\<lambda>_ e. (Ok, e)),
     b_reserve_vaddress := (\<lambda>_ e. (Ok, e)),
     b_map_hbm_pool := (\<lambda>e. (Ok, e)),
     b_alloc_hbm := (\<lambda>_ e. (Ok, e_hw e * 0x100000, e\<lparr>e_hw := e_hw e + 1\<rparr>)),
     b_create_stream := (\<lambda>_ _ e. (Ok, e_hw e, e\<lparr>e_hw := e_hw e + 1\<rparr>)),
     b_load_module := (\<lambda>_ _ m e. (Ok, m\<lparr>km_functions := [(''main'', 1)]\<rparr>, e)),
     b_launch_kernel := (\<lambda>_ _ _ _ _ _ e. (Ok, e)),
     b_gds_init := (\<lambda>e. (Ok, e)),
     b_grdma_init := (\<lambda>e. (Ok, e)),
     b_gds_read_fallback := (\<lambda>_ _ _ _ e. (Ok, e)),
     b_gds_write_fallback := (\<lambda>_ _ _ _ e. (Ok, e)),
     b_tma_encode := (\<lambda>d e. (Ok, d\<lparr>td_raw := e_hw e\<rparr>, e\<lparr>e_hw := e_hw e + 1\<rparr>)),
     b_tma_issue_copy := (\<lambda>_ _ _ _ _ e. (Ok, e)),
     b_ilc_tag := (\<lambda>_ e. (Ok, e)),
     b_dma_submit := (\<lambda>_ e. (Ok, e_hw e, e\<lparr>e_hw := e_hw e + 1\<rparr>))\<rparr>"

lemma sim_simps [simp]:
  "b_probe sim_backend hw = (True, hw)"
  "b_describe_device sim_backend prof hw = (device_desc_default, hw)"
  "b_lock_clocks sim_backend d e = (Ok, e)"
  "b_reserve_vaddress sim_backend n e = (Ok, e)"
  "b_map_hbm_pool sim_backend e = (Ok, e)"
  "b_release_vaddress sim_backend e = (Ok, e)"
  "b_alloc_hbm sim_backend n e = (Ok, e_hw e * 0x100000, e\<lparr>e_hw := e_hw e + 1\<rparr>)"
  "b_free_hbm sim_backend p e = (Ok, e)"
  "b_prefetch_range sim_backend v n e = (Ok, e)"
  "b_create_stream sim_backend k prio e = (Ok, e_hw e, e\<lparr>e_hw := e_hw e + 1\<rparr>)"
  "b_destroy_stream sim_backend p e = (Ok, e)"
  "b_sync_stream sim_backend p e = (Ok, e)"
  "b_load_module sim_backend nm src m e = (Ok, m\<lparr>km_functions := [(''main'', 1)]\<rparr>, e)"
  "b_launch_kernel sim_backend fn g bl sm st args e = (Ok, e)"
  "b_gds_init sim_backend e = (Ok, e)"
  "b_gds_fini sim_backend e = (Ok, e)"
  "b_grdma_init sim_backend e = (Ok, e)"
  "b_grdma_fini sim_backend e = (Ok, e)"
  "b_gds_read_fallback sim_backend path off p n e = (Ok, e)"
  "b_gds_write_fallback sim_backend path off p n e = (Ok, e)"
  "b_install_fault_buffer sim_backend p slots e = (Ok, e)"
  "b_uninstall_fault_buffer sim_backend p e = (Ok, e)"
  "b_resolve_fault sim_backend v e = (Ok, e)"
  "b_tma_encode sim_backend td e = (Ok, td\<lparr>td_raw := e_hw e\<rparr>, e\<lparr>e_hw := e_hw e + 1\<rparr>)"
  "b_tma_issue_copy sim_backend td p x y st e = (Ok, e)"
  "b_tma_release sim_backend p e = (Ok, e)"
  "b_ilc_tag sim_backend p e = (Ok, e)"
  "b_ilc_untag sim_backend p e = (Ok, e)"
  "b_dma_submit sim_backend r e = (Ok, e_hw e, e\<lparr>e_hw := e_hw e + 1\<rparr>)"
  "b_dma_wait sim_backend p ms e = (Ok, e)"
  by (simp_all add: sim_backend_def null_backend_def)

definition sim_env :: "u64 env" where
  "sim_env = \<lparr>e_device = device_desc_default\<lparr>dd_vendor := Nvidia, dd_arch := Hopper,
       dd_hbm_capacity_bytes := 0x1000000, dd_smem_per_sm_bytes := 0x38000,
       dd_features := no_features\<lparr>ff_tma := True, ff_ilc := True, ff_gds := True, ff_grdma := True\<rparr>\<rparr>,
     e_hbm_pool_bytes = 0x1000000, e_plat = platform_handle_default, e_hw = 1\<rparr>"

end
