(* ===== verification/Interfaces.thy ===== *)
theory Interfaces
  imports Platform
begin

text \<open>
  The interfaces between components, as locales: what a client calls, and the laws it relies
  on.  Each is interpreted on the model of the code in the theory of the component that
  provides it.
\<close>

subsection \<open>Page mapping (memory manager over page table)\<close>

definition mapped_in :: "('t \<Rightarrow> u64 \<Rightarrow> 'e option) \<Rightarrow> ('e \<Rightarrow> bool) \<Rightarrow> 't \<Rightarrow> u64 \<Rightarrow> bool" where
  "mapped_in look resident t x = (case look t x of None \<Rightarrow> False | Some e \<Rightarrow> resident e)"

locale page_mapper =
  fixes inv :: "'t \<Rightarrow> bool"
    and map_rng :: "'t \<Rightarrow> u64 \<Rightarrow> u64 \<Rightarrow> 't"
    and unmap_rng :: "'t \<Rightarrow> u64 \<Rightarrow> u64 \<Rightarrow> 't"
    and look :: "'t \<Rightarrow> u64 \<Rightarrow> 'e option"
    and resident :: "'e \<Rightarrow> bool"
    and covers :: "'t \<Rightarrow> u64 \<Rightarrow> u64 \<Rightarrow> u64 \<Rightarrow> bool"
  assumes map_inv: "inv t \<Longrightarrow> inv (map_rng t v b)"
    and unmap_inv: "inv t \<Longrightarrow> inv (unmap_rng t v b)"
    and map_covers: "inv t \<Longrightarrow> covers (map_rng t v b) v' b' x = covers t v' b' x"
    and unmap_covers: "inv t \<Longrightarrow> covers (unmap_rng t v b) v' b' x = covers t v' b' x"
    and map_hit: "inv t \<Longrightarrow> covers t v b x \<Longrightarrow> \<exists>e. look (map_rng t v b) x = Some e \<and> resident e"
    and map_miss: "inv t \<Longrightarrow> \<not> covers t v b x \<Longrightarrow> look (map_rng t v b) x = look t x"
    and unmap_miss: "inv t \<Longrightarrow> \<not> covers t v b x \<Longrightarrow> look (unmap_rng t v b) x = look t x"
    and unmap_mapped: "inv t \<Longrightarrow> covers t v b x \<Longrightarrow> look (unmap_rng (map_rng t v b) v b) x = None"
begin

lemma mapped_after_map: "inv t \<Longrightarrow> mapped_in look resident (map_rng t v b) x \<longleftrightarrow> covers t v b x \<or> mapped_in look resident t x"
  using map_hit [of t v b x] map_miss [of t v b x]
  by (cases "covers t v b x") (auto simp: mapped_in_def)

lemma map_twice: "inv t \<Longrightarrow> mapped_in look resident (map_rng (map_rng t v b) v b) x = mapped_in look resident (map_rng t v b) x"
  by (simp add: mapped_after_map map_inv map_covers)

lemma map_unmap_lookup:
  "inv t \<Longrightarrow> look (unmap_rng (map_rng t v b) v b) x = (if covers t v b x then None else look t x)"
  by (simp add: unmap_mapped unmap_miss map_miss map_inv map_covers)

lemma mapped_after_maps:
  "inv t \<Longrightarrow> (v, b) \<in> set rs \<Longrightarrow> covers t v b x \<Longrightarrow> mapped_in look resident (fold (\<lambda>(v, b) t. map_rng t v b) rs t) x"
proof (induction rs arbitrary: t)
  case Nil
  then show ?case by simp
next
  case (Cons r rs)
  have keep: "inv t' \<Longrightarrow> mapped_in look resident t' x \<Longrightarrow> mapped_in look resident (fold (\<lambda>(v, b) t. map_rng t v b) rs' t') x" for t' rs'
    by (induction rs' arbitrary: t') (auto simp: mapped_after_map map_inv)
  show ?case
    using Cons by (cases r) (auto simp: map_inv map_covers mapped_after_map intro: keep)
qed

end

subsection \<open>Eviction that respects pins (page table, KV cache)\<close>

locale pinned_eviction =
  fixes inv :: "'t \<Rightarrow> bool"
    and evict :: "'c \<Rightarrow> 't \<Rightarrow> 't"
    and resident :: "'t \<Rightarrow> 'k \<Rightarrow> bool"
    and pinned :: "'t \<Rightarrow> 'k \<Rightarrow> bool"
  assumes evict_inv: "inv t \<Longrightarrow> inv (evict c t)"
    and evict_pinned: "inv t \<Longrightarrow> pinned (evict c t) k = pinned t k"
    and evict_only: "inv t \<Longrightarrow> resident (evict c t) k \<Longrightarrow> resident t k"
    and evict_keeps: "inv t \<Longrightarrow> pinned t k \<Longrightarrow> resident t k \<Longrightarrow> resident (evict c t) k"
begin

lemma evictions_inv: "inv t \<Longrightarrow> inv (fold evict cs t)"
  by (induction cs arbitrary: t) (auto simp: evict_inv)

lemma evictions_pinned: "inv t \<Longrightarrow> pinned (fold evict cs t) k = pinned t k"
  by (induction cs arbitrary: t) (auto simp: evict_inv evict_pinned)

lemma evictions_only: "inv t \<Longrightarrow> resident (fold evict cs t) k \<Longrightarrow> resident t k"
proof (induction cs arbitrary: t)
  case (Cons c cs)
  then have "resident (evict c t) k" by (simp add: evict_inv)
  then show ?case by (rule evict_only [OF Cons.prems(1)])
qed simp

lemma evictions_keep: "inv t \<Longrightarrow> pinned t k \<Longrightarrow> resident t k \<Longrightarrow> resident (fold evict cs t) k"
  by (induction cs arbitrary: t) (auto simp: evict_inv evict_pinned evict_keeps)

end

subsection \<open>A supply of reusable handles (stream pool)\<close>

fun acquire_all :: "('k \<Rightarrow> 's \<Rightarrow> 'h \<times> 's) \<Rightarrow> 'k list \<Rightarrow> 's \<Rightarrow> 'h list \<times> 's" where
  "acquire_all acquire [] s = ([], s)"
| "acquire_all acquire (k # ks) s =
     (let (h, s1) = acquire k s; (hs, s2) = acquire_all acquire ks s1 in (h # hs, s2))"

locale stream_pool =
  fixes inv :: "'s \<Rightarrow> bool"
    and acquire :: "'k \<Rightarrow> 's \<Rightarrow> 'h \<times> 's"
    and release :: "'h \<Rightarrow> 's \<Rightarrow> 's"
    and valid :: "'h \<Rightarrow> bool"
    and contents :: "'s \<Rightarrow> 'h multiset"
  assumes acquire_inv: "inv s \<Longrightarrow> acquire k s = (h, s') \<Longrightarrow> inv s'"
    and acquire_release: "inv s \<Longrightarrow> acquire k s = (h, s') \<Longrightarrow> release h s' = s"
    and acquire_invalid: "inv s \<Longrightarrow> acquire k s = (h, s') \<Longrightarrow> \<not> valid h \<Longrightarrow> s' = s"
    and acquire_contents: "inv s \<Longrightarrow> acquire k s = (h, s') \<Longrightarrow> valid h \<Longrightarrow> contents s = add_mset h (contents s')"
    and release_contents: "valid h \<Longrightarrow> contents (release h s) = add_mset h (contents s)"
    and release_invalid: "\<not> valid h \<Longrightarrow> release h s = s"
begin

lemma acquire_all_release:
  "inv s \<Longrightarrow> acquire_all acquire ks s = (hs, s') \<Longrightarrow> inv s' \<and> fold release (rev hs) s' = s"
proof (induction ks arbitrary: s hs s')
  case (Cons k ks)
  obtain h s1 where a: "acquire k s = (h, s1)" by force
  obtain hs1 where b: "acquire_all acquire ks s1 = (hs1, s')" "hs = h # hs1"
    using Cons.prems(2) a by (auto split: prod.splits)
  have "inv s1" using acquire_inv [OF Cons.prems(1) a] .
  then show ?case using Cons.IH b acquire_release [OF Cons.prems(1) a] by simp
qed simp

lemma fold_release_contents:
  "contents (fold release hs s) = contents s + filter_mset valid (mset hs)"
  by (induction hs arbitrary: s) (auto simp: release_contents release_invalid)

lemma acquire_all_contents:
  "inv s \<Longrightarrow> acquire_all acquire ks s = (hs, s') \<Longrightarrow> contents s = contents s' + filter_mset valid (mset hs)"
proof -
  assume "inv s" "acquire_all acquire ks s = (hs, s')"
  then have "contents (fold release (rev hs) s') = contents s"
    using acquire_all_release by simp
  then show ?thesis by (simp add: fold_release_contents)
qed

lemma release_any_order:
  "inv s \<Longrightarrow> acquire_all acquire ks s = (hs, s') \<Longrightarrow> mset hs' = mset hs
    \<Longrightarrow> contents (fold release hs' s') = contents s"
  by (simp add: acquire_all_contents fold_release_contents)

end

subsection \<open>A token meter (context scope)\<close>

locale token_meter =
  fixes inv :: "'s \<Rightarrow> bool"
    and tick :: "'s \<Rightarrow> 's"
    and used :: "'s \<Rightarrow> u64"
  assumes tick_inv: "inv s \<Longrightarrow> inv (tick s)"
    and tick_used: "inv s \<Longrightarrow> used (tick s) = used s + 4"
begin

lemma ticks_inv: "inv s \<Longrightarrow> inv ((tick ^^ n) s)"
  by (induction n) (auto simp: tick_inv)

lemma ticks_used: "inv s \<Longrightarrow> used ((tick ^^ n) s) = used s + of_nat (4 * n)"
  by (induction n) (auto simp: tick_used ticks_inv algebra_simps)

end

subsection \<open>A registry of handles (C ABI)\<close>

locale handle_map =
  fixes register :: "'h \<Rightarrow> 'c \<Rightarrow> 'r \<Rightarrow> 'r"
    and find :: "'r \<Rightarrow> 'h \<Rightarrow> 'c option"
    and take_out :: "'h \<Rightarrow> 'r \<Rightarrow> 'c option \<times> 'r"
  assumes find_register: "find (register h c r) k = (if k = h then Some c else find r k)"
    and take_found: "fst (take_out h r) = find r h"
    and find_take: "find (snd (take_out h r)) k = (if k = h then None else find r k)"
begin

lemma take_registered: "fst (take_out h (register h c r)) = Some c"
  by (simp add: take_found find_register)

lemma take_once: "fst (take_out h (snd (take_out h r))) = None"
  by (simp add: take_found find_take)

lemma take_leaves_others: "k \<noteq> h \<Longrightarrow> find (snd (take_out h r)) k = find r k"
  by (simp add: find_take)

lemma register_take: "find r h = None \<Longrightarrow> find (snd (take_out h (register h c r))) k = find r k"
  by (simp add: find_take find_register)

end

end
