(* ===== verification/PageTable.thy ===== *)
theory PageTable
  imports Platform Interfaces
begin

text \<open>
  The page table of \<^verbatim>\<open>src/memory/page_table.hpp\<close> and \<^verbatim>\<open>page_table.cpp\<close>: the
  host-side mirror keyed by page-aligned virtual addresses, its mapping, reference counting
  and eviction.  The address loops are the code's loops on 64-bit words; the clock
  \<^verbatim>\<open>now_ns()\<close> is an argument.
\<close>

subsection \<open>Data\<close>

datatype residency = Unmapped | Hbm | HostPinned | HostPageable | RemoteGpu | Spilled

datatype eviction_policy = Lru | LruRefcount | Arc

record page_entry =
  pe_vaddr :: u64
  pe_phys_or_host :: u64
  pe_page_size_kb :: u32
  pe_refcount :: u16
  pe_residency :: residency
  pe_last_access_ns :: u64
  pe_fetch_count :: u64

record page_table =
  pt_va_base :: u64
  pt_va_size :: u64
  pt_default_page_kb :: u32
  pt_table :: "(u64, page_entry) umap"

definition pt_create :: "'p env \<Rightarrow> u64 \<Rightarrow> u64 \<Rightarrow> page_table" where
  "pt_create env va_base va_size =
     \<lparr>pt_va_base = va_base, pt_va_size = va_size,
      pt_default_page_kb = (if dd_arch (e_device env) = Hopper then 128 else 64),
      pt_table = []\<rparr>"

text \<open>\<^verbatim>\<open>default_page_kb_ * 1024\<close> is a 32-bit product, widened to 64 bits.\<close>

definition pt_page_bytes :: "page_table \<Rightarrow> u64" where
  "pt_page_bytes pt = ucast (pt_default_page_kb pt * 1024)"

definition pt_range_start :: "page_table \<Rightarrow> u64 \<Rightarrow> u64" where
  "pt_range_start pt vaddr = align_down (pt_page_bytes pt) vaddr"

definition pt_range_end :: "page_table \<Rightarrow> u64 \<Rightarrow> u64 \<Rightarrow> u64" where
  "pt_range_end pt vaddr bytes =
     align_down (pt_page_bytes pt) (vaddr + bytes + pt_page_bytes pt - 1)"

subsection \<open>Mapping and unmapping\<close>

definition mapped_entry :: "(u64 \<Rightarrow> u64) \<Rightarrow> page_table \<Rightarrow> u64 \<Rightarrow> residency \<Rightarrow> u64 \<Rightarrow> u64 \<Rightarrow> page_entry" where
  "mapped_entry clk pt start res phys a =
     \<lparr>pe_vaddr = a, pe_phys_or_host = phys + (a - start),
      pe_page_size_kb = pt_default_page_kb pt, pe_refcount = 0, pe_residency = res,
      pe_last_access_ns = clk a, pe_fetch_count = 1\<rparr>"

definition map_range_loop :: "(u64 \<Rightarrow> u64) \<Rightarrow> page_table \<Rightarrow> u64 \<Rightarrow> u64 \<Rightarrow> residency \<Rightarrow> u64
    \<Rightarrow> (u64 \<times> (u64, page_entry) umap) option" where
  "map_range_loop clk pt vaddr bytes res phys =
     (let start = pt_range_start pt vaddr; e = pt_range_end pt vaddr bytes
      in while_option (\<lambda>(a, t). a < e)
           (\<lambda>(a, t). (a + pt_page_bytes pt, AList.update a (mapped_entry clk pt start res phys a) t))
           (start, pt_table pt))"

definition map_range :: "(u64 \<Rightarrow> u64) \<Rightarrow> page_table \<Rightarrow> u64 \<Rightarrow> u64 \<Rightarrow> residency \<Rightarrow> u64
    \<Rightarrow> (status \<times> page_table) option" where
  "map_range clk pt vaddr bytes res phys =
     map_option (\<lambda>(a, t). (Ok, pt\<lparr>pt_table := t\<rparr>)) (map_range_loop clk pt vaddr bytes res phys)"

text \<open>
  One iteration of \<^verbatim>\<open>unmap_range\<close>: an absent page is skipped, a pinned page ends the
  loop with \<open>ContractViolation\<close>, any other page is erased.
\<close>

definition unmap_page :: "u64 \<Rightarrow> status option \<times> (u64, page_entry) umap
    \<Rightarrow> status option \<times> (u64, page_entry) umap" where
  "unmap_page a st = (case st of (r, t) \<Rightarrow>
     (case map_of t a of
        None \<Rightarrow> (r, t)
      | Some e \<Rightarrow> if pe_refcount e > 0 then (Some ContractViolation, t)
                  else (r, AList.delete a t)))"

definition unmap_range_loop :: "page_table \<Rightarrow> u64 \<Rightarrow> u64
    \<Rightarrow> (u64 \<times> status option \<times> (u64, page_entry) umap) option" where
  "unmap_range_loop pt vaddr bytes =
     (let start = pt_range_start pt vaddr; e = pt_range_end pt vaddr bytes
      in while_option (\<lambda>(a, st). a < e \<and> fst st = None)
           (\<lambda>(a, st). (a + pt_page_bytes pt, unmap_page a st))
           (start, None, pt_table pt))"

definition unmap_range :: "page_table \<Rightarrow> u64 \<Rightarrow> u64 \<Rightarrow> (status \<times> page_table) option" where
  "unmap_range pt vaddr bytes =
     map_option (\<lambda>(a, r, t). (case r of None \<Rightarrow> Ok | Some s \<Rightarrow> s, pt\<lparr>pt_table := t\<rparr>))
       (unmap_range_loop pt vaddr bytes)"

subsection \<open>Reference counts and lookup\<close>

definition incref :: "u64 \<Rightarrow> page_table \<Rightarrow> u64 \<Rightarrow> status \<times> page_table" where
  "incref now pt vaddr =
     (let a = align_down (pt_page_bytes pt) vaddr
      in case map_of (pt_table pt) a of
           None \<Rightarrow> (InvalidArgument, pt)
         | Some e \<Rightarrow>
             if pe_refcount e = 0xFFFF then (InvalidArgument, pt)
             else (Ok, pt\<lparr>pt_table := AList.update a
                     (e\<lparr>pe_refcount := pe_refcount e + 1, pe_last_access_ns := now\<rparr>) (pt_table pt)\<rparr>))"

definition decref :: "u64 \<Rightarrow> page_table \<Rightarrow> u64 \<Rightarrow> status \<times> page_table" where
  "decref now pt vaddr =
     (let a = align_down (pt_page_bytes pt) vaddr
      in case map_of (pt_table pt) a of
           None \<Rightarrow> (InvalidArgument, pt)
         | Some e \<Rightarrow>
             if pe_refcount e = 0 then (InvalidArgument, pt)
             else (Ok, pt\<lparr>pt_table := AList.update a
                     (e\<lparr>pe_refcount := pe_refcount e - 1, pe_last_access_ns := now\<rparr>) (pt_table pt)\<rparr>))"

definition pt_lookup :: "page_table \<Rightarrow> u64 \<Rightarrow> page_entry option" where
  "pt_lookup pt vaddr = map_of (pt_table pt) (align_down (pt_page_bytes pt) vaddr)"

subsection \<open>Eviction\<close>

record cand =
  c_vaddr :: u64
  c_last_access :: u64
  c_refcount :: u16

definition evictable :: "page_entry \<Rightarrow> bool" where
  "evictable e = (pe_residency e = Hbm \<and> \<not> pe_refcount e > 0)"

definition evict_cands :: "(u64, page_entry) umap \<Rightarrow> cand list" where
  "evict_cands t = map (\<lambda>(a, e). \<lparr>c_vaddr = a, c_last_access = pe_last_access_ns e,
                                  c_refcount = pe_refcount e\<rparr>)
                     (filter (\<lambda>(a, e). evictable e) t)"

text \<open>
  \<^verbatim>\<open>std::sort\<close> by last access; \<open>sort_key\<close> is one of the orders it may produce (the
  C++ sort leaves the order of equal keys open, and no lemma below depends on it).
\<close>

definition order_cands :: "eviction_policy \<Rightarrow> cand list \<Rightarrow> cand list" where
  "order_cands pol cs = (if pol = Lru \<or> pol = LruRefcount then sort_key c_last_access cs else cs)"

definition spill :: "page_entry \<Rightarrow> page_entry" where
  "spill e = e\<lparr>pe_residency := Spilled, pe_fetch_count := pe_fetch_count e + 1\<rparr>"

fun evict_loop :: "u64 \<Rightarrow> cand list \<Rightarrow> u64 \<Rightarrow> u32 \<Rightarrow> (u64, page_entry) umap
    \<Rightarrow> u64 \<times> u32 \<times> (u64, page_entry) umap" where
  "evict_loop low [] resident evicted t = (resident, evicted, t)"
| "evict_loop low (c # cs) resident evicted t =
     (if resident \<le> low then (resident, evicted, t)
      else case map_of t (c_vaddr c) of
             None \<Rightarrow> evict_loop low cs resident evicted t
           | Some e \<Rightarrow> evict_loop low cs (resident - 1) (evicted + 1)
                         (AList.update (c_vaddr c) (spill e) t))"

definition count_residency :: "(residency \<Rightarrow> bool) \<Rightarrow> page_table \<Rightarrow> u64" where
  "count_residency P pt = word_of_nat (um_count (\<lambda>e. P (pe_residency e)) (pt_table pt))"

definition evict_until :: "'p env \<Rightarrow> page_table \<Rightarrow> u32 \<Rightarrow> u32 \<Rightarrow> eviction_policy \<Rightarrow> u32 \<times> page_table" where
  "evict_until env pt high_pct low_pct pol =
     (let page_bytes = pt_page_bytes pt;
          total_hbm_pages = e_hbm_pool_bytes env div page_bytes;
          resident = count_residency (\<lambda>r. r = Hbm) pt;
          high = total_hbm_pages * ucast high_pct div 100;
          low = total_hbm_pages * ucast low_pct div 100
      in if resident \<le> high then (0, pt)
         else (let (resident', evicted, t) =
                 evict_loop low (order_cands pol (evict_cands (pt_table pt))) resident 0 (pt_table pt)
               in (evicted, pt\<lparr>pt_table := t\<rparr>)))"

subsection \<open>Statistics\<close>

definition total_pages :: "page_table \<Rightarrow> u64" where
  "total_pages pt = word_of_nat (length (pt_table pt))"

definition resident_hbm_pages :: "page_table \<Rightarrow> u64" where
  "resident_hbm_pages pt = count_residency (\<lambda>r. r = Hbm) pt"

definition resident_host_pages :: "page_table \<Rightarrow> u64" where
  "resident_host_pages pt = count_residency (\<lambda>r. r = HostPinned \<or> r = HostPageable) pt"

definition spilled_pages :: "page_table \<Rightarrow> u64" where
  "spilled_pages pt = count_residency (\<lambda>r. r = Spilled) pt"

subsection \<open>Page geometry\<close>

definition pt_valid_kb :: "page_table \<Rightarrow> bool" where
  "pt_valid_kb pt = (pt_default_page_kb pt = 64 \<or> pt_default_page_kb pt = 128)"

definition pt_shift :: "page_table \<Rightarrow> nat" where
  "pt_shift pt = (if pt_default_page_kb pt = 128 then 17 else 16)"

definition in_pages :: "page_table \<Rightarrow> u64 \<Rightarrow> u64 \<Rightarrow> u64 \<Rightarrow> bool" where
  "in_pages pt vaddr bytes x = (pt_range_start pt vaddr \<le> x \<and> x < pt_range_end pt vaddr bytes)"

abbreviation pt_pages :: "page_table \<Rightarrow> u64 \<Rightarrow> u64 \<Rightarrow> u64 list" where
  "pt_pages pt vaddr bytes \<equiv>
     page_seq (pt_shift pt) (unat (pt_range_start pt vaddr) div 2 ^ pt_shift pt)
       (unat (pt_range_end pt vaddr bytes) div 2 ^ pt_shift pt)"

lemma pt_shift_less [simp]: "pt_shift pt < 64"
  by (simp add: pt_shift_def)

lemma pt_page_bytes_pow: "pt_valid_kb pt \<Longrightarrow> pt_page_bytes pt = 2 ^ pt_shift pt"
  by (auto simp: pt_valid_kb_def pt_page_bytes_def pt_shift_def)

lemma unat_align: "pt_valid_kb pt \<Longrightarrow>
  unat (align_down (pt_page_bytes pt) v) = unat v div 2 ^ pt_shift pt * 2 ^ pt_shift pt"
  by (simp add: pt_page_bytes_pow unat_align_down)

lemma align_idem [simp]: "pt_valid_kb pt \<Longrightarrow>
  align_down (pt_page_bytes pt) (align_down (pt_page_bytes pt) v) = align_down (pt_page_bytes pt) v"
  by (rule word_unat_eq_iff [THEN iffD2]) (simp add: unat_align)

lemma align_le: "pt_valid_kb pt \<Longrightarrow> align_down (pt_page_bytes pt) v \<le> v"
  by (simp add: word_le_nat_alt unat_align)

lemma range_start_mult: "pt_valid_kb pt \<Longrightarrow>
  unat (pt_range_start pt v) = unat (pt_range_start pt v) div 2 ^ pt_shift pt * 2 ^ pt_shift pt"
  by (simp add: pt_range_start_def unat_align)

lemma range_end_mult: "pt_valid_kb pt \<Longrightarrow>
  unat (pt_range_end pt v b) = unat (pt_range_end pt v b) div 2 ^ pt_shift pt * 2 ^ pt_shift pt"
  by (simp add: pt_range_end_def unat_align)

lemma page_seq_member:
  assumes kb: "pt_valid_kb pt"
  shows "align_down (pt_page_bytes pt) x \<in> set (pt_pages pt v b) \<longleftrightarrow> in_pages pt v b x"
proof -
  let ?s = "pt_shift pt"
  let ?i = "unat (pt_range_start pt v) div 2 ^ ?s"
  let ?j = "unat (pt_range_end pt v b) div 2 ^ ?s"
  let ?k = "unat x div 2 ^ ?s"
  have lt: "k * 2 ^ ?s < 2 ^ 64" if "k < ?j" for k
  proof -
    have "k * 2 ^ ?s \<le> ?j * 2 ^ ?s" using that by (intro mult_le_mono1) simp
    also have "\<dots> = unat (pt_range_end pt v b)" using range_end_mult [OF kb] by simp
    also have "\<dots> < 2 ^ 64" by (rule unat_u64_less)
    finally show ?thesis .
  qed
  have eq: "align_down (pt_page_bytes pt) x = page_addr ?s k \<longleftrightarrow> ?k = k" if "k < ?j" for k
  proof -
    have "unat (page_addr ?s k) = k * 2 ^ ?s"
      using lt [OF that] by (rule unat_page_addr)
    then show ?thesis by (simp add: word_unat_eq_iff unat_align [OF kb])
  qed
  have "align_down (pt_page_bytes pt) x \<in> set (pt_pages pt v b) \<longleftrightarrow> ?i \<le> ?k \<and> ?k < ?j"
    unfolding page_seq_def using eq by fastforce
  also have "?i \<le> ?k \<longleftrightarrow> unat (pt_range_start pt v) \<le> unat x"
    by (subst range_start_mult [OF kb]) (simp add: less_eq_div_iff_mult_less_eq)
  also have "?k < ?j \<longleftrightarrow> unat x < unat (pt_range_end pt v b)"
    by (subst (2) range_end_mult [OF kb]) (simp add: div_less_iff_less_mult)
  finally show ?thesis
    by (simp add: in_pages_def word_le_nat_alt word_less_nat_alt)
qed

lemma page_seq_aligned:
  assumes kb: "pt_valid_kb pt" and a: "a \<in> set (pt_pages pt v b)"
  shows "align_down (pt_page_bytes pt) a = a"
proof -
  let ?s = "pt_shift pt"
  from a obtain k where k: "k < unat (pt_range_end pt v b) div 2 ^ ?s" "a = page_addr ?s k"
    by (auto simp: page_seq_def)
  have "k * 2 ^ ?s \<le> unat (pt_range_end pt v b) div 2 ^ ?s * 2 ^ ?s"
    using k(1) by (intro mult_le_mono1) simp
  also have "\<dots> = unat (pt_range_end pt v b)" using range_end_mult [OF kb] by simp
  also have "\<dots> < 2 ^ 64" by (rule unat_u64_less)
  finally have "unat a = k * 2 ^ ?s" using k(2) by (simp add: unat_page_addr)
  then show ?thesis by (simp add: word_unat_eq_iff unat_align [OF kb])
qed

lemma range_end_value:
  assumes kb: "pt_valid_kb pt" and fits: "unat v + unat b + 2 ^ pt_shift pt \<le> 2 ^ 64"
  shows "unat (pt_range_end pt v b) = (unat v + unat b + (2 ^ pt_shift pt - 1)) div 2 ^ pt_shift pt * 2 ^ pt_shift pt"
proof -
  let ?P = "2 ^ pt_shift pt :: nat"
  have P: "unat (pt_page_bytes pt) = ?P" using kb by (simp add: pt_page_bytes_pow unat_pow2)
  have P0: "0 < ?P" by simp
  have sum: "unat (v + b) = unat v + unat b"
    using less_le_trans [OF _ fits, of "unat v + unat b"] P0 by (intro unat_add_lem [THEN iffD1]) simp
  have q: "unat (pt_page_bytes pt - 1) = ?P - 1"
  proof -
    have "1 \<le> pt_page_bytes pt" by (simp add: word_le_nat_alt P)
    then show ?thesis by (simp add: unat_sub P)
  qed
  have "unat v + unat b + (?P - 1) < 2 ^ 64" using fits P0 by linarith
  then have "unat (v + b) + unat (pt_page_bytes pt - 1) < 2 ^ LENGTH(64)" by (simp only: sum q) simp
  then have "unat ((v + b) + (pt_page_bytes pt - 1)) = unat v + unat b + (?P - 1)"
    using unat_add_lem [THEN iffD1] by (metis sum q)
  then show ?thesis by (simp add: pt_range_end_def unat_align [OF kb] add_diff_eq)
qed

lemma range_covers:
  assumes kb: "pt_valid_kb pt" and fits: "unat vaddr + unat bytes + 2 ^ pt_shift pt \<le> 2 ^ 64"
    and x: "unat vaddr \<le> unat x" "unat x < unat vaddr + unat bytes"
  shows "in_pages pt vaddr bytes x"
proof -
  have "unat x < unat (pt_range_end pt vaddr bytes)"
    using round_up_ge [of "2 ^ pt_shift pt" "unat vaddr + unat bytes"] x(2) by (simp add: range_end_value [OF kb fits])
  moreover have "pt_range_start pt vaddr \<le> x"
    using align_le [OF kb, of vaddr] x(1) by (simp add: pt_range_start_def word_le_nat_alt)
  ultimately show ?thesis by (simp add: in_pages_def word_less_nat_alt)
qed

text \<open>A range that reaches into the last page of the address space rounds up past its end: the sum
  wraps, the end lies at or below the start, and the range has no page.\<close>

lemma range_wraps:
  assumes kb: "pt_valid_kb pt" and over: "2 ^ 64 < unat v + unat b + 2 ^ pt_shift pt"
    and b: "unat b + 2 ^ pt_shift pt \<le> 2 ^ 64"
  shows "\<not> in_pages pt v b x"
proof -
  let ?P = "2 ^ pt_shift pt :: nat"
  let ?e = "v + b + pt_page_bytes pt - 1"
  have P: "unat (pt_page_bytes pt) = ?P" using kb by (simp add: pt_page_bytes_pow unat_pow2)
  have "?e = word_of_nat (unat v + unat b + ?P - 1)"
  proof -
    have "word_of_nat (unat v + unat b + ?P - 1) = (word_of_nat (unat v + unat b + ?P) - 1 :: u64)"
      by (subst of_nat_diff) (simp_all add: Suc_le_eq trans_less_add2)
    moreover have "v + b + pt_page_bytes pt = word_of_nat (unat v + unat b + ?P)"
      by (simp only: of_nat_add P [symmetric] of_nat_unat ucast_id)
    ultimately show ?thesis by presburger
  qed
  then have "unat ?e = (unat v + unat b + ?P - 1) mod 2 ^ 64" by (simp add: unat_of_nat)
  moreover have "unat v < 2 ^ 64" by (rule unat_u64_less)
  then have "(unat v + unat b + ?P - 1) mod 2 ^ 64 = unat v + unat b + ?P - 1 - 2 ^ 64"
    using over b by (subst mod_if) (simp add: mod_if)
  ultimately have "unat ?e < unat v" using over b by linarith
  then have "?e \<le> v" by (simp add: word_le_nat_alt)
  then have "pt_range_end pt v b \<le> pt_range_start pt v"
    by (simp add: pt_range_end_def pt_range_start_def word_le_nat_alt unat_align [OF kb] div_le_mono)
  then show ?thesis by (auto simp: in_pages_def)
qed

subsection \<open>The invariant\<close>

definition pt_entry_ok :: "page_table \<Rightarrow> u64 \<Rightarrow> page_entry \<Rightarrow> bool" where
  "pt_entry_ok pt a e = (align_down (pt_page_bytes pt) a = a \<and> pe_vaddr e = a
     \<and> pe_page_size_kb e = pt_default_page_kb pt)"

definition pt_inv :: "page_table \<Rightarrow> bool" where
  "pt_inv pt = (pt_valid_kb pt \<and> um_wf (pt_table pt)
     \<and> list_all (\<lambda>(a, e). pt_entry_ok pt a e) (pt_table pt))"

lemma pt_frame [simp]:
  "pt_page_bytes (pt\<lparr>pt_table := t\<rparr>) = pt_page_bytes pt"
  "pt_shift (pt\<lparr>pt_table := t\<rparr>) = pt_shift pt"
  "pt_valid_kb (pt\<lparr>pt_table := t\<rparr>) = pt_valid_kb pt"
  "pt_range_start (pt\<lparr>pt_table := t\<rparr>) v = pt_range_start pt v"
  "pt_range_end (pt\<lparr>pt_table := t\<rparr>) v b = pt_range_end pt v b"
  "pt_entry_ok (pt\<lparr>pt_table := t\<rparr>) = pt_entry_ok pt"
  by (simp_all add: pt_page_bytes_def pt_shift_def pt_valid_kb_def pt_range_start_def
      pt_range_end_def pt_entry_ok_def fun_eq_iff)

lemma pt_invD:
  assumes "pt_inv pt"
  shows "pt_valid_kb pt" "um_wf (pt_table pt)"
    and "map_of (pt_table pt) a = Some e \<Longrightarrow> pt_entry_ok pt a e"
  using assms by (auto simp: pt_inv_def list_all_iff dest: map_of_SomeD)

lemma pt_inv_iff: "pt_inv pt \<longleftrightarrow> pt_valid_kb pt \<and> um_wf (pt_table pt) \<and>
    (\<forall>a e. map_of (pt_table pt) a = Some e \<longrightarrow> pt_entry_ok pt a e)"
  by (auto simp: pt_inv_def list_all_iff um_in_map_of)

lemma pt_inv_set_table:
  "pt_valid_kb pt \<Longrightarrow> um_wf t \<Longrightarrow> (\<And>a e. map_of t a = Some e \<Longrightarrow> pt_entry_ok pt a e)
   \<Longrightarrow> pt_inv (pt\<lparr>pt_table := t\<rparr>)"
  by (simp add: pt_inv_iff)

lemma pt_inv_create: "pt_inv (pt_create env b s)"
  by (simp add: pt_inv_def pt_create_def pt_valid_kb_def)

lemma pt_inv_length:
  assumes "pt_inv pt"
  shows "length (pt_table pt) < 2 ^ 64"
proof -
  have d: "distinct (map fst (pt_table pt))" using pt_invD(2) [OF assms] by (simp add: um_wf_def)
  have "1 \<notin> set (map fst (pt_table pt))"
  proof
    assume "1 \<in> set (map fst (pt_table pt))"
    then obtain e where "map_of (pt_table pt) 1 = Some e"
      by (metis (no_types, lifting) map_of_eq_None_iff not_None_eq list.set_map)
    then have "pt_entry_ok pt 1 e" by (rule pt_invD(3) [OF assms])
    then have "unat (align_down (pt_page_bytes pt) 1) = 1" by (simp add: pt_entry_ok_def)
    then show False
      by (simp add: unat_align [OF pt_invD(1) [OF assms]] pt_shift_def split: if_splits)
  qed
  then have "card (set (map fst (pt_table pt))) < card (UNIV :: u64 set)"
    by (intro psubset_card_mono) (simp_all add: psubset_eq, blast)
  then show ?thesis using distinct_card [OF d] by (simp add: card_word)
qed

subsection \<open>Mapping\<close>

lemma map_of_fold_update:
  "map_of (fold (\<lambda>a. AList.update a (f a)) xs t) a = (if a \<in> set xs then Some (f a) else map_of t a)"
  by (induction xs arbitrary: t) auto

lemma um_wf_fold_update: "um_wf t \<Longrightarrow> um_wf (fold (\<lambda>a. AList.update a (f a)) xs t)"
  by (induction xs arbitrary: t) auto

lemma range_loop:
  assumes "pt_valid_kb pt"
  shows "\<exists>a'. while_option (\<lambda>(a, st). a < pt_range_end pt v b \<and> \<not> stop st)
      (\<lambda>(a, st). (a + pt_page_bytes pt, f a st)) (pt_range_start pt v, st)
    = Some (a', fold_until stop f (pt_pages pt v b) st)"
  unfolding pt_page_bytes_pow [OF assms]
  by (rule page_loop_returns [OF pt_shift_less range_start_mult [OF assms] range_end_mult [OF assms]])

lemma map_range_fold:
  assumes "pt_valid_kb pt"
  shows "map_range clk pt v b res phys = Some (Ok, pt\<lparr>pt_table :=
    fold (\<lambda>a. AList.update a (mapped_entry clk pt (pt_range_start pt v) res phys a))
      (pt_pages pt v b) (pt_table pt)\<rparr>)"
proof -
  let ?f = "\<lambda>a. AList.update a (mapped_entry clk pt (pt_range_start pt v) res phys a)"
  have "\<exists>a'. map_range_loop clk pt v b res phys = Some (a', fold ?f (pt_pages pt v b) (pt_table pt))"
    using range_loop [OF assms, where stop = "\<lambda>_. False" and f = ?f]
    by (simp add: map_range_loop_def Let_def)
  then show ?thesis by (auto simp: map_range_def)
qed

lemma map_range_lookup:
  assumes "pt_valid_kb pt"
  shows "\<exists>pt'. map_range clk pt v b res phys = Some (Ok, pt') \<and>
    (\<forall>x. pt_lookup pt' x = (if in_pages pt v b x
       then Some (mapped_entry clk pt (pt_range_start pt v) res phys (align_down (pt_page_bytes pt) x))
       else pt_lookup pt x))"
  by (simp add: map_range_fold [OF assms] pt_lookup_def map_of_fold_update page_seq_member [OF assms])

lemma map_range_inv:
  assumes "pt_inv pt" and "map_range clk pt v b res phys = Some (s, pt')"
  shows "pt_inv pt'"
proof -
  note kb = pt_invD(1) [OF assms(1)]
  let ?t = "fold (\<lambda>a. AList.update a (mapped_entry clk pt (pt_range_start pt v) res phys a))
      (pt_pages pt v b) (pt_table pt)"
  have "pt_inv (pt\<lparr>pt_table := ?t\<rparr>)"
    by (rule pt_inv_set_table [OF kb um_wf_fold_update [OF pt_invD(2) [OF assms(1)]]])
       (auto simp: map_of_fold_update pt_entry_ok_def mapped_entry_def page_seq_aligned [OF kb]
          split: if_splits dest!: pt_invD(3) [OF assms(1)])
  then show ?thesis using assms(2) by (simp add: map_range_fold [OF kb])
qed

subsection \<open>Unmapping\<close>

definition pinned_at :: "(u64, page_entry) umap \<Rightarrow> u64 \<Rightarrow> bool" where
  "pinned_at t a = (case map_of t a of None \<Rightarrow> False | Some e \<Rightarrow> pe_refcount e > 0)"

lemma unmap_page_simps:
  "unmap_page a (r, t) = (if pinned_at t a then (Some ContractViolation, t) else (r, AList.delete a t))"
  by (cases "map_of t a") (auto simp: unmap_page_def pinned_at_def map_of_eq_None_iff [THEN iffD1])

lemma pinned_at_delete: "a \<noteq> b \<Longrightarrow> pinned_at (AList.delete b t) a = pinned_at t a"
  by (simp add: pinned_at_def)

lemma unmap_fold:
  assumes "distinct xs"
  shows "fold_until (\<lambda>st. fst st \<noteq> None) unmap_page xs (None, t)
    = (if list_ex (pinned_at t) xs then Some ContractViolation else None,
       fold AList.delete (takeWhile (\<lambda>a. \<not> pinned_at t a) xs) t)"
  using assms
proof (induction xs arbitrary: t)
  case Nil
  then show ?case by simp
next
  case (Cons x xs)
  have eq: "pinned_at (AList.delete x t) y = pinned_at t y" if "y \<in> set xs" for y
    using Cons.prems that by (intro pinned_at_delete) auto
  then have "list_ex (pinned_at (AList.delete x t)) xs = list_ex (pinned_at t) xs"
    by (simp add: list_ex_iff)
  moreover have "takeWhile (\<lambda>a. \<not> pinned_at (AList.delete x t) a) xs = takeWhile (\<lambda>a. \<not> pinned_at t a) xs"
    by (rule takeWhile_cong) (simp_all add: eq)
  ultimately show ?case using Cons by (simp add: unmap_page_simps)
qed

lemma map_of_fold_delete:
  "map_of (fold AList.delete xs t) a = (if a \<in> set xs then None else map_of t a)"
  by (induction xs arbitrary: t) auto

lemma um_wf_fold_delete: "um_wf t \<Longrightarrow> um_wf (fold AList.delete xs t)"
  by (induction xs arbitrary: t) auto

lemma pt_pages_sorted:
  assumes kb: "pt_valid_kb pt"
  shows "sorted_wrt (<) (pt_pages pt v b)"
proof -
  let ?s = "pt_shift pt" and ?j = "unat (pt_range_end pt v b) div 2 ^ pt_shift pt"
  have lt: "k * 2 ^ ?s < 2 ^ 64" if "k < ?j" for k
  proof -
    have "k * 2 ^ ?s \<le> ?j * 2 ^ ?s" using that by (intro mult_le_mono1) simp
    also have "\<dots> = unat (pt_range_end pt v b)" using range_end_mult [OF kb] by simp
    finally show ?thesis using unat_u64_less le_less_trans by blast
  qed
  have "page_addr ?s x < page_addr ?s y" if "x < y" "y < ?j" for x y
    using that lt [of x] lt [of y] by (simp add: word_less_nat_alt unat_page_addr)
  then show ?thesis
    unfolding page_seq_def sorted_wrt_map
    by (intro sorted_wrt_mono_rel [OF _ sorted_wrt_upt]) auto
qed

lemma unmap_range_fold:
  assumes kb: "pt_valid_kb pt"
  shows "unmap_range pt v b =
    Some (if list_ex (pinned_at (pt_table pt)) (pt_pages pt v b) then ContractViolation else Ok,
      pt\<lparr>pt_table := fold AList.delete
        (takeWhile (\<lambda>a. \<not> pinned_at (pt_table pt) a) (pt_pages pt v b)) (pt_table pt)\<rparr>)"
proof -
  have d: "distinct (pt_pages pt v b)"
    using pt_pages_sorted [OF kb] by (simp add: strict_sorted_iff)
  have "\<exists>a'. unmap_range_loop pt v b = Some (a',
      fold_until (\<lambda>st. fst st \<noteq> None) unmap_page (pt_pages pt v b) (None, pt_table pt))"
    using range_loop [OF kb, where stop = "\<lambda>st. fst st \<noteq> None" and f = unmap_page]
    by (simp add: unmap_range_loop_def Let_def)
  then show ?thesis
    unfolding unmap_fold [OF d] by (auto simp: unmap_range_def)
qed

text \<open>An address is released when no pinned page of the range lies at or below its page.\<close>

definition pinned_below :: "page_table \<Rightarrow> u64 \<Rightarrow> u64 \<Rightarrow> u64 \<Rightarrow> bool" where
  "pinned_below pt v b x =
     list_ex (\<lambda>a. a \<le> x \<and> pinned_at (pt_table pt) a) (pt_pages pt v b)"

lemma takeWhile_sorted_mem:
  "sorted_wrt (<) xs \<Longrightarrow> a \<in> set (takeWhile P xs) \<longleftrightarrow> a \<in> set xs \<and> (\<forall>y \<in> set xs. y \<le> a \<longrightarrow> P (y :: u64))"
proof (induction xs)
  case Nil
  then show ?case by simp
next
  case (Cons x xs)
  then show ?case by (auto simp: not_less [symmetric] dest: less_imp_le)
qed

lemma page_le_align:
  assumes kb: "pt_valid_kb pt" and a: "align_down (pt_page_bytes pt) a = a"
  shows "a \<le> align_down (pt_page_bytes pt) x \<longleftrightarrow> a \<le> x"
proof -
  have m: "unat a = unat a div 2 ^ pt_shift pt * 2 ^ pt_shift pt"
    using a unat_align [OF kb, of a] by simp
  show ?thesis
    unfolding word_le_nat_alt unat_align [OF kb]
    by (subst (1 2) m) (simp add: less_eq_div_iff_mult_less_eq)
qed

lemma unmap_range_lookup:
  assumes kb: "pt_valid_kb pt"
  shows "\<exists>pt'. unmap_range pt v b =
      Some (if list_ex (pinned_at (pt_table pt)) (pt_pages pt v b) then ContractViolation else Ok, pt')
    \<and> (\<forall>x. pt_lookup pt' x =
        (if in_pages pt v b x \<and> \<not> pinned_below pt v b x then None else pt_lookup pt x))"
proof -
  have "align_down (pt_page_bytes pt) x \<in> set (takeWhile (\<lambda>a. \<not> pinned_at (pt_table pt) a) (pt_pages pt v b))
      \<longleftrightarrow> in_pages pt v b x \<and> \<not> pinned_below pt v b x" for x
    using page_le_align [OF kb page_seq_aligned [OF kb]]
    by (auto simp: takeWhile_sorted_mem [OF pt_pages_sorted [OF kb]] page_seq_member [OF kb]
        pinned_below_def list_ex_iff)
  then show ?thesis
    by (auto simp: unmap_range_fold [OF kb] pt_lookup_def map_of_fold_delete)
qed

lemma unmap_range_inv:
  assumes "pt_inv pt" and "unmap_range pt v b = Some (s, pt')"
  shows "pt_inv pt'"
proof -
  note kb = pt_invD(1) [OF assms(1)]
  show ?thesis
    using assms(2) unfolding unmap_range_fold [OF kb]
    by (auto intro!: pt_inv_set_table kb um_wf_fold_delete pt_invD(2) [OF assms(1)]
        dest: pt_invD(3) [OF assms(1)] simp: map_of_fold_delete split: if_splits)
qed

subsection \<open>Reference counts\<close>

lemma incref_eq: "incref now pt v =
  (case pt_lookup pt v of
     None \<Rightarrow> (InvalidArgument, pt)
   | Some e \<Rightarrow> if pe_refcount e = 0xFFFF then (InvalidArgument, pt)
       else (Ok, pt\<lparr>pt_table := AList.update (align_down (pt_page_bytes pt) v)
          (e\<lparr>pe_refcount := pe_refcount e + 1, pe_last_access_ns := now\<rparr>) (pt_table pt)\<rparr>))"
  by (simp add: incref_def pt_lookup_def Let_def)

lemma decref_eq: "decref now pt v =
  (case pt_lookup pt v of
     None \<Rightarrow> (InvalidArgument, pt)
   | Some e \<Rightarrow> if pe_refcount e = 0 then (InvalidArgument, pt)
       else (Ok, pt\<lparr>pt_table := AList.update (align_down (pt_page_bytes pt) v)
          (e\<lparr>pe_refcount := pe_refcount e - 1, pe_last_access_ns := now\<rparr>) (pt_table pt)\<rparr>))"
  by (simp add: decref_def pt_lookup_def Let_def)

lemma pt_update_inv:
  assumes "pt_inv pt" and "map_of (pt_table pt) a = Some e"
    and "pe_vaddr e' = pe_vaddr e" and "pe_page_size_kb e' = pe_page_size_kb e"
  shows "pt_inv (pt\<lparr>pt_table := AList.update a e' (pt_table pt)\<rparr>)"
  using assms pt_invD [OF assms(1)]
  by (intro pt_inv_set_table) (auto simp: pt_entry_ok_def split: if_splits)

lemma incref_inv: "pt_inv pt \<Longrightarrow> pt_inv (snd (incref now pt v))"
  by (auto simp: incref_eq pt_lookup_def pt_update_inv split: option.splits)

lemma decref_inv: "pt_inv pt \<Longrightarrow> pt_inv (snd (decref now pt v))"
  by (auto simp: decref_eq pt_lookup_def pt_update_inv split: option.splits)

lemma refcount_succ: "(c :: u16) \<noteq> 0xFFFF \<Longrightarrow> unat (c + 1) = unat c + 1 \<and> 0 < c + 1"
proof -
  assume "c \<noteq> 0xFFFF"
  then have "c + 1 \<noteq> 0" using eq_neg_iff_add_eq_0 [of c 1] by auto
  then show ?thesis by (auto simp: unatSuc add.commute word_gt_0)
qed

lemma incref_OkE:
  assumes "incref t pt v = (Ok, pt1)"
  obtains e where "pt_lookup pt v = Some e" "pe_refcount e \<noteq> 0xFFFF"
    "pt1 = pt\<lparr>pt_table := AList.update (align_down (pt_page_bytes pt) v)
       (e\<lparr>pe_refcount := pe_refcount e + 1, pe_last_access_ns := t\<rparr>) (pt_table pt)\<rparr>"
  using assms by (auto simp: incref_eq split: option.splits if_splits)

lemma incref_decref:
  assumes "incref t1 pt v = (Ok, pt1)"
  shows "\<exists>e. pt_lookup pt v = Some e \<and> decref t2 pt1 v = (Ok, pt\<lparr>pt_table :=
    AList.update (align_down (pt_page_bytes pt) v) (e\<lparr>pe_last_access_ns := t2\<rparr>) (pt_table pt)\<rparr>)"
proof -
  obtain e where e: "pt_lookup pt v = Some e" "pe_refcount e \<noteq> 0xFFFF"
    and pt1: "pt1 = pt\<lparr>pt_table := AList.update (align_down (pt_page_bytes pt) v)
       (e\<lparr>pe_refcount := pe_refcount e + 1, pe_last_access_ns := t1\<rparr>) (pt_table pt)\<rparr>"
    using assms by (rule incref_OkE)
  have "pe_refcount e + 1 \<noteq> 0" using refcount_succ [OF e(2)] by (auto simp: word_gt_0)
  then show ?thesis
    using e(1) by (auto simp: decref_eq pt1 pt_lookup_def)
qed

subsection \<open>Eviction\<close>

definition spill_page :: "u64 \<Rightarrow> (u64, page_entry) umap \<Rightarrow> (u64, page_entry) umap" where
  "spill_page a t = (case map_of t a of None \<Rightarrow> t | Some e \<Rightarrow> AList.update a (spill e) t)"

lemma map_of_spill_page:
  "map_of (spill_page a t) b = (if b = a then map_option spill (map_of t a) else map_of t b)"
  by (auto simp: spill_page_def split: option.splits)

lemma map_of_spill_pages:
  "distinct as \<Longrightarrow> map_of (fold spill_page as t) b =
    (if b \<in> set as then map_option spill (map_of t b) else map_of t b)"
  by (induction as arbitrary: t) (auto simp: map_of_spill_page)

lemma um_wf_spill_pages: "um_wf t \<Longrightarrow> um_wf (fold spill_page as t)"
proof (induction as arbitrary: t)
  case (Cons a as)
  then show ?case by (simp add: spill_page_def split: option.split)
qed simp

lemma evict_loop_eq:
  assumes "distinct (map c_vaddr cs)" and "\<forall>c \<in> set cs. map_of t (c_vaddr c) \<noteq> None"
  shows "evict_loop low cs r n t =
    (let k = min (length cs) (unat r - unat low)
     in (r - word_of_nat k, n + word_of_nat k, fold spill_page (take k (map c_vaddr cs)) t))"
  using assms
proof (induction low cs r n t rule: evict_loop.induct)
  case (1 low r n t)
  then show ?case by simp
next
  case (2 low c cs r n t)
  show ?case
  proof (cases "r \<le> low")
    case True
    then show ?thesis by (simp add: word_le_nat_alt)
  next
    case False
    obtain e where e: "map_of t (c_vaddr c) = Some e" using "2.prems" by auto
    let ?t = "AList.update (c_vaddr c) (spill e) t"
    have pos: "0 < unat r" "unat low < unat r" using False by (auto simp: word_le_nat_alt)
    have ur: "unat (r - 1) = unat r - 1" using pos by (simp add: unat_minus_one word_gt_0 unat_gt_0)
    have sp: "spill_page (c_vaddr c) t = ?t" by (simp add: spill_page_def e)
    have "evict_loop low cs (r - 1) (n + 1) ?t =
      (let k = min (length cs) (unat (r - 1) - unat low)
       in (r - 1 - word_of_nat k, n + 1 + word_of_nat k, fold spill_page (take k (map c_vaddr cs)) ?t))"
      using "2.IH"(2) [OF False e] "2.prems" by auto
    moreover have "min (length (c # cs)) (unat r - unat low)
        = Suc (min (length cs) (unat (r - 1) - unat low))"
      using pos by (simp add: ur)
    ultimately show ?thesis
      using False by (simp add: e Let_def sp del: min_Suc1)
  qed
qed


text \<open>The pages an eviction run spills, in the order it visits them.\<close>

definition evict_low :: "'p env \<Rightarrow> page_table \<Rightarrow> u32 \<Rightarrow> u64" where
  "evict_low env pt pct = e_hbm_pool_bytes env div pt_page_bytes pt * ucast pct div 100"

definition victims :: "'p env \<Rightarrow> page_table \<Rightarrow> u32 \<Rightarrow> u32 \<Rightarrow> eviction_policy \<Rightarrow> u64 list" where
  "victims env pt high_pct low_pct pol =
     (let cs = order_cands pol (evict_cands (pt_table pt));
          resident = count_residency (\<lambda>r. r = Hbm) pt
      in if resident \<le> evict_low env pt high_pct then []
         else take (min (length cs) (unat resident - unat (evict_low env pt low_pct))) (map c_vaddr cs))"

lemma order_cands_mset [simp]: "mset (order_cands pol cs) = mset cs"
  by (simp add: order_cands_def)

lemma order_cands_set [simp]: "set (order_cands pol cs) = set cs"
  by (metis order_cands_mset set_mset_mset)

lemma order_cands_length [simp]: "length (order_cands pol cs) = length cs"
  by (metis order_cands_mset size_mset)

lemma evict_cands_vaddr: "map c_vaddr (evict_cands t) = map fst (filter (\<lambda>(a, e). evictable e) t)"
  by (auto simp: evict_cands_def)

lemma order_cands_distinct: "um_wf t \<Longrightarrow> distinct (map c_vaddr (order_cands pol (evict_cands t)))"
proof -
  assume "um_wf t"
  then have "distinct (map c_vaddr (evict_cands t))"
    by (simp add: evict_cands_vaddr um_wf_def distinct_map_filter)
  then show ?thesis
    by (metis mset_map order_cands_mset mset_eq_imp_distinct_iff)
qed

lemma evict_cands_mem:
  "um_wf t \<Longrightarrow> c \<in> set (evict_cands t) \<longleftrightarrow>
    (\<exists>e. map_of t (c_vaddr c) = Some e \<and> evictable e
       \<and> c = \<lparr>c_vaddr = c_vaddr c, c_last_access = pe_last_access_ns e, c_refcount = pe_refcount e\<rparr>)"
  by (auto simp: evict_cands_def um_in_map_of [symmetric] image_iff)

lemma evict_cands_length: "length (evict_cands t) = um_count evictable t"
  by (simp add: evict_cands_def um_count_def case_prod_unfold)

lemma evict_until_eq:
  assumes "um_wf (pt_table pt)"
  shows "evict_until env pt high_pct low_pct pol =
    (word_of_nat (length (victims env pt high_pct low_pct pol)),
     pt\<lparr>pt_table := fold spill_page (victims env pt high_pct low_pct pol) (pt_table pt)\<rparr>)"
proof -
  let ?cs = "order_cands pol (evict_cands (pt_table pt))"
  have "\<forall>c \<in> set ?cs. map_of (pt_table pt) (c_vaddr c) \<noteq> None"
    by (auto simp: evict_cands_mem [OF assms])
  from evict_loop_eq [OF order_cands_distinct [OF assms] this]
  show ?thesis
    by (auto simp: evict_until_def victims_def Let_def evict_low_def)
qed

lemma victims_distinct: "um_wf (pt_table pt) \<Longrightarrow> distinct (victims env pt hi lo pol)"
  by (simp add: victims_def Let_def order_cands_distinct)

lemma victims_evictable:
  assumes "um_wf (pt_table pt)" and "a \<in> set (victims env pt hi lo pol)"
  shows "\<exists>e. map_of (pt_table pt) a = Some e \<and> evictable e"
  using assms(2)
  by (auto simp: victims_def Let_def evict_cands_mem [OF assms(1)] split: if_splits dest!: in_set_takeD)

lemma evict_until_lookup:
  assumes "um_wf (pt_table pt)"
  shows "map_of (pt_table (snd (evict_until env pt hi lo pol))) a =
    (if a \<in> set (victims env pt hi lo pol) then map_option spill (map_of (pt_table pt) a)
     else map_of (pt_table pt) a)"
  by (simp add: evict_until_eq [OF assms] map_of_spill_pages [OF victims_distinct [OF assms]])

lemma evict_until_inv:
  assumes "pt_inv pt"
  shows "pt_inv (snd (evict_until env pt hi lo pol))"
  unfolding evict_until_eq [OF pt_invD(2) [OF assms]]
  using pt_invD [OF assms]
  by (auto intro!: pt_inv_set_table um_wf_spill_pages
      simp: map_of_spill_pages victims_distinct pt_entry_ok_def spill_def split: if_splits)


text \<open>Least-recently-used order: every spilled page was accessed no later than a spared one.\<close>

lemma victims_lru:
  assumes wf: "um_wf (pt_table pt)" and pol: "pol \<noteq> Arc"
    and v: "a \<in> set (victims env pt hi lo pol)" "map_of (pt_table pt) a = Some e"
    and w: "b \<notin> set (victims env pt hi lo pol)" "map_of (pt_table pt) b = Some e'" "evictable e'"
  shows "pe_last_access_ns e \<le> pe_last_access_ns e'"
proof -
  let ?cs = "order_cands pol (evict_cands (pt_table pt))"
  obtain k where vs: "victims env pt hi lo pol = take k (map c_vaddr ?cs)"
    by (cases "count_residency (\<lambda>r. r = Hbm) pt \<le> evict_low env pt hi")
       (auto simp: victims_def Let_def intro: that [of 0] that)
  have srt: "sorted (map c_last_access ?cs)"
    using pol by (cases pol) (simp_all add: order_cands_def)
  let ?b = "\<lparr>c_vaddr = b, c_last_access = pe_last_access_ns e', c_refcount = pe_refcount e'\<rparr>"
  have "?b \<in> set ?cs" using w by (simp add: evict_cands_mem [OF wf])
  moreover have "?b \<notin> set (take k ?cs)" using w(1) by (force simp: vs take_map)
  ultimately have bd: "?b \<in> set (drop k ?cs)"
    by (metis Un_iff append_take_drop_id set_append)
  obtain c where c: "c \<in> set (take k ?cs)" "c_vaddr c = a" using v(1) by (auto simp: vs take_map)
  then have "c \<in> set ?cs" by (auto dest: in_set_takeD)
  then have ce: "c_last_access c = pe_last_access_ns e"
    using v(2) c(2) by (auto simp: evict_cands_mem [OF wf])
  have "sorted (map c_last_access (take k ?cs @ drop k ?cs))" using srt by simp
  then have "\<forall>x \<in> set (take k ?cs). \<forall>y \<in> set (drop k ?cs). c_last_access x \<le> c_last_access y"
    unfolding map_append sorted_append by simp
  then have "c_last_access c \<le> c_last_access ?b"
    using c(1) bd by blast
  then show ?thesis by (simp add: ce)
qed

text \<open>Counting: the resident pages drop by exactly the number of victims.\<close>

lemma um_count_spill_pages:
  "um_wf t \<Longrightarrow> distinct as \<Longrightarrow> (\<forall>a \<in> set as. \<exists>e. map_of t a = Some e \<and> pe_residency e = Hbm) \<Longrightarrow>
   um_count (\<lambda>e. pe_residency e = Hbm) (fold spill_page as t) + length as
     = um_count (\<lambda>e. pe_residency e = Hbm) t"
proof (induction as arbitrary: t)
  case Nil
  then show ?case by simp
next
  case (Cons a as)
  then obtain e where e: "map_of t a = Some e" "pe_residency e = Hbm" by auto
  have "um_count (\<lambda>e. pe_residency e = Hbm) (spill_page a t) + 1 = um_count (\<lambda>e. pe_residency e = Hbm) t"
    using um_count_update [OF Cons.prems(1) e(1), of "\<lambda>e. pe_residency e = Hbm" "spill e"] e
    by (simp add: spill_page_def spill_def)
  moreover have "um_count (\<lambda>e. pe_residency e = Hbm) (fold spill_page as (spill_page a t)) + length as
      = um_count (\<lambda>e. pe_residency e = Hbm) (spill_page a t)"
    using Cons.prems um_wf_spill_pages [of t "[a]"]
    by (intro Cons.IH) (auto simp: map_of_spill_page)
  ultimately show ?case by simp
qed

lemma unat_count_residency:
  assumes "pt_inv pt"
  shows "unat (count_residency P pt) = um_count (\<lambda>e. P (pe_residency e)) (pt_table pt)"
proof -
  have "um_count (\<lambda>e. P (pe_residency e)) (pt_table pt) < 2 ^ 64"
    using um_count_le pt_inv_length [OF assms] by (rule le_less_trans)
  then show ?thesis unfolding count_residency_def by (subst unat_of_nat) simp
qed

lemma evict_until_count:
  assumes "pt_inv pt"
  shows "unat (resident_hbm_pages (snd (evict_until env pt hi lo pol))) + length (victims env pt hi lo pol)
    = unat (resident_hbm_pages pt)"
proof -
  note wf = pt_invD(2) [OF assms]
  show ?thesis
    unfolding resident_hbm_pages_def unat_count_residency [OF assms]
      unat_count_residency [OF evict_until_inv [OF assms]]
    using um_count_spill_pages [OF wf victims_distinct [OF wf], of env hi lo pol]
      victims_evictable [OF wf, of _ env hi lo pol]
    by (auto simp: evict_until_eq [OF wf] evictable_def)
qed

text \<open>The low watermark is reached unless every page left in HBM is pinned.\<close>

lemma evict_until_watermark:
  assumes inv: "pt_inv pt" and high: "evict_low env pt hi < resident_hbm_pages pt"
  shows "resident_hbm_pages (snd (evict_until env pt hi lo pol)) \<le> evict_low env pt lo
    \<or> \<not> list_ex (\<lambda>(a, e). evictable e) (pt_table (snd (evict_until env pt hi lo pol)))"
proof (cases "length (victims env pt hi lo pol) = um_count evictable (pt_table pt)")
  case False
  note wf = pt_invD(2) [OF inv]
  have "length (victims env pt hi lo pol)
      = min (um_count evictable (pt_table pt)) (unat (resident_hbm_pages pt) - unat (evict_low env pt lo))"
    using high by (simp add: victims_def Let_def resident_hbm_pages_def evict_cands_length not_le [symmetric])
  with False have "unat (resident_hbm_pages pt) - length (victims env pt hi lo pol) \<le> unat (evict_low env pt lo)"
    by linarith
  then show ?thesis
    using evict_until_count [OF inv, of env hi lo pol]
    by (intro disjI1) (simp add: word_le_nat_alt)
next
  case True
  note wf = pt_invD(2) [OF inv]
  have "{a. \<exists>e. map_of (pt_table pt) a = Some e \<and> evictable e} = set (victims env pt hi lo pol)"
  proof (rule card_subset_eq [symmetric])
    show "finite {a. \<exists>e. map_of (pt_table pt) a = Some e \<and> evictable e}"
      by (rule finite_subset [OF _ finite_dom_map_of [of "pt_table pt"]]) auto
    show "set (victims env pt hi lo pol) \<subseteq> {a. \<exists>e. map_of (pt_table pt) a = Some e \<and> evictable e}"
      using victims_evictable [OF wf] by blast
    show "card (set (victims env pt hi lo pol)) = card {a. \<exists>e. map_of (pt_table pt) a = Some e \<and> evictable e}"
      using True by (simp add: distinct_card [OF victims_distinct [OF wf]] um_count_map_of [OF wf])
  qed
  then show ?thesis
    using evict_until_inv [OF inv, of env hi lo pol]
    by (force simp: list_ex_iff um_in_map_of [OF pt_invD(2)] evict_until_lookup [OF wf] spill_def evictable_def
        split: if_splits)
qed

subsection \<open>What the page table promises\<close>

text \<open>A small environment and table for the witnesses: a pool of ten 64 KB pages.\<close>

definition demo_env :: "unit env" where
  "demo_env = \<lparr>e_device = device_desc_default\<lparr>dd_arch := Turing\<rparr>, e_hbm_pool_bytes = 655360,
     e_plat = platform_handle_default, e_hw = ()\<rparr>"

definition demo_page :: "u64 \<Rightarrow> u16 \<Rightarrow> u64 \<Rightarrow> u64 \<times> page_entry" where
  "demo_page a rc t = (a, \<lparr>pe_vaddr = a, pe_phys_or_host = a, pe_page_size_kb = 64,
     pe_refcount = rc, pe_residency = Hbm, pe_last_access_ns = t, pe_fetch_count = 1\<rparr>)"

definition demo_pt :: page_table where
  "demo_pt = (pt_create demo_env 0 0)\<lparr>pt_table :=
     [demo_page 0x10000 0 7, demo_page 0x20000 1 3, demo_page 0x30000 0 5]\<rparr>"

declare demo_pt_def [demo_simps] demo_page_def [demo_simps] pt_create_def [demo_simps]
  demo_env_def [demo_simps] pt_page_bytes_def [demo_simps]

lemma demo_pt_inv: "pt_inv demo_pt"
  by (simp add: demo_simps pt_inv_def pt_valid_kb_def um_wf_def pt_entry_ok_def align_down_def)



text \<open>C6: Unmapping always returns.  It reports \<open>ContractViolation\<close> exactly when some page of
  the range is pinned; then the pages below the first pinned one are gone and the rest,
  every pinned page included, is untouched.  Without a pinned page the whole range is gone.\<close>

theorem unmap_range_respects_pins:
  assumes "pt_inv pt"
  shows "\<exists>s pt'. unmap_range pt v b = Some (s, pt') \<and> pt_inv pt' \<and>
    s = (if \<exists>x e. in_pages pt v b x \<and> pt_lookup pt x = Some e \<and> pe_refcount e > 0
         then ContractViolation else Ok) \<and>
    (\<forall>x e. pt_lookup pt x = Some e \<longrightarrow> pe_refcount e > 0 \<longrightarrow> pt_lookup pt' x = Some e) \<and>
    (\<forall>x. pt_lookup pt' x = (if in_pages pt v b x \<and> \<not> pinned_below pt v b x then None else pt_lookup pt x)) \<and>
    (s = Ok \<longrightarrow> (\<forall>x. in_pages pt v b x \<longrightarrow> pt_lookup pt' x = None))"
proof -
  note kb = pt_invD(1) [OF assms]
  let ?pin = "list_ex (pinned_at (pt_table pt)) (pt_pages pt v b)"
  obtain pt' where u: "unmap_range pt v b = Some (if ?pin then ContractViolation else Ok, pt')"
    and look: "\<And>x. pt_lookup pt' x = (if in_pages pt v b x \<and> \<not> pinned_below pt v b x then None
        else pt_lookup pt x)"
    using unmap_range_lookup [OF kb] by blast
  have pin: "?pin \<longleftrightarrow> (\<exists>x e. in_pages pt v b x \<and> pt_lookup pt x = Some e \<and> pe_refcount e > 0)"
  proof
    assume ?pin
    then obtain a where a: "a \<in> set (pt_pages pt v b)" "pinned_at (pt_table pt) a"
      by (auto simp: list_ex_iff)
    then show "\<exists>x e. in_pages pt v b x \<and> pt_lookup pt x = Some e \<and> pe_refcount e > 0"
      using page_seq_member [OF kb, of a v b] page_seq_aligned [OF kb a(1)]
      by (intro exI [of _ a]) (auto simp: pinned_at_def pt_lookup_def split: option.splits)
  next
    assume "\<exists>x e. in_pages pt v b x \<and> pt_lookup pt x = Some e \<and> pe_refcount e > 0"
    then obtain x e where "in_pages pt v b x" "pt_lookup pt x = Some e" "pe_refcount e > 0" by blast
    then show ?pin
      using page_seq_member [OF kb, of x v b]
      by (auto simp: list_ex_iff pinned_at_def pt_lookup_def
          intro!: bexI [of _ "align_down (pt_page_bytes pt) x"])
  qed
  have below: "pinned_below pt v b x" if "in_pages pt v b x" "pt_lookup pt x = Some e" "pe_refcount e > 0" for x e
    using that page_seq_member [OF kb, of x v b] align_le [OF kb, of x]
    by (auto simp: pinned_below_def list_ex_iff pinned_at_def pt_lookup_def
        intro!: bexI [of _ "align_down (pt_page_bytes pt) x"])
  have none: "\<not> ?pin \<Longrightarrow> \<not> pinned_below pt v b x" for x
    by (auto simp: pinned_below_def list_ex_iff)
  show ?thesis
    using u unmap_range_inv [OF assms u] below none by (auto simp: look pin)
qed

theorem unmap_range_respects_pins_witness:
  "\<exists>s pt'. unmap_range demo_pt 0x10000 0x30000 = Some (s, pt') \<and> pt_inv pt' \<and>
    s = (if \<exists>x e. in_pages demo_pt 0x10000 0x30000 x \<and> pt_lookup demo_pt x = Some e \<and> pe_refcount e > 0
         then ContractViolation else Ok) \<and>
    (\<forall>x e. pt_lookup demo_pt x = Some e \<longrightarrow> pe_refcount e > 0 \<longrightarrow> pt_lookup pt' x = Some e) \<and>
    (\<forall>x. pt_lookup pt' x = (if in_pages demo_pt 0x10000 0x30000 x \<and> \<not> pinned_below demo_pt 0x10000 0x30000 x
       then None else pt_lookup demo_pt x)) \<and>
    (s = Ok \<longrightarrow> (\<forall>x. in_pages demo_pt 0x10000 0x30000 x \<longrightarrow> pt_lookup pt' x = None))"
  by (rule unmap_range_respects_pins [OF demo_pt_inv])

subsection \<open>Eviction and reference counts\<close>

lemma evict_until_pt_lookup:
  "pt_inv pt \<Longrightarrow> pt_lookup (snd (evict_until env pt hi lo pol)) x =
    (if align_down (pt_page_bytes pt) x \<in> set (victims env pt hi lo pol)
     then map_option spill (pt_lookup pt x) else pt_lookup pt x)"
  using evict_until_lookup [OF pt_invD(2), of pt env hi lo pol "align_down (pt_page_bytes pt) x"]
  by (simp add: pt_lookup_def evict_until_eq [OF pt_invD(2)])

lemma victim_lookup:
  "pt_inv pt \<Longrightarrow> align_down (pt_page_bytes pt) x \<in> set (victims env pt hi lo pol) \<Longrightarrow>
    \<exists>e. pt_lookup pt x = Some e \<and> evictable e"
  using victims_evictable [OF pt_invD(2)] by (auto simp: pt_lookup_def)

definition pt_pinned :: "page_table \<Rightarrow> u64 \<Rightarrow> bool" where
  "pt_pinned pt x = (case pt_lookup pt x of None \<Rightarrow> False | Some e \<Rightarrow> pe_refcount e > 0)"

definition pt_in_hbm :: "page_table \<Rightarrow> u64 \<Rightarrow> bool" where
  "pt_in_hbm pt x = (case pt_lookup pt x of None \<Rightarrow> False | Some e \<Rightarrow> pe_residency e = Hbm)"

lemma spill_simps [simp]:
  "pe_residency (spill e) = Spilled" "pe_refcount (spill e) = pe_refcount e"
  by (simp_all add: spill_def)

text \<open>One eviction request: the environment it runs in, the two watermarks, the policy.\<close>

definition evict_cmd :: "'p env \<times> u32 \<times> u32 \<times> eviction_policy \<Rightarrow> page_table \<Rightarrow> page_table" where
  "evict_cmd c pt = (case c of (env, hi, lo, pol) \<Rightarrow> snd (evict_until env pt hi lo pol))"

interpretation pte: pinned_eviction pt_inv evict_cmd pt_in_hbm pt_pinned
proof
  fix t :: page_table and c :: "'p env \<times> u32 \<times> u32 \<times> eviction_policy" and k :: u64
  assume t: "pt_inv t"
  obtain env hi lo pol where c: "c = (env, hi, lo, pol)" by (cases c) auto
  note look = evict_until_pt_lookup [OF t] victim_lookup [OF t]
  show "pt_inv (evict_cmd c t)"
    by (simp add: evict_cmd_def c evict_until_inv [OF t])
  show "pt_pinned (evict_cmd c t) k = pt_pinned t k"
    by (auto simp: evict_cmd_def c pt_pinned_def look(1) split: option.split)
  show "pt_in_hbm t k" if "pt_in_hbm (evict_cmd c t) k"
    using that by (auto simp: evict_cmd_def c pt_in_hbm_def look(1) split: option.splits if_splits)
  show "pt_in_hbm (evict_cmd c t) k" if "pt_pinned t k" "pt_in_hbm t k"
    using that look(2) [of k env hi lo pol]
    by (auto simp: evict_cmd_def c pt_in_hbm_def pt_pinned_def look(1) evictable_def split: option.splits if_splits)
qed

text \<open>C3: Eviction is exact.  At or below the high watermark nothing happens.  Above it, pages
  are spilled until the resident count reaches the low watermark or no unpinned HBM page is
  left, never past the low watermark; the returned count is the number of pages that left
  HBM, and every page is either untouched or was an unpinned HBM page and is now spilled.\<close>

theorem evict_until_exact:
  assumes inv: "pt_inv pt" and run: "evict_until env pt hi lo pol = (n, pt')"
  shows "pt_inv pt' \<and>
    (resident_hbm_pages pt \<le> evict_low env pt hi \<longrightarrow> n = 0 \<and> pt' = pt) \<and>
    (evict_low env pt hi < resident_hbm_pages pt \<longrightarrow>
       resident_hbm_pages pt' \<le> evict_low env pt lo
       \<or> \<not> list_ex (\<lambda>(a, e). evictable e) (pt_table pt')) \<and>
    (evict_low env pt lo \<le> resident_hbm_pages pt \<longrightarrow> evict_low env pt lo \<le> resident_hbm_pages pt') \<and>
    n = word_of_nat (unat (resident_hbm_pages pt) - unat (resident_hbm_pages pt')) \<and>
    (\<forall>x. pt_lookup pt' x = pt_lookup pt x
       \<or> (\<exists>e. pt_lookup pt x = Some e \<and> evictable e \<and> pt_lookup pt' x = Some (spill e)))"
proof -
  have pt': "pt' = snd (evict_until env pt hi lo pol)" and n: "n = fst (evict_until env pt hi lo pol)"
    using run by simp_all
  note wf = pt_invD(2) [OF inv]
  let ?k = "length (victims env pt hi lo pol)"
  have cnt: "unat (resident_hbm_pages pt') + ?k = unat (resident_hbm_pages pt)"
    unfolding pt' by (rule evict_until_count [OF inv])
  have nk: "n = word_of_nat ?k"
    unfolding n evict_until_eq [OF wf] by simp
  have k: "?k = 0 \<or> ?k \<le> unat (resident_hbm_pages pt) - unat (evict_low env pt lo)"
    by (simp add: victims_def Let_def resident_hbm_pages_def)
  have "victims env pt hi lo pol = []" if "resident_hbm_pages pt \<le> evict_low env pt hi"
    using that by (simp add: victims_def resident_hbm_pages_def Let_def)
  then have "resident_hbm_pages pt \<le> evict_low env pt hi \<longrightarrow> n = 0 \<and> pt' = pt"
    unfolding pt' n evict_until_eq [OF wf] by simp
  moreover have "evict_low env pt hi < resident_hbm_pages pt \<longrightarrow>
       resident_hbm_pages pt' \<le> evict_low env pt lo
       \<or> \<not> list_ex (\<lambda>(a, e). evictable e) (pt_table pt')"
    unfolding pt' using evict_until_watermark [OF inv] by blast
  moreover have "evict_low env pt lo \<le> resident_hbm_pages pt \<longrightarrow> evict_low env pt lo \<le> resident_hbm_pages pt'"
    using cnt k by (auto simp: word_le_nat_alt)
  moreover have "n = word_of_nat (unat (resident_hbm_pages pt) - unat (resident_hbm_pages pt'))"
    using nk cnt by (metis add_diff_cancel_left')
  moreover have "pt_lookup pt' x = pt_lookup pt x
       \<or> (\<exists>e. pt_lookup pt x = Some e \<and> evictable e \<and> pt_lookup pt' x = Some (spill e))" for x
    using victim_lookup [OF inv, of x env hi lo pol] by (auto simp: pt' evict_until_pt_lookup [OF inv])
  moreover have "pt_inv pt'" unfolding pt' by (rule evict_until_inv [OF inv])
  ultimately show ?thesis by blast
qed

definition demo_pt_evicted :: page_table where
  "demo_pt_evicted = demo_pt\<lparr>pt_table :=
    [(0x10000, spill (snd (demo_page 0x10000 0 7))), demo_page 0x20000 1 3,
     (0x30000, spill (snd (demo_page 0x30000 0 5)))]\<rparr>"

lemma demo_evict: "evict_until demo_env demo_pt 20 10 Lru = (2, demo_pt_evicted)"
  by (simp add: demo_simps evict_until_def demo_pt_evicted_def count_residency_def
      um_count_def evict_cands_def evictable_def order_cands_def insort_key_def spill_def word_le_nat_alt)

theorem evict_until_exact_witness:
  "evict_low demo_env demo_pt 20 < resident_hbm_pages demo_pt \<and> pt_inv demo_pt_evicted
    \<and> evict_low demo_env demo_pt 10 \<le> resident_hbm_pages demo_pt_evicted
    \<and> (2 :: u32) = word_of_nat (unat (resident_hbm_pages demo_pt) - unat (resident_hbm_pages demo_pt_evicted))
    \<and> (\<forall>x. pt_lookup demo_pt_evicted x = pt_lookup demo_pt x
       \<or> (\<exists>e. pt_lookup demo_pt x = Some e \<and> evictable e \<and> pt_lookup demo_pt_evicted x = Some (spill e)))"
proof -
  have "evict_low demo_env demo_pt 20 < resident_hbm_pages demo_pt"
    "evict_low demo_env demo_pt 10 \<le> resident_hbm_pages demo_pt"
    by (simp_all add: demo_simps evict_low_def resident_hbm_pages_def count_residency_def um_count_def)
  then show ?thesis using evict_until_exact [OF demo_pt_inv demo_evict] by blast
qed

text \<open>Under either LRU policy a page is spilled only if no unpinned HBM page that stays
  was accessed earlier; and whatever sequence of evictions runs, with any watermarks and
  policies, a pinned page in HBM stays pinned and in HBM.\<close>

theorem evict_lru_and_pins:
  assumes inv: "pt_inv pt"
  shows "(pol \<noteq> Arc \<and> pt_lookup pt x = Some e \<and> pt_lookup (snd (evict_until env pt hi lo pol)) x \<noteq> Some e
      \<and> pt_lookup pt y = Some e' \<and> evictable e' \<and> pt_lookup (snd (evict_until env pt hi lo pol)) y = Some e'
      \<longrightarrow> pe_last_access_ns e \<le> pe_last_access_ns e') \<and>
    (pt_pinned pt z \<and> pt_in_hbm pt z \<longrightarrow>
      pt_in_hbm (fold evict_cmd cs pt) z
      \<and> pt_pinned (fold evict_cmd cs pt) z)"
proof (intro conjI impI)
  let ?al = "align_down (pt_page_bytes pt)"
  assume *: "pol \<noteq> Arc \<and> pt_lookup pt x = Some e \<and> pt_lookup (snd (evict_until env pt hi lo pol)) x \<noteq> Some e
      \<and> pt_lookup pt y = Some e' \<and> evictable e' \<and> pt_lookup (snd (evict_until env pt hi lo pol)) y = Some e'"
  have "spill e' \<noteq> e'" using * by (auto simp: spill_def evictable_def) (metis spill_def spill_simps(1) residency.distinct(17))
  with * have "?al x \<in> set (victims env pt hi lo pol)" "?al y \<notin> set (victims env pt hi lo pol)"
    by (auto simp: evict_until_pt_lookup [OF inv] split: if_splits)
  with * show "pe_last_access_ns e \<le> pe_last_access_ns e'"
    using victims_lru [OF pt_invD(2) [OF inv]] by (auto simp: pt_lookup_def)
next
  assume "pt_pinned pt z \<and> pt_in_hbm pt z"
  then show "pt_in_hbm (fold evict_cmd cs pt) z"
    "pt_pinned (fold evict_cmd cs pt) z"
    using pte.evictions_keep [OF inv] pte.evictions_pinned [OF inv] by auto
qed

lemma demo_evict_one: "snd (evict_until demo_env demo_pt 20 20 Lru) = demo_pt\<lparr>pt_table :=
    [demo_page 0x10000 0 7, demo_page 0x20000 1 3, (0x30000, spill (snd (demo_page 0x30000 0 5)))]\<rparr>"
  by (simp add: demo_simps evict_until_def count_residency_def um_count_def
      evict_cands_def evictable_def order_cands_def insort_key_def spill_def word_le_nat_alt)

theorem evict_lru_and_pins_witness:
  "pe_last_access_ns (snd (demo_page 0x30000 0 5)) \<le> pe_last_access_ns (snd (demo_page 0x10000 0 7)) \<and>
    pt_in_hbm (fold evict_cmd [(demo_env, 0, 0, Lru)] demo_pt) 0x20000
    \<and> pt_pinned (fold evict_cmd [(demo_env, 0, 0, Lru)] demo_pt) 0x20000"
proof -
  have a: "Lru \<noteq> Arc \<and> pt_lookup demo_pt 0x30000 = Some (snd (demo_page 0x30000 0 5))
      \<and> pt_lookup (snd (evict_until demo_env demo_pt 20 20 Lru)) 0x30000 \<noteq> Some (snd (demo_page 0x30000 0 5))
      \<and> pt_lookup demo_pt 0x10000 = Some (snd (demo_page 0x10000 0 7)) \<and> evictable (snd (demo_page 0x10000 0 7))
      \<and> pt_lookup (snd (evict_until demo_env demo_pt 20 20 Lru)) 0x10000 = Some (snd (demo_page 0x10000 0 7))"
    unfolding demo_evict_one
    by (simp add: demo_simps pt_lookup_def align_down_def evictable_def spill_def)
  have b: "pt_pinned demo_pt 0x20000 \<and> pt_in_hbm demo_pt 0x20000"
    by (simp add: demo_simps pt_pinned_def pt_in_hbm_def pt_lookup_def align_down_def)
  note w = evict_lru_and_pins [OF demo_pt_inv, of Lru "0x30000" "snd (demo_page 0x30000 0 5)" demo_env 20 20
      "0x10000" "snd (demo_page 0x10000 0 7)" "0x20000" "[(demo_env, 0, 0, Lru)]"]
  show ?thesis using conjunct1 [OF w, THEN mp, OF a] conjunct2 [OF w, THEN mp, OF b] by blast
qed

text \<open>\<open>incref\<close> fails, changing nothing, exactly on an unmapped page or a count of 0xFFFF;
  otherwise the page's count goes up by one without wrapping and the page is pinned, and the
  matching \<open>decref\<close> succeeds and restores every page of the table up to the access time.
  \<open>decref\<close> fails, changing nothing, exactly on an unmapped page or a zero count.\<close>

theorem refcount_pairing:
  assumes inv: "pt_inv pt"
  shows "(fst (incref t1 pt v) \<noteq> Ok \<longleftrightarrow>
       (case pt_lookup pt v of None \<Rightarrow> True | Some e \<Rightarrow> pe_refcount e = 0xFFFF)) \<and>
    (fst (decref t1 pt v) \<noteq> Ok \<longleftrightarrow>
       (case pt_lookup pt v of None \<Rightarrow> True | Some e \<Rightarrow> pe_refcount e = 0)) \<and>
    (fst (incref t1 pt v) \<noteq> Ok \<longrightarrow> incref t1 pt v = (InvalidArgument, pt)) \<and>
    (fst (decref t1 pt v) \<noteq> Ok \<longrightarrow> decref t1 pt v = (InvalidArgument, pt)) \<and>
    (fst (incref t1 pt v) = Ok \<longrightarrow>
       (\<exists>e e' pt1 pt2. incref t1 pt v = (Ok, pt1) \<and> pt_inv pt1 \<and> pt_pinned pt1 v
          \<and> pt_lookup pt v = Some e \<and> pt_lookup pt1 v = Some e'
          \<and> unat (pe_refcount e') = unat (pe_refcount e) + 1
          \<and> decref t2 pt1 v = (Ok, pt2) \<and> pt_inv pt2
          \<and> (\<forall>x. pt_lookup pt2 x = (if align_down (pt_page_bytes pt) x = align_down (pt_page_bytes pt) v
                then Some (e\<lparr>pe_last_access_ns := t2\<rparr>) else pt_lookup pt x))))"
proof -
  let ?al = "align_down (pt_page_bytes pt)"
  have "\<exists>e e' pt1 pt2. incref t1 pt v = (Ok, pt1) \<and> pt_inv pt1 \<and> pt_pinned pt1 v
          \<and> pt_lookup pt v = Some e \<and> pt_lookup pt1 v = Some e'
          \<and> unat (pe_refcount e') = unat (pe_refcount e) + 1
          \<and> decref t2 pt1 v = (Ok, pt2) \<and> pt_inv pt2
          \<and> (\<forall>x. pt_lookup pt2 x = (if ?al x = ?al v
                then Some (e\<lparr>pe_last_access_ns := t2\<rparr>) else pt_lookup pt x))"
    if "fst (incref t1 pt v) = Ok"
  proof -
    obtain pt1 where inc: "incref t1 pt v = (Ok, pt1)" using \<open>fst (incref t1 pt v) = Ok\<close> by (metis prod.collapse)
    obtain e where e: "pt_lookup pt v = Some e" "pe_refcount e \<noteq> 0xFFFF"
      and pt1: "pt1 = pt\<lparr>pt_table := AList.update (?al v)
         (e\<lparr>pe_refcount := pe_refcount e + 1, pe_last_access_ns := t1\<rparr>) (pt_table pt)\<rparr>"
      using inc by (rule incref_OkE)
    let ?pt2 = "pt\<lparr>pt_table := AList.update (?al v) (e\<lparr>pe_last_access_ns := t2\<rparr>) (pt_table pt)\<rparr>"
    have dec: "decref t2 pt1 v = (Ok, ?pt2)" using incref_decref [OF inc] e by auto
    have inv1: "pt_inv pt1" using incref_inv [OF inv, of t1 v] inc by simp
    have inv2: "pt_inv ?pt2" using decref_inv [OF inv1, of t2 v] dec by simp
    show ?thesis
      using inc inv1 inv2 e dec refcount_succ [OF e(2)]
      by (intro exI [of _ e] exI [of _ "e\<lparr>pe_refcount := pe_refcount e + 1, pe_last_access_ns := t1\<rparr>"]
          exI [of _ pt1] exI [of _ ?pt2]) (auto simp: pt1 pt_pinned_def pt_lookup_def)
  qed
  then show ?thesis by (auto simp: incref_eq decref_eq split: option.splits)
qed

theorem refcount_pairing_witness:
  "\<exists>e e' pt1 pt2. incref 4 demo_pt 0x10008 = (Ok, pt1) \<and> pt_inv pt1 \<and> pt_pinned pt1 0x10008
      \<and> pt_lookup demo_pt 0x10008 = Some e \<and> pt_lookup pt1 0x10008 = Some e'
      \<and> unat (pe_refcount e') = unat (pe_refcount e) + 1
      \<and> decref 6 pt1 0x10008 = (Ok, pt2) \<and> pt_inv pt2
      \<and> (\<forall>x. pt_lookup pt2 x = (if align_down (pt_page_bytes demo_pt) x = align_down (pt_page_bytes demo_pt) 0x10008
            then Some (e\<lparr>pe_last_access_ns := 6\<rparr>) else pt_lookup demo_pt x))"
proof -
  have "fst (incref 4 demo_pt 0x10008) = Ok"
    by (simp add: demo_simps incref_def align_down_def)
  then show ?thesis using refcount_pairing [OF demo_pt_inv, of 4 "0x10008" 6] by blast
qed

end
