(* ===== verification/Ilc.thy ===== *)
theory Ilc
  imports Platform
begin

text \<open>
  The inline-compression manager of \<^verbatim>\<open>src/firmware/ilc_manager.hpp\<close> and
  \<^verbatim>\<open>ilc_manager.cpp\<close>: a switch, two counters and the set of tagged allocations.
\<close>

record ilc =
  ilc_on :: bool
  ilc_total_bytes :: u64
  ilc_total_allocs :: u64
  ilc_tagged :: "ptr list"

definition ilc_create :: ilc where
  "ilc_create = \<lparr>ilc_on = False, ilc_total_bytes = 0, ilc_total_allocs = 0, ilc_tagged = []\<rparr>"

definition ilc_enable :: "'p env \<Rightarrow> ilc \<Rightarrow> status \<times> ilc" where
  "ilc_enable env m =
     (if \<not> ff_ilc (dd_features (e_device env)) then (NotImplemented, m)
      else (Ok, m\<lparr>ilc_on := True\<rparr>))"

definition ilc_disable :: "'p backend \<Rightarrow> 'p env \<Rightarrow> ilc \<Rightarrow> status \<times> 'p env \<times> ilc" where
  "ilc_disable pf env m =
     (if \<not> ilc_on m then (Ok, env, m)
      else (Ok, fold (\<lambda>h e. snd (b_ilc_untag pf h e)) (ilc_tagged m) env,
            m\<lparr>ilc_tagged := [], ilc_on := False\<rparr>))"

definition ilc_tag :: "'p backend \<Rightarrow> ptr \<Rightarrow> u64 \<Rightarrow> 'p env \<Rightarrow> ilc \<Rightarrow> status \<times> 'p env \<times> ilc" where
  "ilc_tag pf h bytes env m =
     (if \<not> ilc_on m then (NotImplemented, env, m)
      else (let (s, env') = b_ilc_tag pf h env
            in if \<not> ok s then (s, env', m)
               else (Ok, env', m\<lparr>ilc_tagged := List.insert h (ilc_tagged m),
                      ilc_total_bytes := ilc_total_bytes m + bytes,
                      ilc_total_allocs := ilc_total_allocs m + 1\<rparr>)))"

definition ilc_untag :: "'p backend \<Rightarrow> ptr \<Rightarrow> 'p env \<Rightarrow> ilc \<Rightarrow> status \<times> 'p env \<times> ilc" where
  "ilc_untag pf h env m =
     (if \<not> ilc_on m then (Ok, env, m)
      else if h \<notin> set (ilc_tagged m) then (InvalidArgument, env, m)
      else (let (s, env') = b_ilc_untag pf h env
            in (s, env', m\<lparr>ilc_tagged := remove1 h (ilc_tagged m)\<rparr>)))"

subsection \<open>The tag set\<close>

definition ilc_inv :: "ilc \<Rightarrow> bool" where
  "ilc_inv m = (distinct (ilc_tagged m) \<and> (ilc_on m \<or> ilc_tagged m = []))"

lemma ilc_inv_create: "ilc_inv ilc_create"
  by (simp add: ilc_inv_def ilc_create_def)

lemma ilc_enable_inv: "ilc_inv m \<Longrightarrow> ilc_inv (snd (ilc_enable env m))"
  by (simp add: ilc_inv_def ilc_enable_def)

lemma ilc_disable_inv: "ilc_inv m \<Longrightarrow> ilc_inv (snd (snd (ilc_disable pf env m)))"
  by (auto simp: ilc_inv_def ilc_disable_def)

lemma ilc_tag_inv: "ilc_inv m \<Longrightarrow> ilc_inv (snd (snd (ilc_tag pf h b env m)))"
  by (auto simp: ilc_inv_def ilc_tag_def split: prod.split)

lemma ilc_untag_inv: "ilc_inv m \<Longrightarrow> ilc_inv (snd (snd (ilc_untag pf h env m)))"
  by (auto simp: ilc_inv_def ilc_untag_def split: prod.split)

lemma ilc_tag_untag:
  assumes "ilc_inv m" and "h \<notin> set (ilc_tagged m)" and "ilc_tag pf h b env m = (Ok, env1, m1)"
  shows "ilc_tagged (snd (snd (ilc_untag pf h env1 m1))) = ilc_tagged m"
  using assms by (auto simp: ilc_tag_def ilc_untag_def split: prod.splits if_splits)

lemma ilc_disable_off [simp]:
  "\<not> ilc_on (snd (snd (ilc_disable pf env m)))" "fst (ilc_disable pf env m) = Ok"
  by (simp_all add: ilc_disable_def)

lemma ilc_disable_idem: "ilc_disable pf env' (snd (snd (ilc_disable pf env m)))
    = (Ok, env', snd (snd (ilc_disable pf env m)))"
  by (simp add: ilc_disable_def)

end
