(* ===== verification/MemManager.thy ===== *)
theory MemManager
  imports PageTable Ilc Interfaces
begin

text \<open>
  The memory manager (\<^verbatim>\<open>src/memory/manager.hpp\<close>, \<^verbatim>\<open>manager.cpp\<close>) and the
  coalescer (\<^verbatim>\<open>coalescer.hpp\<close>, \<^verbatim>\<open>coalescer.cpp\<close>).  An operation takes the state
  it can reach through its \<^verbatim>\<open>FirmwareContext&\<close>: the backend environment, the optional
  ILC manager, and the manager itself.  The page-table loops make the results optional
  (\<^term>\<open>None\<close> would be a loop that never ends); they always return, as is proved below.
\<close>

subsection \<open>Data\<close>

record allocation =
  al_vaddr :: u64
  al_bytes :: u64
  al_hints :: alloc_hints
  al_hbm_ptr :: ptr
  al_host_ptr :: ptr
  al_ilc_tagged :: bool

definition allocation_default :: allocation where
  "allocation_default = \<lparr>al_vaddr = 0, al_bytes = 0, al_hints = alloc_hints_default,
     al_hbm_ptr = 0, al_host_ptr = 0, al_ilc_tagged = False\<rparr>"

record mem_mgr =
  mm_pt :: page_table
  mm_live :: "(ptr, allocation) umap"
  mm_bytes_allocated :: u64

record 'p mstate =
  ms_env :: "'p env"
  ms_ilc :: "ilc option"
  ms_mm :: mem_mgr

definition mm_create :: "'p env \<Rightarrow> mem_mgr" where
  "mm_create env = \<lparr>mm_pt = pt_create env (ph_vaddress_base (e_plat env)) (ph_vaddress_size (e_plat env)),
     mm_live = [], mm_bytes_allocated = 0\<rparr>"

subsection \<open>Operations\<close>

definition mm_map :: "(u64 \<Rightarrow> u64) \<Rightarrow> u64 \<Rightarrow> u64 \<Rightarrow> 'p mstate \<Rightarrow> 'p mstate option" where
  "mm_map clk hbm bytes st =
     map_option (\<lambda>(s, pt). st\<lparr>ms_mm := (ms_mm st)\<lparr>mm_pt := pt\<rparr>\<rparr>)
       (map_range clk (mm_pt (ms_mm st)) hbm bytes Hbm hbm)"

definition advise_read_mostly :: "(u64 \<Rightarrow> u64) \<Rightarrow> ptr \<Rightarrow> u64 \<Rightarrow> 'p mstate \<Rightarrow> (status \<times> 'p mstate) option" where
  "advise_read_mostly clk hbm bytes st =
     map_option (\<lambda>(s, pt). (s, st\<lparr>ms_mm := (ms_mm st)\<lparr>mm_pt := pt\<rparr>\<rparr>))
       (map_range clk (mm_pt (ms_mm st)) hbm bytes Hbm hbm)"

definition mm_tag :: "'p backend \<Rightarrow> alloc_hints \<Rightarrow> ptr \<Rightarrow> u64 \<Rightarrow> allocation \<Rightarrow> 'p mstate
    \<Rightarrow> allocation \<times> 'p mstate" where
  "mm_tag pf hints hbm bytes out st =
     (case ms_ilc st of
        None \<Rightarrow> (out, st)
      | Some ic \<Rightarrow>
          if ah_ilc hints \<and> ilc_on ic
          then (let (s, env', ic') = ilc_tag pf hbm bytes (ms_env st) ic
                in (out\<lparr>al_ilc_tagged := ok s\<rparr>, st\<lparr>ms_env := env', ms_ilc := Some ic'\<rparr>))
          else (out, st))"

definition mm_alloc :: "'p backend \<Rightarrow> (u64 \<Rightarrow> u64) \<Rightarrow> u64 \<Rightarrow> alloc_hints \<Rightarrow> allocation \<Rightarrow> 'p mstate
    \<Rightarrow> (status \<times> allocation \<times> 'p mstate) option" where
  "mm_alloc pf clk bytes hints out st =
     (if bytes = 0 then Some (InvalidArgument, out, st)
      else (let (s, hbm, env1) = b_alloc_hbm pf bytes (ms_env st);
                st1 = st\<lparr>ms_env := env1\<rparr>
            in if \<not> ok s then Some (s, out, st1)
               else (let out1 = out\<lparr>al_vaddr := hbm, al_bytes := bytes, al_hints := hints, al_hbm_ptr := hbm\<rparr>;
                         (out2, st2) = mm_tag pf hints hbm bytes out1 st1
                     in Option.bind (mm_map clk (al_vaddr out2) bytes st2) (\<lambda>st3.
                        Option.bind (if ah_read_mostly hints
                                     then map_option snd (advise_read_mostly clk hbm bytes st3)
                                     else Some st3) (\<lambda>st4.
                        Some (Ok, out2, st4\<lparr>ms_mm := (ms_mm st4)\<lparr>
                          mm_live := AList.update hbm out2 (mm_live (ms_mm st4)),
                          mm_bytes_allocated := mm_bytes_allocated (ms_mm st4) + bytes\<rparr>\<rparr>))))))"

definition mm_untag :: "'p backend \<Rightarrow> allocation \<Rightarrow> 'p mstate \<Rightarrow> 'p mstate" where
  "mm_untag pf a st =
     (case ms_ilc st of
        None \<Rightarrow> st
      | Some ic \<Rightarrow>
          if al_ilc_tagged a
          then (let (s, env', ic') = ilc_untag pf (al_hbm_ptr a) (ms_env st) ic
                in st\<lparr>ms_env := env', ms_ilc := Some ic'\<rparr>)
          else st)"

definition mm_free :: "'p backend \<Rightarrow> allocation \<Rightarrow> 'p mstate \<Rightarrow> (status \<times> 'p mstate) option" where
  "mm_free pf a st =
     (case map_of (mm_live (ms_mm st)) (al_hbm_ptr a) of
        None \<Rightarrow> Some (InvalidArgument, st)
      | Some _ \<Rightarrow>
          (let st1 = mm_untag pf a st
           in Option.bind (unmap_range (mm_pt (ms_mm st1)) (al_vaddr a) (al_bytes a)) (\<lambda>(us, pt').
              let (s, env2) = b_free_hbm pf (al_hbm_ptr a) (ms_env st1);
                  st2 = st1\<lparr>ms_env := env2, ms_mm := (ms_mm st1)\<lparr>mm_pt := pt'\<rparr>\<rparr>
              in if \<not> ok s then Some (s, st2)
                 else Some (Ok, st2\<lparr>ms_mm := (ms_mm st2)\<lparr>
                        mm_bytes_allocated := mm_bytes_allocated (ms_mm st2) - al_bytes a,
                        mm_live := AList.delete (al_hbm_ptr a) (mm_live (ms_mm st2))\<rparr>\<rparr>))))"

definition mm_prefetch :: "'p backend \<Rightarrow> ptr \<Rightarrow> u64 \<Rightarrow> 'p mstate \<Rightarrow> status \<times> 'p mstate" where
  "mm_prefetch pf hbm bytes st =
     (let (s, env') = b_prefetch_range pf hbm bytes (ms_env st) in (s, st\<lparr>ms_env := env'\<rparr>))"

definition destroy_one :: "'p backend \<Rightarrow> allocation \<Rightarrow> 'p mstate \<Rightarrow> 'p mstate" where
  "destroy_one pf a st =
     (let st1 = (if al_hbm_ptr a \<noteq> 0 then st\<lparr>ms_env := snd (b_free_hbm pf (al_hbm_ptr a) (ms_env st))\<rparr>
                 else st)
      in mm_untag pf a st1)"

definition mm_destroy :: "'p backend \<Rightarrow> 'p mstate \<Rightarrow> 'p mstate" where
  "mm_destroy pf st =
     (let st1 = fold (\<lambda>(p, a). destroy_one pf a) (mm_live (ms_mm st)) st
      in st1\<lparr>ms_mm := (ms_mm st1)\<lparr>mm_live := []\<rparr>\<rparr>)"

subsection \<open>Coalescer and statistics\<close>

definition coalescer_run :: "status \<times> u32" where
  "coalescer_run = (Ok, 0)"

definition align_to_warp :: "u64 \<Rightarrow> arch \<Rightarrow> u64" where
  "align_to_warp v a = (let b = 128 in (v + b - 1) AND NOT (b - 1))"

definition mm_coalesce :: "status \<times> u32" where
  "mm_coalesce = coalescer_run"

definition page_unit_kb :: "'p env \<Rightarrow> u64" where
  "page_unit_kb env = (if dd_arch (e_device env) = Hopper then 128 else 64)"

definition bytes_resident_hbm :: "'p mstate \<Rightarrow> u64" where
  "bytes_resident_hbm st = resident_hbm_pages (mm_pt (ms_mm st)) * page_unit_kb (ms_env st) * 1024"

definition bytes_spilled :: "'p mstate \<Rightarrow> u64" where
  "bytes_spilled st = spilled_pages (mm_pt (ms_mm st)) * page_unit_kb (ms_env st) * 1024"

definition fragmentation_pct :: "u32" where
  "fragmentation_pct = 12"

subsection \<open>The page table as the manager uses it\<close>

definition pt_map :: "(u64 \<Rightarrow> u64) \<Rightarrow> page_table \<Rightarrow> u64 \<Rightarrow> u64 \<Rightarrow> u64 \<Rightarrow> page_table" where
  "pt_map clk pt v b p = snd (the (map_range clk pt v b Hbm p))"

definition pt_unmap :: "page_table \<Rightarrow> u64 \<Rightarrow> u64 \<Rightarrow> page_table" where
  "pt_unmap pt v b = snd (the (unmap_range pt v b))"

subsection \<open>The page-mapping interface\<close>

lemma pt_map_eq: "pt_valid_kb pt \<Longrightarrow> map_range clk pt v b Hbm p = Some (Ok, pt_map clk pt v b p)"
  by (simp add: pt_map_def map_range_fold)

lemma pt_unmap_eq: "pt_valid_kb pt \<Longrightarrow> unmap_range pt v b = Some (fst (the (unmap_range pt v b)), pt_unmap pt v b)"
  by (simp add: pt_unmap_def unmap_range_fold)

lemma pt_map_lookup:
  "pt_valid_kb pt \<Longrightarrow> pt_lookup (pt_map clk pt v b p) x =
    (if in_pages pt v b x
     then Some (mapped_entry clk pt (pt_range_start pt v) Hbm p (align_down (pt_page_bytes pt) x))
     else pt_lookup pt x)"
  using map_range_lookup [of pt clk v b Hbm p] by (auto simp: pt_map_def)

lemma pt_map_inv: "pt_inv pt \<Longrightarrow> pt_inv (pt_map clk pt v b p)"
  by (rule map_range_inv [OF _ pt_map_eq [OF pt_invD(1)]])

lemma pt_unmap_inv: "pt_inv pt \<Longrightarrow> pt_inv (pt_unmap pt v b)"
  by (rule unmap_range_inv [OF _ pt_unmap_eq [OF pt_invD(1)]])

lemma pt_map_geometry [simp]:
  "pt_valid_kb pt \<Longrightarrow> pt_page_bytes (pt_map clk pt v b p) = pt_page_bytes pt"
  "pt_valid_kb pt \<Longrightarrow> pt_shift (pt_map clk pt v b p) = pt_shift pt"
  "pt_valid_kb pt \<Longrightarrow> pt_valid_kb (pt_map clk pt v b p)"
  "pt_valid_kb pt \<Longrightarrow> in_pages (pt_map clk pt v b p) v' b' x = in_pages pt v' b' x"
  by (simp_all add: pt_map_def map_range_fold in_pages_def)

lemma pt_unmap_geometry [simp]:
  "pt_valid_kb pt \<Longrightarrow> pt_page_bytes (pt_unmap pt v b) = pt_page_bytes pt"
  "pt_valid_kb pt \<Longrightarrow> pt_shift (pt_unmap pt v b) = pt_shift pt"
  "pt_valid_kb pt \<Longrightarrow> pt_valid_kb (pt_unmap pt v b)"
  "pt_valid_kb pt \<Longrightarrow> in_pages (pt_unmap pt v b) v' b' x = in_pages pt v' b' x"
  by (simp_all add: pt_unmap_def unmap_range_fold in_pages_def)

lemma pt_unmap_lookup:
  "pt_valid_kb pt \<Longrightarrow> pt_lookup (pt_unmap pt v b) x =
    (if in_pages pt v b x \<and> \<not> pinned_below pt v b x then None else pt_lookup pt x)"
  using unmap_range_lookup [of pt v b] by (auto simp: pt_unmap_def)

lemma pinned_at_lookup:
  "align_down (pt_page_bytes pt) a = a \<Longrightarrow> pinned_at (pt_table pt) a =
    (case pt_lookup pt a of None \<Rightarrow> False | Some e \<Rightarrow> pe_refcount e > 0)"
  by (simp add: pinned_at_def pt_lookup_def)

lemma pinned_below_map:
  assumes kb: "pt_valid_kb pt"
  shows "\<not> pinned_below (pt_map clk pt v b p) v b x"
proof -
  have "\<not> pinned_at (pt_table (pt_map clk pt v b p)) a" if a: "a \<in> set (pt_pages pt v b)" for a
    using page_seq_aligned [OF kb a] page_seq_member [OF kb, of a v b] a
    by (simp add: pinned_at_lookup kb pt_map_lookup mapped_entry_def)
  moreover have "pt_pages (pt_map clk pt v b p) v b = pt_pages pt v b"
    by (simp add: kb pt_range_start_def pt_range_end_def)
  ultimately show ?thesis by (auto simp: pinned_below_def list_ex_iff)
qed

interpretation pm: page_mapper pt_inv "\<lambda>pt v b. pt_map clk pt v b v" pt_unmap pt_lookup
  "\<lambda>e. pe_residency e = Hbm" in_pages for clk
proof
  fix t :: page_table and v b x v' b'
  assume t: "pt_inv t"
  note kb = pt_invD(1) [OF t]
  show "pt_inv (pt_map clk t v b v)" by (rule pt_map_inv [OF t])
  show "pt_inv (pt_unmap t v b)" by (rule pt_unmap_inv [OF t])
  show "in_pages (pt_map clk t v b v) v' b' x = in_pages t v' b' x" by (simp add: kb)
  show "in_pages (pt_unmap t v b) v' b' x = in_pages t v' b' x" by (simp add: kb)
  show "\<exists>e. pt_lookup (pt_map clk t v b v) x = Some e \<and> pe_residency e = Hbm" if "in_pages t v b x"
    using that by (simp add: pt_map_lookup kb mapped_entry_def)
  show "pt_lookup (pt_map clk t v b v) x = pt_lookup t x" if "\<not> in_pages t v b x"
    using that by (simp add: pt_map_lookup kb)
  show "pt_lookup (pt_unmap t v b) x = pt_lookup t x" if "\<not> in_pages t v b x"
    using that by (simp add: pt_unmap_lookup kb)
  show "pt_lookup (pt_unmap (pt_map clk t v b v) v b) x = None" if "in_pages t v b x"
    using that by (simp add: pt_unmap_lookup kb pinned_below_map)
qed

subsection \<open>What alloc and free do\<close>

lemma um_update_new: "map_of m k = None \<Longrightarrow> AList.update k v m = m @ [(k, v)]"
  by (induction m) (auto split: if_splits)

lemma mm_map_eq: "pt_valid_kb (mm_pt (ms_mm st)) \<Longrightarrow>
  mm_map clk p b st = Some (st\<lparr>ms_mm := (ms_mm st)\<lparr>mm_pt := pt_map clk (mm_pt (ms_mm st)) p b p\<rparr>\<rparr>)"
  by (simp add: mm_map_def pt_map_eq)

lemma advise_eq: "pt_valid_kb (mm_pt (ms_mm st)) \<Longrightarrow>
  advise_read_mostly clk p b st
    = Some (Ok, st\<lparr>ms_mm := (ms_mm st)\<lparr>mm_pt := pt_map clk (mm_pt (ms_mm st)) p b p\<rparr>\<rparr>)"
  by (simp add: advise_read_mostly_def pt_map_eq)

definition alloc_pt :: "(u64 \<Rightarrow> u64) \<Rightarrow> alloc_hints \<Rightarrow> ptr \<Rightarrow> u64 \<Rightarrow> page_table \<Rightarrow> page_table" where
  "alloc_pt clk hints p b pt =
     (let pt1 = pt_map clk pt p b p in if ah_read_mostly hints then pt_map clk pt1 p b p else pt1)"

lemma mm_tag_frame:
  assumes "mm_tag pf hints hbm bytes out st = (out', st')"
  shows "ms_mm st' = ms_mm st" "al_vaddr out' = al_vaddr out" "al_bytes out' = al_bytes out"
    "al_hbm_ptr out' = al_hbm_ptr out" "al_hints out' = al_hints out"
  using assms by (auto simp: mm_tag_def split: option.splits if_splits prod.splits)

lemma mm_alloc_cases:
  assumes kb: "pt_valid_kb (mm_pt (ms_mm st))"
  obtains (zero) "bytes = 0" "mm_alloc pf clk bytes hints out st = Some (InvalidArgument, out, st)"
  | (fail) s hbm env1 where "bytes \<noteq> 0" "b_alloc_hbm pf bytes (ms_env st) = (s, hbm, env1)" "s \<noteq> Ok"
      "mm_alloc pf clk bytes hints out st = Some (s, out, st\<lparr>ms_env := env1\<rparr>)"
  | (success) hbm env1 out' st2 where "bytes \<noteq> 0" "b_alloc_hbm pf bytes (ms_env st) = (Ok, hbm, env1)"
      "al_vaddr out' = hbm" "al_bytes out' = bytes" "al_hbm_ptr out' = hbm" "al_hints out' = hints"
      "mm_alloc pf clk bytes hints out st = Some (Ok, out', st2\<lparr>ms_mm :=
         \<lparr>mm_pt = alloc_pt clk hints hbm bytes (mm_pt (ms_mm st)),
          mm_live = AList.update hbm out' (mm_live (ms_mm st)),
          mm_bytes_allocated = mm_bytes_allocated (ms_mm st) + bytes\<rparr>\<rparr>)"
proof (cases "bytes = 0")
  case True
  then show ?thesis by (intro zero) (simp_all add: mm_alloc_def)
next
  case False
  obtain s hbm env1 where b: "b_alloc_hbm pf bytes (ms_env st) = (s, hbm, env1)"
    by (cases "b_alloc_hbm pf bytes (ms_env st)") auto
  show ?thesis
  proof (cases "s = Ok")
    case False
    with \<open>bytes \<noteq> 0\<close> b show ?thesis by (intro fail) (simp_all add: mm_alloc_def)
  next
    case True
    let ?out1 = "out\<lparr>al_vaddr := hbm, al_bytes := bytes, al_hints := hints, al_hbm_ptr := hbm\<rparr>"
    obtain out' st2 where t: "mm_tag pf hints hbm bytes ?out1 (st\<lparr>ms_env := env1\<rparr>) = (out', st2)"
      by (cases "mm_tag pf hints hbm bytes ?out1 (st\<lparr>ms_env := env1\<rparr>)") auto
    note fr = mm_tag_frame [OF t]
    show ?thesis
    proof (rule success [of hbm env1 out' st2])
      show "mm_alloc pf clk bytes hints out st = Some (Ok, out', st2\<lparr>ms_mm :=
         \<lparr>mm_pt = alloc_pt clk hints hbm bytes (mm_pt (ms_mm st)),
          mm_live = AList.update hbm out' (mm_live (ms_mm st)),
          mm_bytes_allocated = mm_bytes_allocated (ms_mm st) + bytes\<rparr>\<rparr>)"
        using \<open>bytes \<noteq> 0\<close> b True t fr kb
        by (simp add: mm_alloc_def mm_map_eq advise_eq alloc_pt_def Let_def)
    qed (use \<open>bytes \<noteq> 0\<close> b True fr in simp_all)
  qed
qed

lemma mm_untag_mm [simp]: "ms_mm (mm_untag pf a st) = ms_mm st"
  by (simp add: mm_untag_def split: option.split prod.split)

lemma mm_free_cases:
  assumes kb: "pt_valid_kb (mm_pt (ms_mm st))"
  obtains (unknown) "map_of (mm_live (ms_mm st)) (al_hbm_ptr a) = None"
      "mm_free pf a st = Some (InvalidArgument, st)"
  | (fail) s st1 where "map_of (mm_live (ms_mm st)) (al_hbm_ptr a) \<noteq> None" "s \<noteq> Ok"
      "mm_free pf a st = Some (s, st1\<lparr>ms_mm := (ms_mm st)\<lparr>mm_pt :=
          pt_unmap (mm_pt (ms_mm st)) (al_vaddr a) (al_bytes a)\<rparr>\<rparr>)"
  | (success) st1 where "map_of (mm_live (ms_mm st)) (al_hbm_ptr a) \<noteq> None"
      "mm_free pf a st = Some (Ok, st1\<lparr>ms_mm :=
         \<lparr>mm_pt = pt_unmap (mm_pt (ms_mm st)) (al_vaddr a) (al_bytes a),
          mm_live = AList.delete (al_hbm_ptr a) (mm_live (ms_mm st)),
          mm_bytes_allocated = mm_bytes_allocated (ms_mm st) - al_bytes a\<rparr>\<rparr>)"
proof (cases "map_of (mm_live (ms_mm st)) (al_hbm_ptr a)")
  case None
  then show ?thesis by (intro unknown) (simp_all add: mm_free_def)
next
  case (Some v)
  let ?st1 = "mm_untag pf a st"
  obtain s env2 where f: "b_free_hbm pf (al_hbm_ptr a) (ms_env ?st1) = (s, env2)"
    by (cases "b_free_hbm pf (al_hbm_ptr a) (ms_env ?st1)") auto
  obtain us where u: "unmap_range (mm_pt (ms_mm st)) (al_vaddr a) (al_bytes a)
      = Some (us, pt_unmap (mm_pt (ms_mm st)) (al_vaddr a) (al_bytes a))"
    using pt_unmap_eq [OF kb] by blast
  show ?thesis
  proof (cases "s = Ok")
    case True
    then show ?thesis
      using Some f u by (intro success [of "?st1\<lparr>ms_env := env2\<rparr>"]) (simp_all add: mm_free_def Let_def)
  next
    case False
    then show ?thesis
      using Some f u by (intro fail [of s "?st1\<lparr>ms_env := env2\<rparr>"]) (simp_all add: mm_free_def Let_def)
  qed
qed

subsection \<open>Accounting\<close>

definition live_bytes :: "mem_mgr \<Rightarrow> u64" where
  "live_bytes mm = sum_list (map (\<lambda>(p, a). al_bytes a) (mm_live mm))"

definition mm_inv :: "mem_mgr \<Rightarrow> bool" where
  "mm_inv mm = (pt_inv (mm_pt mm) \<and> um_wf (mm_live mm)
     \<and> mm_bytes_allocated mm = live_bytes mm
     \<and> list_all (\<lambda>(p, a). al_hbm_ptr a = p \<and> al_vaddr a = p) (mm_live mm))"

lemma mm_free_mm:
  assumes kb: "pt_valid_kb (mm_pt (ms_mm st))" and same: "ms_mm st' = ms_mm st"
    and f: "mm_free pf a st = Some (s, st1)" "mm_free pf a st' = Some (s, st1')"
  shows "ms_mm st1' = ms_mm st1"
proof -
  have kb': "pt_valid_kb (mm_pt (ms_mm st'))" using kb same by simp
  show ?thesis using f same
    by (cases rule: mm_free_cases [OF kb, where pf = pf and a = a];
        cases rule: mm_free_cases [OF kb', where pf = pf and a = a]) auto
qed

lemma mm_inv_create: "mm_inv (mm_create env)"
  by (simp add: mm_inv_def mm_create_def pt_inv_create live_bytes_def)

lemma alloc_pt_inv: "pt_inv pt \<Longrightarrow> pt_inv (alloc_pt clk hints p b pt)"
  by (simp add: alloc_pt_def pm.map_inv Let_def)

lemma alloc_pt_mapped:
  "pt_inv pt \<Longrightarrow> mapped_in pt_lookup (\<lambda>e. pe_residency e = Hbm) (alloc_pt clk hints p b pt) x
    = (in_pages pt p b x \<or> mapped_in pt_lookup (\<lambda>e. pe_residency e = Hbm) pt x)"
  by (simp add: alloc_pt_def Let_def pm.map_twice pm.mapped_after_map)

lemma sum_delete_live:
  "um_wf m \<Longrightarrow> map_of m p = Some a \<Longrightarrow>
    sum_list (map (\<lambda>(p, a). al_bytes a) (AList.delete p m)) = sum_list (map (\<lambda>(p, a). al_bytes a) m) - al_bytes a"
proof (induction m)
  case (Cons kv m)
  obtain k v where kv: "kv = (k, v)" by force
  show ?case
  proof (cases "k = p")
    case True
    then have "p \<notin> fst ` set m" using Cons.prems by (auto simp: um_wf_def kv)
    then show ?thesis using Cons.prems True by (simp add: kv)
  next
    case False
    then show ?thesis using Cons by (simp add: kv um_wf_def)
  qed
qed simp

lemma set_delete: "set (AList.delete k m) \<subseteq> set m"
  by (induction m) auto

lemma mm_alloc_returns: "pt_valid_kb (mm_pt (ms_mm st)) \<Longrightarrow> mm_alloc pf clk bytes hints out st \<noteq> None"
  by (erule mm_alloc_cases [where pf = pf and clk = clk and bytes = bytes and hints = hints and out = out]) auto

lemma mm_free_returns: "pt_valid_kb (mm_pt (ms_mm st)) \<Longrightarrow> mm_free pf a st \<noteq> None"
  by (erule mm_free_cases [where pf = pf and a = a]) auto

subsection \<open>What the memory manager promises\<close>

text \<open>The driver's contract: the pointer it returns is not one of a live allocation.\<close>

definition alloc_fresh :: "'p backend \<Rightarrow> u64 \<Rightarrow> 'p mstate \<Rightarrow> bool" where
  "alloc_fresh pf bytes st = (case b_alloc_hbm pf bytes (ms_env st) of
     (s, hbm, env') \<Rightarrow> s = Ok \<longrightarrow> map_of (mm_live (ms_mm st)) hbm = None)"

text \<open>The bytes recorded for a pointer.\<close>

definition recorded :: "mem_mgr \<Rightarrow> ptr \<Rightarrow> u64" where
  "recorded mm p = (case map_of (mm_live mm) p of None \<Rightarrow> 0 | Some a \<Rightarrow> al_bytes a)"

text \<open>The states that any operations reach, in any order, with any records and any driver.  The
  last argument sums up, modulo 2^64, by how much the operations so far gave the counter less
  back than the table lost: an allocation at a pointer that is still live replaces its record,
  and a release takes off the size in the caller's record, not the one in the table.\<close>

inductive mm_reach :: "'p backend \<Rightarrow> (u64 \<Rightarrow> u64) \<Rightarrow> 'p mstate \<Rightarrow> u64 \<Rightarrow> bool" for pf clk where
  init: "ms_mm st = mm_create (ms_env st) \<Longrightarrow> mm_reach pf clk st 0"
| alloc: "mm_reach pf clk st d \<Longrightarrow> mm_alloc pf clk bytes hints out st = Some (s, a, st') \<Longrightarrow>
    mm_reach pf clk st' (if s = Ok then d + recorded (ms_mm st) (al_hbm_ptr a) else d)"
| free: "mm_reach pf clk st d \<Longrightarrow> mm_free pf a st = Some (s, st') \<Longrightarrow>
    mm_reach pf clk st' (if s = Ok then d + (recorded (ms_mm st) (al_hbm_ptr a) - al_bytes a) else d)"
| advise: "mm_reach pf clk st d \<Longrightarrow> advise_read_mostly clk p b st = Some (s, st') \<Longrightarrow> mm_reach pf clk st' d"
| prefetch: "mm_reach pf clk st d \<Longrightarrow> mm_prefetch pf p b st = (s, st') \<Longrightarrow> mm_reach pf clk st' d"

lemma mapped_entry_map [simp]: "pt_valid_kb pt \<Longrightarrow>
  mapped_entry clk (pt_map clk' pt v b p) start res phys a = mapped_entry clk pt start res phys a"
  by (simp add: mapped_entry_def pt_map_def map_range_fold)

lemma range_start_map [simp]: "pt_valid_kb pt \<Longrightarrow> pt_range_start (pt_map clk pt v b p) v' = pt_range_start pt v'"
  by (simp add: pt_map_def map_range_fold)

lemma delete_snoc: "map_of m k = None \<Longrightarrow> AList.delete k (m @ [(k, v)]) = m"
  by (induction m) (auto split: if_splits)

lemma mm_inv_kb: "mm_inv mm \<Longrightarrow> pt_valid_kb (mm_pt mm)"
  by (simp add: mm_inv_def pt_invD(1))

text \<open>The invariant up to that difference.\<close>

definition mm_books :: "mem_mgr \<Rightarrow> u64 \<Rightarrow> bool" where
  "mm_books mm d = (pt_inv (mm_pt mm) \<and> um_wf (mm_live mm)
     \<and> mm_bytes_allocated mm = live_bytes mm + d
     \<and> list_all (\<lambda>(p, a). al_hbm_ptr a = p \<and> al_vaddr a = p) (mm_live mm))"

lemma mm_books_inv: "mm_books mm 0 = mm_inv mm"
  by (simp add: mm_books_def mm_inv_def)

lemma mm_books_kb: "mm_books mm d \<Longrightarrow> pt_valid_kb (mm_pt mm)"
  by (simp add: mm_books_def pt_invD(1))

lemma set_update_subset: "set (AList.update k v m) \<subseteq> insert (k, v) (set m)"
  by (induction m) auto

lemma sum_update_live:
  "sum_list (map (\<lambda>(p, a). al_bytes a) (AList.update p a m))
    = sum_list (map (\<lambda>(p, a). al_bytes a) m) + al_bytes a - (case map_of m p of None \<Rightarrow> 0 | Some x \<Rightarrow> al_bytes x)"
  by (induction m) (auto split: option.split)

lemma mm_alloc_books:
  assumes inv: "mm_books (ms_mm st) d" and res: "mm_alloc pf clk bytes hints out st = Some (s, out', st')"
  shows "mm_books (ms_mm st') (if s = Ok then d + recorded (ms_mm st) (al_hbm_ptr out') else d)"
proof (rule mm_alloc_cases [OF mm_books_kb [OF inv], where pf = pf and clk = clk and bytes = bytes and hints = hints and out = out])
  fix hbm env1 out'' st2
  assume b: "al_vaddr out'' = hbm" "al_bytes out'' = bytes" "al_hbm_ptr out'' = hbm"
      "mm_alloc pf clk bytes hints out st = Some (Ok, out'', st2\<lparr>ms_mm :=
       \<lparr>mm_pt = alloc_pt clk hints hbm bytes (mm_pt (ms_mm st)),
        mm_live = AList.update hbm out'' (mm_live (ms_mm st)),
        mm_bytes_allocated = mm_bytes_allocated (ms_mm st) + bytes\<rparr>\<rparr>)"
  have "list_all (\<lambda>(p, a). al_hbm_ptr a = p \<and> al_vaddr a = p) (AList.update hbm out'' (mm_live (ms_mm st)))"
    using inv b set_update_subset [of hbm out'' "mm_live (ms_mm st)"] by (auto simp: mm_books_def list_all_iff)
  then show ?thesis
    using b res inv by (auto simp: mm_books_def alloc_pt_inv live_bytes_def sum_update_live recorded_def split: option.split)
qed (use res inv in auto)

lemma mm_alloc_inv:
  assumes inv: "mm_inv (ms_mm st)"
    and fresh: "\<And>hbm env1. b_alloc_hbm pf bytes (ms_env st) = (Ok, hbm, env1)
        \<Longrightarrow> map_of (mm_live (ms_mm st)) hbm = None"
    and res: "mm_alloc pf clk bytes hints out st = Some (s, out', st')"
  shows "mm_inv (ms_mm st')"
proof -
  have "s = Ok \<Longrightarrow> recorded (ms_mm st) (al_hbm_ptr out') = 0"
    by (rule mm_alloc_cases [OF mm_inv_kb [OF inv], where pf = pf and clk = clk and bytes = bytes and hints = hints and out = out])
      (use res fresh in \<open>auto simp: recorded_def\<close>)
  then show ?thesis using mm_alloc_books [of st 0, OF _ res] inv by (auto simp: mm_books_inv split: if_splits)
qed

lemma mm_free_books:
  assumes inv: "mm_books (ms_mm st) d" and res: "mm_free pf a st = Some (s, st')"
  shows "mm_books (ms_mm st') (if s = Ok then d + (recorded (ms_mm st) (al_hbm_ptr a) - al_bytes a) else d)"
proof (rule mm_free_cases [OF mm_books_kb [OF inv], where pf = pf and a = a])
  fix st1
  assume b: "map_of (mm_live (ms_mm st)) (al_hbm_ptr a) \<noteq> None"
    "mm_free pf a st = Some (Ok, st1\<lparr>ms_mm :=
       \<lparr>mm_pt = pt_unmap (mm_pt (ms_mm st)) (al_vaddr a) (al_bytes a),
        mm_live = AList.delete (al_hbm_ptr a) (mm_live (ms_mm st)),
        mm_bytes_allocated = mm_bytes_allocated (ms_mm st) - al_bytes a\<rparr>\<rparr>)"
  then obtain x where x: "map_of (mm_live (ms_mm st)) (al_hbm_ptr a) = Some x" by blast
  have wf: "um_wf (mm_live (ms_mm st))" using inv by (simp add: mm_books_def)
  have "list_all (\<lambda>(p, a). al_hbm_ptr a = p \<and> al_vaddr a = p) (AList.delete (al_hbm_ptr a) (mm_live (ms_mm st)))"
    using inv set_delete [of "al_hbm_ptr a" "mm_live (ms_mm st)"] by (auto simp: mm_books_def list_all_iff)
  then show ?thesis
    using b(2) res inv x by (auto simp: mm_books_def pt_unmap_inv live_bytes_def sum_delete_live [OF wf x] recorded_def)
qed (use res inv in \<open>auto simp: mm_books_def live_bytes_def pt_unmap_inv\<close>)

lemma advise_books:
  assumes "mm_books (ms_mm st) d" and "advise_read_mostly clk p b st = Some (s, st')"
  shows "mm_books (ms_mm st') d"
proof -
  have "st' = st\<lparr>ms_mm := (ms_mm st)\<lparr>mm_pt := pt_map clk (mm_pt (ms_mm st)) p b p\<rparr>\<rparr>"
    using assms(2) advise_eq [OF mm_books_kb [OF assms(1)], of clk p b] by simp
  then show ?thesis using assms(1) by (auto simp: mm_books_def live_bytes_def pm.map_inv)
qed

lemma mm_reach_books: "mm_reach pf clk st d \<Longrightarrow> mm_books (ms_mm st) d"
proof (induction rule: mm_reach.induct)
  case (init st)
  then show ?case by (simp add: mm_books_inv mm_inv_create)
next
  case (alloc st d bytes hints out s a st')
  then show ?case by (intro mm_alloc_books)
next
  case (free st d a s st')
  then show ?case by (intro mm_free_books)
next
  case (advise st d p b s st')
  then show ?case using advise_books by blast
next
  case (prefetch st d p b s st')
  then show ?case by (auto simp: mm_prefetch_def split: prod.splits)
qed

lemma mm_reach_inv: "mm_reach pf clk st 0 \<Longrightarrow> mm_inv (ms_mm st)"
  using mm_reach_books [of pf clk st 0] by (simp add: mm_books_inv)

text \<open>C4: After any sequence of operations, with any records and any driver, the byte counter is
  the sum of the live blocks plus the sizes by which the operations failed to balance: what the
  records given to \<open>free\<close> fell short of the recorded sizes, and the records overwritten by an
  allocation at a live pointer.  So it is that sum as long as each block is released through the
  record its allocation returned and the driver hands out no live pointer; each release through
  the C function, whose record has no size, leaves the whole block in the counter.  In every
  such state each live block is recorded once, under its own pointer, the page table satisfies
  its invariant, and allocating and freeing return.\<close>

theorem memory_accounting:
  assumes "mm_reach pf clk st d"
  shows "mm_bytes_allocated (ms_mm st) = sum_list (map (\<lambda>(p, a). al_bytes a) (mm_live (ms_mm st))) + d
    \<and> distinct (map fst (mm_live (ms_mm st)))
    \<and> list_all (\<lambda>(p, a). al_hbm_ptr a = p \<and> al_vaddr a = p) (mm_live (ms_mm st))
    \<and> pt_inv (mm_pt (ms_mm st))
    \<and> mm_alloc pf clk bytes hints out st \<noteq> None \<and> mm_free pf a st \<noteq> None"
proof -
  note inv = mm_reach_books [OF assms]
  then show ?thesis
    using mm_alloc_returns [OF mm_books_kb [OF inv]] mm_free_returns [OF mm_books_kb [OF inv]]
    by (simp add: mm_books_def live_bytes_def um_wf_def)
qed

definition sim_st :: "u64 mstate" where
  "sim_st = \<lparr>ms_env = sim_env, ms_ilc = None, ms_mm = mm_create sim_env\<rparr>"

lemma sim_st_reach: "mm_reach sim_backend (\<lambda>_. 0) sim_st 0"
  by (rule mm_reach.init) (simp add: sim_st_def)

lemma sim_alloc: "\<exists>st. mm_alloc sim_backend (\<lambda>_. 0) 4096 alloc_hints_default allocation_default sim_st
    = Some (Ok, allocation_default\<lparr>al_vaddr := 0x100000, al_bytes := 4096, al_hbm_ptr := 0x100000\<rparr>, st)
  \<and> mm_reach sim_backend (\<lambda>_. 0) st 0 \<and> mm_bytes_allocated (ms_mm st) = 4096 \<and> recorded (ms_mm st) 0x100000 = 4096"
proof -
  have kb: "pt_valid_kb (mm_pt (ms_mm sim_st))" using mm_inv_kb [OF mm_reach_inv [OF sim_st_reach]] .
  have run: "\<exists>st. mm_alloc sim_backend (\<lambda>_. 0) 4096 alloc_hints_default allocation_default sim_st
    = Some (Ok, allocation_default\<lparr>al_vaddr := 0x100000, al_bytes := 4096, al_hbm_ptr := 0x100000\<rparr>, st)
    \<and> mm_bytes_allocated (ms_mm st) = 4096 \<and> recorded (ms_mm st) 0x100000 = 4096"
    using kb by (simp add: mm_alloc_def sim_st_def mm_tag_def mm_map_eq sim_env_def alloc_hints_default_def
        allocation_default_def mm_create_def recorded_def Let_def)
  have none: "recorded (ms_mm sim_st) p = 0" for p by (simp add: recorded_def sim_st_def mm_create_def)
  show ?thesis using run mm_reach.alloc [OF sim_st_reach, where s = Ok] by (fastforce simp: none)
qed

theorem memory_accounting_witness:
  "\<exists>st st'. mm_reach sim_backend (\<lambda>_. 0) st 0 \<and> mm_bytes_allocated (ms_mm st) = 4096
    \<and> mm_bytes_allocated (ms_mm st) = sum_list (map (\<lambda>(p, a). al_bytes a) (mm_live (ms_mm st)))
    \<and> mm_free sim_backend (allocation_default\<lparr>al_hbm_ptr := 0x100000\<rparr>) st = Some (Ok, st')
    \<and> mm_bytes_allocated (ms_mm st') = sum_list (map (\<lambda>(p, a). al_bytes a) (mm_live (ms_mm st'))) + 4096"
proof -
  obtain st where r: "mm_reach sim_backend (\<lambda>_. 0) st 0" "mm_bytes_allocated (ms_mm st) = 4096" "recorded (ms_mm st) 0x100000 = 4096"
    using sim_alloc by blast
  let ?a = "allocation_default\<lparr>al_hbm_ptr := 0x100000\<rparr>"
  have kb: "pt_valid_kb (mm_pt (ms_mm st))" using mm_inv_kb [OF mm_reach_inv [OF r(1)]] .
  have "map_of (mm_live (ms_mm st)) 0x100000 \<noteq> None" using r(3) by (auto simp: recorded_def split: option.splits)
  moreover obtain us pt' where u: "unmap_range (mm_pt (ms_mm st)) (al_vaddr ?a) (al_bytes ?a) = Some (us, pt')"
    using pt_unmap_eq [OF kb] by blast
  ultimately obtain st' where f: "mm_free sim_backend ?a st = Some (Ok, st')"
    using u [simplified] by (auto simp: mm_free_def Let_def)
  have "mm_reach sim_backend (\<lambda>_. 0) st' 4096"
    using mm_reach.free [OF r(1) f] by (simp add: r(3) allocation_default_def)
  then show ?thesis using r f memory_accounting [OF r(1)] memory_accounting [of sim_backend "\<lambda>_. 0" st' 4096] by auto
qed

text \<open>C16: A successful allocation makes every byte of the block resident on an unpinned HBM
  page (a read-mostly block too, so eviction may take it), leaves every other page's residency
  alone, records the block and counts its bytes.  A failed one, for a zero size or a refusal
  of the driver, returns that status and leaves the manager and the caller's record alone.\<close>

theorem alloc_outcome:
  assumes inv: "mm_inv (ms_mm st)" and run: "mm_alloc pf clk bytes hints out st = Some (s, a, st')"
  shows "if s = Ok then
      (unat (al_hbm_ptr a) + unat bytes + 2 ^ 17 \<le> 2 ^ 64 \<longrightarrow>
        (\<forall>x. unat (al_hbm_ptr a) \<le> unat x \<longrightarrow> unat x < unat (al_hbm_ptr a) + unat bytes \<longrightarrow>
          (\<exists>e. pt_lookup (mm_pt (ms_mm st')) x = Some e \<and> evictable e)))
      \<and> (\<forall>x. \<not> in_pages (mm_pt (ms_mm st)) (al_hbm_ptr a) bytes x \<longrightarrow>
           pt_lookup (mm_pt (ms_mm st')) x = pt_lookup (mm_pt (ms_mm st)) x)
      \<and> map_of (mm_live (ms_mm st')) (al_hbm_ptr a) = Some a \<and> al_bytes a = bytes \<and> al_hints a = hints
      \<and> mm_bytes_allocated (ms_mm st') = mm_bytes_allocated (ms_mm st) + bytes
    else s = (if bytes = 0 then InvalidArgument else fst (b_alloc_hbm pf bytes (ms_env st)))
      \<and> a = out \<and> ms_mm st' = ms_mm st \<and> ms_ilc st' = ms_ilc st"
proof -
  note kb = mm_inv_kb [OF inv]
  let ?pt = "mm_pt (ms_mm st)"
  have look: "pt_lookup (alloc_pt clk hints p bytes ?pt) x =
      (if in_pages ?pt p bytes x then
         Some (mapped_entry clk ?pt (pt_range_start ?pt p) Hbm p (align_down (pt_page_bytes ?pt) x))
       else pt_lookup ?pt x)" for p x
    using kb by (simp add: alloc_pt_def Let_def pt_map_lookup)
  show ?thesis
  proof (rule mm_alloc_cases [OF kb, where pf = pf and clk = clk and bytes = bytes and hints = hints and out = out])
    fix hbm env1 out'' st2
    assume b: "bytes \<noteq> 0" "b_alloc_hbm pf bytes (ms_env st) = (Ok, hbm, env1)" "al_vaddr out'' = hbm"
        "al_bytes out'' = bytes" "al_hbm_ptr out'' = hbm" "al_hints out'' = hints"
        "mm_alloc pf clk bytes hints out st = Some (Ok, out'', st2\<lparr>ms_mm :=
         \<lparr>mm_pt = alloc_pt clk hints hbm bytes ?pt,
          mm_live = AList.update hbm out'' (mm_live (ms_mm st)),
          mm_bytes_allocated = mm_bytes_allocated (ms_mm st) + bytes\<rparr>\<rparr>)"
    have "2 ^ pt_shift ?pt \<le> (2::nat) ^ 17" by (simp add: pt_shift_def)
    then have cov: "in_pages ?pt hbm bytes x" if "unat hbm + unat bytes + 2 ^ 17 \<le> 2 ^ 64"
      "unat hbm \<le> unat x" "unat x < unat hbm + unat bytes" for x
      using that by (intro range_covers [OF kb]) linarith+
    show ?thesis
      using b run cov by (auto simp: look evictable_def mapped_entry_def)
  qed (use run in auto)
qed

theorem alloc_outcome_witness:
  "\<exists>st' e. mm_alloc sim_backend (\<lambda>_. 0) 4096 alloc_hints_default allocation_default sim_st
      = Some (Ok, allocation_default\<lparr>al_vaddr := 0x100000, al_bytes := 4096, al_hbm_ptr := 0x100000\<rparr>, st')
    \<and> pt_lookup (mm_pt (ms_mm st')) 0x100FFF = Some e \<and> evictable e"
proof -
  obtain st' where r: "mm_alloc sim_backend (\<lambda>_. 0) 4096 alloc_hints_default allocation_default sim_st
      = Some (Ok, allocation_default\<lparr>al_vaddr := 0x100000, al_bytes := 4096, al_hbm_ptr := 0x100000\<rparr>, st')"
    using sim_alloc by blast
  have "\<exists>e. pt_lookup (mm_pt (ms_mm st')) 0x100FFF = Some e \<and> evictable e"
    using alloc_outcome [OF mm_reach_inv [OF sim_st_reach] r] by (simp add: word_le_nat_alt)
  with r show ?thesis by blast
qed

lemma alloc_pt_unmap:
  assumes "pt_inv pt"
  shows "pt_lookup (pt_unmap (alloc_pt clk hints p b pt) p b) x = (if in_pages pt p b x then None else pt_lookup pt x)"
proof (cases "ah_read_mostly hints")
  case True
  have "pt_inv (pt_map clk pt p b p)" using assms by (rule pm.map_inv)
  then show ?thesis
    using pm.map_unmap_lookup pm.map_miss [of pt p b x clk] assms True pt_invD(1) [OF assms]
    by (simp add: alloc_pt_def Let_def)
next
  case False
  then show ?thesis using pm.map_unmap_lookup [of pt clk p b x] assms by (simp add: alloc_pt_def)
qed

lemma alloc_free:
  fixes st :: "'p mstate"
  assumes inv: "mm_inv (ms_mm st)" and fresh: "alloc_fresh pf bytes st"
    and run: "mm_alloc pf clk bytes hints out st = Some (Ok, a, st1)"
    and fr: "mm_free pf a st1 = Some (s, st2)"
  shows "(s = Ok \<longrightarrow> mm_live (ms_mm st2) = mm_live (ms_mm st)
      \<and> mm_bytes_allocated (ms_mm st2) = mm_bytes_allocated (ms_mm st)
      \<and> mm_free pf a st2 = Some (InvalidArgument, st2))
    \<and> (\<forall>x. pt_lookup (mm_pt (ms_mm st2)) x = (if in_pages (mm_pt (ms_mm st)) (al_hbm_ptr a) bytes x
           then None else pt_lookup (mm_pt (ms_mm st)) x))"
proof -
  note kb = mm_inv_kb [OF inv]
  let ?pt = "mm_pt (ms_mm st)"
  show ?thesis
  proof (rule mm_alloc_cases [OF kb, where pf = pf and clk = clk and bytes = bytes and hints = hints and out = out])
    fix hbm env1 out'' and st3 :: "'p mstate"
    let ?st1 = "st3\<lparr>ms_mm := \<lparr>mm_pt = alloc_pt clk hints hbm bytes ?pt,
          mm_live = AList.update hbm out'' (mm_live (ms_mm st)),
          mm_bytes_allocated = mm_bytes_allocated (ms_mm st) + bytes\<rparr>\<rparr>"
    assume b: "b_alloc_hbm pf bytes (ms_env st) = (Ok, hbm, env1)" "al_vaddr out'' = hbm"
        "al_bytes out'' = bytes" "al_hbm_ptr out'' = hbm"
        "mm_alloc pf clk bytes hints out st = Some (Ok, out'', ?st1)"
    have a: "a = out''" and st1: "st1 = ?st1" using b(5) run by auto
    have kb1: "pt_valid_kb (mm_pt (ms_mm st1))"
      using inv st1 alloc_pt_inv [THEN pt_invD(1)] by (simp add: mm_inv_def)
    have new: "map_of (mm_live (ms_mm st)) hbm = None" using fresh b(1) by (simp add: alloc_fresh_def)
    then have del: "AList.delete hbm (mm_live (ms_mm st) @ [(hbm, out'')]) = mm_live (ms_mm st)"
      by (rule delete_snoc)
    have pt: "pt_lookup (pt_unmap (alloc_pt clk hints hbm bytes ?pt) hbm bytes) x
        = (if in_pages ?pt hbm bytes x then None else pt_lookup ?pt x)" for x
      using inv by (intro alloc_pt_unmap) (simp add: mm_inv_def)
    have free: "mm_pt (ms_mm st2) = pt_unmap (alloc_pt clk hints hbm bytes ?pt) hbm bytes
      \<and> (s = Ok \<longrightarrow> mm_live (ms_mm st2) = mm_live (ms_mm st)
         \<and> mm_bytes_allocated (ms_mm st2) = mm_bytes_allocated (ms_mm st))"
    proof (rule mm_free_cases [OF kb1, where pf = pf and a = a])
      assume "map_of (mm_live (ms_mm st1)) (al_hbm_ptr a) = None"
      then show ?thesis using a b st1 by simp
    qed (use fr a b st1 del in \<open>auto simp: um_update_new [OF new]\<close>)
    have "mm_free pf a st2 = Some (InvalidArgument, st2)" if "s = Ok"
      using that free new a b by (simp add: mm_free_def)
    then show ?thesis using free pt a b by simp
  qed (use run in auto)
qed

text \<open>C15: Freeing exactly what an allocation returned undoes it: the live table and the byte
  counter are restored (over a fresh pointer), every page of the block is unmapped, and no
  page outside changes.  Freeing a pointer that is not live is \<open>InvalidArgument\<close> and changes
  nothing.\<close>

theorem alloc_free_roundtrip:
  fixes st :: "'p mstate"
  assumes inv: "mm_inv (ms_mm st)" and fresh: "alloc_fresh pf bytes st"
    and run: "mm_alloc pf clk bytes hints out st = Some (Ok, a, st1)"
    and fr: "mm_free pf a st1 = Some (s, st2)"
  shows "(s = Ok \<longrightarrow> mm_live (ms_mm st2) = mm_live (ms_mm st)
      \<and> mm_bytes_allocated (ms_mm st2) = mm_bytes_allocated (ms_mm st)
      \<and> mm_free pf a st2 = Some (InvalidArgument, st2))
    \<and> (\<forall>x. pt_lookup (mm_pt (ms_mm st2)) x = (if in_pages (mm_pt (ms_mm st)) (al_hbm_ptr a) bytes x
           then None else pt_lookup (mm_pt (ms_mm st)) x))"
  using assms by (rule alloc_free)

theorem alloc_free_roundtrip_witness:
  "\<exists>a st1 s st2. mm_alloc sim_backend (\<lambda>_. 0) 4096 alloc_hints_default allocation_default sim_st = Some (Ok, a, st1)
    \<and> mm_free sim_backend a st1 = Some (s, st2)
    \<and> (\<forall>x. pt_lookup (mm_pt (ms_mm st2)) x = (if in_pages (mm_pt (ms_mm sim_st)) (al_hbm_ptr a) 4096 x
           then None else pt_lookup (mm_pt (ms_mm sim_st)) x))"
proof -
  obtain a st1 where r: "mm_alloc sim_backend (\<lambda>_. 0) 4096 alloc_hints_default allocation_default sim_st
      = Some (Ok, a, st1)" "mm_reach sim_backend (\<lambda>_. 0) st1 0"
    using sim_alloc by blast
  have fresh: "alloc_fresh sim_backend 4096 sim_st"
    by (simp add: alloc_fresh_def sim_st_def mm_create_def)
  obtain s st2 where f: "mm_free sim_backend a st1 = Some (s, st2)"
    using mm_free_returns [OF mm_inv_kb [OF mm_reach_inv [OF r(2)]], of sim_backend a] by auto
  show ?thesis
    using alloc_free_roundtrip [OF mm_reach_inv [OF sim_st_reach] fresh r(1) f] r f by blast
qed

end
