(* ===== verification/MicroKernel.thy ===== *)
theory MicroKernel
  imports Interfaces
begin

text \<open>
  The micro-kernel (\<^verbatim>\<open>src/firmware/microkernel.hpp\<close>, \<^verbatim>\<open>microkernel.cpp\<close>): the
  stream pool with one free list per class, the module table and the launcher; the warp
  specialisation policies of \<^verbatim>\<open>src/scheduler/warp_specialization.hpp\<close>; and the scoped
  stream of \<^verbatim>\<open>src/scheduler/stream_pool.hpp\<close>.  A free list is a vector: its end is the
  top, so \<^verbatim>\<open>push_back\<close> appends and \<^verbatim>\<open>back\<close>/\<^verbatim>\<open>pop_back\<close> are
  \<^term>\<open>last\<close> and \<^term>\<open>butlast\<close>, used on non-empty lists only.
\<close>

subsection \<open>State\<close>

record warp_spec_queue =
  wq_producer_warps :: u32
  wq_consumer_warps :: u32
  wq_fence_warps :: u32

definition wq_total_warps :: "warp_spec_queue \<Rightarrow> u32" where
  "wq_total_warps q = wq_producer_warps q + wq_consumer_warps q + wq_fence_warps q"

record microkernel =
  mk_device :: device_desc
  mk_default_ws :: warp_spec_queue
  mk_free_compute :: "stream_handle list"
  mk_free_dma :: "stream_handle list"
  mk_free_fence :: "stream_handle list"
  mk_modules :: "(string, kernel_module) umap"
  mk_next_id :: u64

definition default_warp_spec :: "arch \<Rightarrow> warp_spec_queue" where
  "default_warp_spec a =
     (if a = Hopper
      then \<lparr>wq_producer_warps = 2, wq_consumer_warps = 14, wq_fence_warps = 0\<rparr>
      else if a = Ampere \<or> a = Pascal \<or> a = Turing
      then \<lparr>wq_producer_warps = 2, wq_consumer_warps = 14, wq_fence_warps = 0\<rparr>
      else \<lparr>wq_producer_warps = 0, wq_consumer_warps = 16, wq_fence_warps = 0\<rparr>)"

definition mk_create :: "device_desc \<Rightarrow> microkernel" where
  "mk_create d = \<lparr>mk_device = d, mk_default_ws = default_warp_spec (dd_arch d),
     mk_free_compute = [], mk_free_dma = [], mk_free_fence = [], mk_modules = [], mk_next_id = 1\<rparr>"

subsection \<open>Spawning and draining the pool\<close>

fun push_free :: "stream_handle \<Rightarrow> microkernel \<Rightarrow> microkernel" where
  "push_free h mk = (case sh_klass h of
     Compute \<Rightarrow> mk\<lparr>mk_free_compute := mk_free_compute mk @ [h]\<rparr>
   | Dma \<Rightarrow> mk\<lparr>mk_free_dma := mk_free_dma mk @ [h]\<rparr>
   | Fence \<Rightarrow> mk\<lparr>mk_free_fence := mk_free_fence mk @ [h]\<rparr>
   | Control \<Rightarrow> mk)"

definition spawn_one :: "'p backend \<Rightarrow> stream_class \<Rightarrow> int \<Rightarrow> 'p env \<Rightarrow> microkernel
    \<Rightarrow> status \<times> 'p env \<times> microkernel" where
  "spawn_one pf k prio env mk =
     (let mk1 = mk\<lparr>mk_next_id := mk_next_id mk + 1\<rparr>;
          (s, raw, env') = b_create_stream pf k prio env
      in if \<not> ok s then (s, env', mk1)
         else (Ok, env', push_free (stream_handle_default\<lparr>sh_id := mk_next_id mk, sh_raw := raw, sh_klass := k\<rparr>) mk1))"

fun spawn_n :: "'p backend \<Rightarrow> stream_class \<Rightarrow> int \<Rightarrow> nat \<Rightarrow> 'p env \<Rightarrow> microkernel
    \<Rightarrow> status \<times> 'p env \<times> microkernel" where
  "spawn_n pf k prio 0 env mk = (Ok, env, mk)"
| "spawn_n pf k prio (Suc n) env mk =
     (let (s, env', mk') = spawn_one pf k prio env mk
      in if \<not> ok s then (s, env', mk') else spawn_n pf k prio n env' mk')"

definition has_fence_stream :: "arch \<Rightarrow> bool" where
  "has_fence_stream a = (a = Hopper \<or> a = Ampere \<or> a = Pascal \<or> a = Turing)"

definition spawn_stream_pool :: "'p backend \<Rightarrow> u32 \<Rightarrow> u32 \<Rightarrow> 'p env \<Rightarrow> microkernel
    \<Rightarrow> status \<times> 'p env \<times> microkernel" where
  "spawn_stream_pool pf n_compute n_dma env mk =
     (let (s1, env1, mk1) = spawn_n pf Compute 0 (unat n_compute) env mk
      in if \<not> ok s1 then (s1, env1, mk1)
         else (let (s2, env2, mk2) = spawn_n pf Dma (-1) (unat n_dma) env1 mk1
               in if \<not> ok s2 then (s2, env2, mk2)
                  else if has_fence_stream (dd_arch (mk_device mk2))
                  then spawn_one pf Fence 1 env2 mk2
                  else (Ok, env2, mk2)))"

definition drain_streams :: "'p backend \<Rightarrow> 'p env \<Rightarrow> microkernel \<Rightarrow> status \<times> 'p env \<times> microkernel" where
  "drain_streams pf env mk =
     (let destroy = (\<lambda>h e. snd (b_destroy_stream pf (sh_raw h) e));
          env' = fold destroy (mk_free_compute mk @ mk_free_dma mk @ mk_free_fence mk) env
      in (Ok, env', mk\<lparr>mk_free_compute := [], mk_free_dma := [], mk_free_fence := [], mk_modules := []\<rparr>))"

subsection \<open>Modules\<close>

definition load_module :: "'p backend \<Rightarrow> string \<Rightarrow> string \<Rightarrow> kernel_module \<Rightarrow> 'p env \<Rightarrow> microkernel
    \<Rightarrow> status \<times> kernel_module \<times> 'p env \<times> microkernel" where
  "load_module pf name src out env mk =
     (case map_of (mk_modules mk) name of
        Some m \<Rightarrow> (Ok, m, env, mk)
      | None \<Rightarrow>
          (let m0 = \<lparr>km_id = mk_next_id mk, km_name = name, km_raw_module = 0, km_functions = []\<rparr>;
               mk1 = mk\<lparr>mk_next_id := mk_next_id mk + 1\<rparr>;
               (s, m, env') = b_load_module pf name src m0 env
           in if \<not> ok s then (s, out, env', mk1)
              else (Ok, m, env', mk1\<lparr>mk_modules := AList.update name m (mk_modules mk1)\<rparr>)))"

definition find_module :: "microkernel \<Rightarrow> string \<Rightarrow> kernel_module option" where
  "find_module mk name = map_of (mk_modules mk) name"

subsection \<open>Acquire, release\<close>

text \<open>
  The scheduling priority argument is ignored by the code.  An empty list or the class
  \<^verbatim>\<open>Control\<close> yields the invalid handle, whose id is 0.
\<close>

definition acquire_stream :: "stream_class \<Rightarrow> int \<Rightarrow> microkernel \<Rightarrow> stream_handle \<times> microkernel" where
  "acquire_stream k priority mk = (case k of
     Compute \<Rightarrow>
       if mk_free_compute mk = [] then (stream_handle_default\<lparr>sh_id := 0\<rparr>, mk)
       else (last (mk_free_compute mk), mk\<lparr>mk_free_compute := butlast (mk_free_compute mk)\<rparr>)
   | Dma \<Rightarrow>
       if mk_free_dma mk = [] then (stream_handle_default\<lparr>sh_id := 0\<rparr>, mk)
       else (last (mk_free_dma mk), mk\<lparr>mk_free_dma := butlast (mk_free_dma mk)\<rparr>)
   | Fence \<Rightarrow>
       if mk_free_fence mk = [] then (stream_handle_default\<lparr>sh_id := 0\<rparr>, mk)
       else (last (mk_free_fence mk), mk\<lparr>mk_free_fence := butlast (mk_free_fence mk)\<rparr>)
   | Control \<Rightarrow> (stream_handle_default\<lparr>sh_id := 0\<rparr>, mk))"

definition release_stream :: "stream_handle \<Rightarrow> microkernel \<Rightarrow> microkernel" where
  "release_stream h mk = (if sh_id h = 0 then mk else push_free h mk)"

subsection \<open>Submission and synchronisation\<close>

definition mk_launch :: "'p backend \<Rightarrow> string \<Rightarrow> string \<Rightarrow> u32 \<times> u32 \<times> u32 \<Rightarrow> u32 \<times> u32 \<times> u32 \<Rightarrow> u32
    \<Rightarrow> stream_handle \<Rightarrow> ptr list \<Rightarrow> 'p env \<Rightarrow> microkernel \<Rightarrow> status \<times> 'p env" where
  "mk_launch pf module_name function_name grid block smem stream args env mk =
     (case find_module mk module_name of
        None \<Rightarrow> (InvalidArgument, env)
      | Some m \<Rightarrow>
          (case map_of (km_functions m) function_name of
             None \<Rightarrow> (InvalidArgument, env)
           | Some fn \<Rightarrow> b_launch_kernel pf fn grid block smem (sh_raw stream) args env))"

definition mk_sync_stream :: "'p backend \<Rightarrow> stream_handle \<Rightarrow> 'p env \<Rightarrow> status \<times> 'p env" where
  "mk_sync_stream pf h env = b_sync_stream pf (sh_raw h) env"

fun sync_list :: "'p backend \<Rightarrow> stream_handle list \<Rightarrow> 'p env \<Rightarrow> status \<times> 'p env" where
  "sync_list pf [] env = (Ok, env)"
| "sync_list pf (h # hs) env =
     (let (s, env') = b_sync_stream pf (sh_raw h) env
      in if \<not> ok s then (s, env') else sync_list pf hs env')"

definition sync_all :: "'p backend \<Rightarrow> 'p env \<Rightarrow> microkernel \<Rightarrow> status \<times> 'p env" where
  "sync_all pf env mk =
     (let (a, env1) = sync_list pf (mk_free_compute mk) env
      in if \<not> ok a then (a, env1)
         else (let (b, env2) = sync_list pf (mk_free_dma mk) env1
               in if \<not> ok b then (b, env2)
                  else (let (c, env3) = sync_list pf (mk_free_fence mk) env2
                        in if \<not> ok c then (c, env3) else (Ok, env3))))"

subsection \<open>Warp specialisation policies\<close>

record warp_spec_policy =
  wp_producer_warps :: u32
  wp_consumer_warps :: u32
  wp_fence_warps :: u32
  wp_threads_per_warp :: u32
  wp_use_tma :: bool
  wp_use_dsm :: bool
  wp_cluster_size :: u32

definition warp_spec_policy_default :: warp_spec_policy where
  "warp_spec_policy_default = \<lparr>wp_producer_warps = 2, wp_consumer_warps = 14, wp_fence_warps = 0,
     wp_threads_per_warp = 32, wp_use_tma = False, wp_use_dsm = False, wp_cluster_size = 1\<rparr>"

definition policy_for_arch :: "arch \<Rightarrow> warp_spec_policy" where
  "policy_for_arch a = (let p = warp_spec_policy_default in case a of
     Hopper \<Rightarrow> p\<lparr>wp_producer_warps := 2, wp_consumer_warps := 14, wp_fence_warps := 0,
                 wp_use_tma := True, wp_use_dsm := True, wp_cluster_size := 8\<rparr>
   | Ampere \<Rightarrow> p\<lparr>wp_producer_warps := 2, wp_consumer_warps := 14, wp_fence_warps := 0,
                 wp_use_tma := False, wp_use_dsm := False\<rparr>
   | Pascal \<Rightarrow> p\<lparr>wp_producer_warps := 2, wp_consumer_warps := 14, wp_fence_warps := 0,
                 wp_use_tma := False, wp_use_dsm := False\<rparr>
   | Turing \<Rightarrow> p\<lparr>wp_producer_warps := 2, wp_consumer_warps := 14, wp_fence_warps := 0,
                 wp_use_tma := False, wp_use_dsm := False\<rparr>
   | AppleSilicon \<Rightarrow> p\<lparr>wp_producer_warps := 0, wp_consumer_warps := 16, wp_threads_per_warp := 32\<rparr>
   | Unknown_arch \<Rightarrow> p)"

definition wp_total_warps :: "warp_spec_policy \<Rightarrow> u32" where
  "wp_total_warps p = wp_producer_warps p + wp_consumer_warps p + wp_fence_warps p"

definition wp_total_threads :: "warp_spec_policy \<Rightarrow> u32" where
  "wp_total_threads p = wp_total_warps p * wp_threads_per_warp p"

subsection \<open>Scoped streams\<close>

definition scoped_open :: "stream_class \<Rightarrow> int \<Rightarrow> microkernel \<Rightarrow> stream_handle \<times> microkernel" where
  "scoped_open k prio mk = acquire_stream k prio mk"

definition scoped_close :: "stream_handle \<Rightarrow> microkernel \<Rightarrow> microkernel" where
  "scoped_close h mk = (if sh_id h \<noteq> 0 then release_stream h mk else mk)"

text \<open>A moved-from scope keeps its fields but the identifier, which is cleared.\<close>

definition scoped_move :: "stream_handle \<Rightarrow> stream_handle \<times> stream_handle" where
  "scoped_move h = (h, h\<lparr>sh_id := 0\<rparr>)"

definition scoped_sync :: "'p backend \<Rightarrow> stream_handle \<Rightarrow> 'p env \<Rightarrow> status \<times> 'p env" where
  "scoped_sync pf h env = mk_sync_stream pf h env"

definition set_default_warp_spec :: "warp_spec_queue \<Rightarrow> microkernel \<Rightarrow> microkernel" where
  "set_default_warp_spec ws mk = mk\<lparr>mk_default_ws := ws\<rparr>"

text \<open>Moving a scope hands the stream over: the two destructors together release it once, in
  either order.\<close>

lemma scoped_move_once:
  assumes "scoped_move h = (h1, h0)"
  shows "scoped_close h0 (scoped_close h1 mk) = scoped_close h mk"
    and "scoped_close h1 (scoped_close h0 mk) = scoped_close h mk"
  using assms by (auto simp: scoped_move_def scoped_close_def)

subsection \<open>The pool as a stream supply\<close>

definition mk_pool :: "microkernel \<Rightarrow> stream_handle list" where
  "mk_pool mk = mk_free_compute mk @ mk_free_dma mk @ mk_free_fence mk"

definition mk_inv :: "microkernel \<Rightarrow> bool" where
  "mk_inv mk = (list_all (\<lambda>h. sh_klass h = Compute) (mk_free_compute mk)
     \<and> list_all (\<lambda>h. sh_klass h = Dma) (mk_free_dma mk)
     \<and> list_all (\<lambda>h. sh_klass h = Fence) (mk_free_fence mk)
     \<and> list_all (\<lambda>h. sh_id h \<noteq> 0 \<and> sh_id h < mk_next_id mk) (mk_pool mk)
     \<and> distinct (map sh_id (mk_pool mk)))"

declare mk_inv_def [pool_simps] mk_pool_def [pool_simps]

definition sh_valid :: "stream_handle \<Rightarrow> bool" where
  "sh_valid h = (sh_id h \<noteq> 0 \<and> sh_klass h \<noteq> Control)"

lemma mk_inv_create: "mk_inv (mk_create d)"
  by (simp add: pool_simps mk_create_def)

lemma acquire_cases:
  assumes "mk_inv mk" and "acquire_stream k p mk = (h, mk')"
  obtains (empty) "mk' = mk" "sh_id h = 0"
  | (compute) xs where "mk' = mk\<lparr>mk_free_compute := xs\<rparr>" "sh_klass h = Compute"
      "mk_free_compute mk = xs @ [h]" "sh_id h \<noteq> 0" "k = Compute"
  | (dma) xs where "mk' = mk\<lparr>mk_free_dma := xs\<rparr>" "sh_klass h = Dma"
      "mk_free_dma mk = xs @ [h]" "sh_id h \<noteq> 0" "k = Dma"
  | (fence) xs where "mk' = mk\<lparr>mk_free_fence := xs\<rparr>" "sh_klass h = Fence"
      "mk_free_fence mk = xs @ [h]" "sh_id h \<noteq> 0" "k = Fence"
proof (cases k)
  case Compute
  with assms show ?thesis
    by (cases "mk_free_compute mk" rule: rev_cases)
       (auto simp: acquire_stream_def pool_simps stream_handle_default_def intro: empty compute)
next
  case Dma
  with assms show ?thesis
    by (cases "mk_free_dma mk" rule: rev_cases)
       (auto simp: acquire_stream_def pool_simps stream_handle_default_def intro: empty dma)
next
  case Fence
  with assms show ?thesis
    by (cases "mk_free_fence mk" rule: rev_cases)
       (auto simp: acquire_stream_def pool_simps stream_handle_default_def intro: empty fence)
next
  case Control
  with assms show ?thesis
    by (auto simp: acquire_stream_def stream_handle_default_def intro: empty)
qed

interpretation mkp: stream_pool mk_inv "\<lambda>k. acquire_stream k p" release_stream sh_valid
  "\<lambda>mk. mset (mk_pool mk)" for p
proof
  fix mk mk' :: microkernel and k h
  assume inv: "mk_inv mk" and acq: "acquire_stream k p mk = (h, mk')"
  show "release_stream h mk' = mk"
    using inv acq by (cases rule: acquire_cases) (auto simp: release_stream_def)
  show "mk_inv mk'"
    using inv acq by (cases rule: acquire_cases) (use inv in \<open>auto simp: pool_simps\<close>)
  show "mk' = mk" if "\<not> sh_valid h"
    using inv acq that by (cases rule: acquire_cases) (auto simp: sh_valid_def)
  show "mset (mk_pool mk) = add_mset h (mset (mk_pool mk'))" if "sh_valid h"
    using inv acq that
    by (cases rule: acquire_cases) (auto simp: sh_valid_def mk_pool_def)
next
  fix h :: stream_handle and mk :: microkernel
  show "mset (mk_pool (release_stream h mk)) = add_mset h (mset (mk_pool mk))" if "sh_valid h"
    using that by (cases "sh_klass h") (auto simp: sh_valid_def release_stream_def mk_pool_def)
  show "release_stream h mk = mk" if "\<not> sh_valid h"
    using that by (cases "sh_klass h") (auto simp: sh_valid_def release_stream_def)
qed

subsection \<open>Spawning\<close>

definition mk_free_list :: "stream_class \<Rightarrow> microkernel \<Rightarrow> stream_handle list" where
  "mk_free_list k mk = (case k of Compute \<Rightarrow> mk_free_compute mk | Dma \<Rightarrow> mk_free_dma mk
     | Fence \<Rightarrow> mk_free_fence mk | Control \<Rightarrow> [])"

lemma push_free_frame [simp]:
  "mk_next_id (push_free h mk) = mk_next_id mk" "mk_device (push_free h mk) = mk_device mk"
  "mk_modules (push_free h mk) = mk_modules mk"
  by (simp_all split: stream_class.split)

lemma push_free_list: "mk_free_list k (push_free h mk)
    = mk_free_list k mk @ (if k = sh_klass h \<and> k \<noteq> Control then [h] else [])"
  by (cases k; cases "sh_klass h") (simp_all add: mk_free_list_def)

lemma push_free_inv:
  assumes "mk_inv mk" and "sh_id h \<noteq> 0" "sh_id h < mk_next_id mk" and "sh_id h \<notin> sh_id ` set (mk_pool mk)"
  shows "mk_inv (push_free h mk)"
  using assms by (cases "sh_klass h") (auto simp: pool_simps)

lemma spawn_one_cases:
  assumes "spawn_one pf k prio env mk = (s, env', mk')"
  obtains (success) raw where "s = Ok" "mk' = push_free (stream_handle_default\<lparr>sh_id := mk_next_id mk,
      sh_raw := raw, sh_klass := k\<rparr>) (mk\<lparr>mk_next_id := mk_next_id mk + 1\<rparr>)"
  | (fail) "s \<noteq> Ok" "mk' = mk\<lparr>mk_next_id := mk_next_id mk + 1\<rparr>"
  using assms by (auto simp: spawn_one_def Let_def split: prod.splits if_splits)

lemma spawn_one_inv:
  assumes inv: "mk_inv mk" and nz: "mk_next_id mk \<noteq> 0" and max: "unat (mk_next_id mk) + 1 < 2 ^ 64"
    and run: "spawn_one pf k prio env mk = (s, env', mk')"
  shows "mk_inv mk' \<and> unat (mk_next_id mk') = unat (mk_next_id mk) + 1"
proof -
  let ?mk = "mk\<lparr>mk_next_id := mk_next_id mk + 1\<rparr>"
  have "unat (mk_next_id mk + 1) = unat (mk_next_id mk) + unat (1 :: u64)"
    using max by (intro unat_add_lem [THEN iffD1]) simp
  then have up: "unat (mk_next_id mk + 1) = unat (mk_next_id mk) + 1" by simp
  then have lt: "mk_next_id mk < mk_next_id mk + 1" by (simp add: word_less_nat_alt)
  then have inv': "mk_inv ?mk"
    using inv by (auto simp: pool_simps list_all_iff intro: less_trans)
  have fresh: "mk_next_id mk \<notin> sh_id ` set (mk_pool mk)"
    using inv by (auto simp: mk_inv_def list_all_iff)
  show ?thesis
    using run
  proof (cases rule: spawn_one_cases)
    case (success raw)
    have "mk_pool ?mk = mk_pool mk" by (simp add: mk_pool_def)
    then have "mk_inv mk'"
      unfolding success by (intro push_free_inv) (use inv' nz lt fresh in simp_all)
    then show ?thesis using up success by (simp del: push_free.simps)
  qed (use inv' up in simp)
qed

lemma spawn_n_inv:
  "mk_inv mk \<Longrightarrow> mk_next_id mk \<noteq> 0 \<Longrightarrow> unat (mk_next_id mk) + n < 2 ^ 64 \<Longrightarrow>
    spawn_n pf k prio n env mk = (s, env', mk') \<Longrightarrow>
    mk_inv mk' \<and> mk_next_id mk' \<noteq> 0 \<and> unat (mk_next_id mk') \<le> unat (mk_next_id mk) + n"
proof (induction n arbitrary: env mk)
  case (Suc n)
  obtain s1 env1 mk1 where one: "spawn_one pf k prio env mk = (s1, env1, mk1)"
    by (cases "spawn_one pf k prio env mk") auto
  have i: "mk_inv mk1 \<and> unat (mk_next_id mk1) = unat (mk_next_id mk) + 1"
    using Suc.prems by (intro spawn_one_inv [OF _ _ _ one]) auto
  then have nz: "mk_next_id mk1 \<noteq> 0" by (metis add_is_0 one_neq_zero unsigned_0)
  show ?case
  proof (cases "s1 = Ok")
    case True
    then show ?thesis using Suc.IH [of mk1 env1] Suc.prems i nz one by simp
  qed (use Suc.prems i nz one in auto)
qed auto

lemma spawn_one_lists:
  assumes "spawn_one pf k prio env mk = (s, env', mk')"
  shows "mk_device mk' = mk_device mk \<and> mk_modules mk' = mk_modules mk \<and> mk_default_ws mk' = mk_default_ws mk
    \<and> length (mk_free_list c mk') = length (mk_free_list c mk) + (if s = Ok \<and> c = k \<and> k \<noteq> Control then 1 else 0)"
proof -
  have f: "mk_free_list c (mk\<lparr>mk_next_id := i\<rparr>) = mk_free_list c mk" for i
    by (cases c) (simp_all add: mk_free_list_def)
  have w: "mk_default_ws (push_free h m) = mk_default_ws m" for h m
    by (simp split: stream_class.split)
  show ?thesis using assms
    by (cases rule: spawn_one_cases) (auto simp: push_free_list f w simp del: push_free.simps)
qed

lemma spawn_n_lists:
  "spawn_n pf k prio n env mk = (s, env', mk') \<Longrightarrow> k \<noteq> Control \<Longrightarrow>
    mk_device mk' = mk_device mk \<and> mk_modules mk' = mk_modules mk \<and> mk_default_ws mk' = mk_default_ws mk
    \<and> (c \<noteq> k \<longrightarrow> length (mk_free_list c mk') = length (mk_free_list c mk))
    \<and> (s = Ok \<longrightarrow> length (mk_free_list k mk') = length (mk_free_list k mk) + n)"
proof (induction n arbitrary: env mk)
  case (Suc n)
  obtain s1 env1 mk1 where one: "spawn_one pf k prio env mk = (s1, env1, mk1)"
    by (cases "spawn_one pf k prio env mk") auto
  note l = spawn_one_lists [OF one, of c] spawn_one_lists [OF one, of k]
  show ?case
    using Suc.IH [of env1 mk1] Suc.prems one l by (cases "s1 = Ok") auto
qed simp

lemma spawn_shape:
  assumes run: "spawn_stream_pool pf nc nd env (mk_create d) = (s, env', mk)"
  shows "mk_inv mk \<and> mk_modules mk = [] \<and> mk_default_ws mk = default_warp_spec (dd_arch d) \<and> (s = Ok \<longrightarrow>
    length (mk_free_compute mk) = unat nc \<and> length (mk_free_dma mk) = unat nd
    \<and> length (mk_free_fence mk) = (if has_fence_stream (dd_arch d) then 1 else 0))"
proof -
  have bnd: "unat nc < 2 ^ 32" "unat nd < 2 ^ 32"
    using unsigned_less [of nc] unsigned_less [of nd] by simp_all
  obtain s1 env1 mk1 where c: "spawn_n pf Compute 0 (unat nc) env (mk_create d) = (s1, env1, mk1)"
    by (cases "spawn_n pf Compute 0 (unat nc) env (mk_create d)") auto
  obtain s2 env2 mk2 where m: "spawn_n pf Dma (-1) (unat nd) env1 mk1 = (s2, env2, mk2)"
    by (cases "spawn_n pf Dma (-1) (unat nd) env1 mk1") auto
  have i1: "mk_inv mk1 \<and> mk_next_id mk1 \<noteq> 0 \<and> unat (mk_next_id mk1) \<le> 1 + unat nc"
    using spawn_n_inv [OF mk_inv_create _ _ c] bnd by (simp add: mk_create_def)
  then have i2: "mk_inv mk2 \<and> mk_next_id mk2 \<noteq> 0 \<and> unat (mk_next_id mk2) \<le> 1 + unat nc + unat nd"
    using spawn_n_inv [OF _ _ _ m] bnd by simp
  note l1 = spawn_n_lists [OF c] and l2 = spawn_n_lists [OF m]
  have lists: "mk_modules mk1 = [] \<and> mk_modules mk2 = [] \<and> mk_device mk2 = d
      \<and> mk_default_ws mk1 = default_warp_spec (dd_arch d) \<and> mk_default_ws mk2 = default_warp_spec (dd_arch d)
      \<and> (s1 = Ok \<longrightarrow> s2 = Ok \<longrightarrow> length (mk_free_compute mk2) = unat nc
         \<and> length (mk_free_dma mk2) = unat nd \<and> length (mk_free_fence mk2) = 0)"
    using l1 [of Dma] l1 [of Fence] l2 [of Compute] l2 [of Fence]
    by (simp add: mk_free_list_def mk_create_def)
  show ?thesis
  proof (cases "s1 = Ok \<and> s2 = Ok \<and> has_fence_stream (dd_arch d)")
    case True
    then have f: "spawn_one pf Fence 1 env2 mk2 = (s, env', mk)"
      using run c m lists by (simp add: spawn_stream_pool_def)
    have "mk_inv mk" using spawn_one_inv [OF _ _ _ f] i2 bnd by simp
    then show ?thesis
      using spawn_one_lists [OF f, of Compute] spawn_one_lists [OF f, of Dma]
        spawn_one_lists [OF f, of Fence] lists True
      by (simp add: mk_free_list_def)
  next
    case False
    then show ?thesis
      using run c m i1 i2 lists by (auto simp: spawn_stream_pool_def split: if_splits)
  qed
qed

text \<open>Whatever the driver answers, spawning leaves a well-formed pool: every pooled stream
  sits in the list of its class and the ids are non-zero and pairwise distinct.  On success
  the pool holds exactly the requested numbers of compute and copy streams, and one fence
  stream on the CUDA architectures.\<close>

theorem spawn_stream_pool_shape:
  assumes run: "spawn_stream_pool pf nc nd env (mk_create d) = (s, env', mk)"
  shows "mk_inv mk \<and> mk_modules mk = [] \<and> mk_default_ws mk = default_warp_spec (dd_arch d) \<and> (s = Ok \<longrightarrow>
    length (mk_free_compute mk) = unat nc \<and> length (mk_free_dma mk) = unat nd
    \<and> length (mk_free_fence mk) = (if has_fence_stream (dd_arch d) then 1 else 0))"
  by (rule spawn_shape [OF run])

lemma sim_spawn: "\<exists>env'. spawn_stream_pool sim_backend 2 1 sim_env (mk_create (e_device sim_env)) = (Ok, env',
    (mk_create (e_device sim_env))\<lparr>mk_next_id := 5,
      mk_free_compute := [stream_handle_default\<lparr>sh_id := 1, sh_raw := 1\<rparr>, stream_handle_default\<lparr>sh_id := 2, sh_raw := 2\<rparr>],
      mk_free_dma := [stream_handle_default\<lparr>sh_id := 3, sh_raw := 3, sh_klass := Dma\<rparr>],
      mk_free_fence := [stream_handle_default\<lparr>sh_id := 4, sh_raw := 4, sh_klass := Fence\<rparr>]\<rparr>)"
proof -
  have u: "unat (2 :: u32) = Suc (Suc 0)" "unat (1 :: u32) = Suc 0" by simp_all
  show ?thesis
    unfolding spawn_stream_pool_def u spawn_n.simps
    by (simp add: spawn_one_def sim_env_def mk_create_def has_fence_stream_def stream_handle_default_def Let_def)
qed

theorem spawn_stream_pool_shape_witness:
  "\<exists>mk env'. spawn_stream_pool sim_backend 2 1 sim_env (mk_create (e_device sim_env)) = (Ok, env', mk)
    \<and> mk_inv mk \<and> mk_modules mk = [] \<and> length (mk_free_compute mk) = 2 \<and> length (mk_free_dma mk) = 1
    \<and> length (mk_free_fence mk) = 1"
proof -
  obtain env' mk where s: "spawn_stream_pool sim_backend 2 1 sim_env (mk_create (e_device sim_env)) = (Ok, env', mk)"
    using sim_spawn by blast
  show ?thesis
    using s spawn_stream_pool_shape [OF s] by (auto simp: has_fence_stream_def sim_env_def)
qed

text \<open>C37: Scoped streams balance.  However many are opened, on whatever classes and whether or
  not the pool can serve them, closing them in reverse order restores the micro-kernel
  exactly; closing them in any order restores the same pool of streams.\<close>

theorem scoped_streams_balance:
  assumes "mk_inv mk" and "acquire_all (\<lambda>k. scoped_open k p) ks mk = (hs, mk')"
  shows "mk_inv mk' \<and> fold scoped_close (rev hs) mk' = mk \<and>
    (mset hs' = mset hs \<longrightarrow> mset (mk_pool (fold scoped_close hs' mk')) = mset (mk_pool mk))"
proof -
  have close: "scoped_close = release_stream"
    by (simp add: scoped_close_def release_stream_def fun_eq_iff)
  have run: "acquire_all (\<lambda>k. acquire_stream k p) ks mk = (hs, mk')"
    using assms(2) unfolding scoped_open_def .
  show ?thesis
    unfolding close
    using mkp.acquire_all_release [OF assms(1) run] mkp.release_any_order [OF assms(1) run]
    by blast
qed

definition demo_mk :: microkernel where
  "demo_mk = (mk_create (e_device sim_env))\<lparr>
     mk_free_compute := [stream_handle_default\<lparr>sh_id := 1\<rparr>, stream_handle_default\<lparr>sh_id := 2\<rparr>],
     mk_next_id := 3\<rparr>"

lemma demo_mk_inv: "mk_inv demo_mk"
  by (simp add: demo_mk_def mk_create_def pool_simps stream_handle_default_def)

theorem scoped_streams_balance_witness:
  "\<exists>hs mk'. acquire_all (\<lambda>k. scoped_open k 0) [Compute, Fence] demo_mk = (hs, mk') \<and> mk' \<noteq> demo_mk
    \<and> mk_inv mk' \<and> fold scoped_close (rev hs) mk' = demo_mk
    \<and> mset (mk_pool (fold scoped_close hs mk')) = mset (mk_pool demo_mk)"
proof -
  let ?hs = "[stream_handle_default\<lparr>sh_id := 2\<rparr>, stream_handle_default]"
  let ?mk = "demo_mk\<lparr>mk_free_compute := [stream_handle_default\<lparr>sh_id := 1\<rparr>]\<rparr>"
  have r: "acquire_all (\<lambda>k. scoped_open k 0) [Compute, Fence] demo_mk = (?hs, ?mk)"
    by (simp add: scoped_open_def acquire_stream_def demo_mk_def mk_create_def stream_handle_default_def)
  moreover have "?mk \<noteq> demo_mk" by (simp add: demo_mk_def mk_create_def)
  ultimately show ?thesis using scoped_streams_balance [OF demo_mk_inv r, of ?hs] by blast
qed

text \<open>Draining always reports \<open>Ok\<close>; it destroys every pooled stream exactly once, in the
  order compute, copy, fence, and leaves a kernel with no stream of any class and no module,
  so that acquiring yields the invalid handle and launching is rejected without reaching the
  driver.  A second drain destroys nothing.\<close>

theorem drain_empties:
  "\<exists>env' mk'. drain_streams pf env mk = (Ok, env', mk')
     \<and> env' = fold (\<lambda>h e. snd (b_destroy_stream pf (sh_raw h) e)) (mk_pool mk) env
     \<and> mk_inv mk' \<and> mk_pool mk' = []
     \<and> acquire_stream k p mk' = (stream_handle_default, mk')
     \<and> mk_launch pf m f g b sm h args env' mk' = (InvalidArgument, env')
     \<and> sync_all pf env' mk' = (Ok, env')
     \<and> drain_streams pf env' mk' = (Ok, env', mk')"
proof (intro exI conjI)
  let ?mk = "mk\<lparr>mk_free_compute := [], mk_free_dma := [], mk_free_fence := [], mk_modules := []\<rparr>"
  let ?env = "fold (\<lambda>h e. snd (b_destroy_stream pf (sh_raw h) e)) (mk_pool mk) env"
  show "drain_streams pf env mk = (Ok, ?env, ?mk)"
    by (simp add: drain_streams_def mk_pool_def Let_def)
  show "acquire_stream k p ?mk = (stream_handle_default, ?mk)"
    by (cases k) (simp_all add: acquire_stream_def stream_handle_default_def)
  show "drain_streams pf ?env ?mk = (Ok, ?env, ?mk)"
    by (simp add: drain_streams_def)
qed (simp_all add: pool_simps mk_launch_def find_module_def sync_all_def)

text \<open>The scheduler's warp policy gives a CTA of 16 warps and 512 threads on every
  architecture, and agrees with the micro-kernel's default queue on every known architecture;
  on an unknown one the two differ (2 producers and 14 consumers against 0 and 16).\<close>

theorem warp_policies_agree:
  "wp_total_warps (policy_for_arch a) = 16 \<and> wp_total_threads (policy_for_arch a) = 512
    \<and> wq_total_warps (default_warp_spec a) = 16
    \<and> (\<lparr>wq_producer_warps = wp_producer_warps (policy_for_arch a),
         wq_consumer_warps = wp_consumer_warps (policy_for_arch a),
         wq_fence_warps = wp_fence_warps (policy_for_arch a)\<rparr> = default_warp_spec a \<longleftrightarrow> a \<noteq> Unknown_arch)
    \<and> (wp_use_dsm (policy_for_arch a) \<longleftrightarrow> wp_cluster_size (policy_for_arch a) \<noteq> 1)"
  by (cases a) (simp_all add: wp_total_warps_def wp_total_threads_def policy_for_arch_def
      warp_spec_policy_default_def default_warp_spec_def wq_total_warps_def)

subsection \<open>Loaders that store no function\<close>

definition no_functions :: "microkernel \<Rightarrow> bool" where
  "no_functions mk = list_all (\<lambda>(k, m). km_functions m = []) (mk_modules mk)"

lemma no_functions_lookup: "no_functions mk \<Longrightarrow> map_of (mk_modules mk) k = Some m \<Longrightarrow> km_functions m = []"
  by (auto simp: no_functions_def list_all_iff dest!: map_of_SomeD)

lemma no_functions_launch: "no_functions mk \<Longrightarrow> mk_launch pf m f g b sm sh args env mk = (InvalidArgument, env)"
  by (auto simp: mk_launch_def find_module_def no_functions_lookup split: option.split)

fun load_modules :: "'p backend \<Rightarrow> (string \<times> string) list \<Rightarrow> 'p env \<Rightarrow> microkernel \<Rightarrow> 'p env \<times> microkernel" where
  "load_modules pf [] env mk = (env, mk)"
| "load_modules pf ((nm, src) # ms) env mk =
     (let (s, m, env', mk') = load_module pf nm src \<lparr>km_id = 0, km_name = '''', km_raw_module = 0, km_functions = []\<rparr> env mk
      in load_modules pf ms env' mk')"

lemma update_members: "x \<in> set (AList.update k v al) \<Longrightarrow> x = (k, v) \<or> x \<in> set al"
  by (induction al) (auto split: if_splits)

text \<open>A backend whose \<^verbatim>\<open>load_module\<close> leaves the function table of the module as it finds it
  never gets to launch: the micro-kernel hands it an empty one.\<close>

locale functionless_loader =
  fixes pf :: "'p backend"
  assumes load: "b_load_module pf nm src m e = (s, m', e') \<Longrightarrow> km_functions m' = km_functions m"
begin

lemma load_keeps:
  assumes "no_functions mk" and "load_module pf nm src out env mk = (s, m, env', mk')"
  shows "no_functions mk'"
proof (cases "map_of (mk_modules mk) nm")
  case None
  let ?m0 = "\<lparr>km_id = mk_next_id mk, km_name = nm, km_raw_module = 0, km_functions = []\<rparr>"
  obtain s1 m1 env1 where c: "b_load_module pf nm src ?m0 env = (s1, m1, env1)" using prod_cases3 by blast
  have "km_functions m1 = []" using load [OF c] by simp
  then have "no_functions (mk\<lparr>mk_next_id := mk_next_id mk + 1, mk_modules := AList.update nm m1 (mk_modules mk)\<rparr>)"
    using assms(1) update_members [of _ nm m1 "mk_modules mk"] by (auto simp: no_functions_def list_all_iff)
  then show ?thesis
    using assms None c by (auto simp: load_module_def Let_def no_functions_def split: if_splits)
qed (use assms in \<open>simp add: load_module_def\<close>)

lemma loads_keep: "no_functions mk \<Longrightarrow> load_modules pf ms env mk = (env', mk') \<Longrightarrow> no_functions mk'"
proof (induction ms arbitrary: env mk)
  case (Cons x ms)
  obtain nm src where x: "x = (nm, src)" by force
  obtain s m env1 mk1 where l: "load_module pf nm src \<lparr>km_id = 0, km_name = '''', km_raw_module = 0, km_functions = []\<rparr> env mk
      = (s, m, env1, mk1)" using prod_cases4 by blast
  then show ?case using Cons.IH [OF load_keeps [OF Cons.prems(1) l]] Cons.prems(2) by (simp add: x)
qed simp

lemma never_launches:
  assumes "load_modules pf ms env (mk_create d) = (env', mk)"
  shows "mk_launch pf m f g b sm sh args env2 mk = (InvalidArgument, env2)"
proof -
  have "no_functions (mk_create d)" by (simp add: no_functions_def mk_create_def)
  from no_functions_launch [OF loads_keep [OF this assms]] show ?thesis .
qed

end

end
