(* ===== verification/DmaEngine.thy ===== *)
theory DmaEngine
  imports Platform
begin

text \<open>
  The DMA engine (\<^verbatim>\<open>src/firmware/dma_engine.hpp\<close>, \<^verbatim>\<open>dma_engine.cpp\<close>) and the
  storage routers over it (\<^verbatim>\<open>src/memory/gds_router.cpp\<close>, \<^verbatim>\<open>grdma_router.cpp\<close>).
  The chunk loop of \<^verbatim>\<open>gds_stream\<close> advances a 64-bit offset; it is a
  \<^term>\<open>while_option\<close>, whose \<^term>\<open>None\<close> would be a loop that never ends.
\<close>

subsection \<open>The engine\<close>

record dma_engine =
  de_device :: device_desc
  de_gds_enabled :: bool
  de_grdma_enabled :: bool

definition dma_create :: "device_desc \<Rightarrow> dma_engine" where
  "dma_create d = \<lparr>de_device = d, de_gds_enabled = False, de_grdma_enabled = False\<rparr>"

definition enable_gds :: "'p backend \<Rightarrow> 'p env \<Rightarrow> dma_engine \<Rightarrow> status \<times> 'p env \<times> dma_engine" where
  "enable_gds pf env de =
     (if \<not> ff_gds (dd_features (de_device de)) then (NotImplemented, env, de)
      else (let (s, env') = b_gds_init pf env
            in (s, env', if ok s then de\<lparr>de_gds_enabled := True\<rparr> else de)))"

definition enable_grdma :: "'p backend \<Rightarrow> 'p env \<Rightarrow> dma_engine \<Rightarrow> status \<times> 'p env \<times> dma_engine" where
  "enable_grdma pf env de =
     (if \<not> ff_grdma (dd_features (de_device de)) then (NotImplemented, env, de)
      else (let (s, env') = b_grdma_init pf env
            in (s, env', if ok s then de\<lparr>de_grdma_enabled := True\<rparr> else de)))"

definition dma_shutdown :: "'p backend \<Rightarrow> 'p env \<Rightarrow> dma_engine \<Rightarrow> 'p env \<times> dma_engine" where
  "dma_shutdown pf env de =
     (let (env1, de1) = (if de_grdma_enabled de
                         then (snd (b_grdma_fini pf env), de\<lparr>de_grdma_enabled := False\<rparr>) else (env, de))
      in if de_gds_enabled de1
         then (snd (b_gds_fini pf env1), de1\<lparr>de_gds_enabled := False\<rparr>) else (env1, de1))"

definition dma_submit :: "'p backend \<Rightarrow> dma_request \<Rightarrow> 'p env \<Rightarrow> status \<times> ptr \<times> 'p env" where
  "dma_submit pf r env = b_dma_submit pf r env"

definition dma_wait :: "'p backend \<Rightarrow> ptr \<Rightarrow> u32 \<Rightarrow> 'p env \<Rightarrow> status \<times> 'p env" where
  "dma_wait pf ev timeout_ms env = b_dma_wait pf ev timeout_ms env"

definition gds_read :: "'p backend \<Rightarrow> dma_engine \<Rightarrow> string \<Rightarrow> u64 \<Rightarrow> ptr \<Rightarrow> u64 \<Rightarrow> 'p env \<Rightarrow> status \<times> 'p env" where
  "gds_read pf de path off dst bytes env =
     (if \<not> de_gds_enabled de then b_gds_read_fallback pf path off dst bytes env
      else (let r = dma_request_default\<lparr>dr_kind := GdsRead, dr_dst := dst, dr_bytes := bytes,
                      dr_nvme_path := path, dr_nvme_offset := off\<rparr>;
                (s, ev, env1) = dma_submit pf r env
            in if \<not> ok s then (s, env1) else dma_wait pf ev 30000 env1))"

definition gds_write :: "'p backend \<Rightarrow> dma_engine \<Rightarrow> string \<Rightarrow> u64 \<Rightarrow> ptr \<Rightarrow> u64 \<Rightarrow> 'p env \<Rightarrow> status \<times> 'p env" where
  "gds_write pf de path off src bytes env =
     (if \<not> de_gds_enabled de then b_gds_write_fallback pf path off src bytes env
      else (let r = dma_request_default\<lparr>dr_kind := GdsWrite, dr_src := src, dr_bytes := bytes,
                      dr_nvme_path := path, dr_nvme_offset := off\<rparr>;
                (s, ev, env1) = dma_submit pf r env
            in if \<not> ok s then (s, env1) else dma_wait pf ev 30000 env1))"

subsection \<open>The routers\<close>

definition gds_fetch :: "'p backend \<Rightarrow> dma_engine \<Rightarrow> string \<Rightarrow> u64 \<Rightarrow> ptr \<Rightarrow> u64 \<Rightarrow> 'p env \<Rightarrow> status \<times> 'p env" where
  "gds_fetch pf de path offset dst bytes env = gds_read pf de path offset dst bytes env"

definition gds_stream_loop :: "'p backend \<Rightarrow> dma_engine \<Rightarrow> string \<Rightarrow> u64 \<Rightarrow> ptr \<Rightarrow> u64 \<Rightarrow> u64 \<Rightarrow> 'p env
    \<Rightarrow> (u64 \<times> status \<times> 'p env) option" where
  "gds_stream_loop pf de path offset dst bytes chunk env =
     while_option (\<lambda>(off, s, e). off < bytes \<and> s = Ok)
       (\<lambda>(off, s, e). (off + chunk, gds_read pf de path (offset + off) (dst + off) (min chunk (bytes - off)) e))
       (0, Ok, env)"

definition gds_stream :: "'p backend \<Rightarrow> dma_engine \<Rightarrow> string \<Rightarrow> u64 \<Rightarrow> ptr \<Rightarrow> u64 \<Rightarrow> u64 \<Rightarrow> 'p env
    \<Rightarrow> (status \<times> 'p env) option" where
  "gds_stream pf de path offset dst bytes chunk_bytes env =
     (let chunk = (if chunk_bytes = 0 then 16 * 1024 * 1024 else chunk_bytes)
      in map_option (\<lambda>(off, s, e). (s, e)) (gds_stream_loop pf de path offset dst bytes chunk env))"

definition grdma_fetch :: "ptr \<Rightarrow> u64 \<Rightarrow> ptr \<Rightarrow> u64 \<Rightarrow> status" where
  "grdma_fetch remote_ipc_handle remote_offset local_hbm bytes = NotImplemented"

definition grdma_allreduce_fallback :: "ptr \<Rightarrow> ptr \<Rightarrow> u64 \<Rightarrow> int \<Rightarrow> status" where
  "grdma_allreduce_fallback sendbuf recvbuf n_elems dtype = NotImplemented"

subsection \<open>Chunks\<close>

text \<open>The reads a stream asks for: offset and length of each chunk.\<close>

function chunks_from :: "nat \<Rightarrow> nat \<Rightarrow> nat \<Rightarrow> (nat \<times> nat) list" where
  "chunks_from c b off = (if off < b \<and> 0 < c then (off, min c (b - off)) # chunks_from c b (off + c) else [])"
  by pat_completeness auto
termination by (relation "measure (\<lambda>(c, b, off). b - off)") auto

declare chunks_from.simps [simp del]

fun read_chunks :: "'p backend \<Rightarrow> dma_engine \<Rightarrow> string \<Rightarrow> u64 \<Rightarrow> ptr \<Rightarrow> (nat \<times> nat) list \<Rightarrow> 'p env \<Rightarrow> status \<times> 'p env" where
  "read_chunks pf de path offset dst [] env = (Ok, env)"
| "read_chunks pf de path offset dst ((off, n) # cs) env =
     (let (s, env') = gds_read pf de path (offset + of_nat off) (dst + of_nat off) (of_nat n) env
      in if \<not> ok s then (s, env') else read_chunks pf de path offset dst cs env')"

lemma chunks_cover:
  assumes "0 < c"
  shows "concat (map (\<lambda>(off, n). [off..<off + n]) (chunks_from c b off)) = [off..<b]"
  using assms
proof (induction c b off rule: chunks_from.induct)
  case (1 c b off)
  show ?case
  proof (cases "off < b")
    case True
    then have s: "chunks_from c b off = (off, min c (b - off)) # chunks_from c b (off + c)"
      using 1(2) by (subst chunks_from.simps) simp
    have ih: "concat (map (\<lambda>(off, n). [off..<off + n]) (chunks_from c b (off + c))) = [off + c..<b]"
      using 1(1) True 1(2) by simp
    show ?thesis
    proof (cases "off + c \<le> b")
      case le: True
      have "[off..<b] = [off..<off + c] @ [off + c..<b]"
        using upt_add_eq_append [of off "off + c" "b - (off + c)"] le by simp
      moreover have "min c (b - off) = c" using le by simp
      ultimately show ?thesis using s ih by simp
    next
      case False
      then have "[off + c..<b] = []" "min c (b - off) = b - off" by simp_all
      then show ?thesis using s ih True by simp
    qed
  next
    case False
    then show ?thesis by (subst chunks_from.simps) simp
  qed
qed

lemma chunks_bounds: "(o1, n) \<in> set (chunks_from c b off) \<Longrightarrow> 0 < n \<and> n \<le> c \<and> o1 + n \<le> b"
proof (induction c b off rule: chunks_from.induct)
  case (1 c b off)
  then show ?case by (subst (asm) (2) chunks_from.simps) (auto split: if_splits)
qed

text \<open>One chunk of the stream: the offset does not wrap, and the code's \<^verbatim>\<open>min\<close> on words is the
  chunk's length.\<close>

lemma stream_chunk:
  fixes off bytes chunk :: u64
  assumes c: "chunk \<noteq> 0" and fits: "unat bytes + unat chunk \<le> 2 ^ 64" and lt: "off < bytes"
  shows "chunks_from (unat chunk) (unat bytes) (unat off) = (unat off, min (unat chunk) (unat bytes - unat off))
        # chunks_from (unat chunk) (unat bytes) (unat (off + chunk))"
    and "unat bytes - unat (off + chunk) < unat bytes - unat off"
    and "of_nat (min (unat chunk) (unat bytes - unat off)) = min chunk (bytes - off)"
proof -
  have c0: "0 < unat chunk" using c by (simp add: unat_gt_0)
  have l: "unat off < unat bytes" using lt by (simp add: word_less_nat_alt)
  then have "unat off + unat chunk < 2 ^ 64" using fits by linarith
  then have up: "unat (off + chunk) = unat off + unat chunk"
    by (intro unat_add_lem [THEN iffD1]) simp
  have d: "unat (bytes - off) = unat bytes - unat off" using lt by (simp add: unat_sub word_le_nat_alt word_less_nat_alt)
  then have m: "unat (min chunk (bytes - off)) = min (unat chunk) (unat bytes - unat off)"
    by (simp add: min_def word_le_nat_alt)
  show "chunks_from (unat chunk) (unat bytes) (unat off) = (unat off, min (unat chunk) (unat bytes - unat off))
        # chunks_from (unat chunk) (unat bytes) (unat (off + chunk))"
    using l c0 by (subst chunks_from.simps) (simp add: up)
  show "unat bytes - unat (off + chunk) < unat bytes - unat off" using l c0 up by simp
  show "of_nat (min (unat chunk) (unat bytes - unat off)) = min chunk (bytes - off)"
    unfolding m [symmetric] by (simp add: of_nat_unat)
qed

lemma stream_loop_returns:
  fixes bytes chunk :: u64
  assumes c: "chunk \<noteq> 0" and fits: "unat bytes + unat chunk \<le> 2 ^ 64"
  shows "\<exists>off'. while_option (\<lambda>(off, s, e). off < bytes \<and> s = Ok)
       (\<lambda>(off, s, e). (off + chunk, gds_read pf de path (offset + off) (dst + off) (min chunk (bytes - off)) e))
       (off, Ok, env)
     = Some (off', read_chunks pf de path offset dst (chunks_from (unat chunk) (unat bytes) (unat off)) env)"
proof (induction "unat bytes - unat off" arbitrary: off env rule: less_induct)
  case less
  show ?case
  proof (cases "off < bytes")
    case False
    then have "\<not> unat off < unat bytes" by (simp add: word_less_nat_alt)
    then have "chunks_from (unat chunk) (unat bytes) (unat off) = []" by (subst chunks_from.simps) simp
    then show ?thesis using False by (subst while_option_unfold) simp
  next
    case True
    note s = stream_chunk [OF c fits True]
    obtain s1 e1 where g: "gds_read pf de path (offset + off) (dst + off) (min chunk (bytes - off)) env = (s1, e1)"
      by force
    show ?thesis
    proof (cases "s1 = Ok")
      case False
      then have "while_option (\<lambda>(off, s, e). off < bytes \<and> s = Ok)
         (\<lambda>(off, s, e). (off + chunk, gds_read pf de path (offset + off) (dst + off) (min chunk (bytes - off)) e))
         (off + chunk, s1, e1) = Some (off + chunk, s1, e1)"
        by (subst while_option_unfold) simp
      then show ?thesis using True g False s(3) by (subst while_option_unfold) (simp add: s(1))
    next
      case ok: True
      from less.hyps [OF s(2), of e1] show ?thesis
        using True g ok s(3) by (subst while_option_unfold) (simp add: s(1))
    qed
  qed
qed

subsection \<open>What the engine promises\<close>

text \<open>C35: Streaming a file returns and reads exactly the requested range: with a chunk size that
  does not wrap past the end (16 MB when 0 is given), the reads are consecutive chunks, each
  non-empty and no longer than the chunk size, whose bytes are 0 up to the length, in order,
  each once; it stops at the first failing read with that status, and answers \<open>Ok\<close> when all
  succeed.\<close>

theorem gds_stream_covers:
  assumes "unat bytes + unat (if chunk = 0 then 16777216 else chunk) \<le> 2 ^ 64"
  shows "\<exists>cs. gds_stream pf de path offset dst bytes chunk env = Some (read_chunks pf de path offset dst cs env)
    \<and> concat (map (\<lambda>(off, n). [off..<off + n]) cs) = [0..<unat bytes]
    \<and> (\<forall>(off, n) \<in> set cs. 0 < n \<and> n \<le> unat (if chunk = 0 then 16777216 else chunk) \<and> off + n \<le> unat bytes)"
proof -
  let ?c = "if chunk = 0 then 16777216 else chunk"
  have c: "?c \<noteq> 0" "0 < unat ?c" by (auto simp: unat_gt_0)
  obtain off' where l: "gds_stream_loop pf de path offset dst bytes ?c env
      = Some (off', read_chunks pf de path offset dst (chunks_from (unat ?c) (unat bytes) 0) env)"
    using stream_loop_returns [OF c(1) assms, of pf de path offset dst 0 env]
    by (auto simp: gds_stream_loop_def)
  obtain s1 e1 where r: "read_chunks pf de path offset dst (chunks_from (unat ?c) (unat bytes) 0) env = (s1, e1)"
    by force
  have "(16 * 1024 * 1024 :: u64) = 16777216" by simp
  then have "gds_stream pf de path offset dst bytes chunk env
      = map_option (\<lambda>(off, s, e). (s, e)) (gds_stream_loop pf de path offset dst bytes ?c env)"
    unfolding gds_stream_def Let_def by presburger
  then have "gds_stream pf de path offset dst bytes chunk env
      = Some (read_chunks pf de path offset dst (chunks_from (unat ?c) (unat bytes) 0) env)"
    unfolding l r by simp
  then show ?thesis
    using chunks_cover [OF c(2), of "unat bytes" 0] chunks_bounds by (intro exI conjI) auto
qed

theorem gds_stream_covers_witness:
  "\<exists>cs. gds_stream sim_backend (dma_create device_desc_default) ''f'' 0 0x1000 100 64 sim_env
      = Some (read_chunks sim_backend (dma_create device_desc_default) ''f'' 0 0x1000 cs sim_env)
    \<and> concat (map (\<lambda>(off, n). [off..<off + n]) cs) = [0..<100]"
  using gds_stream_covers [of 100 64 sim_backend "dma_create device_desc_default" "''f''" 0 "0x1000" sim_env]
  by auto

text \<open>A storage request takes one path.  With GPUDirect Storage off it goes to the fallback
  with the same arguments; with it on, one request with exactly those arguments is submitted
  and, if accepted, its event is awaited for 30 seconds, and the status returned is the first
  failure or that of the wait.  It is on exactly when the device has the feature and the
  driver's initialisation succeeded, and shutting down turns it off, a second shutdown doing
  nothing.\<close>

theorem storage_path:
  "gds_read pf de path off dst n env =
     (if de_gds_enabled de
      then (case b_dma_submit pf \<lparr>dr_kind = GdsRead, dr_dst = dst, dr_src = 0, dr_bytes = n, dr_dst_device = 0,
               dr_src_device = 0, dr_nvme_path = path, dr_nvme_offset = off\<rparr> env of
              (s, ev, env1) \<Rightarrow> if s = Ok then b_dma_wait pf ev 30000 env1 else (s, env1))
      else b_gds_read_fallback pf path off dst n env)
   \<and> gds_write pf de path off dst n env =
     (if de_gds_enabled de
      then (case b_dma_submit pf \<lparr>dr_kind = GdsWrite, dr_dst = 0, dr_src = dst, dr_bytes = n, dr_dst_device = 0,
               dr_src_device = 0, dr_nvme_path = path, dr_nvme_offset = off\<rparr> env of
              (s, ev, env1) \<Rightarrow> if s = Ok then b_dma_wait pf ev 30000 env1 else (s, env1))
      else b_gds_write_fallback pf path off dst n env)
   \<and> de_gds_enabled (snd (snd (enable_gds pf env (dma_create d))))
       = (ff_gds (dd_features d) \<and> fst (b_gds_init pf env) = Ok)
   \<and> (case dma_shutdown pf env de of (env1, de1) \<Rightarrow> \<not> de_gds_enabled de1 \<and> \<not> de_grdma_enabled de1
        \<and> dma_shutdown pf env2 de1 = (env2, de1))"
  by (auto simp: gds_read_def gds_write_def dma_submit_def dma_wait_def dma_request_default_def Let_def
      enable_gds_def dma_create_def dma_shutdown_def split: prod.split)

end
