(* ===== verification/FaultHandler.thy ===== *)
theory FaultHandler
  imports Platform
begin

text \<open>
  The fault handler of \<^verbatim>\<open>src/firmware/fault_handler.hpp\<close> and
  \<^verbatim>\<open>fault_handler.cpp\<close>: the fault buffer, its installation, the sweep that the polling
  thread repeats, and the explicit fetch hint.  The buffer's content is the list of its
  records; the time a resolution takes is an argument.  The thread is a flag, and its
  interleaving with the device's writes is the step relation below.
\<close>

subsection \<open>State\<close>

record fault_record =
  fr_faulting_addr :: u64
  fr_requesting_pc :: u64
  fr_requesting_sm :: u32
  fr_requesting_warp :: u32
  fr_timestamp_ns :: u64
  fr_status :: u32

definition fault_record_zero :: fault_record where
  "fault_record_zero = \<lparr>fr_faulting_addr = 0, fr_requesting_pc = 0, fr_requesting_sm = 0,
     fr_requesting_warp = 0, fr_timestamp_ns = 0, fr_status = 0\<rparr>"

definition sizeof_fault_record :: u64 where
  "sizeof_fault_record = 40"

record fault_handler =
  fh_buffer_slots :: u32
  fh_buffer :: ptr
  fh_records :: "fault_record list"
  fh_stop :: bool
  fh_polling :: bool
  fh_total :: u64
  fh_resolved :: u64
  fh_failed :: u64
  fh_resolve_ns :: u64
  fh_crashed :: bool

definition fh_create :: "u32 \<Rightarrow> fault_handler" where
  "fh_create slots = \<lparr>fh_buffer_slots = slots, fh_buffer = 0, fh_records = [], fh_stop = False,
     fh_polling = False, fh_total = 0, fh_resolved = 0, fh_failed = 0, fh_resolve_ns = 0,
     fh_crashed = False\<rparr>"

subsection \<open>Installing and removing the buffer\<close>

text \<open>The buffer is zeroed with \<^verbatim>\<open>memset\<close> as soon as the driver answers \<open>Ok\<close>.  If it handed out
  a null buffer, the process ends there; \<open>fh_crashed\<close> records it, and what the model does
  afterwards is void.\<close>

definition fh_install :: "'p backend \<Rightarrow> 'p env \<Rightarrow> fault_handler \<Rightarrow> status \<times> 'p env \<times> fault_handler" where
  "fh_install pf env fh =
     (if dd_vendor (e_device env) = Nvidia then (Ok, env, fh)
      else (let (s, buf, env1) = b_alloc_hbm pf (ucast (fh_buffer_slots fh) * sizeof_fault_record) env
            in if \<not> ok s then (s, env1, fh)
               else (let (s2, env2) = b_install_fault_buffer pf buf (fh_buffer_slots fh) env1
                     in (Ok, env2, fh\<lparr>fh_buffer := buf,
                           fh_records := replicate (unat (fh_buffer_slots fh)) fault_record_zero,
                           fh_stop := False, fh_polling := True, fh_crashed := buf = 0\<rparr>))))"

definition fh_uninstall :: "'p backend \<Rightarrow> 'p env \<Rightarrow> fault_handler \<Rightarrow> status \<times> 'p env \<times> fault_handler" where
  "fh_uninstall pf env fh =
     (if fh_buffer fh = 0 then (Ok, env, fh)
      else (let env1 = snd (b_uninstall_fault_buffer pf (fh_buffer fh) env);
                env2 = snd (b_free_hbm pf (fh_buffer fh) env1)
            in (Ok, env2, fh\<lparr>fh_stop := True, fh_polling := False, fh_buffer := 0, fh_records := []\<rparr>)))"

definition inject_fetch_hint :: "'p backend \<Rightarrow> u64 \<Rightarrow> u64 \<Rightarrow> 'p env \<Rightarrow> status \<times> 'p env" where
  "inject_fetch_hint pf vaddr bytes env = b_prefetch_range pf vaddr bytes env"

subsection \<open>Polling\<close>

text \<open>One pass of the polling loop over the buffer: every record with status 0 is counted and
  resolved.  The last component of the result is the code's \<^verbatim>\<open>any\<close>.\<close>

definition poll_record :: "'p backend \<Rightarrow> (u64 \<Rightarrow> u64) \<Rightarrow> fault_record \<Rightarrow> 'p env \<Rightarrow> fault_handler
    \<Rightarrow> fault_record \<times> 'p env \<times> fault_handler" where
  "poll_record pf dur r env fh =
     (let (s, env') = b_resolve_fault pf (fr_faulting_addr r) env;
          fh1 = fh\<lparr>fh_total := fh_total fh + 1, fh_resolve_ns := fh_resolve_ns fh + dur (fr_faulting_addr r)\<rparr>
      in if ok s then (r\<lparr>fr_status := 1\<rparr>, env', fh1\<lparr>fh_resolved := fh_resolved fh1 + 1\<rparr>)
         else (r\<lparr>fr_status := 2\<rparr>, env', fh1\<lparr>fh_failed := fh_failed fh1 + 1\<rparr>))"

fun poll_records :: "'p backend \<Rightarrow> (u64 \<Rightarrow> u64) \<Rightarrow> fault_record list \<Rightarrow> 'p env \<Rightarrow> fault_handler
    \<Rightarrow> fault_record list \<times> 'p env \<times> fault_handler \<times> bool" where
  "poll_records pf dur [] env fh = ([], env, fh, False)"
| "poll_records pf dur (r # rs) env fh =
     (if fr_status r \<noteq> 0
      then (let (rs', env', fh', any) = poll_records pf dur rs env fh in (r # rs', env', fh', any))
      else (let (r1, env1, fh1) = poll_record pf dur r env fh;
                (rs', env', fh', any) = poll_records pf dur rs env1 fh1
            in (r1 # rs', env', fh', True)))"

definition fh_sweep :: "'p backend \<Rightarrow> (u64 \<Rightarrow> u64) \<Rightarrow> 'p env \<Rightarrow> fault_handler \<Rightarrow> 'p env \<times> fault_handler \<times> bool" where
  "fh_sweep pf dur env fh =
     (let (rs, env', fh', any) = poll_records pf dur (fh_records fh) env fh
      in (env', fh'\<lparr>fh_records := rs\<rparr>, any))"

definition avg_resolve_us :: "fault_handler \<Rightarrow> u64" where
  "avg_resolve_us fh =
     (if fh_resolved fh = 0 then 0 else fh_resolve_ns fh div (fh_resolved fh * 1000))"

subsection \<open>Interleavings\<close>

text \<open>The device writes a record, the thread sweeps, the owner installs or removes the buffer,
  in any order.  Installing over a running poller is left out: assigning to a joinable
  \<^verbatim>\<open>std::thread\<close> ends the process.\<close>

inductive fh_step :: "'p backend \<Rightarrow> (u64 \<Rightarrow> u64) \<Rightarrow> 'p env \<times> fault_handler \<Rightarrow> 'p env \<times> fault_handler \<Rightarrow> bool"
  for pf dur where
  device: "i < length (fh_records fh) \<Longrightarrow> fh_step pf dur (env, fh) (env, fh\<lparr>fh_records := (fh_records fh)[i := r]\<rparr>)"
| sweep: "fh_polling fh \<Longrightarrow> fh_sweep pf dur env fh = (env', fh', any) \<Longrightarrow> fh_step pf dur (env, fh) (env', fh')"
| install: "\<not> fh_polling fh \<Longrightarrow> fh_install pf env fh = (s, env', fh') \<Longrightarrow> fh_step pf dur (env, fh) (env', fh')"
| uninstall: "fh_uninstall pf env fh = (s, env', fh') \<Longrightarrow> fh_step pf dur (env, fh) (env', fh')"

definition fh_inv :: "fault_handler \<Rightarrow> bool" where
  "fh_inv fh = (fh_total fh = fh_resolved fh + fh_failed fh
     \<and> (fh_records fh = [] \<or> length (fh_records fh) = unat (fh_buffer_slots fh)))"

lemma poll_record_frame:
  assumes "poll_record pf dur r env fh = (r', env', fh')"
  shows "fr_status r' \<noteq> 0" "fh_total fh' = fh_total fh + 1" "fh_records fh' = fh_records fh"
    "fh_buffer fh' = fh_buffer fh" "fh_buffer_slots fh' = fh_buffer_slots fh"
    "fh_resolved fh' + fh_failed fh' = fh_resolved fh + fh_failed fh + 1"
  using assms by (auto simp: poll_record_def Let_def split: prod.splits if_splits)

lemma poll_records_frame:
  "poll_records pf dur rs env fh = (rs', env', fh', any) \<Longrightarrow>
    length rs' = length rs \<and> list_all (\<lambda>r. fr_status r \<noteq> 0) rs'
    \<and> fh_records fh' = fh_records fh \<and> fh_buffer fh' = fh_buffer fh \<and> fh_buffer_slots fh' = fh_buffer_slots fh
    \<and> fh_total fh' = fh_total fh + of_nat (length (filter (\<lambda>r. fr_status r = 0) rs))
    \<and> fh_resolved fh' + fh_failed fh' = fh_resolved fh + fh_failed fh
        + of_nat (length (filter (\<lambda>r. fr_status r = 0) rs))
    \<and> (any \<longleftrightarrow> list_ex (\<lambda>r. fr_status r = 0) rs)"
proof (induction pf dur rs env fh arbitrary: rs' env' fh' any rule: poll_records.induct)
  case (2 pf dur r rs env fh)
  show ?case
  proof (cases "fr_status r = 0")
    case False
    obtain rs1 env1 fh1 any1 where p: "poll_records pf dur rs env fh = (rs1, env1, fh1, any1)"
      by (cases "poll_records pf dur rs env fh") auto
    show ?thesis using "2.IH"(1) [of rs1 env1 fh1 any1] False p "2.prems" by auto
  next
    case True
    obtain r1 env1 fh1 where o: "poll_record pf dur r env fh = (r1, env1, fh1)"
      by (cases "poll_record pf dur r env fh") auto
    obtain rs2 env2 fh2 any2 where p: "poll_records pf dur rs env1 fh1 = (rs2, env2, fh2, any2)"
      by (cases "poll_records pf dur rs env1 fh1") auto
    have ih: "length rs2 = length rs \<and> list_all (\<lambda>r. fr_status r \<noteq> 0) rs2
      \<and> fh_records fh2 = fh_records fh1 \<and> fh_buffer fh2 = fh_buffer fh1 \<and> fh_buffer_slots fh2 = fh_buffer_slots fh1
      \<and> fh_total fh2 = fh_total fh1 + of_nat (length (filter (\<lambda>r. fr_status r = 0) rs))
      \<and> fh_resolved fh2 + fh_failed fh2 = fh_resolved fh1 + fh_failed fh1
          + of_nat (length (filter (\<lambda>r. fr_status r = 0) rs))"
      using "2.IH"(2) [OF _ o [symmetric] refl refl p] True by simp
    have e: "rs' = r1 # rs2" "fh' = fh2" "any" using "2.prems" True o p by auto
    show ?thesis using ih e True poll_record_frame [OF o] by simp
  qed
qed simp

lemma fh_step_inv: "fh_step pf dur a b \<Longrightarrow> fh_inv (snd a) \<Longrightarrow> fh_inv (snd b)"
proof (induction rule: fh_step.induct)
  case (device i fh env r)
  then show ?case by (auto simp: fh_inv_def)
next
  case (sweep fh env env' fh' any)
  obtain rs1 env1 fh1 any1 where p: "poll_records pf dur (fh_records fh) env fh = (rs1, env1, fh1, any1)"
    by (cases "poll_records pf dur (fh_records fh) env fh") auto
  have f: "length rs1 = length (fh_records fh)" "fh_buffer fh1 = fh_buffer fh" "fh_buffer_slots fh1 = fh_buffer_slots fh"
    "fh_total fh1 = fh_total fh + of_nat (length (filter (\<lambda>r. fr_status r = 0) (fh_records fh)))"
    "fh_resolved fh1 + fh_failed fh1 = fh_resolved fh + fh_failed fh
        + of_nat (length (filter (\<lambda>r. fr_status r = 0) (fh_records fh)))"
    using poll_records_frame [OF p] by auto
  have e: "fh' = fh1\<lparr>fh_records := rs1\<rparr>" using sweep.hyps(2) p by (simp add: fh_sweep_def)
  have "fh_records fh = [] \<longleftrightarrow> rs1 = []" using f(1) by auto
  then show ?case using sweep.prems f by (auto simp: fh_inv_def e)
next
  case (install env fh s env' fh')
  then show ?case by (auto simp: fh_inv_def fh_install_def Let_def split: if_splits prod.splits)
next
  case (uninstall env fh s env' fh')
  then show ?case by (auto simp: fh_inv_def fh_uninstall_def Let_def split: if_splits)
qed

definition fh_pending :: "fault_handler \<Rightarrow> nat" where
  "fh_pending fh = length (filter (\<lambda>r. fr_status r = 0) (fh_records fh))"

lemma fh_sweep_facts:
  assumes "fh_sweep pf dur env fh = (env', fh', any)"
  shows "fh_pending fh' = 0" "fh_total fh' = fh_total fh + of_nat (fh_pending fh)"
    "any \<longleftrightarrow> fh_pending fh > 0"
    "fh_resolved fh' + fh_failed fh' = fh_resolved fh + fh_failed fh + of_nat (fh_pending fh)"
proof -
  obtain rs1 env1 fh1 any1 where p: "poll_records pf dur (fh_records fh) env fh = (rs1, env1, fh1, any1)"
    by (cases "poll_records pf dur (fh_records fh) env fh") auto
  have e: "fh' = fh1\<lparr>fh_records := rs1\<rparr>" "any = any1" using assms p by (simp_all add: fh_sweep_def)
  note f = poll_records_frame [OF p]
  show "fh_pending fh' = 0" using f by (simp add: e fh_pending_def list_all_iff filter_empty_conv)
  show "fh_total fh' = fh_total fh + of_nat (fh_pending fh)"
    "fh_resolved fh' + fh_failed fh' = fh_resolved fh + fh_failed fh + of_nat (fh_pending fh)"
    using f by (simp_all add: e fh_pending_def)
  show "any \<longleftrightarrow> fh_pending fh > 0"
    using f by (auto simp: e fh_pending_def list_ex_iff filter_empty_conv)
qed

lemma poll_records_settled:
  "list_all (\<lambda>r. fr_status r \<noteq> 0) rs \<Longrightarrow> poll_records pf dur rs env fh = (rs, env, fh, False)"
  by (induction rs) auto

lemma fh_sweep_settled: "fh_pending fh = 0 \<Longrightarrow> fh_sweep pf dur env fh = (env, fh, False)"
  by (simp add: fh_sweep_def fh_pending_def filter_empty_conv poll_records_settled list_all_iff)

subsection \<open>What the fault handler promises\<close>

text \<open>C18: Under any interleaving of device writes, sweeps, installation and removal, every fault
  counted is either resolved or failed, and the buffer keeps its size; one sweep settles every
  pending record, counting each once, and sweeping again with no new fault does nothing and
  calls no driver.\<close>

theorem faults_accounted:
  assumes "rtranclp (fh_step pf dur) (env0, fh_create slots) (env, fh)"
  shows "fh_total fh = fh_resolved fh + fh_failed fh
    \<and> (fh_records fh = [] \<or> length (fh_records fh) = unat (fh_buffer_slots fh))
    \<and> (case fh_sweep pf dur env fh of (env', fh', any) \<Rightarrow>
         fh_total fh' = fh_total fh + of_nat (fh_pending fh) \<and> fh_pending fh' = 0
         \<and> (any \<longleftrightarrow> fh_pending fh > 0) \<and> fh_sweep pf dur env' fh' = (env', fh', False))"
proof -
  have "fh_inv (snd b)" if "rtranclp (fh_step pf dur) a b" "fh_inv (snd a)" for a b
    using that by (induction rule: rtranclp_induct) (auto intro: fh_step_inv)
  from this [OF assms] have inv: "fh_inv fh" by (simp add: fh_inv_def fh_create_def)
  obtain env' fh' any where s: "fh_sweep pf dur env fh = (env', fh', any)" by (cases "fh_sweep pf dur env fh")
  note f = fh_sweep_facts [OF s]
  show ?thesis
    using inv s f fh_sweep_settled [OF f(1), of pf dur env'] by (simp add: fh_inv_def)
qed

definition plain_env :: "u64 env" where
  "plain_env = sim_env\<lparr>e_device := (e_device sim_env)\<lparr>dd_vendor := Apple\<rparr>\<rparr>"

lemma plain_install: "\<exists>env'. fh_install sim_backend plain_env (fh_create 2) = (Ok, env',
    (fh_create 2)\<lparr>fh_buffer := 0x100000, fh_records := [fault_record_zero, fault_record_zero],
      fh_polling := True\<rparr>)"
proof -
  have "replicate 2 x = [x, x]" for x :: fault_record by (simp add: numeral_2_eq_2)
  then show ?thesis by (simp add: fh_install_def plain_env_def sim_env_def fh_create_def)
qed

theorem faults_accounted_witness:
  "\<exists>env fh. rtranclp (fh_step sim_backend (\<lambda>_. 5)) (plain_env, fh_create 2) (env, fh)
    \<and> fh_pending fh = 2 \<and> fh_total fh = fh_resolved fh + fh_failed fh"
proof -
  obtain env' where i: "fh_install sim_backend plain_env (fh_create 2) = (Ok, env',
    (fh_create 2)\<lparr>fh_buffer := 0x100000, fh_records := [fault_record_zero, fault_record_zero],
      fh_polling := True\<rparr>)" (is "_ = (Ok, env', ?fh)")
    using plain_install by blast
  have r: "rtranclp (fh_step sim_backend (\<lambda>_. 5)) (plain_env, fh_create 2) (env', ?fh)"
    by (rule r_into_rtranclp, rule fh_step.install [OF _ i]) (simp add: fh_create_def)
  have "fh_pending ?fh = 2" by (simp add: fh_pending_def fault_record_zero_def)
  then show ?thesis using r faults_accounted [OF r] by blast
qed

text \<open>A freshly installed buffer already reports a fault in every slot: its records are zero
  and a zero status means pending, so on a non-NVIDIA device the first sweep, before any fault
  happened, resolves address 0 once per slot and counts that many faults.  On an NVIDIA device
  no buffer is installed and sweeping never counts anything.\<close>

theorem first_sweep_phantom_faults:
  assumes inst: "fh_install pf env (fh_create slots) = (Ok, env1, fh)"
    and sw: "fh_sweep pf dur env1 fh = (env2, fh', any)"
  shows "fh_total fh' = (if dd_vendor (e_device env) = Nvidia then 0 else ucast slots)
    \<and> (dd_vendor (e_device env) = Nvidia \<longrightarrow> env2 = env)
    \<and> (dd_vendor (e_device env) \<noteq> Nvidia \<longrightarrow>
        env2 = ((\<lambda>e. snd (b_resolve_fault pf 0 e)) ^^ unat slots) env1)"
proof (cases "dd_vendor (e_device env) = Nvidia")
  case True
  then have "fh = fh_create slots" "env1 = env" using inst by (simp_all add: fh_install_def)
  then show ?thesis using True sw by (auto simp: fh_sweep_def fh_create_def)
next
  case False
  then have rs: "fh_records fh = replicate (unat slots) fault_record_zero" "fh_total fh = 0"
    using inst by (auto simp: fh_install_def fh_create_def Let_def split: prod.splits if_splits)
  have "fst (snd (poll_records pf dur (replicate n fault_record_zero) e f))
      = ((\<lambda>e. snd (b_resolve_fault pf 0 e)) ^^ n) e" for n e f
  proof (induction n arbitrary: e f)
    case (Suc n)
    obtain r1 e1 f1 where o: "poll_record pf dur fault_record_zero e f = (r1, e1, f1)"
      by (cases "poll_record pf dur fault_record_zero e f") auto
    have "e1 = snd (b_resolve_fault pf 0 e)"
      using o by (auto simp: poll_record_def fault_record_zero_def Let_def split: prod.splits if_splits)
    then show ?case
      using Suc.IH [of e1 f1] o
      by (simp add: fault_record_zero_def funpow_swap1 split: prod.splits)
         (metis fst_conv funpow_swap1 snd_conv)
  qed simp
  moreover have "env2 = fst (snd (poll_records pf dur (fh_records fh) env1 fh))"
    using sw by (auto simp: fh_sweep_def split: prod.splits)
  moreover have "fh_pending fh = unat slots"
    by (simp add: fh_pending_def rs fault_record_zero_def)
  ultimately show ?thesis
    using False fh_sweep_facts(2) [OF sw] rs by (simp add: unsigned_ucast_eq)
qed

theorem first_sweep_phantom_faults_witness:
  "\<exists>env1 fh env2 fh' any. fh_install sim_backend plain_env (fh_create 2) = (Ok, env1, fh)
    \<and> fh_sweep sim_backend (\<lambda>_. 5) env1 fh = (env2, fh', any) \<and> fh_total fh' = 2"
proof -
  obtain env1 fh where i: "fh_install sim_backend plain_env (fh_create 2) = (Ok, env1, fh)"
    using plain_install by blast
  obtain env2 fh' any where s: "fh_sweep sim_backend (\<lambda>_. 5) env1 fh = (env2, fh', any)"
    by (cases "fh_sweep sim_backend (\<lambda>_. 5) env1 fh") auto
  have "dd_vendor (e_device plain_env) \<noteq> Nvidia" by (simp add: plain_env_def)
  then show ?thesis using i s first_sweep_phantom_faults [OF i s] by auto
qed

end
