(* ===== verification/TmaEngine.thy ===== *)
theory TmaEngine
  imports Platform "HOL-Library.Multiset"
begin

text \<open>
  The TMA descriptor cache (\<^verbatim>\<open>src/firmware/tma_engine.hpp\<close>, \<^verbatim>\<open>tma_engine.cpp\<close>).
  The cache keeps one encoded descriptor per key; the driver object behind a descriptor is
  released when its key is invalidated or the engine destroyed.
\<close>

subsection \<open>The engine\<close>

record tma_engine =
  te_cache :: "(string, tma_descriptor) umap"
  te_next_id :: u64

definition tma_create :: tma_engine where
  "tma_create = \<lparr>te_cache = [], te_next_id = 1\<rparr>"

definition tma_encode :: "'p backend \<Rightarrow> string \<Rightarrow> ptr \<Rightarrow> u32 \<Rightarrow> u64 list \<Rightarrow> u64 list \<Rightarrow> tma_swizzle \<Rightarrow> bool \<Rightarrow> u32
    \<Rightarrow> 'p env \<Rightarrow> tma_engine \<Rightarrow> status \<times> tma_descriptor option \<times> 'p env \<times> tma_engine" where
  "tma_encode pf key base elem_size shape stride swizzle multicast cluster_size env te =
     (case map_of (te_cache te) key of
        Some d \<Rightarrow> (Ok, Some d, env, te)
      | None \<Rightarrow>
          (let d = tma_descriptor_default\<lparr>td_id := te_next_id te, td_host_ptr := base, td_shape := shape,
                     td_stride := stride, td_swizzle := swizzle, td_elem_size := elem_size,
                     td_multicast := multicast, td_cluster_size := cluster_size\<rparr>;
               te1 = te\<lparr>te_next_id := te_next_id te + 1\<rparr>;
               (s, d', env') = b_tma_encode pf d env
           in if \<not> ok s then (s, None, env', te1)
              else (Ok, Some d', env', te1\<lparr>te_cache := AList.update key d' (te_cache te1)\<rparr>)))"

definition tma_lookup :: "tma_engine \<Rightarrow> string \<Rightarrow> tma_descriptor option" where
  "tma_lookup te key = map_of (te_cache te) key"

definition tma_issue_copy :: "'p backend \<Rightarrow> tma_descriptor \<Rightarrow> ptr \<Rightarrow> u64 \<Rightarrow> u64 \<Rightarrow> ptr \<Rightarrow> 'p env \<Rightarrow> status \<times> 'p env" where
  "tma_issue_copy pf d smem x y stream env = b_tma_issue_copy pf d smem x y stream env"

definition release_raw :: "'p backend \<Rightarrow> tma_descriptor \<Rightarrow> 'p env \<Rightarrow> 'p env" where
  "release_raw pf d env = (if td_raw d \<noteq> 0 then snd (b_tma_release pf (td_raw d) env) else env)"

definition tma_invalidate :: "'p backend \<Rightarrow> string \<Rightarrow> 'p env \<Rightarrow> tma_engine \<Rightarrow> 'p env \<times> tma_engine" where
  "tma_invalidate pf key env te =
     (case map_of (te_cache te) key of
        None \<Rightarrow> (env, te)
      | Some d \<Rightarrow> (release_raw pf d env, te\<lparr>te_cache := AList.delete key (te_cache te)\<rparr>))"

definition tma_destroy :: "'p backend \<Rightarrow> 'p env \<Rightarrow> tma_engine \<Rightarrow> 'p env" where
  "tma_destroy pf env te = fold (\<lambda>(k, d) e. release_raw pf d e) (te_cache te) env"

subsection \<open>Histories of an engine\<close>

inductive tma_reach :: "'p backend \<Rightarrow> 'p env \<Rightarrow> 'p env \<Rightarrow> tma_engine \<Rightarrow> bool"
  for pf :: "'p backend" and env0 :: "'p env" where
  tr_create: "tma_reach pf env0 env0 tma_create"
| tr_encode: "tma_reach pf env0 env te \<Longrightarrow>
    tma_encode pf key base esz shape stride swz mc cl env te = (s, out, env', te') \<Longrightarrow> tma_reach pf env0 env' te'"
| tr_issue: "tma_reach pf env0 env te \<Longrightarrow> tma_reach pf env0 (snd (tma_issue_copy pf d smem x y stream env)) te"
| tr_invalidate: "tma_reach pf env0 env te \<Longrightarrow> tma_invalidate pf key env te = (env', te') \<Longrightarrow> tma_reach pf env0 env' te'"

subsection \<open>The ledger of driver descriptors\<close>

text \<open>What a driver keeps: the encoded descriptors that have not been released.\<close>

definition tracks_live :: "'p backend \<Rightarrow> ('p env \<Rightarrow> ptr multiset) \<Rightarrow> bool" where
  "tracks_live pf live \<longleftrightarrow>
     (\<forall>d env. case b_tma_encode pf d env of (s, d', env') \<Rightarrow>
        live env' = (if s = Ok \<and> td_raw d' \<noteq> 0 then add_mset (td_raw d') (live env) else live env))
   \<and> (\<forall>p env. live (snd (b_tma_release pf p env)) = live env - {#p#})
   \<and> (\<forall>d p x y st env. live (snd (b_tma_issue_copy pf d p x y st env)) = live env)"

definition cached_raws :: "(string \<times> tma_descriptor) list \<Rightarrow> ptr multiset" where
  "cached_raws c = filter_mset (\<lambda>p. p \<noteq> 0) (mset (map (td_raw \<circ> snd) c))"

lemma cached_raws_simps [simp]:
  "cached_raws [] = {#}"
  "cached_raws ((k, d) # c) = (if td_raw d \<noteq> 0 then add_mset (td_raw d) (cached_raws c) else cached_raws c)"
  by (simp_all add: cached_raws_def)

lemma cached_raws_update_new:
  "map_of c k = None \<Longrightarrow> cached_raws (AList.update k d c)
     = (if td_raw d \<noteq> 0 then add_mset (td_raw d) (cached_raws c) else cached_raws c)"
  by (induction c) (auto split: if_splits)

lemma delete_absent: "map_of c k = None \<Longrightarrow> AList.delete k c = c"
  by (induction c) (auto split: if_splits)

lemma cached_raws_delete:
  "map_of c k = Some d \<Longrightarrow> distinct (map fst c) \<Longrightarrow> cached_raws c
     = (if td_raw d \<noteq> 0 then add_mset (td_raw d) (cached_raws (AList.delete k c)) else cached_raws (AList.delete k c))"
proof (induction c)
  case (Cons p c)
  obtain k' d' where p: "p = (k', d')" by force
  show ?case
  proof (cases "k' = k")
    case True
    then have "AList.delete k c = c" using Cons.prems p by (simp add: map_of_eq_None_iff delete_absent)
    then show ?thesis using Cons.prems p True by simp
  next
    case False
    then show ?thesis using Cons p by auto
  qed
qed simp

lemma live_release_raw:
  "tracks_live pf live \<Longrightarrow> live (release_raw pf d env) = (if td_raw d \<noteq> 0 then live env - {#td_raw d#} else live env)"
  by (simp add: release_raw_def tracks_live_def)

lemma live_encode:
  assumes t: "tracks_live pf live" and none: "map_of (te_cache te) key = None"
    and enc: "tma_encode pf key base esz shape stride swz mc cl env te = (s, out, env', te')"
  shows "live env' + cached_raws (te_cache te) = live env + cached_raws (te_cache te')"
    and "distinct (map fst (te_cache te)) \<Longrightarrow> distinct (map fst (te_cache te'))"
proof -
  let ?d = "tma_descriptor_default\<lparr>td_id := te_next_id te, td_host_ptr := base, td_shape := shape,
               td_stride := stride, td_swizzle := swz, td_elem_size := esz,
               td_multicast := mc, td_cluster_size := cl\<rparr>"
  obtain s1 d1 e1 where e: "b_tma_encode pf ?d env = (s1, d1, e1)" using prod_cases3 by blast
  have h: "\<forall>d env. case b_tma_encode pf d env of (s, d', env') \<Rightarrow>
      live env' = (if s = Ok \<and> td_raw d' \<noteq> 0 then add_mset (td_raw d') (live env) else live env)"
    using t unfolding tracks_live_def by (rule conjunct1)
  have l: "live e1 = (if s1 = Ok \<and> td_raw d1 \<noteq> 0 then add_mset (td_raw d1) (live env) else live env)"
    using h [THEN spec, of ?d, THEN spec, of env] by (simp add: e)
  have st: "env' = e1" "te_cache te' = (if s1 = Ok then AList.update key d1 (te_cache te) else te_cache te)"
    using enc by (auto simp: tma_encode_def none e Let_def split: if_splits)
  show "live env' + cached_raws (te_cache te) = live env + cached_raws (te_cache te')"
    using l unfolding st by (simp add: cached_raws_update_new [OF none])
  show "distinct (map fst (te_cache te)) \<Longrightarrow> distinct (map fst (te_cache te'))"
    unfolding st by (simp add: distinct_update)
qed

lemma tma_ledger:
  assumes t: "tracks_live pf live" and r: "tma_reach pf env0 env te"
  shows "distinct (map fst (te_cache te)) \<and> live env = live env0 + cached_raws (te_cache te)"
  using r
proof induction
  case tr_create
  then show ?case by (simp add: tma_create_def)
next
  case (tr_encode env te key base esz shape stride swz mc cl s out env' te')
  show ?case
  proof (cases "map_of (te_cache te) key")
    case (Some d)
    then show ?thesis using tr_encode by (simp add: tma_encode_def)
  next
    case None
    show ?thesis using live_encode [OF t None tr_encode.hyps(2)] tr_encode.IH by (simp add: add.assoc add.commute)
  qed
next
  case (tr_issue env te d smem x y stream)
  then show ?case using t by (simp add: tracks_live_def tma_issue_copy_def)
next
  case (tr_invalidate env te key env' te')
  show ?case
  proof (cases "map_of (te_cache te) key")
    case None
    then show ?thesis using tr_invalidate by (simp add: tma_invalidate_def)
  next
    case (Some d)
    then have st: "env' = release_raw pf d env" "te_cache te' = AList.delete key (te_cache te)"
      using tr_invalidate.hyps(2) by (auto simp: tma_invalidate_def)
    have c: "cached_raws (te_cache te) = (if td_raw d \<noteq> 0
        then add_mset (td_raw d) (cached_raws (AList.delete key (te_cache te)))
        else cached_raws (AList.delete key (te_cache te)))"
      using cached_raws_delete [OF Some] tr_invalidate.IH by blast
    show ?thesis using tr_invalidate.IH c unfolding st
      by (simp add: live_release_raw [OF t] distinct_delete split: if_splits)
  qed
qed

lemma live_destroy:
  assumes t: "tracks_live pf live"
  shows "live env = L + cached_raws c \<Longrightarrow> live (fold (\<lambda>(k, d) e. release_raw pf d e) c env) = L"
proof (induction c arbitrary: env)
  case (Cons p c)
  obtain k d where p: "p = (k, d)" by force
  have "live (release_raw pf d env) = L + cached_raws c"
    using Cons.prems by (simp add: p live_release_raw [OF t] split: if_splits)
  then show ?case using Cons.IH by (simp add: p)
qed simp

subsection \<open>What the engine promises\<close>

text \<open>C38: No driver descriptor leaks and none is released twice.  Over a driver that keeps the
  set of encoded, unreleased descriptors, after any history of encodes (cached, failed or
  successful), copies and invalidations, the descriptors the driver keeps are those it kept
  when the engine was made and exactly one for each cached descriptor; destroying the engine
  releases those and leaves the driver as it was.\<close>

theorem tma_no_leak:
  assumes "tracks_live pf live" "tma_reach pf env0 env te"
  shows "live env = live env0 + cached_raws (te_cache te)
    \<and> distinct (map fst (te_cache te)) \<and> live (tma_destroy pf env te) = live env0"
  using tma_ledger [OF assms] live_destroy [OF assms(1)] by (simp add: tma_destroy_def)

definition ledger_backend :: "ptr multiset backend" where
  "ledger_backend = null_backend\<lparr>
     b_tma_encode := (\<lambda>d e. (Ok, d\<lparr>td_raw := td_id d\<rparr>, e\<lparr>e_hw := (if td_id d \<noteq> 0 then add_mset (td_id d) (e_hw e) else e_hw e)\<rparr>)),
     b_tma_release := (\<lambda>p e. (Ok, e\<lparr>e_hw := e_hw e - {#p#}\<rparr>))\<rparr>"

definition ledger_env :: "ptr multiset env" where
  "ledger_env = \<lparr>e_device = device_desc_default, e_hbm_pool_bytes = 0, e_plat = platform_handle_default, e_hw = {#}\<rparr>"

definition demo_tma :: tma_engine where
  "demo_tma = \<lparr>te_cache = [(''q'', tma_descriptor_default\<lparr>td_id := 1, td_raw := 1, td_host_ptr := 0x1000,
     td_shape := [64, 64, 1, 1, 1], td_stride := [128, 1, 1, 1, 1]\<rparr>)], te_next_id = 2\<rparr>"

lemma ledger_tracks: "tracks_live ledger_backend e_hw"
  by (simp add: tracks_live_def ledger_backend_def null_backend_def)

lemma demo_tma_reach: "tma_reach ledger_backend ledger_env (ledger_env\<lparr>e_hw := {#1#}\<rparr>) demo_tma"
proof (rule tr_encode [OF tr_create])
  show "tma_encode ledger_backend ''q'' 0x1000 2 [64, 64, 1, 1, 1] [128, 1, 1, 1, 1] B128 False 1 ledger_env tma_create
    = (Ok, Some (snd (hd (te_cache demo_tma))), ledger_env\<lparr>e_hw := {#1#}\<rparr>, demo_tma)"
    by (simp add: tma_encode_def tma_create_def demo_tma_def ledger_backend_def null_backend_def ledger_env_def
        tma_descriptor_default_def)
qed

theorem tma_no_leak_witness:
  "e_hw (ledger_env\<lparr>e_hw := {#1#}\<rparr>) = e_hw ledger_env + cached_raws (te_cache demo_tma)
    \<and> distinct (map fst (te_cache demo_tma))
    \<and> e_hw (tma_destroy ledger_backend (ledger_env\<lparr>e_hw := {#1#}\<rparr>) demo_tma) = e_hw ledger_env"
  by (rule tma_no_leak [OF ledger_tracks demo_tma_reach])

text \<open>Encoding is idempotent per key.  A cached key is answered with the cached descriptor,
  without a driver call and whatever the layout asked for; after a successful encode the key
  looks up the returned descriptor and a second encode, with any other parameters, returns the
  same one and changes nothing; a refused encode caches nothing, so only the id is used up; and
  an invalidated key looks up nothing while every other key keeps its descriptor.\<close>

theorem tma_encode_cached:
  "case tma_encode pf key base esz shape stride swz mc cl env te of (s, out, env', te') \<Rightarrow>
     (case tma_lookup te key of
        Some d \<Rightarrow> s = Ok \<and> out = Some d \<and> env' = env \<and> te' = te
      | None \<Rightarrow> te_next_id te' = te_next_id te + 1
          \<and> tma_lookup te' = (tma_lookup te)(key := out)
          \<and> (s = Ok) = (out \<noteq> None))
   \<and> (if s = Ok then tma_encode pf key base2 esz2 shape2 stride2 swz2 mc2 cl2 env2 te' = (Ok, out, env2, te')
      else out = None \<and> te_cache te' = te_cache te)
   \<and> tma_lookup (snd (tma_invalidate pf key env2 te)) = (tma_lookup te)(key := None)"
proof (cases "map_of (te_cache te) key")
  case (Some d)
  then show ?thesis
    by (auto simp: tma_encode_def tma_lookup_def tma_invalidate_def delete_conv' fun_eq_iff)
next
  case None
  let ?d = "tma_descriptor_default\<lparr>td_id := te_next_id te, td_host_ptr := base, td_shape := shape,
                     td_stride := stride, td_swizzle := swz, td_elem_size := esz,
                     td_multicast := mc, td_cluster_size := cl\<rparr>"
  obtain s1 d1 e1 where e: "b_tma_encode pf ?d env = (s1, d1, e1)" using prod_cases3 by blast
  show ?thesis
    by (cases "s1 = Ok")
      (simp_all add: tma_encode_def tma_lookup_def tma_invalidate_def None e Let_def fun_eq_iff update_conv')
qed

end
