(* ===== verification/Boot.thy ===== *)
theory Boot
  imports MemManager MicroKernel DmaEngine FaultHandler TmaEngine
begin

text \<open>
  The boot sequence (\<^verbatim>\<open>src/firmware/boot.hpp\<close>, \<^verbatim>\<open>boot.cpp\<close>) and the firmware
  context it fills (\<^verbatim>\<open>context.hpp\<close>, \<^verbatim>\<open>context.cpp\<close>).  A context owns one optional
  record per subsystem, \<^term>\<open>None\<close> being the null \<^verbatim>\<open>shared_ptr\<close>.  The events handed
  to the caller's callback are the trace that \<open>boot\<close> returns beside its result.
\<close>

subsection \<open>Phases, events, options\<close>

datatype boot_phase = PreInit | DriverProbe | ClockConfig | HbmController | DmaPhase
  | SchedulerSpawn | FaultPhase | IlcInit | Ready

fun phase_code :: "boot_phase \<Rightarrow> nat" where
  "phase_code PreInit = 0"
| "phase_code DriverProbe = 1"
| "phase_code ClockConfig = 2"
| "phase_code HbmController = 3"
| "phase_code DmaPhase = 4"
| "phase_code SchedulerSpawn = 5"
| "phase_code FaultPhase = 6"
| "phase_code IlcInit = 7"
| "phase_code Ready = 8"

lemma phase_code_inject: "phase_code p = phase_code q \<longleftrightarrow> p = q"
  by (cases p; cases q) simp_all

text \<open>Phases are ordered by their number.\<close>

instantiation boot_phase :: linorder
begin

definition less_eq_boot_phase :: "boot_phase \<Rightarrow> boot_phase \<Rightarrow> bool" where
  "less_eq_boot_phase p q = (phase_code p \<le> phase_code q)"

definition less_boot_phase :: "boot_phase \<Rightarrow> boot_phase \<Rightarrow> bool" where
  "less_boot_phase p q = (phase_code p < phase_code q)"

instance
proof
  fix p q r :: boot_phase
  show "p < q \<longleftrightarrow> p \<le> q \<and> \<not> q \<le> p" by (auto simp: less_eq_boot_phase_def less_boot_phase_def)
  show "p \<le> p" by (simp add: less_eq_boot_phase_def)
  show "p \<le> q \<Longrightarrow> q \<le> r \<Longrightarrow> p \<le> r" by (simp add: less_eq_boot_phase_def)
  show "p \<le> q \<Longrightarrow> q \<le> p \<Longrightarrow> p = q" by (simp add: less_eq_boot_phase_def flip: phase_code_inject)
  show "p \<le> q \<or> q \<le> p" by (auto simp: less_eq_boot_phase_def)
qed

end

record boot_event =
  be_phase :: boot_phase
  be_ts :: u64
  be_status :: status
  be_detail :: string

record boot_options =
  bo_profile :: string
  bo_enforce_graph_capture :: bool
  bo_enable_ilc :: bool
  bo_enable_grdma :: bool
  bo_enable_gds :: bool
  bo_enable_tma :: bool
  bo_fault_buffer_slots :: u32
  bo_fault_buffer_poll_us :: u32
  bo_stream_pool_compute :: u32
  bo_stream_pool_dma :: u32
  bo_on_event :: bool

definition boot_options_default :: boot_options where
  "boot_options_default = \<lparr>bo_profile = ''auto'', bo_enforce_graph_capture = True, bo_enable_ilc = True,
     bo_enable_grdma = True, bo_enable_gds = True, bo_enable_tma = True, bo_fault_buffer_slots = 4096,
     bo_fault_buffer_poll_us = 100, bo_stream_pool_compute = 8, bo_stream_pool_dma = 4, bo_on_event = False\<rparr>"

text \<open>\<^verbatim>\<open>emit\<close> calls the callback, if there is one; \<open>clk\<close> gives the time of the n-th event.\<close>

definition emit :: "(nat \<Rightarrow> u64) \<Rightarrow> boot_options \<Rightarrow> boot_phase \<Rightarrow> status \<Rightarrow> string \<Rightarrow> boot_event list \<Rightarrow> boot_event list" where
  "emit clk opts p s detail ev =
     (if bo_on_event opts
      then ev @ [\<lparr>be_phase = p, be_ts = clk (length ev), be_status = s, be_detail = detail\<rparr>] else ev)"

subsection \<open>The firmware context\<close>

record 'p fw =
  fw_env :: "'p env"
  fw_options :: boot_options
  fw_mk :: "microkernel option"
  fw_dma :: "dma_engine option"
  fw_tma :: "tma_engine option"
  fw_faults :: "fault_handler option"
  fw_ilc :: "ilc option"
  fw_mem :: "mem_mgr option"

definition fw_create :: "device_desc \<Rightarrow> boot_options \<Rightarrow> 'p \<Rightarrow> 'p fw" where
  "fw_create d opts hw = \<lparr>fw_env = \<lparr>e_device = d, e_hbm_pool_bytes = 0, e_plat = platform_handle_default, e_hw = hw\<rparr>,
     fw_options = opts, fw_mk = None, fw_dma = None, fw_tma = None, fw_faults = None, fw_ilc = None, fw_mem = None\<rparr>"

text \<open>\<^verbatim>\<open>memory()\<close> makes the memory manager on first use.\<close>

definition fw_memory :: "'p fw \<Rightarrow> 'p mstate" where
  "fw_memory fw = \<lparr>ms_env = fw_env fw, ms_ilc = fw_ilc fw,
     ms_mm = (case fw_mem fw of None \<Rightarrow> mm_create (fw_env fw) | Some m \<Rightarrow> m)\<rparr>"

definition fw_put_memory :: "'p fw \<Rightarrow> 'p mstate \<Rightarrow> 'p fw" where
  "fw_put_memory fw st = fw\<lparr>fw_env := ms_env st, fw_ilc := ms_ilc st, fw_mem := Some (ms_mm st)\<rparr>"

subsection \<open>The steps of the sequence\<close>

definition probe_driver :: "boot_options \<Rightarrow> 'p dispatch \<Rightarrow> 'p \<Rightarrow> status \<times> device_desc \<times> 'p dispatch \<times> 'p" where
  "probe_driver opts disp hw =
     (let (found, disp1, hw1) = dispatch_probe disp hw
      in if \<not> found then (DeviceNotFound, device_desc_default, disp1, hw1)
         else (let (pf, disp2, hw2) = dispatch_backend disp1 hw1;
                   (d, hw3) = b_describe_device pf (bo_profile opts) hw2
               in (if dd_vendor d = Unknown_vendor then DeviceNotFound else Ok, d, disp2, hw3)))"

definition lock_clocks :: "'p backend \<Rightarrow> device_desc \<Rightarrow> 'p fw \<Rightarrow> status \<times> 'p fw" where
  "lock_clocks pf d fw = (let (s, env) = b_lock_clocks pf d (fw_env fw) in (s, fw\<lparr>fw_env := env\<rparr>))"

definition hbm_pool_size :: "device_desc \<Rightarrow> u64" where
  "hbm_pool_size d = min (dd_hbm_capacity_bytes d) (dd_hbm_capacity_bytes d * 85 div 100)"

definition init_hbm :: "'p backend \<Rightarrow> device_desc \<Rightarrow> 'p fw \<Rightarrow> status \<times> 'p fw" where
  "init_hbm pf d fw =
     (let env1 = (fw_env fw)\<lparr>e_hbm_pool_bytes := hbm_pool_size d\<rparr>;
          (s, env2) = b_reserve_vaddress pf (e_hbm_pool_bytes env1) env1
      in if \<not> ok s then (s, fw\<lparr>fw_env := env2\<rparr>)
         else (let (s2, env3) = b_map_hbm_pool pf env2 in (s2, fw\<lparr>fw_env := env3\<rparr>)))"

definition register_dma :: "'p backend \<Rightarrow> device_desc \<Rightarrow> boot_options \<Rightarrow> 'p fw \<Rightarrow> status \<times> 'p fw" where
  "register_dma pf d opts fw =
     (let (s1, env1, de1) = (if ff_gds (dd_features d) \<and> bo_enable_gds opts
                             then enable_gds pf (fw_env fw) (dma_create d) else (Ok, fw_env fw, dma_create d))
      in if \<not> ok s1 then (s1, fw\<lparr>fw_env := env1, fw_dma := Some de1\<rparr>)
         else (let (s2, env2, de2) = (if ff_grdma (dd_features d) \<and> bo_enable_grdma opts
                                      then enable_grdma pf env1 de1 else (Ok, env1, de1))
               in (s2, fw\<lparr>fw_env := env2, fw_dma := Some de2\<rparr>)))"

definition spawn_scheduler :: "'p backend \<Rightarrow> device_desc \<Rightarrow> boot_options \<Rightarrow> 'p fw \<Rightarrow> status \<times> 'p fw" where
  "spawn_scheduler pf d opts fw =
     (let (s, env, mk) = spawn_stream_pool pf (bo_stream_pool_compute opts) (bo_stream_pool_dma opts)
                           (fw_env fw) (mk_create d)
      in (s, fw\<lparr>fw_env := env, fw_mk := Some mk\<rparr>))"

definition attach_fault_handler :: "'p backend \<Rightarrow> boot_options \<Rightarrow> 'p fw \<Rightarrow> status \<times> 'p fw" where
  "attach_fault_handler pf opts fw =
     (let (s, env, fh) = fh_install pf (fw_env fw) (fh_create (bo_fault_buffer_slots opts))
      in (s, fw\<lparr>fw_env := env, fw_faults := Some fh\<rparr>))"

definition init_ilc :: "device_desc \<Rightarrow> boot_options \<Rightarrow> 'p fw \<Rightarrow> status \<times> 'p fw" where
  "init_ilc d opts fw =
     (if \<not> ff_ilc (dd_features d) \<or> \<not> bo_enable_ilc opts then (Ok, fw\<lparr>fw_ilc := None\<rparr>)
      else (let (s, ic) = ilc_enable (fw_env fw) ilc_create in (s, fw\<lparr>fw_ilc := Some ic\<rparr>)))"

subsection \<open>Boot, shutdown, probe\<close>

record 'p boot_result =
  br_status :: status
  br_device :: device_desc
  br_events :: "boot_event list"
  br_ctx :: "'p fw option"

definition boot_fail :: "status \<Rightarrow> 'p fw option \<Rightarrow> 'p boot_result" where
  "boot_fail s c = \<lparr>br_status = s, br_device = device_desc_default, br_events = [], br_ctx = c\<rparr>"

text \<open>Steps 2 to 7, once the driver is found and the context made.\<close>

definition boot_ctx :: "'p backend \<Rightarrow> (nat \<Rightarrow> u64) \<Rightarrow> boot_options \<Rightarrow> device_desc \<Rightarrow> 'p fw \<Rightarrow> boot_event list
    \<Rightarrow> 'p boot_result \<times> boot_event list" where
  "boot_ctx pf clk opts d fw ev1 =
     (let (s2, fw2) = lock_clocks pf d fw;
          ev2 = emit clk opts ClockConfig s2 (if ok s2 then ''clocks locked'' else ''clock lock failed (continuing)'') ev1;
          (s3, fw3) = init_hbm pf d fw2;
          ev3 = emit clk opts HbmController s3 (if ok s3 then ''HBM pool mapped'' else ''HBM init failed'') ev2
      in if \<not> ok s3 then (boot_fail s3 (Some fw3), ev3) else
     (let (s4, fw4) = register_dma pf d opts fw3;
          ev4 = emit clk opts DmaPhase s4 (if ok s4 then ''DMA engines up'' else ''DMA init failed'') ev3
      in if \<not> ok s4 then (boot_fail s4 (Some fw4), ev4) else
     (let (s5, fw5) = spawn_scheduler pf d opts fw4;
          ev5 = emit clk opts SchedulerSpawn s5 (if ok s5 then ''stream pool ready'' else ''scheduler spawn failed'') ev4
      in if \<not> ok s5 then (boot_fail s5 (Some fw5), ev5) else
     (let (s6, fw6) = attach_fault_handler pf opts fw5;
          ev6 = emit clk opts FaultPhase s6 (if ok s6 then ''fault buffer installed'' else ''fault handler failed'') ev5
      in if \<not> ok s6 then (boot_fail s6 (Some fw6), ev6) else
     (let (s7, fw7) = init_ilc d opts fw6;
          ev7 = emit clk opts IlcInit s7 (if ok s7 then ''ILC ready'' else ''ILC skipped'') ev6;
          ev8 = emit clk opts Ready Ok ''firmware-equivalent layer ready'' ev7
      in (\<lparr>br_status = Ok, br_device = d, br_events = [], br_ctx = Some fw7\<rparr>, ev8))))))"

definition boot :: "(nat \<Rightarrow> u64) \<Rightarrow> boot_options \<Rightarrow> 'p dispatch \<Rightarrow> 'p \<Rightarrow> 'p boot_result \<times> boot_event list \<times> 'p dispatch \<times> 'p" where
  "boot clk opts disp hw =
     (let ev0 = emit clk opts PreInit Ok ''boot started'' [];
          (s, d, disp1, hw1) = probe_driver opts disp hw;
          ev1 = emit clk opts DriverProbe s (if ok s then ''driver found'' else ''no driver'') ev0
      in if \<not> ok s then (boot_fail s None, ev1, disp1, hw1)
         else (let (pf, disp2, hw2) = dispatch_backend disp1 hw1;
                   (r, ev) = boot_ctx pf clk opts d (fw_create d opts hw2) ev1
               in (r, ev, disp2, case br_ctx r of None \<Rightarrow> hw2 | Some c \<Rightarrow> e_hw (fw_env c))))"

definition shutdown :: "'p backend \<Rightarrow> 'p fw \<Rightarrow> status \<times> 'p fw" where
  "shutdown pf fw =
     (let (last0, fw1) = (case fw_faults fw of None \<Rightarrow> (Ok, fw)
            | Some fh \<Rightarrow> (let (s, env, fh') = fh_uninstall pf (fw_env fw) fh in (s, fw\<lparr>fw_env := env, fw_faults := Some fh'\<rparr>)));
          fw2 = (case fw_mk fw1 of None \<Rightarrow> fw1
            | Some mk \<Rightarrow> (let (s, env, mk') = drain_streams pf (fw_env fw1) mk in fw1\<lparr>fw_env := env, fw_mk := Some mk'\<rparr>));
          fw3 = (case fw_dma fw2 of None \<Rightarrow> fw2
            | Some de \<Rightarrow> (let (env, de') = dma_shutdown pf (fw_env fw2) de in fw2\<lparr>fw_env := env, fw_dma := Some de'\<rparr>));
          fw4 = (case fw_ilc fw3 of None \<Rightarrow> fw3
            | Some ic \<Rightarrow> (let (s, env, ic') = ilc_disable pf (fw_env fw3) ic in fw3\<lparr>fw_env := env, fw_ilc := Some ic'\<rparr>));
          (s, env) = b_release_vaddress pf (fw_env fw4)
      in (if \<not> ok s then s else last0, fw4\<lparr>fw_env := env\<rparr>))"

definition probe_device :: "string \<Rightarrow> 'p dispatch \<Rightarrow> 'p \<Rightarrow> device_desc \<times> 'p dispatch \<times> 'p" where
  "probe_device hint disp hw =
     (let (s, d, disp', hw') = probe_driver (boot_options_default\<lparr>bo_profile := hint\<rparr>) disp hw
      in (if \<not> ok s then d\<lparr>dd_vendor := Unknown_vendor\<rparr> else d, disp', hw'))"

text \<open>Destroying a context runs the destructors of its members, last declared first.\<close>

definition fw_destroy :: "'p backend \<Rightarrow> 'p fw \<Rightarrow> 'p env" where
  "fw_destroy pf fw =
     (let fw1 = (case fw_mem fw of None \<Rightarrow> fw | Some m \<Rightarrow> fw_put_memory fw (mm_destroy pf (fw_memory fw)));
          env2 = (case fw_ilc fw1 of None \<Rightarrow> fw_env fw1 | Some ic \<Rightarrow> fst (snd (ilc_disable pf (fw_env fw1) ic)));
          env3 = (case fw_faults fw1 of None \<Rightarrow> env2 | Some fh \<Rightarrow> fst (snd (fh_uninstall pf env2 fh)));
          env4 = (case fw_tma fw1 of None \<Rightarrow> env3 | Some te \<Rightarrow> tma_destroy pf env3 te);
          env5 = (case fw_dma fw1 of None \<Rightarrow> env4 | Some de \<Rightarrow> fst (dma_shutdown pf env4 de))
      in case fw_mk fw1 of None \<Rightarrow> env5 | Some mk \<Rightarrow> fst (snd (drain_streams pf env5 mk)))"

subsection \<open>Steps and the context\<close>

lemma emit_on: "bo_on_event opts \<Longrightarrow> emit clk opts p s t ev
    = ev @ [\<lparr>be_phase = p, be_ts = clk (length ev), be_status = s, be_detail = t\<rparr>]"
  by (simp add: emit_def)

lemma spawn_scheduler_fields:
  assumes "spawn_scheduler pf d opts fw = (s, fw')"
  shows "fw_dma fw' = fw_dma fw" "fw_faults fw' = fw_faults fw" "fw_ilc fw' = fw_ilc fw"
    "fw_mem fw' = fw_mem fw" "fw_tma fw' = fw_tma fw" "fw_options fw' = fw_options fw" "\<exists>mk. fw_mk fw' = Some mk \<and> mk_inv mk \<and> mk_modules mk = [] \<and> mk_default_ws mk = default_warp_spec (dd_arch d) \<and> (s = Ok \<longrightarrow>
      length (mk_free_compute mk) = unat (bo_stream_pool_compute opts)
      \<and> length (mk_free_dma mk) = unat (bo_stream_pool_dma opts)
      \<and> length (mk_free_fence mk) = (if has_fence_stream (dd_arch d) then 1 else 0))"
proof -
  obtain s1 e1 mk where r: "spawn_stream_pool pf (bo_stream_pool_compute opts) (bo_stream_pool_dma opts)
      (fw_env fw) (mk_create d) = (s1, e1, mk)"
    using prod_cases3 by blast
  then have f: "s = s1" "fw' = fw\<lparr>fw_env := e1, fw_mk := Some mk\<rparr>"
    using assms by (simp_all add: spawn_scheduler_def)
  show "fw_dma fw' = fw_dma fw" "fw_faults fw' = fw_faults fw" "fw_ilc fw' = fw_ilc fw"
    "fw_mem fw' = fw_mem fw" "fw_tma fw' = fw_tma fw" "fw_options fw' = fw_options fw" by (simp_all add: f)
  show "\<exists>mk. fw_mk fw' = Some mk \<and> mk_inv mk \<and> mk_modules mk = [] \<and> mk_default_ws mk = default_warp_spec (dd_arch d) \<and> (s = Ok \<longrightarrow>
      length (mk_free_compute mk) = unat (bo_stream_pool_compute opts)
      \<and> length (mk_free_dma mk) = unat (bo_stream_pool_dma opts)
      \<and> length (mk_free_fence mk) = (if has_fence_stream (dd_arch d) then 1 else 0))"
    using spawn_shape [OF r] by (auto simp: f)
qed

lemma lock_clocks_fields:
  "lock_clocks pf d fw = (s, fw') \<Longrightarrow> \<exists>env. fw' = fw\<lparr>fw_env := env\<rparr>"
  by (auto simp: lock_clocks_def split: prod.splits)

lemma init_hbm_fields:
  "init_hbm pf d fw = (s, fw') \<Longrightarrow> \<exists>env. fw' = fw\<lparr>fw_env := env\<rparr>"
  by (auto simp: init_hbm_def Let_def split: prod.splits if_splits)

lemma enable_gds_fields:
  "enable_gds pf env de = (s, env', de') \<Longrightarrow> de' = (if s = Ok then de\<lparr>de_gds_enabled := True\<rparr> else de)"
  by (auto simp: enable_gds_def split: if_splits prod.splits)

lemma enable_grdma_fields:
  "enable_grdma pf env de = (s, env', de') \<Longrightarrow> de' = (if s = Ok then de\<lparr>de_grdma_enabled := True\<rparr> else de)"
  by (auto simp: enable_grdma_def split: if_splits prod.splits)

lemma register_dma_fields:
  assumes "register_dma pf d opts fw = (s, fw')"
  shows "\<exists>env de. fw' = fw\<lparr>fw_env := env, fw_dma := Some de\<rparr> \<and> (s = Ok \<longrightarrow>
      de_gds_enabled de = (ff_gds (dd_features d) \<and> bo_enable_gds opts)
      \<and> de_grdma_enabled de = (ff_grdma (dd_features d) \<and> bo_enable_grdma opts))"
proof -
  let ?g = "ff_gds (dd_features d) \<and> bo_enable_gds opts"
  let ?r = "ff_grdma (dd_features d) \<and> bo_enable_grdma opts"
  obtain s1 env1 de1 where a: "(if ?g then enable_gds pf (fw_env fw) (dma_create d) else (Ok, fw_env fw, dma_create d)) = (s1, env1, de1)"
    using prod_cases3 by blast
  have de1: "s1 = Ok \<Longrightarrow> de_gds_enabled de1 = ?g \<and> \<not> de_grdma_enabled de1"
    using a enable_gds_fields [of pf "fw_env fw" "dma_create d" s1 env1 de1]
    by (cases ?g) (auto simp: dma_create_def)
  obtain s2 env2 de2 where b: "(if ?r then enable_grdma pf env1 de1 else (Ok, env1, de1)) = (s2, env2, de2)"
    using prod_cases3 by blast
  have de2: "s2 = Ok \<Longrightarrow> de_gds_enabled de2 = de_gds_enabled de1 \<and> de_grdma_enabled de2 = (de_grdma_enabled de1 \<or> ?r)"
    using b enable_grdma_fields [of pf env1 de1 s2 env2 de2] by (cases ?r) auto
  show ?thesis
  proof (cases "s1 = Ok")
    case True
    have "s = s2" "fw' = fw\<lparr>fw_env := env2, fw_dma := Some de2\<rparr>"
      using assms unfolding register_dma_def a b Let_def by (simp_all add: True b)
    then show ?thesis using de1 [OF True] de2 by auto
  next
    case False
    have "s = s1" "fw' = fw\<lparr>fw_env := env1, fw_dma := Some de1\<rparr>"
      using assms unfolding register_dma_def a Let_def by (simp_all add: False)
    then show ?thesis using False by auto
  qed
qed

lemma attach_fields:
  "attach_fault_handler pf opts fw = (s, fw') \<Longrightarrow> \<exists>env fh. fw' = fw\<lparr>fw_env := env, fw_faults := Some fh\<rparr>"
  by (auto simp: attach_fault_handler_def split: prod.splits)

lemma init_ilc_fields:
  "init_ilc d opts fw = (s, fw') \<Longrightarrow> \<exists>ic. fw' = fw\<lparr>fw_ilc := ic\<rparr> \<and> (ic = None \<longleftrightarrow> \<not> ff_ilc (dd_features d) \<or> \<not> bo_enable_ilc opts)"
  by (auto simp: init_ilc_def split: prod.splits if_splits)

text \<open>What a booted context holds.\<close>

definition fw_ready :: "device_desc \<Rightarrow> boot_options \<Rightarrow> 'p fw \<Rightarrow> bool" where
  "fw_ready d opts fw =
     ((case fw_mk fw of None \<Rightarrow> False
       | Some mk \<Rightarrow> mk_inv mk \<and> mk_modules mk = [] \<and> mk_default_ws mk = default_warp_spec (dd_arch d) \<and> length (mk_free_compute mk) = unat (bo_stream_pool_compute opts)
           \<and> length (mk_free_dma mk) = unat (bo_stream_pool_dma opts)
           \<and> length (mk_free_fence mk) = (if has_fence_stream (dd_arch d) then 1 else 0))
    \<and> (case fw_dma fw of None \<Rightarrow> False
       | Some de \<Rightarrow> de_gds_enabled de = (ff_gds (dd_features d) \<and> bo_enable_gds opts)
           \<and> de_grdma_enabled de = (ff_grdma (dd_features d) \<and> bo_enable_grdma opts))
    \<and> fw_faults fw \<noteq> None
    \<and> (fw_ilc fw \<noteq> None) = (ff_ilc (dd_features d) \<and> bo_enable_ilc opts)
    \<and> fw_tma fw = None \<and> fw_mem fw = None \<and> fw_options fw = opts)"

text \<open>How far a boot got, read off the context it leaves behind: without a context the driver was not
  found; otherwise the step that failed is the one that should have made the next subsystem, or,
  once the fault handler is there, its installation.\<close>

definition ended_at :: "status \<Rightarrow> 'p fw option \<Rightarrow> boot_phase" where
  "ended_at s c = (if s = Ok then Ready
     else case c of None \<Rightarrow> DriverProbe
       | Some fw \<Rightarrow> if fw_dma fw = None then HbmController else if fw_mk fw = None then DmaPhase
           else if fw_faults fw = None then SchedulerSpawn else FaultPhase)"

definition all_phases :: "boot_phase list" where
  "all_phases = [PreInit, DriverProbe, ClockConfig, HbmController, DmaPhase, SchedulerSpawn, FaultPhase, IlcInit, Ready]"

definition trace_ok :: "boot_event list \<Rightarrow> status \<Rightarrow> 'p fw option \<Rightarrow> bool" where
  "trace_ok ev s c =
     (map be_phase ev = filter (\<lambda>p. p \<le> ended_at s c) all_phases
    \<and> be_status (last ev) = s
    \<and> list_all (\<lambda>e. be_phase e \<in> {ClockConfig, IlcInit} \<or> be_status e = Ok) (butlast ev))"

text \<open>The five ways in which the sequence ends.\<close>

lemma boot_ctx_cases:
  assumes "boot_ctx pf clk opts d fw ev1 = (r, ev)"
  obtains (hbm) s2 fw2 s fw3 where "lock_clocks pf d fw = (s2, fw2)" "init_hbm pf d fw2 = (s, fw3)"
      "s \<noteq> Ok" "r = boot_fail s (Some fw3)"
  | (dma) s2 fw2 fw3 s fw4 where "lock_clocks pf d fw = (s2, fw2)" "init_hbm pf d fw2 = (Ok, fw3)"
      "register_dma pf d opts fw3 = (s, fw4)" "s \<noteq> Ok" "r = boot_fail s (Some fw4)"
  | (sched) s2 fw2 fw3 fw4 s fw5 where "lock_clocks pf d fw = (s2, fw2)" "init_hbm pf d fw2 = (Ok, fw3)"
      "register_dma pf d opts fw3 = (Ok, fw4)" "spawn_scheduler pf d opts fw4 = (s, fw5)"
      "s \<noteq> Ok" "r = boot_fail s (Some fw5)"
  | (faults) s2 fw2 fw3 fw4 fw5 s fw6 where "lock_clocks pf d fw = (s2, fw2)" "init_hbm pf d fw2 = (Ok, fw3)"
      "register_dma pf d opts fw3 = (Ok, fw4)" "spawn_scheduler pf d opts fw4 = (Ok, fw5)"
      "attach_fault_handler pf opts fw5 = (s, fw6)" "s \<noteq> Ok" "r = boot_fail s (Some fw6)"
  | (up) s2 fw2 fw3 fw4 fw5 fw6 s7 fw7 where "lock_clocks pf d fw = (s2, fw2)" "init_hbm pf d fw2 = (Ok, fw3)"
      "register_dma pf d opts fw3 = (Ok, fw4)" "spawn_scheduler pf d opts fw4 = (Ok, fw5)"
      "attach_fault_handler pf opts fw5 = (Ok, fw6)" "init_ilc d opts fw6 = (s7, fw7)"
      "r = \<lparr>br_status = Ok, br_device = d, br_events = [], br_ctx = Some fw7\<rparr>"
proof -
  obtain s2 fw2 where 2: "lock_clocks pf d fw = (s2, fw2)" by force
  obtain s3 fw3 where 3: "init_hbm pf d fw2 = (s3, fw3)" by force
  obtain s4 fw4 where 4: "register_dma pf d opts fw3 = (s4, fw4)" by force
  obtain s5 fw5 where 5: "spawn_scheduler pf d opts fw4 = (s5, fw5)" by force
  obtain s6 fw6 where 6: "attach_fault_handler pf opts fw5 = (s6, fw6)" by force
  obtain s7 fw7 where 7: "init_ilc d opts fw6 = (s7, fw7)" by force
  have r: "r = (if s3 \<noteq> Ok then boot_fail s3 (Some fw3) else if s4 \<noteq> Ok then boot_fail s4 (Some fw4)
      else if s5 \<noteq> Ok then boot_fail s5 (Some fw5) else if s6 \<noteq> Ok then boot_fail s6 (Some fw6)
      else \<lparr>br_status = Ok, br_device = d, br_events = [], br_ctx = Some fw7\<rparr>)"
    using assms by (simp add: boot_ctx_def Let_def 2 3 4 5 6 7 split: if_splits)
  show ?thesis
  proof (cases "s3 = Ok \<and> s4 = Ok \<and> s5 = Ok \<and> s6 = Ok")
    case True
    then show ?thesis using up [of s2 fw2 fw3 fw4 fw5 fw6 s7 fw7] 2 3 4 5 6 7 r by simp
  next
    case False
    then consider "s3 \<noteq> Ok" | "s3 = Ok" "s4 \<noteq> Ok" | "s3 = Ok" "s4 = Ok" "s5 \<noteq> Ok"
      | "s3 = Ok" "s4 = Ok" "s5 = Ok" "s6 \<noteq> Ok" by blast
    then show ?thesis
    proof cases
      case 1 then show ?thesis using hbm 2 3 r by simp
    next
      case b: 2 then show ?thesis using dma 2 3 4 r by simp
    next
      case c: 3 then show ?thesis using sched 2 3 4 5 r by simp
    next
      case e: 4 then show ?thesis using faults 2 3 4 5 6 r by simp
    qed
  qed
qed

lemma boot_ctx_trace:
  assumes on: "bo_on_event opts" and run: "boot_ctx pf clk opts d fw ev1 = (r, ev)"
    and ev1: "map be_phase ev1 = [PreInit, DriverProbe]" "list_all (\<lambda>e. be_status e = Ok) ev1"
    and fw: "fw_dma fw = None" "fw_mk fw = None" "fw_faults fw = None"
  shows "trace_ok ev (br_status r) (br_ctx r) \<and> br_events r = []"
proof -
  obtain a b where e: "ev1 = [a, b]" "be_phase a = PreInit" "be_phase b = DriverProbe" "be_status a = Ok" "be_status b = Ok"
    using ev1 by (auto simp: map_eq_Cons_conv)
  note ends = less_eq_boot_phase_def trace_ok_def boot_fail_def ended_at_def all_phases_def
  have p: "lock_clocks pf d fw = (s, fw2) \<Longrightarrow> init_hbm pf d fw2 = (s', fw3)
    \<Longrightarrow> fw_dma fw3 = None \<and> fw_mk fw3 = None \<and> fw_faults fw3 = None" for s fw2 s' fw3
    using lock_clocks_fields [of pf d fw s fw2] init_hbm_fields [of pf d fw2 s' fw3] fw by auto
  from run show ?thesis
  proof (cases rule: boot_ctx_cases)
    case (hbm s2 fw2 s fw3)
    then show ?thesis using run p [OF hbm(1,2)] by (auto simp: boot_ctx_def emit_on [OF on] e ends)
  next
    case (dma s2 fw2 fw3 s fw4)
    then have "fw_dma fw4 \<noteq> None" "fw_mk fw4 = None" using p [OF dma(1,2)] register_dma_fields [OF dma(3)] by auto
    then show ?thesis using run dma by (auto simp: boot_ctx_def emit_on [OF on] e ends)
  next
    case (sched s2 fw2 fw3 fw4 s fw5)
    have "fw_dma fw4 \<noteq> None" "fw_faults fw4 = None" using p [OF sched(1,2)] register_dma_fields [OF sched(3)] by auto
    then have "fw_dma fw5 \<noteq> None" "fw_faults fw5 = None" "fw_mk fw5 \<noteq> None"
      using spawn_scheduler_fields [OF sched(4)] by auto
    then show ?thesis using run sched by (auto simp: boot_ctx_def emit_on [OF on] e ends)
  next
    case (faults s2 fw2 fw3 fw4 fw5 s fw6)
    have "fw_dma fw4 \<noteq> None" using register_dma_fields [OF faults(3)] by auto
    then have "fw_dma fw6 \<noteq> None" "fw_mk fw6 \<noteq> None" "fw_faults fw6 \<noteq> None"
      using spawn_scheduler_fields [OF faults(4)] attach_fields [OF faults(5)] by auto
    then show ?thesis using run faults by (auto simp: boot_ctx_def emit_on [OF on] e ends)
  next
    case (up s2 fw2 fw3 fw4 fw5 fw6 s7 fw7)
    then show ?thesis using run by (auto simp: boot_ctx_def emit_on [OF on] e ends)
  qed
qed

lemma boot_ctx_ready:
  assumes run: "boot_ctx pf clk opts d fw ev1 = (r, ev)" and ok: "br_status r = Ok"
    and fw: "fw_tma fw = None" "fw_mem fw = None" "fw_options fw = opts"
  shows "br_device r = d \<and> (\<exists>c. br_ctx r = Some c \<and> fw_ready d opts c)"
  using run
proof (cases rule: boot_ctx_cases)
  case (up s2 fw2 fw3 fw4 fw5 fw6 s7 fw7)
  obtain mk where mk: "fw_mk fw5 = Some mk" "mk_inv mk" "mk_modules mk = []"
      "mk_default_ws mk = default_warp_spec (dd_arch d)" "length (mk_free_compute mk) = unat (bo_stream_pool_compute opts)"
      "length (mk_free_dma mk) = unat (bo_stream_pool_dma opts)"
      "length (mk_free_fence mk) = (if has_fence_stream (dd_arch d) then 1 else 0)"
    using spawn_scheduler_fields(7) [OF up(4)] by auto
  obtain env4 de where f4': "fw4 = fw3\<lparr>fw_env := env4, fw_dma := Some de\<rparr>"
    and on: "de_gds_enabled de = (ff_gds (dd_features d) \<and> bo_enable_gds opts)"
      "de_grdma_enabled de = (ff_grdma (dd_features d) \<and> bo_enable_grdma opts)"
    using register_dma_fields [OF up(3)] by blast
  have de: "fw_dma fw4 = Some de" by (simp add: f4')
  have f4: "fw_tma fw4 = None" "fw_mem fw4 = None" "fw_options fw4 = opts"
    using f4' init_hbm_fields [OF up(2)] lock_clocks_fields [OF up(1)] fw by auto
  obtain env6 fh where f6: "fw6 = fw5\<lparr>fw_env := env6, fw_faults := Some fh\<rparr>" using attach_fields [OF up(5)] by blast
  obtain ic where f7: "fw7 = fw6\<lparr>fw_ilc := ic\<rparr>"
    and ic: "ic = None \<longleftrightarrow> \<not> ff_ilc (dd_features d) \<or> \<not> bo_enable_ilc opts" using init_ilc_fields [OF up(6)] by blast
  have "fw_ready d opts fw7"
    unfolding fw_ready_def using mk de on f4 ic by (simp add: f6 f7 spawn_scheduler_fields(1-6) [OF up(4)])
  then show ?thesis using up(7) by simp
qed (use ok in \<open>simp_all add: boot_fail_def\<close>)

subsection \<open>What the sequence promises\<close>

lemma probe_driver_ok: "probe_driver opts disp hw = (Ok, d, disp', hw') \<Longrightarrow> dd_vendor d \<noteq> Unknown_vendor"
  by (auto simp: probe_driver_def split: prod.splits if_splits)

lemma probe_driver_status: "probe_driver opts disp hw = (s, d, disp', hw') \<Longrightarrow> s = Ok \<or> s = DeviceNotFound"
  by (auto simp: probe_driver_def split: prod.splits if_splits)

lemma boot_trace:
  assumes run: "boot clk opts disp hw = (r, ev, disp', hw')" and on: "bo_on_event opts"
  shows "trace_ok ev (br_status r) (br_ctx r) \<and> br_events r = []"
proof -
  obtain s d disp1 hw1 where p: "probe_driver opts disp hw = (s, d, disp1, hw1)" using prod_cases4 by blast
  obtain pf disp2 hw2 where b: "dispatch_backend disp1 hw1 = (pf, disp2, hw2)" using prod_cases3 by blast
  let ?ev1 = "emit clk opts DriverProbe s (if ok s then ''driver found'' else ''no driver'') (emit clk opts PreInit Ok ''boot started'' [])"
  obtain r1 ev' where c: "boot_ctx pf clk opts d (fw_create d opts hw2) ?ev1 = (r1, ev')" by force
  show ?thesis
  proof (cases "s = Ok")
    case False
    then have "s = DeviceNotFound" using probe_driver_status [OF p] by simp
    then show ?thesis using run
      by (auto simp: boot_def p boot_fail_def emit_on [OF on] trace_ok_def less_eq_boot_phase_def ended_at_def all_phases_def)
  next
    case True
    have e: "r = r1" "ev = ev'" using run c True unfolding boot_def p Let_def by (auto simp: b Let_def split: option.splits)
    have "trace_ok ev' (br_status r1) (br_ctx r1) \<and> br_events r1 = []"
      by (rule boot_ctx_trace [OF on c]) (simp_all add: emit_on [OF on] True fw_create_def)
    then show ?thesis by (simp add: e)
  qed
qed

text \<open>C19: The callback sees the boot as it happens, and the last event tells whether and where it
  failed.  The events are those of all phases in their order, none left out, up to the one at
  which the boot ended: \<open>Ready\<close> if and only if it succeeded, else the phase of the failed step,
  which is told by the subsystems that the returned context does or does not have.  The last
  event carries boot's status, every earlier one reports success, the clock-lock and compression
  steps excepted, whose failure does not stop the boot.  The \<^verbatim>\<open>events\<close> field of the result
  stays empty all the same.\<close>

theorem boot_event_trace:
  assumes run: "boot clk opts disp hw = (r, ev, disp', hw')" and on: "bo_on_event opts"
  shows "map be_phase ev = filter (\<lambda>p. p \<le> ended_at (br_status r) (br_ctx r)) all_phases
    \<and> be_status (last ev) = br_status r
    \<and> list_all (\<lambda>e. be_phase e \<in> {ClockConfig, IlcInit} \<or> be_status e = Ok) (butlast ev)
    \<and> br_events r = []"
  using boot_trace [OF assms] by (simp add: trace_ok_def)

definition sim_dispatch :: "u64 dispatch" where
  "sim_dispatch = register_backend Nvidia
     (sim_backend\<lparr>b_describe_device := (\<lambda>_ hw. (e_device sim_env, hw))\<rparr>) dispatch_init"

definition sim_options :: boot_options where
  "sim_options = boot_options_default\<lparr>bo_stream_pool_compute := 2, bo_stream_pool_dma := 1, bo_on_event := True\<rparr>"

lemma sim_probe: "probe_driver opts sim_dispatch hw
    = (Ok, e_device sim_env, sim_dispatch\<lparr>d_active := Some (sim_backend\<lparr>b_describe_device := (\<lambda>_ hw. (e_device sim_env, hw))\<rparr>)\<rparr>, hw)"
  by (simp add: probe_driver_def dispatch_probe_def dispatch_backend_def sim_dispatch_def register_backend_def
      dispatch_init_def sim_env_def sim_backend_def)


lemma sim_spawn_n:
  "\<exists>env' mk'. spawn_n (sim_backend\<lparr>b_describe_device := f\<rparr>) k prio n env mk = (Ok, env', mk')"
  by (induction n arbitrary: env mk) (auto simp: spawn_one_def Let_def)

lemma sim_spawn_boot:
  "\<exists>env' mk. spawn_stream_pool (sim_backend\<lparr>b_describe_device := f\<rparr>) nc nd env (mk_create d) = (Ok, env', mk)"
proof -
  let ?pf = "sim_backend\<lparr>b_describe_device := f\<rparr> :: u64 backend"
  obtain e1 m1 where 1: "spawn_n ?pf Compute 0 (unat nc) env (mk_create d) = (Ok, e1, m1)" using sim_spawn_n by blast
  obtain e2 m2 where 2: "spawn_n ?pf Dma (-1) (unat nd) e1 m1 = (Ok, e2, m2)" using sim_spawn_n by blast
  show ?thesis
    by (simp add: spawn_stream_pool_def 1 2) (simp add: spawn_one_def sim_backend_def null_backend_def)
qed

lemma sim_boot: "\<exists>c ev disp' hw'. boot clk opts sim_dispatch 1 =
    (\<lparr>br_status = Ok, br_device = e_device sim_env, br_events = [], br_ctx = Some c\<rparr>, ev, disp', hw')"
proof -
  let ?pf = "sim_backend\<lparr>b_describe_device := (\<lambda>_ hw. (e_device sim_env, hw))\<rparr> :: u64 backend"
  have d: "dispatch_backend (sim_dispatch\<lparr>d_active := Some ?pf\<rparr>) hw = (?pf, sim_dispatch\<lparr>d_active := Some ?pf\<rparr>, hw)" for hw
    by (simp add: dispatch_backend_def)
  have f: "dd_vendor (e_device sim_env) = Nvidia" by (simp add: sim_env_def)
  have l: "\<exists>fw'. lock_clocks ?pf (e_device sim_env) fw = (Ok, fw')" for fw
    by (simp add: lock_clocks_def sim_backend_def)
  have h: "\<exists>fw'. init_hbm ?pf (e_device sim_env) fw = (Ok, fw')" for fw
    by (simp add: init_hbm_def Let_def sim_backend_def)
  have r: "\<exists>fw'. register_dma ?pf (e_device sim_env) opts fw = (Ok, fw')" for fw
    by (simp add: register_dma_def enable_gds_def enable_grdma_def dma_create_def sim_backend_def sim_env_def)
  have s: "\<exists>fw'. spawn_scheduler ?pf (e_device sim_env) opts fw = (Ok, fw')" for fw
    using sim_spawn_boot [of "\<lambda>_ hw. (e_device sim_env, hw)"
        "bo_stream_pool_compute opts" "bo_stream_pool_dma opts" "fw_env fw" "e_device sim_env"]
    by (auto simp: spawn_scheduler_def)
  have i: "\<exists>fw'. attach_fault_handler ?pf opts fw = (Ok, fw')" for fw
    using prod_cases3 by (auto simp: attach_fault_handler_def fh_install_def Let_def sim_backend_def null_backend_def)
  obtain fw2 where 2: "lock_clocks ?pf (e_device sim_env) (fw_create (e_device sim_env) opts 1) = (Ok, fw2)" using l by blast
  obtain fw3 where 3: "init_hbm ?pf (e_device sim_env) fw2 = (Ok, fw3)" using h by blast
  obtain fw4 where 4: "register_dma ?pf (e_device sim_env) opts fw3 = (Ok, fw4)" using r by blast
  obtain fw5 where 5: "spawn_scheduler ?pf (e_device sim_env) opts fw4 = (Ok, fw5)" using s by blast
  obtain fw6 where 6: "attach_fault_handler ?pf opts fw5 = (Ok, fw6)" using i by blast
  obtain s7 fw7 where 7: "init_ilc (e_device sim_env) opts fw6 = (s7, fw7)" by force
  show ?thesis
    by (simp add: boot_def sim_probe d boot_ctx_def 2 3 4 5 6 7 Let_def)
qed

theorem boot_event_trace_witness:
  "(\<exists>r ev disp' hw'. boot (\<lambda>n. 0) sim_options sim_dispatch 1 = (r, ev, disp', hw') \<and> br_status r = Ok
      \<and> map be_phase ev = all_phases)
    \<and> (\<exists>r ev disp' hw'. boot (\<lambda>n. 0) sim_options (dispatch_init :: u64 dispatch) 1 = (r, ev, disp', hw')
      \<and> br_status r = DeviceNotFound \<and> map be_phase ev = [PreInit, DriverProbe])"
proof -
  obtain c ev disp' hw' where b: "boot (\<lambda>n. 0) sim_options sim_dispatch 1 =
    (\<lparr>br_status = Ok, br_device = e_device sim_env, br_events = [], br_ctx = Some c\<rparr>, ev, disp', hw')"
    using sim_boot by blast
  obtain r2 ev2 disp2 hw2 where n: "boot (\<lambda>n. 0) sim_options (dispatch_init :: u64 dispatch) 1 = (r2, ev2, disp2, hw2)"
    using prod_cases4 by blast
  have "br_status r2 = DeviceNotFound" "br_ctx r2 = None"
    using n by (auto simp: boot_def probe_driver_def dispatch_probe_def dispatch_init_def boot_fail_def)
  then show ?thesis using b n boot_event_trace [OF b] boot_event_trace [OF n]
    by (simp add: sim_options_def ended_at_def all_phases_def less_eq_boot_phase_def)
qed

lemma booted_ready:
  assumes run: "boot clk opts disp hw = (r, ev, disp', hw')" and ok: "br_status r = Ok"
  shows "dd_vendor (br_device r) \<noteq> Unknown_vendor \<and> (\<exists>c. br_ctx r = Some c \<and> fw_ready (br_device r) opts c)"
proof -
  obtain s d disp1 hw1 where p: "probe_driver opts disp hw = (s, d, disp1, hw1)" using prod_cases4 by blast
  obtain pf disp2 hw2 where b: "dispatch_backend disp1 hw1 = (pf, disp2, hw2)" using prod_cases3 by blast
  let ?ev1 = "emit clk opts DriverProbe s (if ok s then ''driver found'' else ''no driver'') (emit clk opts PreInit Ok ''boot started'' [])"
  obtain r1 ev' where c: "boot_ctx pf clk opts d (fw_create d opts hw2) ?ev1 = (r1, ev')" by force
  have s: "s = Ok" using run ok by (auto simp: boot_def p boot_fail_def split: if_splits)
  have e: "r = r1" using run c s unfolding boot_def p Let_def by (auto simp: b Let_def split: option.splits)
  show ?thesis
    using boot_ctx_ready [OF c] ok e probe_driver_ok [of opts disp hw d disp1 hw1] p s by (auto simp: fw_create_def)
qed

subsection \<open>A driver that accepts\<close>

definition boot_status :: "(nat \<Rightarrow> u64) \<Rightarrow> boot_options \<Rightarrow> 'p dispatch \<Rightarrow> 'p \<Rightarrow> status" where
  "boot_status clk opts disp hw = br_status (fst (boot clk opts disp hw))"

text \<open>A driver that accepts what the boot asks of it.\<close>

definition accepting :: "'p backend \<Rightarrow> bool" where
  "accepting pf = ((\<forall>n env. fst (b_reserve_vaddress pf n env) = Ok) \<and> (\<forall>env. fst (b_map_hbm_pool pf env) = Ok)
     \<and> (\<forall>env. fst (b_gds_init pf env) = Ok) \<and> (\<forall>env. fst (b_grdma_init pf env) = Ok)
     \<and> (\<forall>k prio env. fst (b_create_stream pf k prio env) = Ok) \<and> (\<forall>n env. fst (b_alloc_hbm pf n env) = Ok))"

lemma acceptingE:
  assumes "accepting pf"
  obtains res pool gds grdma stream al where "\<And>n env. b_reserve_vaddress pf n env = (Ok, res n env)"
    "\<And>env. b_map_hbm_pool pf env = (Ok, pool env)" "\<And>env. b_gds_init pf env = (Ok, gds env)"
    "\<And>env. b_grdma_init pf env = (Ok, grdma env)" "\<And>k prio env. b_create_stream pf k prio env = (Ok, stream k prio env)"
    "\<And>n env. b_alloc_hbm pf n env = (Ok, al n env)"
proof (rule that)
  show "b_reserve_vaddress pf n env = (Ok, snd (b_reserve_vaddress pf n env))"
    "b_map_hbm_pool pf env = (Ok, snd (b_map_hbm_pool pf env))" "b_gds_init pf env = (Ok, snd (b_gds_init pf env))"
    "b_grdma_init pf env = (Ok, snd (b_grdma_init pf env))"
    "b_create_stream pf k prio env = (Ok, snd (b_create_stream pf k prio env))"
    "b_alloc_hbm pf n env = (Ok, snd (b_alloc_hbm pf n env))" for n env k prio
    using assms unfolding accepting_def by (simp_all add: prod_eq_iff)
qed

lemma spawn_one_accepting:
  assumes s: "\<And>k prio env. b_create_stream pf k prio env = (Ok, stream k prio env)"
  shows "\<exists>env' mk'. spawn_one pf k prio env mk = (Ok, env', mk')"
  by (cases "stream k prio env") (simp add: spawn_one_def s del: push_free.simps)

lemma spawn_n_accepting:
  assumes s: "\<And>k prio env. b_create_stream pf k prio env = (Ok, stream k prio env)"
  shows "\<exists>env' mk'. spawn_n pf k prio n env mk = (Ok, env', mk')"
proof (induction n arbitrary: env mk)
  case (Suc n)
  obtain e1 m1 where "spawn_one pf k prio env mk = (Ok, e1, m1)" using spawn_one_accepting [OF s] by blast
  then show ?case using Suc.IH by simp
qed simp

lemma spawn_accepting:
  assumes s: "\<And>k prio env. b_create_stream pf k prio env = (Ok, stream k prio env)"
  shows "\<exists>fw'. spawn_scheduler pf d opts fw = (Ok, fw')"
proof -
  obtain e1 m1 where 1: "spawn_n pf Compute 0 (unat (bo_stream_pool_compute opts)) (fw_env fw) (mk_create d) = (Ok, e1, m1)"
    using spawn_n_accepting [OF s] by blast
  obtain e2 m2 where 2: "spawn_n pf Dma (-1) (unat (bo_stream_pool_dma opts)) e1 m1 = (Ok, e2, m2)"
    using spawn_n_accepting [OF s] by blast
  obtain e3 m3 where 3: "spawn_one pf Fence 1 e2 m2 = (Ok, e3, m3)" using spawn_one_accepting [OF s] by blast
  show ?thesis by (simp add: spawn_scheduler_def spawn_stream_pool_def 1 2 3)
qed

lemma boot_accepting:
  assumes acc: "accepting pf" and act: "d_active disp = Some pf"
    and known: "dd_vendor (fst (b_describe_device pf (bo_profile opts) hw)) \<noteq> Unknown_vendor"
  shows "boot_status clk opts disp hw = Ok"
    "br_device (fst (boot clk opts disp hw)) = fst (b_describe_device pf (bo_profile opts) hw)"
proof -
  obtain res pool gds grdma stream al where op: "\<And>n env. b_reserve_vaddress pf n env = (Ok, res n env)"
    "\<And>env. b_map_hbm_pool pf env = (Ok, pool env)" "\<And>env. b_gds_init pf env = (Ok, gds env)"
    "\<And>env. b_grdma_init pf env = (Ok, grdma env)" "\<And>k prio env. b_create_stream pf k prio env = (Ok, stream k prio env)"
    "\<And>n env. b_alloc_hbm pf n env = (Ok, al n env)" by (rule acceptingE [OF acc]) (rule that)
  have p: "dispatch_probe disp h = (True, disp, h)" "dispatch_backend disp h = (pf, disp, h)" for h
    using act by (simp_all add: dispatch_probe_def dispatch_backend_def)
  obtain d hw1 where d: "b_describe_device pf (bo_profile opts) hw = (d, hw1)" by force
  have k: "dd_vendor d \<noteq> Unknown_vendor" using known d by simp
  obtain s2 fw2 where 2: "lock_clocks pf d (fw_create d opts hw1) = (s2, fw2)" by force
  obtain fw3 where 3: "init_hbm pf d fw2 = (Ok, fw3)" by (simp add: init_hbm_def op Let_def)
  obtain fw4 where 4: "register_dma pf d opts fw3 = (Ok, fw4)"
    by (cases "ff_gds (dd_features d) \<and> bo_enable_gds opts"; cases "ff_grdma (dd_features d) \<and> bo_enable_grdma opts")
      (simp_all add: register_dma_def enable_gds_def enable_grdma_def op dma_create_def)
  obtain fw5 where 5: "spawn_scheduler pf d opts fw4 = (Ok, fw5)" using spawn_accepting [OF op(5)] by blast
  have "fst (attach_fault_handler pf opts fw5) = Ok"
    by (auto simp: attach_fault_handler_def fh_install_def op Let_def split: prod.splits if_splits)
  then obtain fw6 where 6: "attach_fault_handler pf opts fw5 = (Ok, fw6)" by (metis prod.collapse)
  obtain s7 fw7 where 7: "init_ilc d opts fw6 = (s7, fw7)" by force
  have "fst (boot clk opts disp hw) = \<lparr>br_status = Ok, br_device = d, br_events = [], br_ctx = Some fw7\<rparr>"
    by (simp add: boot_def probe_driver_def p d k boot_ctx_def Let_def 2 3 4 5 6 7)
  then show "boot_status clk opts disp hw = Ok"
    "br_device (fst (boot clk opts disp hw)) = fst (b_describe_device pf (bo_profile opts) hw)"
    by (simp_all add: boot_status_def d)
qed

text \<open>C20: Boot succeeds whenever it should.  When the selected driver names a known device and
  accepts the address range, the pool, the storage paths, the streams and the allocation of the
  fault buffer, boot answers \<open>Ok\<close> with that device, whatever the options are and whatever the
  clock lock and the compression manager answer.\<close>

theorem boot_succeeds:
  assumes "accepting pf" and "d_active disp = Some pf"
    and "dd_vendor (fst (b_describe_device pf (bo_profile opts) hw)) \<noteq> Unknown_vendor"
  shows "br_status (fst (boot clk opts disp hw)) = Ok
    \<and> br_device (fst (boot clk opts disp hw)) = fst (b_describe_device pf (bo_profile opts) hw)"
  using boot_accepting [OF assms, of clk] by (simp add: boot_status_def)

theorem boot_succeeds_witness:
  "br_status (fst (boot (\<lambda>_. 0) sim_options
      (dispatch_init\<lparr>d_active := Some (sim_backend\<lparr>b_describe_device := (\<lambda>_ hw. (e_device sim_env, hw))\<rparr>)\<rparr>) 1)) = Ok"
proof -
  let ?pf = "sim_backend\<lparr>b_describe_device := (\<lambda>_ hw. (e_device sim_env, hw))\<rparr> :: u64 backend"
  have "accepting ?pf" by (simp add: accepting_def)
  then show ?thesis
    using boot_succeeds [of ?pf "dispatch_init\<lparr>d_active := Some ?pf\<rparr>" sim_options 1 "\<lambda>_. 0"] by (simp add: sim_env_def)
qed

text \<open>C21: A successful boot hands out a complete context.  The device is a known one, the pool is
  well-formed with exactly the requested streams (and a fence stream on a CUDA architecture),
  each storage path is on exactly when the device has it and the options ask for it, the fault
  handler is present, the compression manager is present exactly when available and asked
  for, and there is no memory manager yet and, whatever the options and the device, no TMA
  engine.\<close>

theorem boot_ready:
  assumes run: "boot clk opts disp hw = (r, ev, disp', hw')" and ok: "br_status r = Ok"
  shows "dd_vendor (br_device r) \<noteq> Unknown_vendor \<and> (\<exists>c. br_ctx r = Some c \<and> fw_ready (br_device r) opts c)"
  using assms by (rule booted_ready)

theorem boot_ready_witness:
  "\<exists>c ev disp' hw'. boot (\<lambda>n. 0) sim_options sim_dispatch 1 = (\<lparr>br_status = Ok, br_device = e_device sim_env,
      br_events = [], br_ctx = Some c\<rparr>, ev, disp', hw') \<and> fw_ready (e_device sim_env) sim_options c"
proof -
  obtain c ev disp' hw' where b: "boot (\<lambda>n. 0) sim_options sim_dispatch 1 =
    (\<lparr>br_status = Ok, br_device = e_device sim_env, br_events = [], br_ctx = Some c\<rparr>, ev, disp', hw')"
    using sim_boot by blast
  show ?thesis using b boot_ready [OF b] by auto
qed

text \<open>The pool is 85% of the device's memory, rounded down, when 85 times the capacity fits 64
  bits; it never exceeds the capacity, and it is the size that is reserved, before anything is
  mapped.  A refused reservation is boot's status and nothing is mapped.\<close>

theorem hbm_pool_bounds:
  "hbm_pool_size d \<le> dd_hbm_capacity_bytes d
   \<and> (unat (dd_hbm_capacity_bytes d) * 85 < 2 ^ 64 \<longrightarrow> unat (hbm_pool_size d) = unat (dd_hbm_capacity_bytes d) * 85 div 100)
   \<and> init_hbm pf d fw = (case b_reserve_vaddress pf (hbm_pool_size d) ((fw_env fw)\<lparr>e_hbm_pool_bytes := hbm_pool_size d\<rparr>) of
        (s, e) \<Rightarrow> if s = Ok then (case b_map_hbm_pool pf e of (s2, e2) \<Rightarrow> (s2, fw\<lparr>fw_env := e2\<rparr>)) else (s, fw\<lparr>fw_env := e\<rparr>))"
proof (intro conjI impI)
  show "hbm_pool_size d \<le> dd_hbm_capacity_bytes d" by (simp add: hbm_pool_size_def)
  show "init_hbm pf d fw = (case b_reserve_vaddress pf (hbm_pool_size d) ((fw_env fw)\<lparr>e_hbm_pool_bytes := hbm_pool_size d\<rparr>) of
        (s, e) \<Rightarrow> if s = Ok then (case b_map_hbm_pool pf e of (s2, e2) \<Rightarrow> (s2, fw\<lparr>fw_env := e2\<rparr>)) else (s, fw\<lparr>fw_env := e\<rparr>))"
    by (simp add: init_hbm_def Let_def split: prod.split)
next
  let ?c = "dd_hbm_capacity_bytes d"
  assume f: "unat ?c * 85 < 2 ^ 64"
  then have "unat (?c * 85) = unat ?c * 85" using unat_mult_lem [of ?c 85] by simp
  then have q: "unat (?c * 85 div 100) = unat ?c * 85 div 100" by (simp add: unat_div)
  then have "?c * 85 div 100 \<le> ?c" by (simp add: word_le_nat_alt)
  then show "unat (hbm_pool_size d) = unat ?c * 85 div 100" using q by (simp only: hbm_pool_size_def min.absorb2)
qed

theorem hbm_pool_bounds_witness:
  "unat (hbm_pool_size (e_device sim_env)) = 0x1000000 * 85 div 100"
  using hbm_pool_bounds [of "e_device sim_env" sim_backend "fw_create (e_device sim_env) sim_options 1"]
  by (simp add: sim_env_def)

subsection \<open>Shutting down\<close>

definition fw_down :: "'p fw \<Rightarrow> bool" where
  "fw_down fw =
     ((case fw_mk fw of None \<Rightarrow> True | Some mk \<Rightarrow> mk_pool mk = [] \<and> mk_modules mk = [])
    \<and> (case fw_dma fw of None \<Rightarrow> True | Some de \<Rightarrow> \<not> de_gds_enabled de \<and> \<not> de_grdma_enabled de)
    \<and> (case fw_faults fw of None \<Rightarrow> True | Some fh \<Rightarrow> fh_buffer fh = 0)
    \<and> (case fw_ilc fw of None \<Rightarrow> True | Some ic \<Rightarrow> \<not> ilc_on ic))"

lemma drain_down: "mk_pool mk = [] \<Longrightarrow> mk_modules mk = [] \<Longrightarrow> drain_streams pf env mk = (Ok, env, mk)"
  by (cases mk) (simp add: drain_streams_def mk_pool_def)

lemma dma_shutdown_down: "\<not> de_gds_enabled de \<Longrightarrow> \<not> de_grdma_enabled de \<Longrightarrow> dma_shutdown pf env de = (env, de)"
  by (simp add: dma_shutdown_def)

lemma drain_result: "drain_streams pf env mk = (s, env', mk') \<Longrightarrow> s = Ok \<and> mk_pool mk' = [] \<and> mk_modules mk' = []"
  by (auto simp: drain_streams_def mk_pool_def Let_def)

lemma dma_shutdown_result: "dma_shutdown pf env de = (env', de') \<Longrightarrow> \<not> de_gds_enabled de' \<and> \<not> de_grdma_enabled de'"
  by (auto simp: dma_shutdown_def split: if_splits)

lemma uninstall_result: "fh_uninstall pf env fh = (s, env', fh') \<Longrightarrow> s = Ok \<and> fh_buffer fh' = 0"
  by (auto simp: fh_uninstall_def Let_def split: if_splits)

lemma ilc_disable_result: "ilc_disable pf env ic = (s, env', ic') \<Longrightarrow> s = Ok \<and> \<not> ilc_on ic'"
  by (auto simp: ilc_disable_def split: if_splits)

lemma shutdown_down:
  assumes "fw_down fw"
  shows "shutdown pf fw = (case b_release_vaddress pf (fw_env fw) of (s, e) \<Rightarrow> (s, fw\<lparr>fw_env := e\<rparr>))"
proof -
  obtain env opts mk de te fh ic mem where
    f: "fw = \<lparr>fw_env = env, fw_options = opts, fw_mk = mk, fw_dma = de, fw_tma = te, fw_faults = fh, fw_ilc = ic, fw_mem = mem\<rparr>"
    by (cases fw) simp
  have a: "mk = Some m \<Longrightarrow> drain_streams pf e m = (Ok, e, m)" for m e
    using assms drain_down [of m pf e] by (simp add: fw_down_def f)
  have b: "de = Some m \<Longrightarrow> dma_shutdown pf e m = (e, m)" for m e
    using assms dma_shutdown_down [of m pf e] by (simp add: fw_down_def f)
  have c: "fh = Some m \<Longrightarrow> fh_uninstall pf e m = (Ok, e, m)" for m e
    using assms by (simp add: fw_down_def f fh_uninstall_def)
  have d: "ic = Some m \<Longrightarrow> ilc_disable pf e m = (Ok, e, m)" for m e
    using assms by (simp add: fw_down_def f ilc_disable_def)
  show ?thesis
    unfolding shutdown_def f
    by (cases mk; cases de; cases fh; cases ic; cases "b_release_vaddress pf env") (simp_all add: a b c d)
qed

text \<open>The part of shutdown before the release of the address range.\<close>

definition takedown :: "'p backend \<Rightarrow> 'p fw \<Rightarrow> 'p fw" where
  "takedown pf fw =
     (let fw1 = (case fw_faults fw of None \<Rightarrow> fw
            | Some fh \<Rightarrow> (let (s, env, fh') = fh_uninstall pf (fw_env fw) fh in fw\<lparr>fw_env := env, fw_faults := Some fh'\<rparr>));
          fw2 = (case fw_mk fw1 of None \<Rightarrow> fw1
            | Some mk \<Rightarrow> (let (s, env, mk') = drain_streams pf (fw_env fw1) mk in fw1\<lparr>fw_env := env, fw_mk := Some mk'\<rparr>));
          fw3 = (case fw_dma fw2 of None \<Rightarrow> fw2
            | Some de \<Rightarrow> (let (env, de') = dma_shutdown pf (fw_env fw2) de in fw2\<lparr>fw_env := env, fw_dma := Some de'\<rparr>))
      in case fw_ilc fw3 of None \<Rightarrow> fw3
         | Some ic \<Rightarrow> (let (s, env, ic') = ilc_disable pf (fw_env fw3) ic in fw3\<lparr>fw_env := env, fw_ilc := Some ic'\<rparr>))"

lemma takedown_props:
  "fw_down (takedown pf fw) \<and> fw_mem (takedown pf fw) = fw_mem fw"
proof -
  define fw1 where "fw1 = (case fw_faults fw of None \<Rightarrow> fw
      | Some fh \<Rightarrow> (let (s, env, fh') = fh_uninstall pf (fw_env fw) fh in fw\<lparr>fw_env := env, fw_faults := Some fh'\<rparr>))"
  define fw2 where "fw2 = (case fw_mk fw1 of None \<Rightarrow> fw1
      | Some mk \<Rightarrow> (let (s, env, mk') = drain_streams pf (fw_env fw1) mk in fw1\<lparr>fw_env := env, fw_mk := Some mk'\<rparr>))"
  define fw3 where "fw3 = (case fw_dma fw2 of None \<Rightarrow> fw2
      | Some de \<Rightarrow> (let (env, de') = dma_shutdown pf (fw_env fw2) de in fw2\<lparr>fw_env := env, fw_dma := Some de'\<rparr>))"
  define fw4 where "fw4 = (case fw_ilc fw3 of None \<Rightarrow> fw3
      | Some ic \<Rightarrow> (let (s, env, ic') = ilc_disable pf (fw_env fw3) ic in fw3\<lparr>fw_env := env, fw_ilc := Some ic'\<rparr>))"
  have 1: "(case fw_faults fw1 of None \<Rightarrow> True | Some fh \<Rightarrow> fh_buffer fh = 0)" "fw_mem fw1 = fw_mem fw"
    unfolding fw1_def by (auto dest!: uninstall_result split: option.splits prod.splits)
  have 2: "(case fw_mk fw2 of None \<Rightarrow> True | Some mk \<Rightarrow> mk_pool mk = [] \<and> mk_modules mk = [])"
      "fw_faults fw2 = fw_faults fw1" "fw_mem fw2 = fw_mem fw1"
    unfolding fw2_def by (auto dest!: drain_result split: option.splits prod.splits)
  have 3: "(case fw_dma fw3 of None \<Rightarrow> True | Some de \<Rightarrow> \<not> de_gds_enabled de \<and> \<not> de_grdma_enabled de)"
      "fw_faults fw3 = fw_faults fw2" "fw_mk fw3 = fw_mk fw2" "fw_mem fw3 = fw_mem fw2"
    unfolding fw3_def by (auto dest!: dma_shutdown_result split: option.splits prod.splits)
  have 4: "(case fw_ilc fw4 of None \<Rightarrow> True | Some ic \<Rightarrow> \<not> ilc_on ic)"
      "fw_faults fw4 = fw_faults fw3" "fw_mk fw4 = fw_mk fw3" "fw_dma fw4 = fw_dma fw3" "fw_mem fw4 = fw_mem fw3"
    unfolding fw4_def by (auto dest!: ilc_disable_result split: option.splits prod.splits)
  have "takedown pf fw = fw4"
    unfolding takedown_def fw4_def fw3_def fw2_def fw1_def Let_def ..
  then show ?thesis using 1 2 3 4 by (simp add: fw_down_def)
qed

lemma shutdown_takedown:
  "shutdown pf fw = (case b_release_vaddress pf (fw_env (takedown pf fw)) of (s, e) \<Rightarrow> (s, (takedown pf fw)\<lparr>fw_env := e\<rparr>))"
proof -
  obtain l0 fw1 where x: "(case fw_faults fw of None \<Rightarrow> (Ok, fw)
      | Some fh \<Rightarrow> (let (s, env, fh') = fh_uninstall pf (fw_env fw) fh in (s, fw\<lparr>fw_env := env, fw_faults := Some fh'\<rparr>))) = (l0, fw1)"
    by (metis surj_pair)
  have l0: "l0 = Ok" and fw1: "fw1 = (case fw_faults fw of None \<Rightarrow> fw
      | Some fh \<Rightarrow> (let (s, env, fh') = fh_uninstall pf (fw_env fw) fh in fw\<lparr>fw_env := env, fw_faults := Some fh'\<rparr>))"
    using x by (auto dest: uninstall_result split: option.splits prod.splits)
  show ?thesis
    unfolding shutdown_def takedown_def x fw1 [symmetric] unfolding Let_def l0 by (auto split: prod.split)
qed

text \<open>Shutdown leaves every subsystem down (no pooled stream, no module, both storage paths off,
  no fault buffer, compression off), touches neither the memory manager nor its live blocks,
  and answers what releasing the address range answers.  A second shutdown finds nothing to
  take down and only releases the range again.\<close>

theorem shutdown_idempotent:
  assumes "shutdown pf fw = (s, fw')"
  shows "fw_down fw' \<and> fw_mem fw' = fw_mem fw
    \<and> (\<exists>env. b_release_vaddress pf env = (s, fw_env fw'))
    \<and> shutdown pf fw' = (case b_release_vaddress pf (fw_env fw') of (s2, e) \<Rightarrow> (s2, fw'\<lparr>fw_env := e\<rparr>))"
proof -
  let ?t = "takedown pf fw"
  obtain e where r: "b_release_vaddress pf (fw_env ?t) = (s, e)" "fw' = ?t\<lparr>fw_env := e\<rparr>"
    using assms by (auto simp: shutdown_takedown split: prod.splits)
  have d: "fw_down fw'" using takedown_props [of pf fw] by (simp add: r fw_down_def)
  have m: "fw_mem fw' = fw_mem fw" using takedown_props [of pf fw] by (simp add: r)
  have x: "\<exists>env. b_release_vaddress pf env = (s, fw_env fw')" using r by auto
  show ?thesis using shutdown_down [OF d, of pf] d m x by blast
qed

theorem shutdown_idempotent_witness:
  "\<exists>c s fw'. shutdown sim_backend (c :: u64 fw) = (s, fw') \<and> fw_mk c \<noteq> None \<and> fw_dma c \<noteq> None \<and> fw_down fw' \<and>
     shutdown sim_backend fw' = (Ok, fw')"
proof -
  let ?c = "(fw_create (e_device sim_env) sim_options (1 :: u64))\<lparr>fw_mk := Some demo_mk, fw_dma := Some (dma_create (e_device sim_env))\<rparr>"
  obtain s fw' where sd: "shutdown sim_backend ?c = (s, fw')" by force
  have "fw_down fw'" "shutdown sim_backend fw' = (Ok, fw')" using shutdown_idempotent [OF sd] by simp_all
  then show ?thesis using sd by (intro exI [of _ ?c]) auto
qed

subsection \<open>A failed boot\<close>

text \<open>The operations that do not release the range.\<close>

lemma no_release:
  "enable_gds (pf\<lparr>b_release_vaddress := f\<rparr>) = enable_gds pf"
  "enable_grdma (pf\<lparr>b_release_vaddress := f\<rparr>) = enable_grdma pf"
  "fh_install (pf\<lparr>b_release_vaddress := f\<rparr>) = fh_install pf"
  "fh_uninstall (pf\<lparr>b_release_vaddress := f\<rparr>) = fh_uninstall pf"
  "dma_shutdown (pf\<lparr>b_release_vaddress := f\<rparr>) = dma_shutdown pf"
  "drain_streams (pf\<lparr>b_release_vaddress := f\<rparr>) = drain_streams pf"
  "ilc_disable (pf\<lparr>b_release_vaddress := f\<rparr>) = ilc_disable pf"
  "ilc_untag (pf\<lparr>b_release_vaddress := f\<rparr>) = ilc_untag pf"
  "release_raw (pf\<lparr>b_release_vaddress := f\<rparr>) = release_raw pf"
  "spawn_one (pf\<lparr>b_release_vaddress := f\<rparr>) = spawn_one pf"
  "lock_clocks (pf\<lparr>b_release_vaddress := f\<rparr>) = lock_clocks pf"
  "init_hbm (pf\<lparr>b_release_vaddress := f\<rparr>) = init_hbm pf"
  by (intro ext; simp add: enable_gds_def enable_grdma_def fh_install_def fh_uninstall_def dma_shutdown_def drain_streams_def
      ilc_disable_def ilc_untag_def release_raw_def spawn_one_def lock_clocks_def init_hbm_def Let_def split: prod.split)+

lemma no_release_spawn_n: "spawn_n (pf\<lparr>b_release_vaddress := f\<rparr>) k prio n env mk = spawn_n pf k prio n env mk"
  by (induction n arbitrary: env mk) (simp_all add: no_release split: prod.split)

lemma no_release_boot_ctx:
  "boot_ctx (pf\<lparr>b_release_vaddress := f\<rparr>) clk opts d fw ev = boot_ctx pf clk opts d fw ev"
  by (simp only: boot_ctx_def register_dma_def spawn_scheduler_def attach_fault_handler_def spawn_stream_pool_def
      no_release no_release_spawn_n)

lemma no_release_mm: "mm_untag (pf\<lparr>b_release_vaddress := f\<rparr>) = mm_untag pf"
  "destroy_one (pf\<lparr>b_release_vaddress := f\<rparr>) = destroy_one pf" "mm_destroy (pf\<lparr>b_release_vaddress := f\<rparr>) = mm_destroy pf"
  "tma_destroy (pf\<lparr>b_release_vaddress := f\<rparr>) = tma_destroy pf"
proof -
  show u: "mm_untag (pf\<lparr>b_release_vaddress := f\<rparr>) = mm_untag pf" by (intro ext) (simp add: mm_untag_def no_release Let_def split: prod.split option.split)
  show d: "destroy_one (pf\<lparr>b_release_vaddress := f\<rparr>) = destroy_one pf" by (intro ext) (simp add: destroy_one_def u Let_def)
  show "mm_destroy (pf\<lparr>b_release_vaddress := f\<rparr>) = mm_destroy pf" by (intro ext) (simp add: mm_destroy_def d Let_def)
  show "tma_destroy (pf\<lparr>b_release_vaddress := f\<rparr>) = tma_destroy pf" by (intro ext) (simp add: tma_destroy_def no_release)
qed

lemma no_release_destroy: "fw_destroy (pf\<lparr>b_release_vaddress := f\<rparr>) c = fw_destroy pf c"
  by (simp only: fw_destroy_def no_release no_release_mm)

text \<open>Only shutdown gives back the address range.  Neither the boot steps, failed or not, nor the
  destruction of a context ever call \<^verbatim>\<open>release_vaddress\<close>: they compute the same whatever it
  does.  So a boot that fails after its reservation, whose context is then dropped, keeps the
  range reserved; a shutdown calls it exactly once, as its last step.\<close>

theorem failed_boot_keeps_reservation:
  "boot_ctx (pf\<lparr>b_release_vaddress := f\<rparr>) clk opts d fw ev = boot_ctx pf clk opts d fw ev
   \<and> fw_destroy (pf\<lparr>b_release_vaddress := f\<rparr>) c = fw_destroy pf c
   \<and> (\<exists>c1. fw_down c1 \<and> (\<forall>g. shutdown (pf\<lparr>b_release_vaddress := g\<rparr>) c
        = (fst (g (fw_env c1)), c1\<lparr>fw_env := snd (g (fw_env c1))\<rparr>)))"
proof (intro conjI no_release_boot_ctx no_release_destroy)
  have "takedown (pf\<lparr>b_release_vaddress := g\<rparr>) c = takedown pf c" for g
    by (simp only: takedown_def no_release)
  then have "shutdown (pf\<lparr>b_release_vaddress := g\<rparr>) c
      = (fst (g (fw_env (takedown pf c))), (takedown pf c)\<lparr>fw_env := snd (g (fw_env (takedown pf c)))\<rparr>)" for g
    by (simp add: shutdown_takedown split: prod.split)
  then show "\<exists>c1. fw_down c1 \<and> (\<forall>g. shutdown (pf\<lparr>b_release_vaddress := g\<rparr>) c
        = (fst (g (fw_env c1)), c1\<lparr>fw_env := snd (g (fw_env c1))\<rparr>))"
    using takedown_props by blast
qed

end
