(* ===== verification/Dispatch.thy ===== *)
theory Dispatch
  imports Boot
begin

text \<open>
  The convenience methods of \<^verbatim>\<open>PlatformDispatch\<close>
  (\<^verbatim>\<open>src/platform/dispatch.hpp\<close>): each finds the selected backend, probing first when none
  is selected yet, and forwards the call.  They make the dispatcher a backend itself, over the
  driver's state together with the dispatcher's own.  The locale \<open>backend_sim\<close> says when one
  backend does what another does under a change of the driver's state; the components run
  the same on both, and the dispatcher simulates the backend it has selected.
\<close>

subsection \<open>Forwarding\<close>

definition env_with :: "'q \<Rightarrow> 'p env \<Rightarrow> 'q env" where
  "env_with hw e = \<lparr>e_device = e_device e, e_hbm_pool_bytes = e_hbm_pool_bytes e, e_plat = e_plat e, e_hw = hw\<rparr>"

definition forward :: "('p backend \<Rightarrow> 'p env \<Rightarrow> 'a \<times> 'p env) \<Rightarrow> ('p dispatch \<times> 'p) env \<Rightarrow> 'a \<times> ('p dispatch \<times> 'p) env" where
  "forward call e =
     (let (pf, disp, hw) = dispatch_backend (fst (e_hw e)) (snd (e_hw e));
          (a, e') = call pf (env_with hw e)
      in (a, env_with (disp, e_hw e') e'))"

definition forward2 :: "('p backend \<Rightarrow> 'p env \<Rightarrow> 'a \<times> 'b \<times> 'p env) \<Rightarrow> ('p dispatch \<times> 'p) env \<Rightarrow> 'a \<times> 'b \<times> ('p dispatch \<times> 'p) env" where
  "forward2 call e =
     (let (pf, disp, hw) = dispatch_backend (fst (e_hw e)) (snd (e_hw e));
          (a, b, e') = call pf (env_with hw e)
      in (a, b, env_with (disp, e_hw e') e'))"

definition dispatch_methods :: "('p dispatch \<times> 'p) backend" where
  "dispatch_methods = \<lparr>
     b_probe = (\<lambda>(disp, hw). let (found, disp', hw') = dispatch_probe disp hw in (found, disp', hw')),
     b_describe_device = (\<lambda>profile (disp, hw).
       let (pf, disp', hw') = dispatch_backend disp hw; (d, hw'') = b_describe_device pf profile hw' in (d, disp', hw'')),
     b_lock_clocks = (\<lambda>d. forward (\<lambda>pf. b_lock_clocks pf d)),
     b_reserve_vaddress = (\<lambda>bytes. forward (\<lambda>pf. b_reserve_vaddress pf bytes)),
     b_map_hbm_pool = forward (\<lambda>pf. b_map_hbm_pool pf),
     b_release_vaddress = forward (\<lambda>pf. b_release_vaddress pf),
     b_alloc_hbm = (\<lambda>bytes. forward2 (\<lambda>pf. b_alloc_hbm pf bytes)),
     b_free_hbm = (\<lambda>p. forward (\<lambda>pf. b_free_hbm pf p)),
     b_prefetch_range = (\<lambda>v b. forward (\<lambda>pf. b_prefetch_range pf v b)),
     b_create_stream = (\<lambda>k p. forward2 (\<lambda>pf. b_create_stream pf k p)),
     b_destroy_stream = (\<lambda>s. forward (\<lambda>pf. b_destroy_stream pf s)),
     b_sync_stream = (\<lambda>s. forward (\<lambda>pf. b_sync_stream pf s)),
     b_load_module = (\<lambda>n s m. forward2 (\<lambda>pf. b_load_module pf n s m)),
     b_launch_kernel = (\<lambda>fn g b smem stream args. forward (\<lambda>pf. b_launch_kernel pf fn g b smem stream args)),
     b_gds_init = forward (\<lambda>pf. b_gds_init pf),
     b_gds_fini = forward (\<lambda>pf. b_gds_fini pf),
     b_gds_read_fallback = (\<lambda>path off dst n. forward (\<lambda>pf. b_gds_read_fallback pf path off dst n)),
     b_gds_write_fallback = (\<lambda>path off src n. forward (\<lambda>pf. b_gds_write_fallback pf path off src n)),
     b_grdma_init = forward (\<lambda>pf. b_grdma_init pf),
     b_grdma_fini = forward (\<lambda>pf. b_grdma_fini pf),
     b_install_fault_buffer = (\<lambda>buf slots. forward (\<lambda>pf. b_install_fault_buffer pf buf slots)),
     b_uninstall_fault_buffer = (\<lambda>buf. forward (\<lambda>pf. b_uninstall_fault_buffer pf buf)),
     b_resolve_fault = (\<lambda>v. forward (\<lambda>pf. b_resolve_fault pf v)),
     b_tma_encode = (\<lambda>d. forward2 (\<lambda>pf. b_tma_encode pf d)),
     b_tma_issue_copy = (\<lambda>d smem ox oy stream. forward (\<lambda>pf. b_tma_issue_copy pf d smem ox oy stream)),
     b_tma_release = (\<lambda>raw. forward (\<lambda>pf. b_tma_release pf raw)),
     b_ilc_tag = (\<lambda>a. forward (\<lambda>pf. b_ilc_tag pf a)),
     b_ilc_untag = (\<lambda>a. forward (\<lambda>pf. b_ilc_untag pf a)),
     b_dma_submit = (\<lambda>r. forward2 (\<lambda>pf. b_dma_submit pf r)),
     b_dma_wait = (\<lambda>ev ms. forward (\<lambda>pf. b_dma_wait pf ev ms))\<rparr>"

subsection \<open>One backend as another\<close>

definition on_env :: "('e \<Rightarrow> 'f) \<Rightarrow> 'a \<times> 'e \<Rightarrow> 'a \<times> 'f" where
  "on_env L = (\<lambda>(a, e). (a, L e))"

definition on_env2 :: "('e \<Rightarrow> 'f) \<Rightarrow> 'a \<times> 'b \<times> 'e \<Rightarrow> 'a \<times> 'b \<times> 'f" where
  "on_env2 L = (\<lambda>(a, b, e). (a, b, L e))"

definition lift_env :: "('p \<Rightarrow> 'q) \<Rightarrow> 'p env \<Rightarrow> 'q env" where
  "lift_env f e = env_with (f (e_hw e)) e"

definition lift_ms :: "('p \<Rightarrow> 'q) \<Rightarrow> 'p mstate \<Rightarrow> 'q mstate" where
  "lift_ms f st = \<lparr>ms_env = lift_env f (ms_env st), ms_ilc = ms_ilc st, ms_mm = ms_mm st\<rparr>"

definition lift_fw :: "('p \<Rightarrow> 'q) \<Rightarrow> 'p fw \<Rightarrow> 'q fw" where
  "lift_fw f c = \<lparr>fw_env = lift_env f (fw_env c), fw_options = fw_options c, fw_mk = fw_mk c, fw_dma = fw_dma c,
     fw_tma = fw_tma c, fw_faults = fw_faults c, fw_ilc = fw_ilc c, fw_mem = fw_mem c\<rparr>"

definition lift_result :: "('p \<Rightarrow> 'q) \<Rightarrow> 'p boot_result \<Rightarrow> 'q boot_result" where
  "lift_result f r = \<lparr>br_status = br_status r, br_device = br_device r, br_events = br_events r,
     br_ctx = map_option (lift_fw f) (br_ctx r)\<rparr>"

lemma lift_env_fields [simp]: "e_device (lift_env f e) = e_device e" "e_plat (lift_env f e) = e_plat e"
    "e_hbm_pool_bytes (lift_env f e) = e_hbm_pool_bytes e" "e_hw (lift_env f e) = f (e_hw e)"
    "(lift_env f e)\<lparr>e_hbm_pool_bytes := n\<rparr> = lift_env f (e\<lparr>e_hbm_pool_bytes := n\<rparr>)"
  by (simp_all add: lift_env_def env_with_def)

lemma lift_ms_fields [simp]: "ms_env (lift_ms f st) = lift_env f (ms_env st)" "ms_ilc (lift_ms f st) = ms_ilc st"
    "ms_mm (lift_ms f st) = ms_mm st" "(lift_ms f st)\<lparr>ms_env := lift_env f e\<rparr> = lift_ms f (st\<lparr>ms_env := e\<rparr>)"
    "(lift_ms f st)\<lparr>ms_ilc := ic\<rparr> = lift_ms f (st\<lparr>ms_ilc := ic\<rparr>)" "(lift_ms f st)\<lparr>ms_mm := m\<rparr> = lift_ms f (st\<lparr>ms_mm := m\<rparr>)"
  by (simp_all add: lift_ms_def)

lemma lift_fw_fields [simp]: "fw_env (lift_fw f c) = lift_env f (fw_env c)"
    "(lift_fw f c)\<lparr>fw_env := lift_env f e\<rparr> = lift_fw f (c\<lparr>fw_env := e\<rparr>)"
    "(lift_fw f c)\<lparr>fw_dma := x1\<rparr> = lift_fw f (c\<lparr>fw_dma := x1\<rparr>)" "(lift_fw f c)\<lparr>fw_mk := x2\<rparr> = lift_fw f (c\<lparr>fw_mk := x2\<rparr>)"
    "(lift_fw f c)\<lparr>fw_faults := x3\<rparr> = lift_fw f (c\<lparr>fw_faults := x3\<rparr>)" "(lift_fw f c)\<lparr>fw_ilc := x4\<rparr> = lift_fw f (c\<lparr>fw_ilc := x4\<rparr>)"
  by (simp_all add: lift_fw_def)

text \<open>\<open>pf1\<close> does on the image of an environment what \<open>pf2\<close> does on the environment.\<close>

locale backend_sim =
  fixes pf1 :: "'q backend" and pf2 :: "'p backend" and f :: "'p \<Rightarrow> 'q"
  assumes lock: "b_lock_clocks pf1 d (lift_env f e) = on_env (lift_env f) (b_lock_clocks pf2 d e)"
    and reserve: "b_reserve_vaddress pf1 n (lift_env f e) = on_env (lift_env f) (b_reserve_vaddress pf2 n e)"
    and map_pool: "b_map_hbm_pool pf1 (lift_env f e) = on_env (lift_env f) (b_map_hbm_pool pf2 e)"
    and alloc: "b_alloc_hbm pf1 n (lift_env f e) = on_env2 (lift_env f) (b_alloc_hbm pf2 n e)"
    and free_hbm: "b_free_hbm pf1 p (lift_env f e) = on_env (lift_env f) (b_free_hbm pf2 p e)"
    and create: "b_create_stream pf1 k pr (lift_env f e) = on_env2 (lift_env f) (b_create_stream pf2 k pr e)"
    and gds: "b_gds_init pf1 (lift_env f e) = on_env (lift_env f) (b_gds_init pf2 e)"
    and grdma: "b_grdma_init pf1 (lift_env f e) = on_env (lift_env f) (b_grdma_init pf2 e)"
    and fault_buf: "b_install_fault_buffer pf1 p sl (lift_env f e) = on_env (lift_env f) (b_install_fault_buffer pf2 p sl e)"
    and tag: "b_ilc_tag pf1 p (lift_env f e) = on_env (lift_env f) (b_ilc_tag pf2 p e)"
    and untag: "b_ilc_untag pf1 p (lift_env f e) = on_env (lift_env f) (b_ilc_untag pf2 p e)"
begin

lemmas ops = lock reserve map_pool alloc free_hbm create gds grdma fault_buf tag untag

lemma spawn_one_sim: "spawn_one pf1 k prio (lift_env f env) mk
    = (case spawn_one pf2 k prio env mk of (s, e, m) \<Rightarrow> (s, lift_env f e, m))"
  by (simp add: spawn_one_def ops on_env2_def Let_def split: prod.split del: push_free.simps)

lemma spawn_n_sim: "spawn_n pf1 k prio n (lift_env f env) mk
    = (case spawn_n pf2 k prio n env mk of (s, e, m) \<Rightarrow> (s, lift_env f e, m))"
  by (induction n arbitrary: env mk) (simp_all add: spawn_one_sim split: prod.split)

lemma spawn_pool_sim: "spawn_stream_pool pf1 nc nd (lift_env f env) mk
    = (case spawn_stream_pool pf2 nc nd env mk of (s, e, m) \<Rightarrow> (s, lift_env f e, m))"
  by (simp add: spawn_stream_pool_def spawn_n_sim spawn_one_sim split: prod.split)

subsection \<open>The memory manager\<close>

lemma ilc_tag_sim: "ilc_tag pf1 h b (lift_env f env) ic = (case ilc_tag pf2 h b env ic of (s, e, ic') \<Rightarrow> (s, lift_env f e, ic'))"
  by (simp add: ilc_tag_def ops on_env_def split: prod.split)

lemma ilc_untag_sim: "ilc_untag pf1 h (lift_env f env) ic = (case ilc_untag pf2 h env ic of (s, e, ic') \<Rightarrow> (s, lift_env f e, ic'))"
  by (simp add: ilc_untag_def ops on_env_def split: prod.split)

lemma mm_tag_sim: "mm_tag pf1 hints p b a (lift_ms f st) = on_env (lift_ms f) (mm_tag pf2 hints p b a st)"
  by (simp add: mm_tag_def ilc_tag_sim on_env_def split: option.split prod.split)

lemma mm_map_sim: "mm_map clk p b (lift_ms f st) = map_option (lift_ms f) (mm_map clk p b st)"
  by (simp add: mm_map_def option.map_comp comp_def case_prod_unfold)

lemma advise_sim: "advise_read_mostly clk p b (lift_ms f st) = map_option (on_env (lift_ms f)) (advise_read_mostly clk p b st)"
  by (simp add: advise_read_mostly_def option.map_comp comp_def case_prod_unfold on_env_def)

lemma mm_alloc_sim: "mm_alloc pf1 clk bytes hints out (lift_ms f st)
    = map_option (on_env2 (lift_ms f)) (mm_alloc pf2 clk bytes hints out st)"
proof (cases "bytes = 0")
  case True
  then show ?thesis by (simp add: mm_alloc_def on_env2_def)
next
  case False
  obtain s p e1 where a: "b_alloc_hbm pf2 bytes (ms_env st) = (s, p, e1)" using prod_cases3 by blast
  show ?thesis
  proof (cases "s = Ok")
    case True
    let ?o = "out\<lparr>al_vaddr := p, al_bytes := bytes, al_hints := hints, al_hbm_ptr := p\<rparr>"
    obtain o2 st2 where t: "mm_tag pf2 hints p bytes ?o (st\<lparr>ms_env := e1\<rparr>) = (o2, st2)" by force
    show ?thesis
      by (cases "mm_map clk (al_vaddr o2) bytes st2")
        (simp_all add: mm_alloc_def False ops a on_env2_def True mm_tag_sim t on_env_def mm_map_sim advise_sim
          option.map_comp comp_def case_prod_unfold bind_map_option map_option_bind split: option.split)
  qed (use False in \<open>simp add: mm_alloc_def ops a on_env2_def\<close>)
qed

lemma mm_untag_sim: "mm_untag pf1 a (lift_ms f st) = lift_ms f (mm_untag pf2 a st)"
  by (simp add: mm_untag_def ilc_untag_sim split: option.split prod.split)

lemma mm_free_sim: "mm_free pf1 a (lift_ms f st) = map_option (on_env (lift_ms f)) (mm_free pf2 a st)"
proof -
  let ?st = "mm_untag pf2 a st"
  obtain s e where b: "b_free_hbm pf2 (al_hbm_ptr a) (ms_env ?st) = (s, e)" by force
  have r: "b_free_hbm pf1 (al_hbm_ptr a) (lift_env f (ms_env ?st)) = (s, lift_env f e)" by (simp add: ops b on_env_def)
  show ?thesis
    by (cases "map_of (mm_live (ms_mm st)) (al_hbm_ptr a)"; cases "unmap_range (mm_pt (ms_mm ?st)) (al_vaddr a) (al_bytes a)")
      (simp_all add: mm_free_def mm_untag_sim on_env_def Let_def b r case_prod_unfold)
qed

subsection \<open>The boot\<close>

lemma lock_clocks_sim: "lock_clocks pf1 d (lift_fw f fw) = on_env (lift_fw f) (lock_clocks pf2 d fw)"
  by (simp add: lock_clocks_def ops on_env_def split: prod.split)

lemma init_hbm_sim: "init_hbm pf1 d (lift_fw f fw) = on_env (lift_fw f) (init_hbm pf2 d fw)"
  by (simp add: init_hbm_def ops on_env_def Let_def case_prod_unfold)

lemma enable_gds_sim: "enable_gds pf1 (lift_env f env) de = (case enable_gds pf2 env de of (s, e, de') \<Rightarrow> (s, lift_env f e, de'))"
  by (simp add: enable_gds_def ops on_env_def split: prod.split)

lemma enable_grdma_sim: "enable_grdma pf1 (lift_env f env) de = (case enable_grdma pf2 env de of (s, e, de') \<Rightarrow> (s, lift_env f e, de'))"
  by (simp add: enable_grdma_def ops on_env_def split: prod.split)

lemma register_dma_sim: "register_dma pf1 d opts (lift_fw f fw) = on_env (lift_fw f) (register_dma pf2 d opts fw)"
  by (cases "ff_gds (dd_features d) \<and> bo_enable_gds opts"; cases "ff_grdma (dd_features d) \<and> bo_enable_grdma opts")
    (auto simp: register_dma_def enable_gds_sim enable_grdma_sim on_env_def Let_def case_prod_unfold)

lemma spawn_scheduler_sim: "spawn_scheduler pf1 d opts (lift_fw f fw) = on_env (lift_fw f) (spawn_scheduler pf2 d opts fw)"
  by (simp add: spawn_scheduler_def spawn_pool_sim on_env_def split: prod.split)

lemma attach_sim: "attach_fault_handler pf1 opts (lift_fw f fw) = on_env (lift_fw f) (attach_fault_handler pf2 opts fw)"
  by (simp add: attach_fault_handler_def fh_install_def ops on_env_def on_env2_def Let_def split: prod.split)

lemma init_ilc_sim: "init_ilc d opts (lift_fw f fw) = on_env (lift_fw f) (init_ilc d opts fw)"
  by (simp add: init_ilc_def ilc_enable_def on_env_def)

lemma boot_ctx_sim: "boot_ctx pf1 clk opts d (lift_fw f fw) ev = (case boot_ctx pf2 clk opts d fw ev of (r, ev') \<Rightarrow> (lift_result f r, ev'))"
proof -
  obtain s2 fw2 where 2: "lock_clocks pf2 d fw = (s2, fw2)" by force
  obtain s3 fw3 where 3: "init_hbm pf2 d fw2 = (s3, fw3)" by force
  obtain s4 fw4 where 4: "register_dma pf2 d opts fw3 = (s4, fw4)" by force
  obtain s5 fw5 where 5: "spawn_scheduler pf2 d opts fw4 = (s5, fw5)" by force
  obtain s6 fw6 where 6: "attach_fault_handler pf2 opts fw5 = (s6, fw6)" by force
  obtain s7 fw7 where 7: "init_ilc d opts fw6 = (s7, fw7)" by force
  have sim: "lock_clocks pf1 d (lift_fw f fw) = (s2, lift_fw f fw2)" "init_hbm pf1 d (lift_fw f fw2) = (s3, lift_fw f fw3)"
    "register_dma pf1 d opts (lift_fw f fw3) = (s4, lift_fw f fw4)" "spawn_scheduler pf1 d opts (lift_fw f fw4) = (s5, lift_fw f fw5)"
    "attach_fault_handler pf1 opts (lift_fw f fw5) = (s6, lift_fw f fw6)" "init_ilc d opts (lift_fw f fw6) = (s7, lift_fw f fw7)"
    by (simp_all add: lock_clocks_sim init_hbm_sim register_dma_sim spawn_scheduler_sim attach_sim init_ilc_sim 2 3 4 5 6 7 on_env_def)
  show ?thesis
    by (simp add: boot_ctx_def Let_def 2 3 4 5 6 7 sim boot_fail_def lift_result_def)
qed

end

subsection \<open>The dispatcher simulates the backend it selected\<close>

lemma env_with_lift [simp]: "env_with h (lift_env f e) = env_with h e" "env_with (e_hw e) e = e"
  by (simp_all add: lift_env_def env_with_def)

lemma forward_active: "d_active disp = Some pf \<Longrightarrow>
    forward call (lift_env (Pair disp) e) = on_env (lift_env (Pair disp)) (call pf e)"
  by (simp add: forward_def dispatch_backend_def on_env_def Let_def case_prod_unfold) (simp add: lift_env_def)

lemma forward2_active: "d_active disp = Some pf \<Longrightarrow>
    forward2 call (lift_env (Pair disp) e) = on_env2 (lift_env (Pair disp)) (call pf e)"
  by (simp add: forward2_def dispatch_backend_def on_env2_def Let_def case_prod_unfold) (simp add: lift_env_def)

interpretation via: backend_sim dispatch_methods pf "Pair (disp\<lparr>d_active := Some pf\<rparr>)" for pf :: "'p backend" and disp
  by unfold_locales (simp_all add: dispatch_methods_def forward_active forward2_active)


text \<open>Before a backend is selected, every call probes again and falls back to the null backend when
  none answers.\<close>

lemma probe_order_fails: "probe_order vs d h = (False, d', h') \<Longrightarrow> d' = d"
  by (induction vs arbitrary: h) (auto split: option.splits prod.splits if_splits)

lemma forward_unprobed:
  assumes "d_active disp = None" and p: "dispatch_probe disp hw = (False, disp', hw')" and "e_hw e = (disp, hw)"
  shows "forward call e = (case call null_backend (env_with hw' e) of (a, e') \<Rightarrow> (a, env_with (disp, e_hw e') e'))"
proof -
  have "disp' = disp" using assms(1) p by (auto simp: dispatch_probe_def simp del: probe_order.simps dest: probe_order_fails)
  then show ?thesis using assms by (simp add: forward_def dispatch_backend_def Let_def)
qed

text \<open>C12: Calling through the dispatcher is calling the backend it selected.  Over a driver state
  that carries the dispatcher along, the boot, the memory manager's allocation and release and
  the stream pool do through the forwarding methods exactly what they do on the selected
  backend itself, with the same statuses, events and results, and leave the dispatcher
  unchanged.\<close>

theorem dispatcher_refines_backend:
  fixes pf :: "'p backend" and disp :: "'p dispatch"
  shows "let f = Pair (disp\<lparr>d_active := Some pf\<rparr>) in
      boot_ctx dispatch_methods clk opts d (lift_fw f fw) ev
        = (case boot_ctx pf clk opts d fw ev of (r, ev') \<Rightarrow> (lift_result f r, ev'))
    \<and> mm_alloc dispatch_methods mclk bytes hints out (lift_ms f st)
        = map_option (on_env2 (lift_ms f)) (mm_alloc pf mclk bytes hints out st)
    \<and> mm_free dispatch_methods a (lift_ms f st) = map_option (on_env (lift_ms f)) (mm_free pf a st)
    \<and> spawn_stream_pool dispatch_methods nc nd (lift_env f env) mk
        = (case spawn_stream_pool pf nc nd env mk of (s, e, m) \<Rightarrow> (s, lift_env f e, m))"
  unfolding Let_def by (intro conjI via.boot_ctx_sim via.mm_alloc_sim via.mm_free_sim via.spawn_pool_sim)

end
