(* ===== verification/TaskGraph.thy ===== *)
theory TaskGraph
  imports MicroKernel "HOL-Library.List_Lexorder" "HOL-Library.Char_ord"
begin

text \<open>
  The task graph of \<^verbatim>\<open>src/scheduler/graph.hpp\<close> and \<^verbatim>\<open>graph.cpp\<close>: stages with
  their contracts, validation (missing dependencies, Kahn's cycle detection, contracts) and
  the synchronous executor.  \<^verbatim>\<open>nodes_\<close> is an association list in the iteration order of
  the container, which the lemmas leave open; the in-degree table is a function, as
  \<^verbatim>\<open>std::map\<close> with its default 0 is, and its iteration by key is a sorted list.  Loops end
  by a measure: Kahn's loop by the queue and the positive in-degrees, the executor by the
  number of pending stages.
\<close>

subsection \<open>Data\<close>

record stage_contract =
  sc_name :: string
  sc_module :: string
  sc_function :: string
  sc_inputs :: "ptr list"
  sc_outputs :: "ptr list"
  sc_token_budget :: u32
  sc_sm_footprint_mb :: u32
  sc_mem_footprint_mb :: u32
  sc_grid :: "u32 \<times> u32 \<times> u32"
  sc_block :: "u32 \<times> u32 \<times> u32"
  sc_shared_mem_bytes :: u32
  sc_depends_on :: "string list"
  sc_kernel_args :: "ptr list"
  sc_producer_warps :: u32
  sc_consumer_warps :: u32

definition stage_contract_default :: stage_contract where
  "stage_contract_default = \<lparr>sc_name = '''', sc_module = '''', sc_function = '''', sc_inputs = [],
     sc_outputs = [], sc_token_budget = 0, sc_sm_footprint_mb = 0, sc_mem_footprint_mb = 0,
     sc_grid = (1, 1, 1), sc_block = (1, 1, 1), sc_shared_mem_bytes = 0, sc_depends_on = [],
     sc_kernel_args = [], sc_producer_warps = 0, sc_consumer_warps = 0\<rparr>"

datatype stage_state = Pending | Ready | Running | Completed | Failed

record stage_node =
  sn_contract :: stage_contract
  sn_state :: stage_state
  sn_stream :: ptr
  sn_done_event :: ptr
  sn_submit_ts_ns :: u64
  sn_complete_ts_ns :: u64
  sn_last_status :: int

definition stage_node_new :: "stage_contract \<Rightarrow> stage_node" where
  "stage_node_new c = \<lparr>sn_contract = c, sn_state = Pending, sn_stream = 0, sn_done_event = 0,
     sn_submit_ts_ns = 0, sn_complete_ts_ns = 0, sn_last_status = 0\<rparr>"

record task_graph =
  tg_nodes :: "(string, stage_node) umap"
  tg_overlap :: "(string \<times> string, bool) umap"
  tg_validated :: bool

definition tg_create :: task_graph where
  "tg_create = \<lparr>tg_nodes = [], tg_overlap = [], tg_validated = False\<rparr>"

abbreviation sn_deps :: "stage_node \<Rightarrow> string list" where
  "sn_deps n \<equiv> sc_depends_on (sn_contract n)"

subsection \<open>Building and validating\<close>

definition add_stage :: "stage_contract \<Rightarrow> task_graph \<Rightarrow> status \<times> task_graph" where
  "add_stage c g =
     (if sc_name c = '''' then (InvalidArgument, g)
      else if map_of (tg_nodes g) (sc_name c) \<noteq> None then (InvalidArgument, g)
      else (Ok, g\<lparr>tg_nodes := AList.update (sc_name c) (stage_node_new c) (tg_nodes g),
                  tg_validated := False\<rparr>))"

definition deps_exist :: "(string, stage_node) umap \<Rightarrow> bool" where
  "deps_exist ns = list_all (\<lambda>(k, n). list_all (\<lambda>d. map_of ns d \<noteq> None) (sn_deps n)) ns"

definition indegrees :: "(string, stage_node) umap \<Rightarrow> string \<Rightarrow> int" where
  "indegrees ns = fold (\<lambda>(k, n). fold (\<lambda>d indeg. indeg(k := indeg k + 1)) (sn_deps n)) ns (\<lambda>_. 0)"

definition kahn_start :: "(string, stage_node) umap \<Rightarrow> (string \<Rightarrow> int) \<Rightarrow> string list" where
  "kahn_start ns indeg = filter (\<lambda>k. indeg k = 0) (sort (map fst ns))"

fun relax :: "string \<Rightarrow> (string, stage_node) umap \<Rightarrow> (string \<Rightarrow> int) \<Rightarrow> string list
    \<Rightarrow> (string \<Rightarrow> int) \<times> string list" where
  "relax k [] indeg q = (indeg, q)"
| "relax k ((k2, n) # ns) indeg q =
     (if k \<in> set (sn_deps n)
      then (let d = indeg k2 - 1
            in relax k ns (indeg(k2 := d)) (if d = 0 then q @ [k2] else q))
      else relax k ns indeg q)"

definition unmet :: "(string, stage_node) umap \<Rightarrow> (string \<Rightarrow> int) \<Rightarrow> nat" where
  "unmet ns indeg = card {k \<in> fst ` set ns. indeg k > 0}"

lemma relax_measure:
  "set ks \<subseteq> set ns \<Longrightarrow> relax k ks indeg q = (indeg', q') \<Longrightarrow>
    length q' + unmet ns indeg' \<le> length q + unmet ns indeg"
proof (induction k ks indeg q rule: relax.induct)
  case (2 k k2 n ks indeg q)
  let ?d = "indeg k2 - 1"
  have sub: "set ks \<subseteq> set ns" and k2: "k2 \<in> fst ` set ns" using "2.prems"(1) by (auto simp: image_iff) force
  show ?case
  proof (cases "k \<in> set (sn_deps n)")
    case True
    have step: "length (if ?d = 0 then q @ [k2] else q) + unmet ns (indeg(k2 := ?d)) \<le> length q + unmet ns indeg"
    proof (cases "?d = 0")
      case True
      let ?A = "{x \<in> fst ` set ns. indeg x > 0}"
      have "{x \<in> fst ` set ns. (indeg(k2 := ?d)) x > 0} = ?A - {k2}"
        using True by auto
      moreover have "Suc (card (?A - {k2})) = card ?A"
        by (rule card_Suc_Diff1) (use True k2 in simp_all)
      ultimately have "Suc (unmet ns (indeg(k2 := ?d))) = unmet ns indeg"
        unfolding unmet_def by presburger
      then show ?thesis using True by simp
    next
      case False
      have "unmet ns (indeg(k2 := ?d)) \<le> unmet ns indeg"
        unfolding unmet_def by (rule card_mono) auto
      then show ?thesis using False by simp
    qed
    have "relax k ks (indeg(k2 := ?d)) (if ?d = 0 then q @ [k2] else q) = (indeg', q')"
      using "2.prems"(2) True by (simp add: Let_def)
    from "2.IH"(1) [OF True refl sub this] step show ?thesis by linarith
  next
    case False
    then show ?thesis using "2.IH"(2) [OF False sub] "2.prems"(2) by simp
  qed
qed auto

function kahn_loop :: "(string, stage_node) umap \<Rightarrow> (string \<Rightarrow> int) \<Rightarrow> string list \<Rightarrow> nat \<Rightarrow> nat" where
  "kahn_loop ns indeg [] visited = visited"
| "kahn_loop ns indeg (k # q) visited =
     (let (indeg', q') = relax k ns indeg q in kahn_loop ns indeg' q' (visited + 1))"
  by pat_completeness auto
termination
proof (relation "measure (\<lambda>(ns, indeg, q, visited). length q + unmet ns indeg)")
  fix ns indeg k q visited x indeg' q'
  assume "x = relax k ns indeg q" "(indeg', q') = x"
  then have "relax k ns indeg q = (indeg', q')" by simp
  from relax_measure [OF subset_refl this]
  show "((ns, indeg', q', visited + 1), ns, indeg, k # q, visited)
      \<in> measure (\<lambda>(ns, indeg, q, visited). length q + unmet ns indeg)"
    by simp
qed simp

definition kahn_count :: "(string, stage_node) umap \<Rightarrow> nat" where
  "kahn_count ns = kahn_loop ns (indegrees ns) (kahn_start ns (indegrees ns)) 0"

definition contracts_ok :: "device_desc \<Rightarrow> (string, stage_node) umap \<Rightarrow> bool" where
  "contracts_ok d ns = list_all (\<lambda>(k, n). \<not> sc_sm_footprint_mb (sn_contract n) > dd_smem_per_sm_bytes d div 1024) ns"

definition validate :: "device_desc \<Rightarrow> task_graph \<Rightarrow> status \<times> task_graph" where
  "validate d g =
     (if \<not> deps_exist (tg_nodes g) then (InvalidArgument, g)
      else if kahn_count (tg_nodes g) \<noteq> length (tg_nodes g) then (InvalidArgument, g)
      else if \<not> contracts_ok d (tg_nodes g) then (ContractViolation, g)
      else (Ok, g\<lparr>tg_validated := True\<rparr>))"

subsection \<open>Running\<close>

definition ready_to_run :: "(string, stage_node) umap \<Rightarrow> stage_node \<Rightarrow> bool" where
  "ready_to_run ns n = (sn_state n = Pending \<and>
     list_all (\<lambda>d. case map_of ns d of None \<Rightarrow> False | Some m \<Rightarrow> sn_state m = Completed) (sn_deps n))"

definition str_contains :: "string \<Rightarrow> string \<Rightarrow> bool" where
  "str_contains s sub = list_ex (\<lambda>i. take (length sub) (drop i s) = sub) [0..<length s + 1]"

definition stage_class :: "stage_contract \<Rightarrow> stream_class" where
  "stage_class c = (if str_contains (sc_module c) ''dma'' \<or> str_contains (sc_module c) ''gds'' then Dma else Compute)"

definition tg_launch :: "'p backend \<Rightarrow> (string \<Rightarrow> u64 \<times> u64) \<Rightarrow> stage_node \<Rightarrow> 'p env \<Rightarrow> microkernel
    \<Rightarrow> status \<times> stage_node \<times> 'p env \<times> microkernel" where
  "tg_launch pf clk n env mk =
     (let c = sn_contract n;
          (sh, mk1) = acquire_stream (stage_class c) 0 mk
      in if sh_id sh = 0 then (OutOfMemory, n, env, mk1)
         else (let n1 = n\<lparr>sn_stream := sh_raw sh, sn_submit_ts_ns := fst (clk (sc_name c)), sn_state := Running\<rparr>;
                   (s, env1) = mk_launch pf (sc_module c) (sc_function c) (sc_grid c) (sc_block c)
                     (sc_shared_mem_bytes c) sh (sc_kernel_args c) env mk1
               in if \<not> ok s
                  then (s, n1\<lparr>sn_state := Failed, sn_last_status := status_code s\<rparr>, env1, release_stream sh mk1)
                  else (let (s2, env2) = mk_sync_stream pf sh env1;
                            n2 = n1\<lparr>sn_complete_ts_ns := snd (clk (sc_name c))\<rparr>;
                            n3 = (if ok s2 then n2\<lparr>sn_state := Completed\<rparr>
                                  else n2\<lparr>sn_state := Failed, sn_last_status := status_code s2\<rparr>)
                        in (s2, n3, env2, release_stream sh mk1))))"

fun run_pass :: "'p backend \<Rightarrow> (string \<Rightarrow> u64 \<times> u64) \<Rightarrow> string list \<Rightarrow> 'p env \<Rightarrow> microkernel
    \<Rightarrow> (string, stage_node) umap \<Rightarrow> bool
    \<Rightarrow> status \<times> 'p env \<times> microkernel \<times> (string, stage_node) umap \<times> bool" where
  "run_pass pf clk [] env mk ns progress = (Ok, env, mk, ns, progress)"
| "run_pass pf clk (k # ks) env mk ns progress =
     (case map_of ns k of
        None \<Rightarrow> run_pass pf clk ks env mk ns progress
      | Some n \<Rightarrow>
          if \<not> ready_to_run ns n then run_pass pf clk ks env mk ns progress
          else (let (s, n', env', mk') = tg_launch pf clk n env mk;
                    ns' = AList.update k n' ns
                in if \<not> ok s then (s, env', mk', ns', True)
                   else run_pass pf clk ks env' mk' ns' True))"

definition pending_keys :: "(string, stage_node) umap \<Rightarrow> string set" where
  "pending_keys ns = {k. \<exists>n. map_of ns k = Some n \<and> sn_state n = Pending}"

lemma finite_pending: "finite (pending_keys ns)"
  by (rule finite_subset [OF _ finite_dom_map_of [of ns]]) (auto simp: pending_keys_def)

lemma launch_ok_state:
  "tg_launch pf clk n env mk = (s, n', env', mk') \<Longrightarrow> s = Ok \<Longrightarrow> sn_state n' = Completed"
  by (auto simp: tg_launch_def Let_def split: prod.splits if_splits)

lemma run_pass_pending:
  "run_pass pf clk ks env mk ns progress = (s, env', mk', ns', progress') \<Longrightarrow> s = Ok \<Longrightarrow>
    pending_keys ns' \<subseteq> pending_keys ns \<and> (progress' \<longrightarrow> progress \<or> pending_keys ns' \<subset> pending_keys ns)"
proof (induction pf clk ks env mk ns progress rule: run_pass.induct)
  case (2 pf clk k ks env mk ns progress)
  show ?case
  proof (cases "map_of ns k")
    case None
    then show ?thesis using 2 by simp
  next
    case (Some n)
    show ?thesis
    proof (cases "ready_to_run ns n")
      case False
      then show ?thesis using 2 Some by simp
    next
      case True
      obtain s1 n1 env1 mk1 where l: "tg_launch pf clk n env mk = (s1, n1, env1, mk1)"
        by (cases "tg_launch pf clk n env mk") auto
      have s1: "s1 = Ok" using "2.prems" Some True l by (auto simp: Let_def split: if_splits)
      let ?ns = "AList.update k n1 ns"
      have "pending_keys ?ns = pending_keys ns - {k}"
        using launch_ok_state [OF l s1] by (auto simp: pending_keys_def)
      moreover have "k \<in> pending_keys ns" using Some True by (simp add: pending_keys_def ready_to_run_def)
      moreover have "pending_keys ns' \<subseteq> pending_keys ?ns"
        using "2.IH"(3) [OF Some _ l [symmetric] refl refl refl refl] "2.prems" Some True l s1 by simp
      ultimately show ?thesis by blast
    qed
  qed
qed simp

function run_loop :: "'p backend \<Rightarrow> (string \<Rightarrow> u64 \<times> u64) \<Rightarrow> 'p env \<Rightarrow> microkernel
    \<Rightarrow> (string, stage_node) umap \<Rightarrow> status \<times> 'p env \<times> microkernel \<times> (string, stage_node) umap" where
  "run_loop pf clk env mk ns =
     (let (s, env', mk', ns', progress) = run_pass pf clk (map fst ns) env mk ns False
      in if \<not> ok s then (s, env', mk', ns')
         else if progress then run_loop pf clk env' mk' ns'
         else (Ok, env', mk', ns'))"
  by pat_completeness auto
termination
proof (relation "measure (\<lambda>(pf, clk, env, mk, ns). card (pending_keys ns))")
  fix pf :: "'p backend" and clk env mk ns x s y env' z mk' w ns' progress
  assume "x = run_pass pf clk (map fst ns) env mk ns False" "(s, y) = x" "(env', z) = y" "(mk', w) = z"
    "(ns', progress) = w" "\<not> \<not> ok s" "progress"
  then have "run_pass pf clk (map fst ns) env mk ns False = (Ok, env', mk', ns', True)" by auto
  from run_pass_pending [OF this refl] have "pending_keys ns' \<subset> pending_keys ns" by simp
  then show "((pf, clk, env', mk', ns'), pf, clk, env, mk, ns)
      \<in> measure (\<lambda>(pf, clk, env, mk, ns). card (pending_keys ns))"
    by (simp add: psubset_card_mono finite_pending)
qed simp

declare run_loop.simps [simp del]

definition tg_run :: "'p backend \<Rightarrow> (string \<Rightarrow> u64 \<times> u64) \<Rightarrow> 'p env \<Rightarrow> microkernel \<Rightarrow> task_graph
    \<Rightarrow> status \<times> 'p env \<times> microkernel \<times> task_graph" where
  "tg_run pf clk env mk g =
     (let (s, g1) = (if tg_validated g then (Ok, g) else validate (e_device env) g)
      in if \<not> ok s then (s, env, mk, g1)
         else (let (s2, env', mk', ns') = run_loop pf clk env mk (tg_nodes g1)
               in (s2, env', mk', g1\<lparr>tg_nodes := ns'\<rparr>)))"

subsection \<open>Waiting, overlap, inspection, destruction\<close>

definition tg_wait :: "task_graph \<Rightarrow> string \<Rightarrow> status" where
  "tg_wait g name = (case map_of (tg_nodes g) name of
     None \<Rightarrow> InvalidArgument
   | Some n \<Rightarrow> if sn_state n = Completed then Ok
              else if sn_state n = Failed then Aborted else Timeout)"

fun wait_list :: "task_graph \<Rightarrow> string list \<Rightarrow> status" where
  "wait_list g [] = Ok"
| "wait_list g (k # ks) = (let s = tg_wait g k in if \<not> ok s then s else wait_list g ks)"

definition wait_all :: "task_graph \<Rightarrow> status" where
  "wait_all g = wait_list g (map fst (tg_nodes g))"

definition set_overlap :: "string \<Rightarrow> string \<Rightarrow> bool \<Rightarrow> task_graph \<Rightarrow> status \<times> task_graph" where
  "set_overlap a b enable g =
     (Ok, g\<lparr>tg_overlap := AList.update (b, a) enable (AList.update (a, b) enable (tg_overlap g))\<rparr>)"

definition tg_find :: "task_graph \<Rightarrow> string \<Rightarrow> stage_node option" where
  "tg_find g name = map_of (tg_nodes g) name"

definition stage_names :: "task_graph \<Rightarrow> string list" where
  "stage_names g = map fst (tg_nodes g)"

definition tg_destroy :: "task_graph \<Rightarrow> microkernel \<Rightarrow> microkernel" where
  "tg_destroy g mk = fold (\<lambda>(k, n) mk. if sn_stream n \<noteq> 0
     then release_stream \<lparr>sh_id = 0, sh_raw = sn_stream n, sh_klass = Compute, sh_priority = 0\<rparr> mk
     else mk) (tg_nodes g) mk"

subsection \<open>The dependency relation\<close>

definition deps_of :: "(string, stage_node) umap \<Rightarrow> string \<Rightarrow> string list" where
  "deps_of ns k = (case map_of ns k of None \<Rightarrow> [] | Some n \<Rightarrow> sn_deps n)"

definition dep_rel :: "(string, stage_node) umap \<Rightarrow> (string \<times> string) set" where
  "dep_rel ns = {(d, k). d \<in> set (deps_of ns k)}"

abbreviation keys :: "(string, stage_node) umap \<Rightarrow> string set" where
  "keys ns \<equiv> fst ` set ns"

lemma deps_of_Cons: "deps_of ((k, n) # ns) = (deps_of ns)(k := sn_deps n)"
  by (auto simp: deps_of_def fun_eq_iff)

lemma deps_of_keys: "d \<in> set (deps_of ns k) \<Longrightarrow> k \<in> keys ns"
  by (rule ccontr) (simp add: deps_of_def map_of_eq_None_iff [symmetric])

lemma deps_exist_iff:
  assumes "um_wf ns"
  shows "deps_exist ns \<longleftrightarrow> (\<forall>k. set (deps_of ns k) \<subseteq> keys ns)"
proof -
  have dom: "map_of ns d \<noteq> None \<longleftrightarrow> d \<in> keys ns" for d
    by (simp add: map_of_eq_None_iff)
  have "deps_exist ns \<longleftrightarrow> (\<forall>k n. map_of ns k = Some n \<longrightarrow> set (sn_deps n) \<subseteq> keys ns)"
    unfolding deps_exist_def dom list_all_iff
    by (auto simp: um_in_map_of [OF assms, symmetric])
  also have "\<dots> \<longleftrightarrow> (\<forall>k. set (deps_of ns k) \<subseteq> keys ns)"
  proof (intro iffI allI impI)
    fix k
    assume "\<forall>k n. map_of ns k = Some n \<longrightarrow> set (sn_deps n) \<subseteq> keys ns"
    then show "set (deps_of ns k) \<subseteq> keys ns" by (cases "map_of ns k") (simp_all add: deps_of_def)
  next
    fix k n
    assume *: "\<forall>k. set (deps_of ns k) \<subseteq> keys ns" "map_of ns k = Some n"
    show "set (sn_deps n) \<subseteq> keys ns" using spec [OF *(1), of k] *(2) by (simp add: deps_of_def)
  qed
  finally show ?thesis .
qed

lemma fold_count: "fold (\<lambda>d indeg. indeg(k := indeg k + 1)) ds f = f(k := f k + int (length ds))"
  by (induction ds arbitrary: f) auto

lemma indegrees_eq:
  assumes "um_wf ns"
  shows "indegrees ns k = int (length (deps_of ns k))"
proof -
  have "um_wf ns \<Longrightarrow> fold (\<lambda>(k, n). fold (\<lambda>d indeg. indeg(k := indeg k + 1)) (sn_deps n)) ns f k
      = f k + int (length (deps_of ns k))" for f
  proof (induction ns arbitrary: f)
    case Nil
    then show ?case by (simp add: deps_of_def)
  next
    case (Cons kn ns)
    obtain k' n where kn: "kn = (k', n)" by force
    have wf: "um_wf ns" and new: "map_of ns k' = None"
      using Cons.prems by (auto simp: um_wf_def kn map_of_eq_None_iff)
    have none: "deps_of ns k' = []" using new by (simp add: deps_of_def)
    have step: "fold (\<lambda>(k, n). fold (\<lambda>d indeg. indeg(k := indeg k + 1)) (sn_deps n)) (kn # ns) f
        = fold (\<lambda>(k, n). fold (\<lambda>d indeg. indeg(k := indeg k + 1)) (sn_deps n)) ns
            (f(k' := f k' + int (length (sn_deps n))))"
      by (simp only: kn fold_simps prod.case fold_count)
    show ?case
      unfolding step Cons.IH [OF wf] by (simp add: none kn deps_of_Cons)
  qed
  from this [OF assms] show ?thesis by (simp add: indegrees_def)
qed

subsection \<open>Kahn's loop\<close>

lemma relax_spec:
  assumes "um_wf ks" and "relax k ks indeg q = (indeg', q')"
  shows "indeg' = (\<lambda>x. if k \<in> set (deps_of ks x) then indeg x - 1 else indeg x)"
    and "q' = q @ filter (\<lambda>x. k \<in> set (deps_of ks x) \<and> indeg x = 1) (map fst ks)"
proof -
  have "um_wf ks \<Longrightarrow> relax k ks indeg q = (indeg', q') \<Longrightarrow>
      indeg' = (\<lambda>x. if k \<in> set (deps_of ks x) then indeg x - 1 else indeg x)
      \<and> q' = q @ filter (\<lambda>x. k \<in> set (deps_of ks x) \<and> indeg x = 1) (map fst ks)"
  proof (induction k ks indeg q rule: relax.induct)
    case (1 k indeg q)
    then show ?case by (simp add: deps_of_def)
  next
    case (2 k k2 n ks indeg q)
    have wf: "um_wf ks" and new: "k2 \<notin> keys ks"
      using "2.prems"(1) by (auto simp: um_wf_def)
    then have none: "deps_of ks k2 = []" by (simp add: deps_of_def map_of_eq_None_iff [symmetric])
    show ?case
    proof (cases "k \<in> set (sn_deps n)")
      case True
      have r: "relax k ks (indeg(k2 := indeg k2 - 1)) (if indeg k2 - 1 = 0 then q @ [k2] else q) = (indeg', q')"
        using "2.prems"(2) True by (simp add: Let_def)
      show ?thesis
        using "2.IH"(1) [OF True refl wf r] True none new
        by (auto simp: deps_of_Cons fun_eq_iff intro!: filter_cong)
    next
      case False
      then show ?thesis
        using "2.IH"(2) [OF False wf] "2.prems"(2) none new
        by (auto simp: deps_of_Cons fun_eq_iff intro!: filter_cong)
    qed
  qed
  with assms show "indeg' = (\<lambda>x. if k \<in> set (deps_of ks x) then indeg x - 1 else indeg x)"
    "q' = q @ filter (\<lambda>x. k \<in> set (deps_of ks x) \<and> indeg x = 1) (map fst ks)" by auto
qed

text \<open>\<open>vs\<close> is the list of popped stages: each has all its dependencies before it.\<close>

definition topo :: "(string, stage_node) umap \<Rightarrow> string list \<Rightarrow> bool" where
  "topo ns vs = (\<forall>xs k ys. vs = xs @ k # ys \<longrightarrow> set (deps_of ns k) \<subseteq> set xs)"

definition kinv :: "(string, stage_node) umap \<Rightarrow> (string \<Rightarrow> int) \<Rightarrow> string list \<Rightarrow> string list \<Rightarrow> bool" where
  "kinv ns indeg q vs =
     ((\<forall>k. indeg k = int (length (deps_of ns k)) - int (card (set (deps_of ns k) \<inter> set vs)))
      \<and> distinct (vs @ q) \<and> set (vs @ q) = {k \<in> keys ns. indeg k = 0} \<and> topo ns vs)"

lemma kinvD:
  assumes "kinv ns indeg q vs"
  shows "indeg x = int (length (deps_of ns x)) - int (card (set (deps_of ns x) \<inter> set vs))"
    and "distinct (vs @ q)" and "set (vs @ q) = {k \<in> keys ns. indeg k = 0}" and "topo ns vs"
  using assms unfolding kinv_def by blast+

lemma topo_snoc: "topo ns vs \<Longrightarrow> set (deps_of ns k) \<subseteq> set vs \<Longrightarrow> topo ns (vs @ [k])"
  by (auto simp: topo_def append_eq_append_conv2 Cons_eq_append_conv append_eq_Cons_conv)

lemma zero_met:
  assumes "int (length ds) - int (card (set ds \<inter> V)) = 0"
  shows "distinct ds \<and> set ds \<subseteq> V"
proof -
  have "card (set ds \<inter> V) \<le> card (set ds)" by (rule card_mono) auto
  moreover have "card (set ds) \<le> length ds" by (rule card_length)
  ultimately have eq: "card (set ds \<inter> V) = card (set ds)" "card (set ds) = length ds"
    using assms by linarith+
  have "set ds \<inter> V = set ds" by (rule card_subset_eq) (use eq in auto)
  then show ?thesis using eq(2) by (auto simp: card_distinct)
qed

lemma kinv_start:
  assumes "um_wf ns"
  shows "kinv ns (indegrees ns) (kahn_start ns (indegrees ns)) []"
  using assms by (auto simp: kinv_def indegrees_eq kahn_start_def um_wf_def topo_def)

lemma kinv_pop:
  assumes wf: "um_wf ns" and inv: "kinv ns indeg (k # q) vs" and r: "relax k ns indeg q = (indeg', q')"
  shows "kinv ns indeg' q' (vs @ [k])"
proof -
  note i' = relax_spec(1) [OF wf r] and q' = relax_spec(2) [OF wf r]
  have ind: "\<And>x. indeg x = int (length (deps_of ns x)) - int (card (set (deps_of ns x) \<inter> set vs))"
    and dist: "distinct (vs @ k # q)" and zero: "set (vs @ k # q) = {x \<in> keys ns. indeg x = 0}"
    and top: "topo ns vs"
    by (rule kinvD [OF inv])+
  have met: "set (deps_of ns x) \<subseteq> set vs" if "indeg x = 0" for x
    using zero_met [of "deps_of ns x" "set vs"] that ind [of x] by simp
  have k: "indeg k = 0" "k \<in> keys ns" "k \<notin> set vs" using zero dist by auto
  have one: "indeg x \<noteq> 0" if "k \<in> set (deps_of ns x)" for x
    using met k(3) that by blast
  have "card (set (deps_of ns x) \<inter> set (vs @ [k]))
      = card (set (deps_of ns x) \<inter> set vs) + (if k \<in> set (deps_of ns x) then 1 else 0)" for x
  proof (cases "k \<in> set (deps_of ns x)")
    case True
    then have "set (deps_of ns x) \<inter> set (vs @ [k]) = insert k (set (deps_of ns x) \<inter> set vs)" by auto
    then show ?thesis using True k(3) by simp
  qed simp
  then have ind': "indeg' x = int (length (deps_of ns x)) - int (card (set (deps_of ns x) \<inter> set (vs @ [k])))" for x
    using ind [of x] by (simp add: i')
  have "set (vs @ [k] @ q') = {x \<in> keys ns. indeg' x = 0}"
    using zero one deps_of_keys by (auto simp: q' i')
  moreover have "distinct (vs @ [k] @ q')"
    using dist one zero wf by (auto simp: q' um_wf_def)
  ultimately show ?thesis
    using ind' topo_snoc [OF top met [OF k(1)]] by (simp add: kinv_def)
qed

lemma kahn_loop_result:
  "um_wf ns \<Longrightarrow> kinv ns indeg q vs \<Longrightarrow> visited = length vs \<Longrightarrow>
    \<exists>indeg' vs'. kahn_loop ns indeg q visited = length vs' \<and> kinv ns indeg' [] vs'"
proof (induction ns indeg q visited arbitrary: vs rule: kahn_loop.induct)
  case (1 ns indeg visited)
  then show ?case by auto
next
  case (2 ns indeg k q visited)
  obtain indeg' q' where r: "relax k ns indeg q = (indeg', q')" by force
  have i: "kinv ns indeg' q' (vs @ [k])" by (rule kinv_pop [OF "2.prems"(1,2) r])
  show ?case
    using "2.IH" [OF r [symmetric] refl "2.prems"(1) i] "2.prems"(3) by (simp add: r)
qed

lemma takeWhile_before:
  "d \<in> set (takeWhile (\<lambda>x. x \<noteq> k) vs) \<Longrightarrow>
    length (takeWhile (\<lambda>x. x \<noteq> d) vs) < length (takeWhile (\<lambda>x. x \<noteq> k) vs)"
  by (induction vs) (auto split: if_splits)

lemma topo_acyclic:
  assumes "topo ns vs" and "set vs = keys ns"
  shows "acyclic (dep_rel ns)"
proof -
  let ?pos = "\<lambda>k. length (takeWhile (\<lambda>x. x \<noteq> k) vs)"
  have "dep_rel ns \<subseteq> measure ?pos"
  proof (clarsimp simp: dep_rel_def)
    fix d k assume d: "d \<in> set (deps_of ns k)"
    then have "k \<in> set vs" using deps_of_keys assms(2) by blast
    then have "dropWhile (\<lambda>x. x \<noteq> k) vs \<noteq> []" by (auto simp: dropWhile_eq_Nil_conv)
    then obtain y ys where y: "dropWhile (\<lambda>x. x \<noteq> k) vs = y # ys" by (cases "dropWhile (\<lambda>x. x \<noteq> k) vs") auto
    then have "y = k" using hd_dropWhile [of "\<lambda>x. x \<noteq> k" vs] by simp
    with y have "vs = takeWhile (\<lambda>x. x \<noteq> k) vs @ k # ys" using takeWhile_dropWhile_id by metis
    then have "d \<in> set (takeWhile (\<lambda>x. x \<noteq> k) vs)" using assms(1) d unfolding topo_def by blast
    then show "?pos d < ?pos k" by (rule takeWhile_before)
  qed
  then have "wf (dep_rel ns)" by (rule wf_subset [OF wf_measure])
  then show ?thesis by (rule wf_acyclic)
qed

lemma dep_rel_wf:
  assumes "um_wf ns" and "deps_exist ns" and "acyclic (dep_rel ns)"
  shows "wf (dep_rel ns)"
proof (rule finite_acyclic_wf [OF _ assms(3)])
  have "dep_rel ns \<subseteq> keys ns \<times> keys ns"
    using assms(2) deps_of_keys by (fastforce simp: dep_rel_def deps_exist_iff [OF assms(1)])
  then show "finite (dep_rel ns)" by (rule finite_subset) auto
qed

text \<open>Kahn's loop at its end: when it has visited every node, each dependency was met once; when
  the dependencies are distinct and acyclic, it visits every node.\<close>

lemma kinv_visited_all:
  assumes inv: "kinv ns indeg [] vs" and vs: "set vs = keys ns"
  shows "distinct (deps_of ns k)"
proof (cases "k \<in> keys ns")
  case True
  then have "indeg k = 0" using vs kinvD(3) [OF inv] by auto
  then show ?thesis using zero_met [of "deps_of ns k" "set vs"] kinvD(1) [OF inv, of k] by simp
next
  case False
  then have "deps_of ns k = []" using deps_of_keys [of _ ns k] by (cases "deps_of ns k") auto
  then show ?thesis by simp
qed

lemma kinv_acyclic_visits:
  assumes wf: "um_wf ns" and ex: "deps_exist ns" and inv: "kinv ns indeg [] vs"
    and dist: "\<And>k. distinct (deps_of ns k)" and ac: "acyclic (dep_rel ns)"
  shows "k \<in> keys ns \<longrightarrow> k \<in> set vs"
proof (induction k rule: wf_induct_rule [OF dep_rel_wf [OF wf ex ac]])
  case (1 k)
  have "set (deps_of ns k) \<subseteq> set vs"
    using 1 ex unfolding dep_rel_def deps_exist_iff [OF wf] by blast
  then have "set (deps_of ns k) \<inter> set vs = set (deps_of ns k)" by blast
  then have "indeg k = 0" using dist [of k] kinvD(1) [OF inv, of k] by (simp add: distinct_card)
  then show ?case using kinvD(3) [OF inv] by auto
qed

lemma kahn_count_all:
  assumes wf: "um_wf ns" and ex: "deps_exist ns"
  shows "kahn_count ns = length ns \<longleftrightarrow> (\<forall>k. distinct (deps_of ns k)) \<and> acyclic (dep_rel ns)"
proof -
  obtain indeg vs where r: "kahn_count ns = length vs" and inv: "kinv ns indeg [] vs"
    using kahn_loop_result [OF wf kinv_start [OF wf]] by (auto simp: kahn_count_def)
  have sub: "set vs \<subseteq> keys ns" using kinvD(3) [OF inv] by auto
  have "card (keys ns) = length ns"
    using wf distinct_card [of "map fst ns"] by (simp add: um_wf_def)
  moreover have "card (set vs) = length vs" using kinvD(2) [OF inv] by (simp add: distinct_card)
  ultimately have all: "length vs = length ns \<longleftrightarrow> set vs = keys ns"
    using card_subset_eq [OF _ sub] by auto
  show ?thesis
  proof
    assume "kahn_count ns = length ns"
    then have vs: "set vs = keys ns" using r all by simp
    show "(\<forall>k. distinct (deps_of ns k)) \<and> acyclic (dep_rel ns)"
      using kinv_visited_all [OF inv vs] topo_acyclic [OF kinvD(4) [OF inv] vs] by simp
  next
    assume "(\<forall>k. distinct (deps_of ns k)) \<and> acyclic (dep_rel ns)"
    then have "keys ns \<subseteq> set vs" using kinv_acyclic_visits [OF wf ex inv] by blast
    then show "kahn_count ns = length ns" using r all sub by auto
  qed
qed

subsection \<open>Well-formed graphs\<close>

text \<open>What \<^verbatim>\<open>validate\<close> establishes, stated without its algorithm.\<close>

definition dag :: "(string, stage_node) umap \<Rightarrow> bool" where
  "dag ns = ((\<forall>k. set (deps_of ns k) \<subseteq> keys ns) \<and> (\<forall>k. distinct (deps_of ns k)) \<and> acyclic (dep_rel ns))"

definition tg_inv :: "device_desc \<Rightarrow> task_graph \<Rightarrow> bool" where
  "tg_inv d g = (um_wf (tg_nodes g)
     \<and> (\<forall>k n. map_of (tg_nodes g) k = Some n \<longrightarrow> sc_name (sn_contract n) = k)
     \<and> (tg_validated g \<longrightarrow> dag (tg_nodes g) \<and> contracts_ok d (tg_nodes g)))"

lemma tg_inv_create: "tg_inv d tg_create"
  by (simp add: tg_inv_def tg_create_def)

lemma add_stage_inv: "tg_inv d g \<Longrightarrow> tg_inv d (snd (add_stage c g))"
  by (auto simp: tg_inv_def add_stage_def stage_node_new_def)

lemma validate_cases:
  assumes "um_wf (tg_nodes g)"
  shows "validate d g =
    (if \<not> dag (tg_nodes g) then (InvalidArgument, g)
     else if \<not> contracts_ok d (tg_nodes g) then (ContractViolation, g)
     else (Ok, g\<lparr>tg_validated := True\<rparr>))"
  using kahn_count_all [OF assms] deps_exist_iff [OF assms]
  by (auto simp: validate_def dag_def)

lemma validate_inv: "tg_inv d g \<Longrightarrow> tg_inv d (snd (validate d g))"
  by (auto simp: tg_inv_def validate_cases)

subsection \<open>One launch\<close>

lemma acquire_zero:
  assumes "mk_inv mk" and "acquire_stream k p mk = (h, mk')" and "sh_id h = 0"
  shows "mk' = mk"
  using assms(1,2) by (cases rule: acquire_cases) (use assms(3) in simp_all)

lemma tg_launch_cases:
  assumes inv: "mk_inv mk" and run: "tg_launch pf clk n env mk = (s, n', env', mk')"
  obtains (full) "s = OutOfMemory" "n' = n" "env' = env" "mk' = mk"
      "sh_id (fst (acquire_stream (stage_class (sn_contract n)) 0 mk)) = 0"
  | (failed) "s \<noteq> Ok" "mk' = mk" "sn_state n' = Failed" "sn_last_status n' = status_code s"
      "sn_contract n' = sn_contract n"
  | (completed) "s = Ok" "mk' = mk" "sn_state n' = Completed" "sn_last_status n' = sn_last_status n"
      "sn_contract n' = sn_contract n"
proof -
  obtain sh mk1 where a: "acquire_stream (stage_class (sn_contract n)) 0 mk = (sh, mk1)" by force
  have rel: "release_stream sh mk1 = mk" by (rule mkp.acquire_release [OF inv a])
  show ?thesis
  proof (cases "sh_id sh = 0")
    case True
    then show ?thesis
      using run a acquire_zero [OF inv a True] by (intro full) (simp_all add: tg_launch_def)
  next
    case False
    obtain s1 env1 where l: "mk_launch pf (sc_module (sn_contract n)) (sc_function (sn_contract n))
        (sc_grid (sn_contract n)) (sc_block (sn_contract n)) (sc_shared_mem_bytes (sn_contract n)) sh
        (sc_kernel_args (sn_contract n)) env mk1 = (s1, env1)" by force
    obtain s2 env2 where y: "mk_sync_stream pf sh env1 = (s2, env2)" by force
    show ?thesis
    proof (cases "s1 = Ok")
      case l_ok: True
      show ?thesis
      proof (cases "s2 = Ok")
        case True
        then show ?thesis
          using run a False l y l_ok rel by (intro completed) (auto simp: tg_launch_def Let_def)
      next
        case s2: False
        then show ?thesis
          using run a False l y l_ok rel by (intro failed) (auto simp: tg_launch_def Let_def)
      qed
    next
      case l_bad: False
      then show ?thesis
        using run a False l rel by (intro failed) (auto simp: tg_launch_def Let_def)
    qed
  qed
qed

subsection \<open>The executor\<close>

text \<open>What one launch may do to the table: the node goes from pending to completed or failed
  once all its dependencies are completed.\<close>

definition deps_done :: "(string, stage_node) umap \<Rightarrow> stage_node \<Rightarrow> bool" where
  "deps_done ns n = (\<forall>d \<in> set (sn_deps n). \<exists>m. map_of ns d = Some m \<and> sn_state m = Completed)"

lemma ready_iff: "ready_to_run ns n \<longleftrightarrow> sn_state n = Pending \<and> deps_done ns n"
  by (auto simp: ready_to_run_def deps_done_def list_all_iff split: option.splits)

inductive exec :: "(string, stage_node) umap \<Rightarrow> (string, stage_node) umap \<Rightarrow> bool" where
  stay: "exec ns ns"
| launch: "exec ns ns1 \<Longrightarrow> map_of ns1 k = Some n \<Longrightarrow> sn_state n = Pending \<Longrightarrow> deps_done ns1 n
    \<Longrightarrow> sn_state n' = Completed \<or> sn_state n' = Failed \<Longrightarrow> sn_contract n' = sn_contract n
    \<Longrightarrow> exec ns (AList.update k n' ns1)"

lemma exec_trans: "exec b c \<Longrightarrow> exec a b \<Longrightarrow> exec a c"
  by (induction rule: exec.induct) (auto intro: exec.launch)

lemma exec_contracts: "exec ns ns' \<Longrightarrow> map fst ns' = map fst ns
    \<and> (\<forall>k. map_option sn_contract (map_of ns' k) = map_option sn_contract (map_of ns k))"
proof (induction rule: exec.induct)
  case (launch ns ns1 k n n')
  have "k \<in> fst ` set ns1" using launch.hyps(2) by (metis domI dom_map_of_conv_image_fst)
  then have "map fst (AList.update k n' ns1) = map fst ns1" by (simp add: update_keys)
  moreover have "map_option sn_contract (map_of ns1 k) = map_option sn_contract (map_of ns k)"
    using launch.IH by blast
  ultimately show ?case using launch.IH launch.hyps(2,6) by simp
qed simp

lemma exec_settled: "exec ns ns' \<Longrightarrow> map_of ns k = Some n \<Longrightarrow> sn_state n \<noteq> Pending \<Longrightarrow> map_of ns' k = Some n"
  by (induction rule: exec.induct) auto

lemma exec_states: "exec ns ns' \<Longrightarrow> map_of ns k = Some n \<Longrightarrow> \<exists>n'. map_of ns' k = Some n'
    \<and> (n' = n \<or> sn_state n = Pending \<and> sn_state n' \<in> {Completed, Failed} \<and> sn_contract n' = sn_contract n)"
  by (induction rule: exec.induct) (auto split: if_splits)

text \<open>The order guarantee: a stage that has left the pending state has all its dependencies
  completed.\<close>

definition ordered :: "(string, stage_node) umap \<Rightarrow> bool" where
  "ordered ns = (\<forall>k n. map_of ns k = Some n \<longrightarrow> sn_state n \<noteq> Pending \<longrightarrow> deps_done ns n)"

lemma deps_done_mono:
  assumes "deps_done ns n" and "map_of ns k = Some m" and "sn_state m = Pending"
    and "sn_contract n' = sn_contract n"
  shows "deps_done (AList.update k m' ns) n'"
  using assms by (fastforce simp: deps_done_def)

lemma exec_ordered: "exec ns ns' \<Longrightarrow> ordered ns \<Longrightarrow> ordered ns'"
proof (induction rule: exec.induct)
  case (launch ns ns1 k n n')
  then have o: "ordered ns1" by simp
  show ?case
    unfolding ordered_def
  proof (intro allI impI)
    fix x m assume m: "map_of (AList.update k n' ns1) x = Some m" "sn_state m \<noteq> Pending"
    show "deps_done (AList.update k n' ns1) m"
    proof (cases "x = k")
      case True
      then have "m = n'" using m(1) by simp
      then show ?thesis
        using deps_done_mono [OF launch.hyps(4,2,3), of n' n'] launch.hyps(6) by simp
    next
      case False
      then have "map_of ns1 x = Some m" using m(1) by simp
      then have "deps_done ns1 m" using o m(2) by (auto simp: ordered_def)
      then show ?thesis by (rule deps_done_mono [OF _ launch.hyps(2,3)]) simp
    qed
  qed
qed simp

text \<open>Why a run that stopped did so.\<close>

definition stopped_at :: "microkernel \<Rightarrow> status \<Rightarrow> (string, stage_node) umap \<Rightarrow> (string, stage_node) umap \<Rightarrow> bool" where
  "stopped_at mk s ns0 ns = ((\<exists>k m n. map_of ns0 k = Some m \<and> sn_state m = Pending
          \<and> map_of ns k = Some n \<and> sn_state n = Failed \<and> sn_last_status n = status_code s)
     \<or> s = OutOfMemory \<and> (\<exists>k n. map_of ns k = Some n \<and> ready_to_run ns n
          \<and> sh_id (fst (acquire_stream (stage_class (sn_contract n)) 0 mk)) = 0))"

lemma exec_pending: "exec ns ns' \<Longrightarrow> map_of ns' k = Some n \<Longrightarrow> sn_state n = Pending \<Longrightarrow> map_of ns k = Some n"
  by (induction rule: exec.induct) (auto split: if_splits)

lemma stopped_earlier: "exec ns ns1 \<Longrightarrow> stopped_at mk s ns1 ns' \<Longrightarrow> stopped_at mk s ns ns'"
  unfolding stopped_at_def using exec_pending by blast

definition new_failures :: "(string, stage_node) umap \<Rightarrow> (string, stage_node) umap \<Rightarrow> bool" where
  "new_failures ns ns' = (\<exists>k n. map_of ns' k = Some n \<and> sn_state n = Failed \<and> map_of ns k \<noteq> Some n)"

lemma exec_one: "map_of ns k = Some n \<Longrightarrow> ready_to_run ns n \<Longrightarrow> sn_state n' \<in> {Completed, Failed} \<Longrightarrow>
    sn_contract n' = sn_contract n \<Longrightarrow> exec ns (AList.update k n' ns)"
  by (rule exec.launch [OF exec.stay]) (auto simp: ready_iff)

lemma update_same: "map_of ns k = Some n \<Longrightarrow> AList.update k n ns = ns"
  by (induction ns) (auto split: if_splits)

lemma new_failures_update:
  "sn_state n1 \<noteq> Failed \<Longrightarrow> new_failures ns ns' \<Longrightarrow> new_failures (AList.update k n1 ns) ns'"
  unfolding new_failures_def by (metis fun_upd_apply map_of_update option.inject)

lemma launch_exec:
  assumes inv: "mk_inv mk" and n: "map_of ns k = Some n" "ready_to_run ns n"
    and l: "tg_launch pf clk n env mk = (s, n1, env1, mk1)"
  shows "mk1 = mk \<and> exec ns (AList.update k n1 ns) \<and> (s \<noteq> Ok \<longrightarrow> stopped_at mk s ns (AList.update k n1 ns))
    \<and> (s = Ok \<longrightarrow> sn_state n1 = Completed)"
proof (rule tg_launch_cases [OF inv l])
  assume f: "s = OutOfMemory" "n1 = n" "mk1 = mk" "sh_id (fst (acquire_stream (stage_class (sn_contract n)) 0 mk)) = 0"
  then have "stopped_at mk s ns ns" using n by (auto simp: stopped_at_def)
  then show ?thesis using f by (simp add: update_same [OF n(1)] exec.stay)
next
  assume f: "s \<noteq> Ok" "mk1 = mk" "sn_state n1 = Failed" "sn_last_status n1 = status_code s" "sn_contract n1 = sn_contract n"
  then show ?thesis using exec_one [OF n, of n1] n by (auto simp: stopped_at_def ready_iff)
next
  assume "s = Ok" "mk1 = mk" "sn_state n1 = Completed" "sn_contract n1 = sn_contract n"
  then show ?thesis using exec_one [OF n, of n1] by simp
qed

lemma run_pass_exec:
  "mk_inv mk \<Longrightarrow> run_pass pf clk ks env mk ns p = (s, env', mk', ns', p') \<Longrightarrow>
    mk' = mk \<and> exec ns ns' \<and> (s = Ok \<longrightarrow> \<not> new_failures ns ns') \<and> (s \<noteq> Ok \<longrightarrow> stopped_at mk s ns ns')
    \<and> (s = Ok \<and> \<not> p' \<longrightarrow> \<not> p \<and> ns' = ns \<and> env' = env
         \<and> (\<forall>k n. k \<in> set ks \<and> map_of ns k = Some n \<longrightarrow> \<not> ready_to_run ns n))"
proof (induction pf clk ks env mk ns p rule: run_pass.induct)
  case (1 pf clk env mk ns p)
  then show ?case by (auto intro: exec.stay simp: new_failures_def)
next
  case (2 pf clk k ks env mk ns p)
  note inv = "2.prems"(1)
  show ?case
  proof (cases "\<exists>n. map_of ns k = Some n \<and> ready_to_run ns n")
    case False
    then have r: "run_pass pf clk ks env mk ns p = (s, env', mk', ns', p')"
      using "2.prems"(2) by (simp split: option.splits)
    from "2.IH"(1) [OF _ inv r] "2.IH"(2) [OF _ _ inv r] False show ?thesis
      by (cases "map_of ns k") auto
  next
    case True
    then obtain n where n: "map_of ns k = Some n" "ready_to_run ns n" by blast
    obtain s1 n1 env1 mk1 where l: "tg_launch pf clk n env mk = (s1, n1, env1, mk1)" using prod_cases4 by blast
    let ?ns = "AList.update k n1 ns"
    note e = launch_exec [OF inv n l]
    have run: "(if s1 \<noteq> Ok then (s1, env1, mk, ?ns, True) else run_pass pf clk ks env1 mk ?ns True)
        = (s, env', mk', ns', p')"
      using "2.prems"(2) n l e by (simp add: Let_def)
    show ?thesis
    proof (cases "s1 = Ok")
      case False
      then show ?thesis using run e by auto
    next
      case True
      then have r: "run_pass pf clk ks env1 mk ?ns True = (s, env', mk', ns', p')" using run by simp
      have "mk' = mk \<and> exec ?ns ns' \<and> (s = Ok \<longrightarrow> \<not> new_failures ?ns ns')
          \<and> (s \<noteq> Ok \<longrightarrow> stopped_at mk s ?ns ns') \<and> (s = Ok \<and> \<not> p' \<longrightarrow> \<not> True)"
        using "2.IH"(3) [OF n(1) _ l [symmetric] refl refl refl refl] True n inv e r by auto
      then show ?thesis using exec_trans [of ?ns ns' ns] stopped_earlier [of ns ?ns mk s ns'] e True
          new_failures_update [of n1 ns ns' k] by auto
    qed
  qed
qed

lemma run_loop_exec:
  "mk_inv mk \<Longrightarrow> run_loop pf clk env mk ns = (s, env', mk', ns') \<Longrightarrow>
    mk' = mk \<and> exec ns ns' \<and> (s \<noteq> Ok \<longrightarrow> stopped_at mk s ns ns')
    \<and> (s = Ok \<longrightarrow> \<not> new_failures ns ns' \<and> (\<forall>k n. map_of ns' k = Some n \<longrightarrow> \<not> ready_to_run ns' n))"
proof (induction pf clk env mk ns rule: run_loop.induct)
  case (1 pf clk env mk ns)
  obtain s1 env1 mk1 ns1 p1 where p: "run_pass pf clk (map fst ns) env mk ns False = (s1, env1, mk1, ns1, p1)"
    by (cases "run_pass pf clk (map fst ns) env mk ns False") auto
  note e = run_pass_exec [OF "1.prems"(1) p]
  show ?case
  proof (cases "s1 = Ok \<and> p1")
    case True
    then have r: "run_loop pf clk env1 mk ns1 = (s, env', mk', ns')"
      using "1.prems"(2) p e by (subst (asm) run_loop.simps) simp
    have ih: "mk' = mk \<and> exec ns1 ns' \<and> (s \<noteq> Ok \<longrightarrow> stopped_at mk s ns1 ns')
      \<and> (s = Ok \<longrightarrow> \<not> new_failures ns1 ns' \<and> (\<forall>k n. map_of ns' k = Some n \<longrightarrow> \<not> ready_to_run ns' n))"
      using "1.IH" [OF p [symmetric] refl refl refl refl] True e "1.prems"(1) r by simp
    have "\<not> new_failures ns ns'" if "\<not> new_failures ns1 ns'"
      using that e True unfolding new_failures_def by blast
    then show ?thesis using ih e exec_trans stopped_earlier [of ns ns1 mk s ns'] by blast
  next
    case False
    have "(s, env', mk', ns') = (s1, env1, mk1, ns1)"
      using "1.prems"(2) p False by (subst (asm) run_loop.simps) (auto split: if_splits)
    moreover have "k \<in> set (map fst ns)" if "map_of ns k = Some n" for k n
      using that by (metis domI dom_map_of_conv_image_fst list.set_map)
    ultimately show ?thesis using e False by (cases "s1 = Ok") (simp, blast, simp)
  qed
qed

lemma exec_dag:
  assumes "exec ns ns'" shows "dag ns' = dag ns"
proof -
  have "map fst ns' = map fst ns" using exec_contracts [OF assms] by blast
  then have k: "keys ns' = keys ns" by (metis list.set_map)
  have "deps_of ns' x = deps_of ns x" for x
  proof -
    have "map_option sn_contract (map_of ns' x) = map_option sn_contract (map_of ns x)"
      using exec_contracts [OF assms] by blast
    then show ?thesis by (cases "map_of ns' x"; cases "map_of ns x") (simp_all add: deps_of_def)
  qed
  then have d: "deps_of ns' = deps_of ns" by blast
  show ?thesis by (simp add: dag_def dep_rel_def d k)
qed

lemma exec_wf: "exec ns ns' \<Longrightarrow> um_wf ns' = um_wf ns"
  using exec_contracts by (simp add: um_wf_def)

lemma contracts_ok_iff:
  "um_wf ns \<Longrightarrow> contracts_ok d ns \<longleftrightarrow>
    (\<forall>k n. map_of ns k = Some n \<longrightarrow> \<not> sc_sm_footprint_mb (sn_contract n) > dd_smem_per_sm_bytes d div 1024)"
  by (auto simp: contracts_ok_def list_all_iff um_in_map_of [symmetric])

lemma exec_inv:
  assumes inv: "tg_inv d g" and e: "exec (tg_nodes g) ns'"
  shows "tg_inv d (g\<lparr>tg_nodes := ns'\<rparr>)"
proof -
  have c: "\<exists>m. map_of (tg_nodes g) k = Some m \<and> sn_contract n = sn_contract m" if "map_of ns' k = Some n" for k n
    using exec_contracts [OF e] that
    by (metis (no_types, lifting) map_option_eq_Some)
  have "um_wf (tg_nodes g)" using inv by (simp add: tg_inv_def)
  then show ?thesis
    using inv c exec_wf [OF e] exec_dag [OF e]
    by (fastforce simp: tg_inv_def contracts_ok_iff)
qed

subsection \<open>Whole runs\<close>

lemma tg_run_cases:
  assumes inv: "tg_inv (e_device env) g" and mk: "mk_inv mk" and run: "tg_run pf clk env mk g = (s, env', mk', g')"
  obtains (rejected) "s \<noteq> Ok" "\<not> tg_validated g" "s = fst (validate (e_device env) g)" "g' = g" "env' = env" "mk' = mk"
  | (ran) ns' where "dag (tg_nodes g)" "contracts_ok (e_device env) (tg_nodes g)" "mk' = mk"
      "g' = g\<lparr>tg_validated := True, tg_nodes := ns'\<rparr>" "exec (tg_nodes g) ns'"
      "s \<noteq> Ok \<longrightarrow> stopped_at mk s (tg_nodes g) ns'"
      "s = Ok \<longrightarrow> \<not> new_failures (tg_nodes g) ns' \<and> (\<forall>k n. map_of ns' k = Some n \<longrightarrow> \<not> ready_to_run ns' n)"
      "run_loop pf clk env mk (tg_nodes g) = (s, env', mk, ns')"
proof -
  have wf: "um_wf (tg_nodes g)" using inv by (simp add: tg_inv_def)
  note v = validate_cases [OF wf, of "e_device env"]
  show ?thesis
  proof (cases "\<not> tg_validated g \<and> (\<not> dag (tg_nodes g) \<or> \<not> contracts_ok (e_device env) (tg_nodes g))")
    case True
    then show ?thesis using run v by (intro rejected) (auto simp: tg_run_def split: if_splits)
  next
    case False
    then have ok: "dag (tg_nodes g)" "contracts_ok (e_device env) (tg_nodes g)"
      using inv by (auto simp: tg_inv_def)
    obtain s2 env2 mk2 ns2 where l: "run_loop pf clk env mk (tg_nodes g) = (s2, env2, mk2, ns2)"
      by (cases "run_loop pf clk env mk (tg_nodes g)") auto
    have e: "s = s2" "env' = env2" "mk' = mk2" "g' = g\<lparr>tg_validated := True, tg_nodes := ns2\<rparr>"
      using run v ok l by (auto simp: tg_run_def split: if_splits)
    show ?thesis
      using run_loop_exec [OF mk l] ok e l by (intro ran [of ns2]) auto
  qed
qed

lemma wait_list_ok: "wait_list g ks = Ok \<longleftrightarrow> (\<forall>k \<in> set ks. tg_wait g k = Ok)"
  by (induction ks) (auto simp: Let_def)

lemma wait_all_iff: "wait_all g = Ok \<longleftrightarrow> (\<forall>k n. map_of (tg_nodes g) k = Some n \<longrightarrow> sn_state n = Completed)"
proof -
  have k: "k \<in> set (map fst (tg_nodes g)) \<longleftrightarrow> (\<exists>n. map_of (tg_nodes g) k = Some n)" for k
    by (metis list.set_map map_of_eq_None_iff not_None_eq)
  have "tg_wait g k = Ok \<longleftrightarrow> sn_state n = Completed" if "map_of (tg_nodes g) k = Some n" for k n
    using that by (simp add: tg_wait_def)
  then show ?thesis unfolding wait_all_def wait_list_ok using k by (metis (no_types, lifting))
qed

text \<open>The stages a run cannot reach: those that are neither pending nor completed when it starts,
  and the pending ones that wait for such a stage, directly or not.\<close>

inductive blocked :: "(string, stage_node) umap \<Rightarrow> string \<Rightarrow> bool" for ns where
  stuck: "map_of ns k = Some n \<Longrightarrow> sn_state n \<notin> {Pending, Completed} \<Longrightarrow> blocked ns k"
| behind: "map_of ns k = Some n \<Longrightarrow> sn_state n = Pending \<Longrightarrow> d \<in> set (sn_deps n) \<Longrightarrow> blocked ns d \<Longrightarrow> blocked ns k"

lemma not_blocked: "(\<And>k n. map_of ns k = Some n \<Longrightarrow> sn_state n \<in> {Pending, Completed}) \<Longrightarrow> \<not> blocked ns k"
proof
  assume st: "\<And>k n. map_of ns k = Some n \<Longrightarrow> sn_state n \<in> {Pending, Completed}" and "blocked ns k"
  from this(2) show False by (induction rule: blocked.induct) (use st in auto)
qed

lemma blocked_not_completed: "blocked ns k \<Longrightarrow> \<exists>n. map_of ns k = Some n \<and> sn_state n \<noteq> Completed"
  by (induction rule: blocked.induct) auto

lemma exec_blocked: "exec ns ns' \<Longrightarrow> blocked ns k \<Longrightarrow> map_of ns' k = map_of ns k"
proof (induction arbitrary: k rule: exec.induct)
  case (launch ns ns1 j n n')
  have "k \<noteq> j"
  proof
    assume "k = j"
    then have m: "map_of ns j = Some n" "blocked ns j" using launch.IH launch.hyps(2) launch.prems by auto
    from m(2) show False
    proof (cases rule: blocked.cases)
      case (behind m d)
      then have "map_of ns1 d = map_of ns d" "d \<in> set (sn_deps n)" using launch.IH m(1) by auto
      then show False using launch.hyps(4) blocked_not_completed [OF behind(4)] by (auto simp: deps_done_def)
    qed (use m launch.hyps(3) in auto)
  qed
  then show ?case using launch.IH [OF launch.prems] by simp
qed simp

text \<open>All the others are completed when no more stage is ready and none has newly failed.\<close>

lemma unblocked_completed:
  assumes wf: "um_wf ns" and dag: "dag ns" and e: "exec ns ns'" and nf: "\<not> new_failures ns ns'"
    and idle: "\<And>k n. map_of ns' k = Some n \<Longrightarrow> \<not> ready_to_run ns' n"
  shows "map_of ns k = Some n \<Longrightarrow> sn_state n = Pending \<Longrightarrow> \<not> blocked ns k
    \<Longrightarrow> \<exists>n'. map_of ns' k = Some n' \<and> sn_contract n' = sn_contract n \<and> sn_state n' = Completed"
proof (induction k arbitrary: n rule: wf_induct_rule [OF dep_rel_wf [OF wf]])
  case 1
  show ?case using dag by (simp add: dag_def deps_exist_iff [OF wf])
next
  case 2
  show ?case using dag by (simp add: dag_def)
next
  case (3 k)
  obtain n' where n': "map_of ns' k = Some n'" "n' = n \<or> sn_state n' \<in> {Completed, Failed} \<and> sn_contract n' = sn_contract n"
    using exec_states [OF e "3.prems"(1)] by blast
  have "deps_done ns' n"
    unfolding deps_done_def
  proof
    fix d assume d: "d \<in> set (sn_deps n)"
    then have r: "(d, k) \<in> dep_rel ns" using "3.prems"(1) by (simp add: dep_rel_def deps_of_def)
    then have "d \<in> keys ns" using dag by (auto simp: dep_rel_def dag_def)
    then obtain m where m: "map_of ns d = Some m" by (metis map_of_eq_None_iff option.exhaust)
    have b: "\<not> blocked ns d" using blocked.behind [OF "3.prems"(1,2) d] "3.prems"(3) by blast
    show "\<exists>m. map_of ns' d = Some m \<and> sn_state m = Completed"
    proof (cases "sn_state m = Pending")
      case True
      then show ?thesis using "3.IH" [OF r m True b] by blast
    next
      case False
      then show ?thesis using b blocked.stuck [OF m] exec_settled [OF e m] by auto
    qed
  qed
  then have "n' \<noteq> n" using idle [OF n'(1)] "3.prems"(2) by (auto simp: ready_iff)
  moreover have "sn_state n' \<noteq> Failed" using nf n'(1) "3.prems"(1) calculation by (auto simp: new_failures_def)
  ultimately show ?case using n' by blast
qed

lemma launch_status_contract:
  "sn_contract m = sn_contract n \<Longrightarrow> fst (tg_launch pf clk m env mk) = fst (tg_launch pf clk n env mk)"
  by (simp add: tg_launch_def Let_def split: prod.split)

definition accepts :: "'p backend \<Rightarrow> (string \<Rightarrow> u64 \<times> u64) \<Rightarrow> microkernel \<Rightarrow> (string, stage_node) umap \<Rightarrow> bool" where
  "accepts pf clk mk ns = (\<forall>k n env. map_of ns k = Some n \<longrightarrow> fst (tg_launch pf clk n env mk) = Ok)"

lemma accepts_update:
  assumes "accepts pf clk mk ns" and "map_of ns k = Some n" and eq: "sn_contract n' = sn_contract n"
  shows "accepts pf clk mk (AList.update k n' ns)"
proof -
  have "fst (tg_launch pf clk n' env mk) = Ok" for env
    using assms(1,2) unfolding launch_status_contract [OF eq] accepts_def by blast
  then show ?thesis using assms(1) unfolding accepts_def by (auto split: if_splits)
qed

lemma exec_accepts: "exec ns ns' \<Longrightarrow> accepts pf clk mk ns \<Longrightarrow> accepts pf clk mk ns'"
  by (induction rule: exec.induct) (auto intro: accepts_update)

lemma run_pass_accepts:
  "mk_inv mk \<Longrightarrow> accepts pf clk mk ns \<Longrightarrow> run_pass pf clk ks env mk ns p = (s, env', mk', ns', p') \<Longrightarrow> s = Ok"
proof (induction pf clk ks env mk ns p rule: run_pass.induct)
  case (2 pf clk k ks env mk ns p)
  show ?case
  proof (cases "map_of ns k")
    case None
    then have "run_pass pf clk ks env mk ns p = (s, env', mk', ns', p')" using "2.prems"(3) by simp
    with None show ?thesis using 2 by blast
  next
    case (Some n)
    show ?thesis
    proof (cases "ready_to_run ns n")
      case False
      then have "run_pass pf clk ks env mk ns p = (s, env', mk', ns', p')" using "2.prems"(3) Some by simp
      with Some False show ?thesis using 2 by blast
    next
      case True
      obtain s1 n1 env1 mk1 where l: "tg_launch pf clk n env mk = (s1, n1, env1, mk1)"
        by (cases "tg_launch pf clk n env mk") auto
      let ?ns = "AList.update k n1 ns"
      have s1: "s1 = Ok" using "2.prems"(2) Some l unfolding accepts_def by (metis fst_conv)
      have f: "mk1 = mk \<and> sn_state n1 = Completed \<and> sn_contract n1 = sn_contract n"
        using tg_launch_cases [OF "2.prems"(1) l] s1 by blast
      then have acc: "accepts pf clk mk ?ns"
        using accepts_update [OF "2.prems"(2)] Some by blast
      have r: "run_pass pf clk ks env1 mk1 ?ns True = (s, env', mk', ns', p')"
        using "2.prems"(3) Some True l s1 by (simp add: Let_def)
      show ?thesis
        using "2.IH"(3) [OF Some _ l [symmetric] refl refl refl refl _ _ _ r] True s1 f acc "2.prems"(1) by simp
    qed
  qed
qed simp

lemma run_loop_accepts:
  "mk_inv mk \<Longrightarrow> accepts pf clk mk ns \<Longrightarrow> run_loop pf clk env mk ns = (s, env', mk', ns') \<Longrightarrow> s = Ok"
proof (induction pf clk env mk ns rule: run_loop.induct)
  case (1 pf clk env mk ns)
  obtain s1 env1 mk1 ns1 p1 where p: "run_pass pf clk (map fst ns) env mk ns False = (s1, env1, mk1, ns1, p1)"
    by (cases "run_pass pf clk (map fst ns) env mk ns False") auto
  have s1: "s1 = Ok" by (rule run_pass_accepts [OF "1.prems"(1,2) p])
  note e = run_pass_exec [OF "1.prems"(1) p]
  show ?case
  proof (cases p1)
    case True
    then have r: "run_loop pf clk env1 mk1 ns1 = (s, env', mk', ns')"
      using "1.prems"(3) p s1 by (subst (asm) run_loop.simps) simp
    show ?thesis
      using "1.IH" [OF p [symmetric] refl refl refl refl _ True _ _ r] s1 e "1.prems"(1)
        exec_accepts [of ns ns1 pf clk mk] "1.prems"(2) by simp
  next
    case False
    then show ?thesis using "1.prems"(3) p s1 by (subst (asm) run_loop.simps) simp
  qed
qed

subsection \<open>What the task graph promises\<close>

definition demo_stage :: "string \<Rightarrow> string list \<Rightarrow> stage_contract" where
  "demo_stage nm deps = stage_contract_default\<lparr>sc_name := nm, sc_module := ''m'', sc_function := ''main'',
     sc_depends_on := deps\<rparr>"

definition demo_graph :: task_graph where
  "demo_graph = tg_create\<lparr>tg_nodes :=
     [(''b'', stage_node_new (demo_stage ''b'' [''a''])), (''a'', stage_node_new (demo_stage ''a'' []))]\<rparr>"

definition loaded_mk :: microkernel where
  "loaded_mk = demo_mk\<lparr>mk_modules := [(''m'', \<lparr>km_id = 3, km_name = ''m'', km_raw_module = 0,
     km_functions = [(''main'', 1)]\<rparr>)]\<rparr>"

lemma loaded_mk_inv: "mk_inv loaded_mk"
  using demo_mk_inv by (simp add: loaded_mk_def pool_simps)

lemma demo_graph_inv: "tg_inv d demo_graph"
  by (auto simp: tg_inv_def demo_graph_def tg_create_def um_wf_def stage_node_new_def demo_stage_def
      split: if_splits)

lemma demo_dag: "dag (tg_nodes demo_graph)"
proof -
  have "kahn_count (tg_nodes demo_graph) = length (tg_nodes demo_graph)"
    by code_simp
  moreover have "deps_exist (tg_nodes demo_graph)" by code_simp
  ultimately show ?thesis
    using kahn_count_all [of "tg_nodes demo_graph"] deps_exist_iff [of "tg_nodes demo_graph"]
      demo_graph_inv [of "e_device sim_env"]
    by (simp add: dag_def tg_inv_def)
qed

text \<open>C1: Validation decides exactly what it is meant to decide.  It answers \<open>Ok\<close>, and marks the
  graph validated, if and only if every dependency names a stage, no stage lists a dependency
  twice, the dependency relation is acyclic and every footprint fits; \<open>ContractViolation\<close>
  when only a footprint does not fit, and \<open>InvalidArgument\<close> otherwise.\<close>

theorem validate_correct:
  assumes "tg_inv d g"
  shows "(fst (validate d g) = Ok \<longleftrightarrow>
        (\<forall>k. set (deps_of (tg_nodes g) k) \<subseteq> fst ` set (tg_nodes g)) \<and> (\<forall>k. distinct (deps_of (tg_nodes g) k))
        \<and> acyclic (dep_rel (tg_nodes g)) \<and> contracts_ok d (tg_nodes g))
    \<and> (fst (validate d g) = ContractViolation \<longleftrightarrow>
        (\<forall>k. set (deps_of (tg_nodes g) k) \<subseteq> fst ` set (tg_nodes g)) \<and> (\<forall>k. distinct (deps_of (tg_nodes g) k))
        \<and> acyclic (dep_rel (tg_nodes g)) \<and> \<not> contracts_ok d (tg_nodes g))
    \<and> fst (validate d g) \<in> {Ok, ContractViolation, InvalidArgument}
    \<and> snd (validate d g) = (if fst (validate d g) = Ok then g\<lparr>tg_validated := True\<rparr> else g)"
  using validate_cases [of g d] assms by (simp add: tg_inv_def dag_def)

theorem validate_correct_witness:
  "fst (validate (e_device sim_env) demo_graph) = Ok
    \<and> fst (validate device_desc_default (demo_graph\<lparr>tg_nodes := [(''a'', stage_node_new (demo_stage ''a'' [''a'']))]\<rparr>))
        \<notin> {Ok, ContractViolation}"
proof -
  let ?g = "demo_graph\<lparr>tg_nodes := [(''a'', stage_node_new (demo_stage ''a'' [''a'']))]\<rparr>"
  have "contracts_ok (e_device sim_env) (tg_nodes demo_graph)" by code_simp
  then have 1: "fst (validate (e_device sim_env) demo_graph) = Ok"
    using validate_correct [OF demo_graph_inv, of "e_device sim_env"] demo_dag by (simp add: dag_def)
  have inv: "tg_inv device_desc_default ?g"
    by (auto simp: tg_inv_def demo_graph_def tg_create_def um_wf_def stage_node_new_def demo_stage_def)
  have "(''a'', ''a'') \<in> dep_rel (tg_nodes ?g)"
    by (simp add: dep_rel_def deps_of_def stage_node_new_def demo_stage_def)
  then have "\<not> acyclic (dep_rel (tg_nodes ?g))" by (auto simp: acyclic_def)
  then show ?thesis using 1 validate_correct [OF inv] by simp
qed

lemma tg_run_safe:
  assumes "tg_inv (e_device env) g" and "mk_inv mk" and "ordered (tg_nodes g)"
    and "tg_run pf clk env mk g = (s, env', mk', g')"
  shows "mk' = mk \<and> tg_inv (e_device env) g' \<and> ordered (tg_nodes g') \<and> stage_names g' = stage_names g
    \<and> (\<forall>k. map_option sn_contract (tg_find g' k) = map_option sn_contract (tg_find g k))
    \<and> (\<forall>k n. tg_find g k = Some n \<longrightarrow> sn_state n \<noteq> Pending \<longrightarrow> tg_find g' k = Some n)"
proof (cases rule: tg_run_cases [OF assms(1,2,4)])
  case 1
  then show ?thesis using assms by simp
next
  case (2 ns')
  have "tg_inv (e_device env) (g\<lparr>tg_validated := True\<rparr>)" using 2 assms(1) by (simp add: tg_inv_def)
  then have "tg_inv (e_device env) g'"
    using exec_inv [of "e_device env" "g\<lparr>tg_validated := True\<rparr>" ns'] 2 by simp
  then show ?thesis
    using 2 exec_ordered [OF 2(5) assms(3)] exec_contracts [OF 2(5)] exec_settled [OF 2(5)]
    by (simp add: stage_names_def tg_find_def)
qed

text \<open>C9: Whatever the driver answers, running a graph returns with the stream pool exactly as it
  was, the graph well-formed with the same stages and contracts, and the order respected: any
  stage that is no longer pending has every dependency completed.  A stage that had already
  completed or failed is not touched.\<close>

theorem run_sound:
  assumes "tg_inv (e_device env) g" and "mk_inv mk" and "ordered (tg_nodes g)"
    and "tg_run pf clk env mk g = (s, env', mk', g')"
  shows "mk' = mk \<and> tg_inv (e_device env) g' \<and> ordered (tg_nodes g') \<and> stage_names g' = stage_names g
    \<and> (\<forall>k. map_option sn_contract (tg_find g' k) = map_option sn_contract (tg_find g k))
    \<and> (\<forall>k n. tg_find g k = Some n \<longrightarrow> sn_state n \<noteq> Pending \<longrightarrow> tg_find g' k = Some n)"
  using assms by (rule tg_run_safe)

lemma demo_ordered: "ordered (tg_nodes demo_graph)"
  by (auto simp: ordered_def demo_graph_def stage_node_new_def split: if_splits)

theorem run_sound_witness:
  "\<exists>s env' g'. tg_run sim_backend (\<lambda>_. (1, 2)) sim_env loaded_mk demo_graph = (s, env', loaded_mk, g')
    \<and> ordered (tg_nodes g') \<and> stage_names g' = [''b'', ''a'']"
proof -
  obtain s env' mk' g' where r: "tg_run sim_backend (\<lambda>_. (1, 2)) sim_env loaded_mk demo_graph = (s, env', mk', g')"
    by (cases "tg_run sim_backend (\<lambda>_. (1, 2)) sim_env loaded_mk demo_graph") auto
  show ?thesis
    using r run_sound [OF demo_graph_inv loaded_mk_inv demo_ordered r]
    by (auto simp: stage_names_def demo_graph_def)
qed

lemma run_ok_stages:
  assumes wf: "um_wf ns" and dag: "dag ns" and e: "exec ns ns'" and nf: "\<not> new_failures ns ns'"
    and idle: "\<forall>k n. map_of ns' k = Some n \<longrightarrow> \<not> ready_to_run ns' n" and n: "map_of ns k = Some n"
  shows "if sn_state n = Pending \<and> \<not> blocked ns k
    then \<exists>n'. map_of ns' k = Some n' \<and> sn_contract n' = sn_contract n \<and> sn_state n' = Completed
    else map_of ns' k = Some n"
  using unblocked_completed [OF wf dag e nf _ n] idle exec_settled [OF e n] exec_blocked [OF e] n by auto

lemma tg_run_ends:
  assumes inv: "tg_inv (e_device env) g" and mk: "mk_inv mk"
    and run: "tg_run pf clk env mk g = (s, env', mk', g')"
  shows "if s = Ok then
      (\<forall>k n. tg_find g k = Some n \<longrightarrow> (if sn_state n = Pending \<and> \<not> blocked (tg_nodes g) k
          then \<exists>n'. tg_find g' k = Some n' \<and> sn_contract n' = sn_contract n \<and> sn_state n' = Completed
          else tg_find g' k = Some n))
      \<and> (wait_all g' = Ok \<longleftrightarrow> (\<forall>k n. tg_find g k = Some n \<longrightarrow> sn_state n \<in> {Pending, Completed}))
    else s = fst (validate (e_device env) g) \<and> g' = g \<and> env' = env
      \<or> (\<exists>k m n. tg_find g k = Some m \<and> sn_state m = Pending \<and> tg_find g' k = Some n
           \<and> sn_state n = Failed \<and> sn_last_status n = status_code s)
      \<or> s = OutOfMemory \<and> (\<exists>k n. tg_find g' k = Some n \<and> ready_to_run (tg_nodes g') n
           \<and> sh_id (fst (acquire_stream (stage_class (sn_contract n)) 0 mk)) = 0)"
proof (cases rule: tg_run_cases [OF inv mk run])
  case 1
  then show ?thesis by simp
next
  case (2 ns')
  show ?thesis
  proof (cases "s = Ok")
    case False
    then show ?thesis using 2 by (auto simp: stopped_at_def tg_find_def)
  next
    case True
    have wf: "um_wf (tg_nodes g)" using inv by (simp add: tg_inv_def)
    have nf: "\<not> new_failures (tg_nodes g) ns'" and idle: "\<forall>k n. map_of ns' k = Some n \<longrightarrow> \<not> ready_to_run ns' n"
      using 2(7) True by blast+
    note st = run_ok_stages [OF wf 2(1,5) nf idle]
    have "wait_all g' = Ok \<longleftrightarrow> (\<forall>k n. map_of (tg_nodes g) k = Some n \<longrightarrow> sn_state n \<in> {Pending, Completed})"
    proof
      assume "wait_all g' = Ok"
      then have c: "\<And>k n. map_of ns' k = Some n \<Longrightarrow> sn_state n = Completed" using 2(4) by (simp add: wait_all_iff)
      show "\<forall>k n. map_of (tg_nodes g) k = Some n \<longrightarrow> sn_state n \<in> {Pending, Completed}"
        using exec_settled [OF 2(5)] c by blast
    next
      assume p: "\<forall>k n. map_of (tg_nodes g) k = Some n \<longrightarrow> sn_state n \<in> {Pending, Completed}"
      have "sn_state n' = Completed" if n': "map_of ns' k = Some n'" for k n'
      proof -
        obtain n where n: "map_of (tg_nodes g) k = Some n"
          using n' exec_contracts [OF 2(5)] by (metis map_option_is_None option.exhaust)
        have "\<not> blocked (tg_nodes g) k" using p not_blocked by blast
        then show ?thesis using st [OF n] p n n' by (auto split: if_splits)
      qed
      then show "wait_all g' = Ok" using 2(4) by (simp add: wait_all_iff)
    qed
    then show ?thesis using True 2(4) st by (simp add: tg_find_def)
  qed
qed

text \<open>C5: A run of any well-formed graph ends in one of four ways.  On \<open>Ok\<close> it has completed
  exactly the pending stages that do not wait, directly or not, for a stage that failed before,
  and touched no other; so \<^verbatim>\<open>wait_all\<close> then reports \<open>Ok\<close> if and only if nothing had
  failed before.  Otherwise validation rejected the graph and nothing ran, or the run stopped at
  the first stage that could not run: a stage that was pending, is now failed and records the
  returned status, or a ready stage for whose class the pool has no stream
  (\<open>OutOfMemory\<close>).\<close>

theorem run_outcome:
  assumes inv: "tg_inv (e_device env) g" and mk: "mk_inv mk"
    and run: "tg_run pf clk env mk g = (s, env', mk', g')"
  shows "if s = Ok then
      (\<forall>k n. tg_find g k = Some n \<longrightarrow> (if sn_state n = Pending \<and> \<not> blocked (tg_nodes g) k
          then \<exists>n'. tg_find g' k = Some n' \<and> sn_contract n' = sn_contract n \<and> sn_state n' = Completed
          else tg_find g' k = Some n))
      \<and> (wait_all g' = Ok \<longleftrightarrow> (\<forall>k n. tg_find g k = Some n \<longrightarrow> sn_state n \<in> {Pending, Completed}))
    else s = fst (validate (e_device env) g) \<and> g' = g \<and> env' = env
      \<or> (\<exists>k m n. tg_find g k = Some m \<and> sn_state m = Pending \<and> tg_find g' k = Some n
           \<and> sn_state n = Failed \<and> sn_last_status n = status_code s)
      \<or> s = OutOfMemory \<and> (\<exists>k n. tg_find g' k = Some n \<and> ready_to_run (tg_nodes g') n
           \<and> sh_id (fst (acquire_stream (stage_class (sn_contract n)) 0 mk)) = 0)"
  using assms by (rule tg_run_ends)

theorem run_outcome_witness:
  "\<exists>env' mk' g'. tg_run sim_backend (\<lambda>_. (1, 2)) sim_env loaded_mk demo_graph = (Ok, env', mk', g') \<and> wait_all g' = Ok"
proof -
  obtain s env' mk' g' where r: "tg_run sim_backend (\<lambda>_. (1, 2)) sim_env loaded_mk demo_graph = (s, env', mk', g')"
    by (cases "tg_run sim_backend (\<lambda>_. (1, 2)) sim_env loaded_mk demo_graph") auto
  have "fst (tg_run sim_backend (\<lambda>_. (1, 2)) sim_env loaded_mk demo_graph) = Ok" by code_simp
  then have s: "s = Ok" using r by simp
  have "\<forall>k n. tg_find demo_graph k = Some n \<longrightarrow> sn_state n \<in> {Pending, Completed}"
    by (auto simp: tg_find_def demo_graph_def stage_node_new_def split: if_splits)
  then show ?thesis using r s run_outcome [OF demo_graph_inv loaded_mk_inv r] by simp
qed

text \<open>A stage that a run changes is left as one launch of it left it.\<close>

definition launched :: "'p backend \<Rightarrow> (string \<Rightarrow> u64 \<times> u64) \<Rightarrow> microkernel \<Rightarrow> (string, stage_node) umap
    \<Rightarrow> (string, stage_node) umap \<Rightarrow> bool" where
  "launched pf clk mk ns ns' = (\<forall>k n'. map_of ns' k = Some n' \<longrightarrow> map_of ns k = Some n'
     \<or> (\<exists>n e. map_of ns k = Some n \<and> sn_state n = Pending \<and> n' = fst (snd (tg_launch pf clk n e mk))))"

lemma launched_trans: "launched pf clk mk ns ns1 \<Longrightarrow> exec ns ns1 \<Longrightarrow> launched pf clk mk ns1 ns2 \<Longrightarrow> launched pf clk mk ns ns2"
  unfolding launched_def using exec_pending by blast

lemma run_pass_launched:
  "mk_inv mk \<Longrightarrow> run_pass pf clk ks env mk ns p = (s, env', mk', ns', p') \<Longrightarrow> launched pf clk mk ns ns'"
proof (induction pf clk ks env mk ns p rule: run_pass.induct)
  case (1 pf clk env mk ns p)
  then show ?case by (simp add: launched_def)
next
  case (2 pf clk k ks env mk ns p)
  note inv = "2.prems"(1)
  show ?case
  proof (cases "\<exists>n. map_of ns k = Some n \<and> ready_to_run ns n")
    case False
    then have r: "run_pass pf clk ks env mk ns p = (s, env', mk', ns', p')"
      using "2.prems"(2) by (simp split: option.splits)
    from "2.IH"(1) [OF _ inv r] "2.IH"(2) [OF _ _ inv r] False show ?thesis
      by (cases "map_of ns k") auto
  next
    case True
    then obtain n where n: "map_of ns k = Some n" "ready_to_run ns n" by blast
    obtain s1 n1 env1 mk1 where l: "tg_launch pf clk n env mk = (s1, n1, env1, mk1)" using prod_cases4 by blast
    let ?ns = "AList.update k n1 ns"
    note e = launch_exec [OF inv n l]
    have one: "launched pf clk mk ns ?ns"
      unfolding launched_def using n l by (auto simp: ready_iff intro!: exI [of _ env])
    have run: "(if s1 \<noteq> Ok then (s1, env1, mk, ?ns, True) else run_pass pf clk ks env1 mk ?ns True)
        = (s, env', mk', ns', p')"
      using "2.prems"(2) n l e by (simp add: Let_def)
    show ?thesis
    proof (cases "s1 = Ok")
      case False
      then show ?thesis using run one by auto
    next
      case True
      then have r: "run_pass pf clk ks env1 mk ?ns True = (s, env', mk', ns', p')" using run by simp
      have "launched pf clk mk ?ns ns'"
        using "2.IH"(3) [OF n(1) _ l [symmetric] refl refl refl refl] True n inv e r by auto
      then show ?thesis using launched_trans one e by blast
    qed
  qed
qed

lemma run_loop_launched:
  "mk_inv mk \<Longrightarrow> run_loop pf clk env mk ns = (s, env', mk', ns') \<Longrightarrow> launched pf clk mk ns ns'"
proof (induction pf clk env mk ns rule: run_loop.induct)
  case (1 pf clk env mk ns)
  obtain s1 env1 mk1 ns1 p1 where p: "run_pass pf clk (map fst ns) env mk ns False = (s1, env1, mk1, ns1, p1)"
    by (cases "run_pass pf clk (map fst ns) env mk ns False") auto
  note e = run_pass_exec [OF "1.prems"(1) p] and l = run_pass_launched [OF "1.prems"(1) p]
  show ?case
  proof (cases "s1 = Ok \<and> p1")
    case True
    then have r: "run_loop pf clk env1 mk ns1 = (s, env', mk', ns')"
      using "1.prems"(2) p e by (subst (asm) run_loop.simps) simp
    have "launched pf clk mk ns1 ns'"
      using "1.IH" [OF p [symmetric] refl refl refl refl] True e "1.prems"(1) r by simp
    then show ?thesis using launched_trans l e by blast
  next
    case False
    have "ns' = ns1"
      using "1.prems"(2) p False by (subst (asm) run_loop.simps) (auto split: if_splits)
    then show ?thesis using l by simp
  qed
qed

lemma tg_run_accepted:
  assumes inv: "tg_inv (e_device env) g" and mk: "mk_inv mk"
    and valid: "fst (validate (e_device env) g) = Ok"
    and acc: "\<And>k n env. tg_find g k = Some n \<Longrightarrow> fst (tg_launch pf clk n env mk) = Ok"
  shows "fst (tg_run pf clk env mk g) = Ok"
proof -
  obtain s env' mk' g' where run: "tg_run pf clk env mk g = (s, env', mk', g')"
    by (cases "tg_run pf clk env mk g") auto
  have a: "accepts pf clk mk (tg_nodes g)" using acc by (simp add: accepts_def tg_find_def)
  have "s = Ok"
    by (cases rule: tg_run_cases [OF inv mk run]) (use valid run_loop_accepts [OF mk a] in auto)
  then show ?thesis using run by simp
qed

text \<open>C30: A valid graph in which nothing has failed and whose stages the driver accepts runs to the
  end: if launching each stage succeeds whenever its turn comes (a stream of its class is pooled,
  its kernel is loaded, the driver launches and synchronises), the run answers \<open>Ok\<close>, every
  stage is completed, each pending one is left exactly as one launch of it left it, the others
  are untouched, and \<^verbatim>\<open>wait_all\<close> reports \<open>Ok\<close>.\<close>

theorem run_succeeds:
  assumes inv: "tg_inv (e_device env) g" and mk: "mk_inv mk"
    and valid: "fst (validate (e_device env) g) = Ok"
    and st: "\<forall>k n. tg_find g k = Some n \<longrightarrow> sn_state n \<in> {Pending, Completed}"
    and acc: "\<forall>k n env. tg_find g k = Some n \<longrightarrow> fst (tg_launch pf clk n env mk) = Ok"
  shows "\<exists>env' g'. tg_run pf clk env mk g = (Ok, env', mk, g') \<and> wait_all g' = Ok
    \<and> stage_names g' = stage_names g
    \<and> (\<forall>k n. tg_find g k = Some n \<longrightarrow> (\<exists>n'. tg_find g' k = Some n' \<and> sn_state n' = Completed
         \<and> (if sn_state n = Pending then \<exists>e. n' = fst (snd (tg_launch pf clk n e mk)) else n' = n)))"
proof -
  obtain s env' mk' g' where run: "tg_run pf clk env mk g = (s, env', mk', g')"
    by (cases "tg_run pf clk env mk g") auto
  have s: "s = Ok" using tg_run_accepted [OF inv mk valid, of pf clk] acc by (simp add: run)
  note o = tg_run_ends [OF inv mk run, unfolded s, simplified]
  show ?thesis
  proof (cases rule: tg_run_cases [OF inv mk run])
    case (2 ns')
    have l: "launched pf clk mk (tg_nodes g) ns'" by (rule run_loop_launched [OF mk 2(8)])
    have "\<exists>n'. tg_find g' k = Some n' \<and> sn_state n' = Completed
         \<and> (if sn_state n = Pending then \<exists>e. n' = fst (snd (tg_launch pf clk n e mk)) else n' = n)"
      if n: "tg_find g k = Some n" for k n
    proof (cases "sn_state n = Pending")
      case True
      have "\<not> blocked (tg_nodes g) k" using st not_blocked by (metis tg_find_def)
      then obtain n' where n': "tg_find g' k = Some n'" "sn_state n' = Completed" using o n True by metis
      then have "n' \<noteq> n" using True by auto
      then show ?thesis using l n n' True 2(4) unfolding launched_def by (fastforce simp: tg_find_def)
    next
      case False
      then show ?thesis using o n st by auto
    qed
    moreover have "wait_all g' = Ok" using o st by blast
    ultimately show ?thesis using run s 2(3,4) exec_contracts [OF 2(5)] by (simp add: stage_names_def)
  qed (use s in simp)
qed

lemma demo_pending: "\<forall>k n. tg_find demo_graph k = Some n \<longrightarrow> sn_state n \<in> {Pending, Completed}"
  by (auto simp: tg_find_def demo_graph_def stage_node_new_def split: if_splits)

lemma demo_accepted: "\<forall>k n env. tg_find demo_graph k = Some n \<longrightarrow> fst (tg_launch sim_backend (\<lambda>_. (1, 2)) n env loaded_mk) = Ok"
proof (intro allI impI)
  fix k n and env :: "u64 env"
  assume "tg_find demo_graph k = Some n"
  then have "n \<in> {stage_node_new (demo_stage ''b'' [''a'']), stage_node_new (demo_stage ''a'' [])}"
    by (auto simp: tg_find_def demo_graph_def split: if_splits)
  moreover have "stage_class (sn_contract (stage_node_new (demo_stage x ds))) = Compute" for x ds
    by (simp add: stage_class_def str_contains_def demo_stage_def stage_node_new_def)
  ultimately show "fst (tg_launch sim_backend (\<lambda>_. (1, 2)) n env loaded_mk) = Ok"
    by (auto simp: tg_launch_def acquire_stream_def loaded_mk_def demo_mk_def stream_handle_default_def
        mk_launch_def find_module_def mk_sync_stream_def stage_node_new_def demo_stage_def Let_def
        mk_create_def)
qed

theorem run_succeeds_witness:
  "\<exists>env' g'. tg_run sim_backend (\<lambda>_. (1, 2)) sim_env loaded_mk demo_graph = (Ok, env', loaded_mk, g')
    \<and> wait_all g' = Ok \<and> stage_names g' = [''b'', ''a'']"
proof -
  have v: "fst (validate (e_device sim_env) demo_graph) = Ok" by code_simp
  obtain env' g' where "tg_run sim_backend (\<lambda>_. (1, 2)) sim_env loaded_mk demo_graph = (Ok, env', loaded_mk, g')"
    "wait_all g' = Ok" "stage_names g' = stage_names demo_graph"
    using run_succeeds [OF demo_graph_inv loaded_mk_inv v demo_pending demo_accepted] by blast
  moreover have "stage_names demo_graph = [''b'', ''a'']" by (simp add: stage_names_def demo_graph_def)
  ultimately show ?thesis by auto
qed

lemma tg_run_idle:
  assumes v: "tg_validated g" and idle: "\<And>k n. tg_find g k = Some n \<Longrightarrow> \<not> ready_to_run (tg_nodes g) n"
  shows "tg_run pf clk env mk g = (Ok, env, mk, g)"
proof -
  have "(\<forall>k n. map_of ns k = Some n \<longrightarrow> \<not> ready_to_run ns n) \<Longrightarrow>
      run_pass pf clk ks env mk ns False = (Ok, env, mk, ns, False)" for ks ns
    by (induction ks) (auto split: option.split)
  then have "run_loop pf clk env mk (tg_nodes g) = (Ok, env, mk, tg_nodes g)"
    using idle by (subst run_loop.simps) (simp add: tg_find_def)
  then show ?thesis using v by (simp add: tg_run_def)
qed

text \<open>Running again after a failure hides it: on a validated graph in which no pending stage
  has all its dependencies completed, a run returns \<open>Ok\<close> and changes nothing, even when stages
  have failed and others have never run; only waiting still reports it.\<close>

theorem rerun_hides_failure:
  assumes v: "tg_validated g" and idle: "\<And>k n. tg_find g k = Some n \<Longrightarrow> \<not> ready_to_run (tg_nodes g) n"
  shows "tg_run pf clk env mk g = (Ok, env, mk, g)
    \<and> (\<forall>k n. tg_find g k = Some n \<longrightarrow> tg_wait g k
         = (if sn_state n = Completed then Ok else if sn_state n = Failed then Aborted else Timeout))"
proof
  show "tg_run pf clk env mk g = (Ok, env, mk, g)" by (rule tg_run_idle [OF v idle])
qed (simp add: tg_wait_def tg_find_def)

theorem rerun_hides_failure_witness:
  "\<exists>env1 mk1 g1. tg_run sim_backend (\<lambda>_. (1, 2)) sim_env demo_mk demo_graph = (InvalidArgument, env1, mk1, g1)
    \<and> tg_run sim_backend (\<lambda>_. (1, 2)) env1 mk1 g1 = (Ok, env1, mk1, g1)
    \<and> tg_wait g1 ''a'' = Aborted \<and> tg_wait g1 ''b'' = Timeout"
proof -
  let ?r = "tg_run sim_backend (\<lambda>_. (1, 2)) sim_env demo_mk demo_graph"
  let ?g = "snd (snd (snd ?r))"
  have f: "fst ?r = InvalidArgument" by code_simp
  have v: "tg_validated ?g" by code_simp
  have "list_all (\<lambda>(k, n). \<not> ready_to_run (tg_nodes ?g) n) (tg_nodes ?g)" by code_simp
  then have idle: "\<not> ready_to_run (tg_nodes ?g) n" if "tg_find ?g k = Some n" for k n
    using that by (auto simp: tg_find_def list_all_iff dest!: map_of_SomeD)
  have w: "tg_wait ?g ''a'' = Aborted" "tg_wait ?g ''b'' = Timeout" by code_simp+
  show ?thesis
    using f w rerun_hides_failure [OF v idle, where pf = sim_backend and clk = "\<lambda>_. (1, 2)"
        and env = "fst (snd ?r)" and mk = "fst (snd (snd ?r))"]
    by (cases ?r) auto
qed

text \<open>Stage names are unique and non-empty: registering an empty or a taken name is rejected
  and changes nothing; any other stage becomes a pending node under its name, leaves the others
  alone, and makes the graph await validation.\<close>

theorem add_stage_outcome:
  "(sc_name c = '''' \<or> tg_find g (sc_name c) \<noteq> None \<longrightarrow> add_stage c g = (InvalidArgument, g))
   \<and> (sc_name c \<noteq> '''' \<and> tg_find g (sc_name c) = None \<longrightarrow>
       (\<exists>g'. add_stage c g = (Ok, g') \<and> \<not> tg_validated g' \<and> tg_overlap g' = tg_overlap g
         \<and> stage_names g' = stage_names g @ [sc_name c]
         \<and> (\<forall>k. tg_find g' k = (if k = sc_name c then Some (stage_node_new c) else tg_find g k))))"
  by (auto simp: add_stage_def tg_find_def stage_names_def update_keys map_of_eq_None_iff)

theorem add_stage_outcome_witness:
  "\<exists>g'. add_stage (demo_stage ''c'' []) demo_graph = (Ok, g') \<and> stage_names g' = [''b'', ''a'', ''c'']
    \<and> add_stage (demo_stage ''a'' []) demo_graph = (InvalidArgument, demo_graph)"
proof -
  have n: "sc_name (demo_stage ''c'' []) = ''c''" "sc_name (demo_stage ''a'' []) = ''a''"
    by (simp_all add: demo_stage_def)
  have f: "tg_find demo_graph ''c'' = None" "tg_find demo_graph ''a'' \<noteq> None"
    "stage_names demo_graph = [''b'', ''a'']"
    by (simp_all add: tg_find_def demo_graph_def stage_names_def)
  have 1: "add_stage (demo_stage ''a'' []) demo_graph = (InvalidArgument, demo_graph)"
    using conjunct1 [OF add_stage_outcome [of "demo_stage ''a'' []" demo_graph]] n f by metis
  have "sc_name (demo_stage ''c'' []) \<noteq> '''' \<and> tg_find demo_graph (sc_name (demo_stage ''c'' [])) = None"
    using n f by simp
  from mp [OF conjunct2 [OF add_stage_outcome [of "demo_stage ''c'' []" demo_graph]] this]
  show ?thesis using 1 n f by auto
qed

lemma tg_destroy_noop: "tg_destroy g mk = mk"
proof -
  have "fold (\<lambda>(k, n) mk. if sn_stream n \<noteq> 0
     then release_stream \<lparr>sh_id = 0, sh_raw = sn_stream n, sh_klass = Compute, sh_priority = 0\<rparr> mk
     else mk) ns mk = mk" for ns
    by (induction ns) (auto simp: release_stream_def)
  then show ?thesis by (simp add: tg_destroy_def)
qed

subsection \<open>A micro-kernel without modules\<close>

text \<open>With an empty module table no launch reaches the driver.\<close>

lemma mk_launch_no_module: "mk_modules mk = [] \<Longrightarrow> mk_launch pf m f g b sm sh args env mk = (InvalidArgument, env)"
  by (simp add: mk_launch_def find_module_def)

lemma acquire_modules: "acquire_stream k p mk = (sh, mk1) \<Longrightarrow> mk_modules mk1 = mk_modules mk"
  by (auto simp: acquire_stream_def split: stream_class.splits if_splits)

lemma tg_launch_no_module:
  assumes inv: "mk_inv mk" and m: "mk_modules mk = []"
    and run: "tg_launch pf clk n env mk = (s, n', env', mk')"
  shows "s \<noteq> Ok \<and> env' = env \<and> mk' = mk"
proof -
  obtain sh mk1 where a: "acquire_stream (stage_class (sn_contract n)) 0 mk = (sh, mk1)" by force
  have "mk_modules mk1 = []" using acquire_modules [OF a] m by simp
  then have env: "s \<noteq> Ok \<and> env' = env"
    using run by (auto simp: tg_launch_def a Let_def mk_launch_no_module split: if_splits)
  have "mk' = mk" by (cases rule: tg_launch_cases [OF inv run])
  then show ?thesis using env by blast
qed

lemma run_pass_no_module:
  "mk_inv mk \<Longrightarrow> mk_modules mk = [] \<Longrightarrow> run_pass pf clk ks env mk ns p = (s, env', mk', ns', p') \<Longrightarrow>
    env' = env \<and> (s = Ok \<longrightarrow> p' = p \<and> (\<forall>k n. k \<in> set ks \<and> map_of ns k = Some n \<longrightarrow> \<not> ready_to_run ns n))"
proof (induction pf clk ks env mk ns p rule: run_pass.induct)
  case (2 pf clk k ks env mk ns p)
  show ?case
  proof (cases "map_of ns k")
    case None
    then have "run_pass pf clk ks env mk ns p = (s, env', mk', ns', p')" using "2.prems"(3) by simp
    from "2.IH"(1) [OF None "2.prems"(1,2) this] show ?thesis using None by auto
  next
    case (Some n)
    show ?thesis
    proof (cases "ready_to_run ns n")
      case False
      then have "run_pass pf clk ks env mk ns p = (s, env', mk', ns', p')" using "2.prems"(3) Some by simp
      from "2.IH"(2) [OF Some False "2.prems"(1,2) this] show ?thesis using Some False by auto
    next
      case True
      obtain s1 n1 env1 mk1 where l: "tg_launch pf clk n env mk = (s1, n1, env1, mk1)"
        by (cases "tg_launch pf clk n env mk") auto
      show ?thesis
        using tg_launch_no_module [OF "2.prems"(1,2) l] "2.prems"(3) Some True l by (auto simp: Let_def)
    qed
  qed
qed simp

lemma tg_run_no_module:
  assumes "mk_inv mk" and "mk_modules mk = []" and run: "tg_run pf clk env mk g = (s, env', mk', g')"
    and ready: "map_of (tg_nodes g) k = Some n" "ready_to_run (tg_nodes g) n"
  shows "s \<noteq> Ok \<and> env' = env"
proof -
  obtain s1 env1 mk1 ns1 p1 where p: "run_pass pf clk (map fst (tg_nodes g)) env mk (tg_nodes g) False = (s1, env1, mk1, ns1, p1)"
    by (cases "run_pass pf clk (map fst (tg_nodes g)) env mk (tg_nodes g) False") auto
  have k: "k \<in> set (map fst (tg_nodes g))" using ready(1) by (metis domI dom_map_of_conv_image_fst list.set_map)
  have r: "env1 = env" "s1 \<noteq> Ok" using run_pass_no_module [OF assms(1,2) p] ready k by blast+
  then have l: "run_loop pf clk env mk (tg_nodes g) = (s1, env, mk1, ns1)" by (subst run_loop.simps) (simp add: p)
  have v: "tg_nodes (snd (validate d g)) = tg_nodes g" for d by (simp add: validate_def)
  show ?thesis
    using run l r v [of "e_device env"] by (auto simp: tg_run_def Let_def split: prod.splits if_splits)
qed

end
