(* ===== verification/TokenScope.thy ===== *)
theory TokenScope
  imports FaultHandler Interfaces
begin

text \<open>
  The context scope of \<^verbatim>\<open>src/token_opt/scope.hpp\<close> and \<^verbatim>\<open>scope.cpp\<close>: per-layer token
  budgets, the per-token step with its spill from layer 4 to layer 3, the bound KV region and
  the attention prefetch.  \<^verbatim>\<open>layers_\<close> is a list of five; the enumeration's \<^verbatim>\<open>Count\<close>
  is that length and not a layer.
\<close>

subsection \<open>State\<close>

datatype icm_layer = L0_system | L1_persona | L2_instructions | L3_reference | L4_working

definition layer_index :: "icm_layer \<Rightarrow> nat" where
  "layer_index l = (case l of L0_system \<Rightarrow> 0 | L1_persona \<Rightarrow> 1 | L2_instructions \<Rightarrow> 2
     | L3_reference \<Rightarrow> 3 | L4_working \<Rightarrow> 4)"

definition layer_count :: nat where
  "layer_count = 5"

record layer_spec =
  ls_max_tokens :: u32
  ls_residency :: string
  ls_hbm_base :: u64
  ls_bytes_used :: u64

definition default_layers :: "layer_spec list" where
  "default_layers =
     [\<lparr>ls_max_tokens = 256, ls_residency = ''pinned'', ls_hbm_base = 0, ls_bytes_used = 0\<rparr>,
      \<lparr>ls_max_tokens = 512, ls_residency = ''pinned'', ls_hbm_base = 0, ls_bytes_used = 0\<rparr>,
      \<lparr>ls_max_tokens = 1024, ls_residency = ''hbm'', ls_hbm_base = 0, ls_bytes_used = 0\<rparr>,
      \<lparr>ls_max_tokens = 8192, ls_residency = ''hbm_paged'', ls_hbm_base = 0, ls_bytes_used = 0\<rparr>,
      \<lparr>ls_max_tokens = 4096, ls_residency = ''hbm_working'', ls_hbm_base = 0, ls_bytes_used = 0\<rparr>]"

record context_scope =
  cs_layers :: "layer_spec list"
  cs_kv_hbm :: ptr
  cs_kv_bytes :: u64
  cs_max_resident :: u32
  cs_current_resident :: u32

definition cs_create :: context_scope where
  "cs_create = \<lparr>cs_layers = default_layers, cs_kv_hbm = 0, cs_kv_bytes = 0, cs_max_resident = 0,
     cs_current_resident = 0\<rparr>"

subsection \<open>Operations\<close>

definition set_layer :: "icm_layer \<Rightarrow> layer_spec \<Rightarrow> context_scope \<Rightarrow> context_scope" where
  "set_layer l s cs = cs\<lparr>cs_layers := (cs_layers cs)[layer_index l := s]\<rparr>"

definition layer :: "icm_layer \<Rightarrow> context_scope \<Rightarrow> layer_spec" where
  "layer l cs = cs_layers cs ! layer_index l"

definition add_bytes :: "nat \<Rightarrow> u64 \<Rightarrow> layer_spec list \<Rightarrow> layer_spec list" where
  "add_bytes i d ls = ls[i := (ls ! i)\<lparr>ls_bytes_used := ls_bytes_used (ls ! i) + d\<rparr>]"

definition layer_cap :: "layer_spec \<Rightarrow> u64" where
  "layer_cap l = ucast (ls_max_tokens l) * 4"

definition cs_step :: "u32 \<Rightarrow> context_scope \<Rightarrow> status \<times> context_scope" where
  "cs_step generated_so_far cs =
     (let ls = add_bytes 4 4 (cs_layers cs);
          ls' = (if ls_bytes_used (ls ! 4) > layer_cap (ls ! 4)
                 then (let spill = ls_bytes_used (ls ! 4) - layer_cap (ls ! 4)
                       in add_bytes 4 (- spill) (add_bytes 3 spill ls))
                 else ls)
      in (Ok, cs\<lparr>cs_layers := ls'\<rparr>))"

definition bind_kv_cache :: "ptr \<Rightarrow> u64 \<Rightarrow> u32 \<Rightarrow> context_scope \<Rightarrow> context_scope" where
  "bind_kv_cache kv bytes max_res cs = cs\<lparr>cs_kv_hbm := kv, cs_kv_bytes := bytes,
     cs_max_resident := max_res, cs_current_resident := 0\<rparr>"

fun hint_slots :: "'p backend \<Rightarrow> ptr \<Rightarrow> u64 \<Rightarrow> u32 list \<Rightarrow> 'p env \<Rightarrow> 'p env" where
  "hint_slots pf kv bytes [] env = env"
| "hint_slots pf kv bytes (i # is) env =
     (let off = ucast i * 4096
      in if off \<ge> bytes then hint_slots pf kv bytes is env
         else hint_slots pf kv bytes is (snd (inject_fetch_hint pf (kv + off) 4096 env)))"

text \<open>\<^verbatim>\<open>topk\<close> with its length \<^verbatim>\<open>k\<close> is the list of the indices it points to.\<close>

definition prefetch_attention :: "'p backend \<Rightarrow> u32 list \<Rightarrow> context_scope \<Rightarrow> 'p env \<Rightarrow> status \<times> 'p env" where
  "prefetch_attention pf topk cs env =
     (if cs_kv_hbm cs = 0 then (InvalidArgument, env)
      else (Ok, hint_slots pf (cs_kv_hbm cs) (cs_kv_bytes cs) topk env))"

definition cs_prune :: "u32 \<Rightarrow> context_scope \<Rightarrow> status \<times> context_scope" where
  "cs_prune max_res cs =
     (if cs_kv_hbm cs = 0 then (InvalidArgument, cs)
      else if cs_current_resident cs \<le> max_res then (Ok, cs)
      else (Ok, cs\<lparr>cs_current_resident := max_res\<rparr>))"

definition total_token_budget :: "context_scope \<Rightarrow> u64" where
  "total_token_budget cs = sum_list (map (\<lambda>l. ucast (ls_max_tokens l)) (cs_layers cs))"

definition total_bytes_used :: "context_scope \<Rightarrow> u64" where
  "total_bytes_used cs = sum_list (map ls_bytes_used (cs_layers cs))"

subsection \<open>The step as a meter\<close>

definition cs_ok :: "context_scope \<Rightarrow> bool" where
  "cs_ok cs = (length (cs_layers cs) = layer_count)"

lemma cs_ok_create: "cs_ok cs_create"
  by (simp add: cs_ok_def cs_create_def default_layers_def layer_count_def)

lemma list5: "length xs = 5 \<Longrightarrow> \<exists>a b c d e. xs = [a, b, c, d, e]"
  by (auto simp: eval_nat_numeral length_Suc_conv)

lemma cs_layers_cases:
  assumes "cs_ok cs"
  obtains a b c d e where "cs_layers cs = [a, b, c, d, e]"
proof -
  have "length (cs_layers cs) = 5" using assms by (simp add: cs_ok_def layer_count_def)
  from list5 [OF this] show thesis using that by blast
qed

lemma cs_step_shape:
  assumes "cs_layers cs = [a, b, c, d, e]"
  shows "cs_step g cs = (Ok, cs\<lparr>cs_layers :=
    (let u = ls_bytes_used e + 4; over = (if u > layer_cap e then u - layer_cap e else 0)
     in [a, b, c, d\<lparr>ls_bytes_used := ls_bytes_used d + over\<rparr>, e\<lparr>ls_bytes_used := u - over\<rparr>])\<rparr>)"
  using assms by (simp add: cs_step_def add_bytes_def layer_cap_def Let_def numeral_eq_Suc)

interpretation cm: token_meter cs_ok "\<lambda>cs. snd (cs_step g cs)" total_bytes_used for g
proof
  fix cs assume ok: "cs_ok cs"
  obtain a b c d e where l: "cs_layers cs = [a, b, c, d, e]" using ok by (rule cs_layers_cases)
  show "cs_ok (snd (cs_step g cs))"
    using l by (simp add: cs_step_shape cs_ok_def layer_count_def Let_def)
  show "total_bytes_used (snd (cs_step g cs)) = total_bytes_used cs + 4"
    using l by (simp add: cs_step_shape total_bytes_used_def Let_def)
qed

subsection \<open>What the scope promises\<close>

abbreviation steps :: "u32 \<Rightarrow> nat \<Rightarrow> context_scope \<Rightarrow> context_scope" where
  "steps g n cs \<equiv> ((\<lambda>cs. snd (cs_step g cs)) ^^ n) cs"

definition metered :: "u64 \<Rightarrow> u64 \<Rightarrow> layer_spec list" where
  "metered x y =
     [\<lparr>ls_max_tokens = 256, ls_residency = ''pinned'', ls_hbm_base = 0, ls_bytes_used = 0\<rparr>,
      \<lparr>ls_max_tokens = 512, ls_residency = ''pinned'', ls_hbm_base = 0, ls_bytes_used = 0\<rparr>,
      \<lparr>ls_max_tokens = 1024, ls_residency = ''hbm'', ls_hbm_base = 0, ls_bytes_used = 0\<rparr>,
      \<lparr>ls_max_tokens = 8192, ls_residency = ''hbm_paged'', ls_hbm_base = 0, ls_bytes_used = x\<rparr>,
      \<lparr>ls_max_tokens = 4096, ls_residency = ''hbm_working'', ls_hbm_base = 0, ls_bytes_used = y\<rparr>]"

lemma step_metered:
  assumes "cs_layers cs = metered x y"
  shows "snd (cs_step g cs) = cs\<lparr>cs_layers :=
    (if y + 4 > 16384 then metered (x + (y + 4 - 16384)) 16384 else metered x (y + 4))\<rparr>"
  using cs_step_shape [OF assms [unfolded metered_def], of g]
  by (simp add: metered_def layer_cap_def Let_def)

lemma steps_layers:
  "steps g n cs_create = cs_create\<lparr>cs_layers :=
     metered (word_of_nat (4 * n - min (4 * n) 16384)) (word_of_nat (min (4 * n) 16384))\<rparr>"
proof (induction n)
  case 0
  then show ?case by (simp add: cs_create_def default_layers_def metered_def)
next
  case (Suc n)
  let ?m = "min (4 * n) 16384"
  let ?x = "word_of_nat (4 * n - ?m) :: u64" and ?y = "word_of_nat ?m :: u64"
  have l: "cs_layers (steps g n cs_create) = metered ?x ?y" unfolding Suc.IH by simp
  have "?y + 4 = word_of_nat (?m + 4)" by simp
  moreover have "unat (word_of_nat (?m + 4) :: u64) = ?m + 4" by (rule unat_of_nat64) simp
  ultimately have u: "unat (?y + 4) = ?m + 4" by (simp only:)
  have c: "unat (16384 :: u64) = 16384" by simp
  have step: "steps g (Suc n) cs_create = snd (cs_step g (steps g n cs_create))" by simp
  show ?case
  proof (cases "n < 4096")
    case True
    then have le: "\<not> ?y + 4 > 16384" unfolding word_less_nat_alt u c by simp
    have y: "?y + 4 = word_of_nat (min (4 * Suc n) 16384)" using True by simp
    have x: "word_of_nat (4 * Suc n - min (4 * Suc n) 16384) = ?x" using True by simp
    show ?thesis
      unfolding step step_metered [OF l] if_not_P [OF le] unfolding y x unfolding Suc.IH by simp
  next
    case False
    then have m: "?m = 16384" "min (4 * Suc n) 16384 = 16384" by simp_all
    have gt: "?y + 4 > 16384" using m by simp
    have d: "?y + 4 - 16384 = 4" using m by simp
    have "?x + 4 = word_of_nat (4 * n - ?m + 4)" by simp
    also have "4 * n - ?m + 4 = 4 * Suc n - 16384" using False m by simp
    finally have x: "word_of_nat (4 * Suc n - 16384) = ?x + 4" by simp
    show ?thesis
      unfolding step step_metered [OF l] if_P [OF gt] unfolding d m(2) x unfolding Suc.IH by simp
  qed
qed

text \<open>The step meters tokens exactly: after any number of steps on a fresh scope the working
  layer holds 4 bytes per token up to its budget of 4096 tokens, the excess has gone to the
  reference layer, no other layer is charged, the total is 4 bytes per token, and the
  budget stays 14080 tokens.\<close>

theorem step_meters_tokens:
  assumes "4 * n < 2 ^ 64"
  shows "unat (ls_bytes_used (layer L4_working (steps g n cs_create))) = min (4 * n) 16384
    \<and> unat (ls_bytes_used (layer L3_reference (steps g n cs_create))) = 4 * n - min (4 * n) 16384
    \<and> (\<forall>l. l \<notin> {L3_reference, L4_working} \<longrightarrow> ls_bytes_used (layer l (steps g n cs_create)) = 0)
    \<and> unat (total_bytes_used (steps g n cs_create)) = 4 * n
    \<and> total_token_budget (steps g n cs_create) = 14080"
proof -
  have "total_bytes_used cs_create = 0"
    by (simp add: total_bytes_used_def cs_create_def default_layers_def)
  then have t: "total_bytes_used (steps g n cs_create) = of_nat (4 * n)"
    using cm.ticks_used [OF cs_ok_create, of n g] by simp
  have l: "ls_bytes_used (layer l (steps g n cs_create)) = 0" if "l \<notin> {L3_reference, L4_working}" for l
    unfolding steps_layers using that by (cases l) (simp_all add: layer_def layer_index_def metered_def)
  have "min (4 * n) 16384 < 2 ^ 64" "4 * n - min (4 * n) 16384 < 2 ^ 64" using assms by auto
  then have w: "unat (word_of_nat (min (4 * n) 16384) :: u64) = min (4 * n) 16384"
    "unat (word_of_nat (4 * n - min (4 * n) 16384) :: u64) = 4 * n - min (4 * n) 16384"
    "unat (word_of_nat (4 * n) :: u64) = 4 * n"
    using assms by (blast intro: unat_of_nat64)+
  have b: "total_token_budget (steps g n cs_create) = 14080"
    unfolding steps_layers by (simp add: total_token_budget_def metered_def)
  show ?thesis
    using t l w b unfolding steps_layers
    by (simp add: layer_def layer_index_def metered_def del: of_nat_mult)
qed

theorem step_meters_tokens_witness:
  "unat (ls_bytes_used (layer L4_working (steps 0 5000 cs_create))) = 16384
    \<and> unat (ls_bytes_used (layer L3_reference (steps 0 5000 cs_create))) = 3616
    \<and> unat (total_bytes_used (steps 0 5000 cs_create)) = 20000"
  using step_meters_tokens [of 5000 0] by simp

text \<open>The scopes a client can reach.\<close>

inductive cs_reach :: "context_scope \<Rightarrow> bool" where
  create: "cs_reach cs_create"
| set_layer: "cs_reach cs \<Longrightarrow> cs_reach (set_layer l s cs)"
| step: "cs_reach cs \<Longrightarrow> cs_reach (snd (cs_step g cs))"
| bind: "cs_reach cs \<Longrightarrow> cs_reach (bind_kv_cache kv b m cs)"
| prune: "cs_reach cs \<Longrightarrow> cs_reach (snd (cs_prune m cs))"

lemma cs_reach_resident: "cs_reach cs \<Longrightarrow> cs_current_resident cs = 0 \<and> cs_ok cs"
proof (induction rule: cs_reach.induct)
  case create
  show ?case using cs_ok_create by (simp add: cs_create_def)
next
  case (step cs g)
  then show ?case using cm.tick_inv [of cs g] by (simp add: cs_step_def Let_def)
qed (auto simp: set_layer_def cs_ok_def cs_step_def bind_kv_cache_def cs_prune_def Let_def)

text \<open>Pruning never does anything: no operation ever raises the count of resident tokens, so
  in every reachable scope it is 0, and pruning to any size leaves the scope as it is; it
  answers \<open>Ok\<close> when a KV region is bound and \<open>InvalidArgument\<close> otherwise.\<close>

theorem prune_is_noop:
  assumes "cs_reach cs"
  shows "cs_current_resident cs = 0 \<and> cs_prune m cs = (if cs_kv_hbm cs = 0 then InvalidArgument else Ok, cs)"
  using cs_reach_resident [OF assms] by (simp add: cs_prune_def)

theorem prune_is_noop_witness:
  "cs_prune 3 (bind_kv_cache 0x1000 0x4000 8 cs_create) = (Ok, bind_kv_cache 0x1000 0x4000 8 cs_create)"
  using prune_is_noop [OF cs_reach.bind [OF cs_reach.create, of "0x1000" "0x4000" 8], of 3]
  by (simp add: bind_kv_cache_def)

lemma hint_slots_fold:
  "hint_slots pf kv bytes is env
    = fold (\<lambda>i e. snd (b_prefetch_range pf (kv + ucast i * 4096) 4096 e))
        (filter (\<lambda>i. ucast i * 4096 < bytes) is) env"
  by (induction "is" arbitrary: env) (simp_all add: Let_def inject_fetch_hint_def not_le)

text \<open>Attention prefetching asks the driver for exactly the 4 KB slots of the given indices
  that start inside the bound region, once each and in the order given, each inside the region
  when its size is a multiple of 4 KB.  It answers \<open>Ok\<close> whatever the driver answers, and
  \<open>InvalidArgument\<close> without any call when no region is bound.\<close>

theorem prefetch_attention_exact:
  "prefetch_attention pf topk cs env =
     (if cs_kv_hbm cs = 0 then (InvalidArgument, env)
      else (Ok, fold (\<lambda>i e. snd (b_prefetch_range pf (cs_kv_hbm cs + ucast i * 4096) 4096 e))
             (filter (\<lambda>i. ucast i * 4096 < cs_kv_bytes cs) topk) env))
   \<and> (4096 dvd unat (cs_kv_bytes cs) \<longrightarrow>
       (\<forall>i :: u32. (ucast i * 4096 :: u64) < cs_kv_bytes cs \<longrightarrow> unat i * 4096 + 4096 \<le> unat (cs_kv_bytes cs)))"
proof (intro conjI impI allI)
  show "prefetch_attention pf topk cs env =
     (if cs_kv_hbm cs = 0 then (InvalidArgument, env)
      else (Ok, fold (\<lambda>i e. snd (b_prefetch_range pf (cs_kv_hbm cs + ucast i * 4096) 4096 e))
             (filter (\<lambda>i. ucast i * 4096 < cs_kv_bytes cs) topk) env))"
    by (simp add: prefetch_attention_def hint_slots_fold)
next
  fix i :: u32
  assume d: "4096 dvd unat (cs_kv_bytes cs)" and lt: "(ucast i * 4096 :: u64) < cs_kv_bytes cs"
  have "unat i < 2 ^ 32" using unsigned_less [of i] by simp
  then have "unat (ucast i * 4096 :: u64) = unat i * 4096"
    by (simp add: unat_word_ariths)
  then have l: "unat i * 4096 < unat (cs_kv_bytes cs)" using lt by (simp add: word_less_nat_alt)
  obtain q where q: "unat (cs_kv_bytes cs) = 4096 * q" using d by (auto simp: dvd_def)
  with l have "unat i < q" by simp
  then show "unat i * 4096 + 4096 \<le> unat (cs_kv_bytes cs)" using q by simp
qed

theorem prefetch_attention_exact_witness:
  "prefetch_attention sim_backend [0, 9] (bind_kv_cache 0x1000 0x4000 8 cs_create) sim_env = (Ok, sim_env)
    \<and> unat (3 :: u32) * 4096 + 4096 \<le> unat (0x4000 :: u64)"
  using prefetch_attention_exact [of sim_backend "[0, 9]" "bind_kv_cache 0x1000 0x4000 8 cs_create" sim_env]
  by (simp add: bind_kv_cache_def)

end
