(* ===== verification/Abi.thy ===== *)
theory Abi
  imports TaskGraph Boot TokenScope
begin

text \<open>
  The C interface (\<^verbatim>\<open>src/platform/abi.h\<close>): the handle registry of
  \<^verbatim>\<open>src/firmware/context.cpp\<close> and every exported function, from \<^verbatim>\<open>boot.cpp\<close>,
  \<^verbatim>\<open>fault_handler.cpp\<close>, \<^verbatim>\<open>memory/manager.cpp\<close>, \<^verbatim>\<open>scheduler/graph.cpp\<close>,
  \<^verbatim>\<open>token_opt/scope.cpp\<close> and \<^verbatim>\<open>platform/abi_stubs.cpp\<close>.  The process state is the
  dispatcher, the state of the hardware and the registry; a call runs on the context its handle
  names with the current hardware state, and stores both back.  A result of \<^term>\<open>None\<close> is a
  dereferenced null subsystem pointer or a page loop that never ends.  A null string and a null
  \<^verbatim>\<open>out_ptr\<close> of \<^verbatim>\<open>nexusrt_mem_alloc\<close>, which the code dereferences unchecked, are
  outside the model, and so is a null \<^verbatim>\<open>out_ctx\<close> of \<^verbatim>\<open>nexusrt_firmware_init\<close>, which is
  answered \<open>InvalidArgument\<close> at once.
\<close>

subsection \<open>The process and the registry\<close>

record 'p proc =
  pr_dispatch :: "'p dispatch"
  pr_hw :: 'p
  pr_reg :: "(ptr, 'p fw) umap"

definition register_handle :: "ptr \<Rightarrow> 'p fw \<Rightarrow> (ptr, 'p fw) umap \<Rightarrow> (ptr, 'p fw) umap" where
  "register_handle k sp r = AList.update k sp r"

definition lookup_handle :: "(ptr, 'p fw) umap \<Rightarrow> ptr \<Rightarrow> 'p fw option" where
  "lookup_handle r k = map_of r k"

definition take_handle :: "ptr \<Rightarrow> (ptr, 'p fw) umap \<Rightarrow> 'p fw option \<times> (ptr, 'p fw) umap" where
  "take_handle k r = (case map_of r k of None \<Rightarrow> (None, r) | Some sp \<Rightarrow> (Some sp, AList.delete k r))"

interpretation hm: handle_map register_handle lookup_handle take_handle
  by unfold_locales (auto simp: register_handle_def lookup_handle_def take_handle_def split: option.split)

definition hw_in :: "'p \<Rightarrow> 'p fw \<Rightarrow> 'p fw" where
  "hw_in hw fw = fw\<lparr>fw_env := (fw_env fw)\<lparr>e_hw := hw\<rparr>\<rparr>"

definition with_ctx :: "ptr \<Rightarrow> ('p backend \<Rightarrow> 'p fw \<Rightarrow> (status \<times> 'a \<times> 'p fw) option) \<Rightarrow> 'a \<Rightarrow> 'p proc
    \<Rightarrow> (int \<times> 'a \<times> 'p proc) option" where
  "with_ctx ctx f dflt pr =
     (case lookup_handle (pr_reg pr) ctx of
        None \<Rightarrow> Some (status_code InvalidArgument, dflt, pr)
      | Some sp \<Rightarrow>
          (let (pf, disp, hw) = dispatch_backend (pr_dispatch pr) (pr_hw pr)
           in map_option (\<lambda>(s, x, fw'). (status_code s, x, pr\<lparr>pr_dispatch := disp, pr_hw := e_hw (fw_env fw'),
                 pr_reg := register_handle ctx fw' (pr_reg pr)\<rparr>)) (f pf (hw_in hw sp))))"

subsection \<open>Firmware\<close>

text \<open>The new handle is the address of the context that boot made.\<close>

definition nexusrt_firmware_init :: "(nat \<Rightarrow> u64) \<Rightarrow> string option \<Rightarrow> ptr \<Rightarrow> 'p proc \<Rightarrow> int \<times> ptr option \<times> 'p proc" where
  "nexusrt_firmware_init clk profile addr pr =
     (let opts = (case profile of None \<Rightarrow> boot_options_default | Some p \<Rightarrow> boot_options_default\<lparr>bo_profile := p\<rparr>);
          (r, ev, disp, hw) = boot clk opts (pr_dispatch pr) (pr_hw pr);
          pr1 = pr\<lparr>pr_dispatch := disp, pr_hw := hw\<rparr>
      in case br_ctx r of
           None \<Rightarrow> (status_code (br_status r), None, pr1)
         | Some c \<Rightarrow>
             if \<not> ok (br_status r)
             then (let (pf, disp2, hw2) = dispatch_backend disp hw
                   in (status_code (br_status r), None,
                       pr1\<lparr>pr_dispatch := disp2, pr_hw := e_hw (fw_destroy pf (hw_in hw2 c))\<rparr>))
             else (0, Some addr, pr1\<lparr>pr_reg := register_handle addr c (pr_reg pr)\<rparr>))"

definition nexusrt_firmware_shutdown :: "ptr \<Rightarrow> 'p proc \<Rightarrow> int \<times> 'p proc" where
  "nexusrt_firmware_shutdown ctx pr =
     (if ctx = 0 then (status_code InvalidArgument, pr)
      else (case take_handle ctx (pr_reg pr) of
              (None, _) \<Rightarrow> (status_code InvalidArgument, pr)
            | (Some sp, reg') \<Rightarrow>
                (let (pf, disp, hw) = dispatch_backend (pr_dispatch pr) (pr_hw pr);
                     (s, fw') = shutdown pf (hw_in hw sp)
                 in (status_code s, pr\<lparr>pr_dispatch := disp, pr_hw := e_hw (fw_destroy pf fw'), pr_reg := reg'\<rparr>))))"

record device_info =
  di_vendor :: int
  di_arch :: int
  di_name :: string
  di_hbm_bytes :: u64
  di_sm_count :: u32
  di_features_bits :: u32

definition strncpy_out :: "nat \<Rightarrow> string \<Rightarrow> string" where
  "strncpy_out cap name =
     (if cap = 0 then []
      else (let n = take (cap - 1) (takeWhile (\<lambda>c. c \<noteq> CHR 0x00) name)
            in (n @ replicate (cap - length n) (CHR 0x00))[cap - 1 := CHR 0x00]))"

definition feature_bits :: "feature_flags \<Rightarrow> u32" where
  "feature_bits f =
     (let b = 0;
          b = (if ff_tma f then b OR push_bit 0 1 else b);
          b = (if ff_ilc f then b OR push_bit 1 1 else b);
          b = (if ff_dsm f then b OR push_bit 2 1 else b);
          b = (if ff_gds f then b OR push_bit 3 1 else b);
          b = (if ff_grdma f then b OR push_bit 4 1 else b);
          b = (if ff_clusters f then b OR push_bit 5 1 else b)
      in if ff_unified_native f then b OR push_bit 6 1 else b)"

definition device_info_of :: "nat \<Rightarrow> device_desc \<Rightarrow> device_info" where
  "device_info_of name_cap d = \<lparr>di_vendor = vendor_code (dd_vendor d), di_arch = arch_code (dd_arch d),
     di_name = strncpy_out name_cap (dd_name d), di_hbm_bytes = dd_hbm_capacity_bytes d,
     di_sm_count = dd_sm_count d, di_features_bits = feature_bits (dd_features d)\<rparr>"

definition nexusrt_firmware_device_desc :: "ptr \<Rightarrow> nat \<Rightarrow> 'p proc \<Rightarrow> int \<times> device_info option" where
  "nexusrt_firmware_device_desc ctx name_cap pr =
     (case lookup_handle (pr_reg pr) ctx of
        None \<Rightarrow> (status_code InvalidArgument, None)
      | Some sp \<Rightarrow> (0, Some (device_info_of name_cap (e_device (fw_env sp)))))"

definition nexusrt_firmware_fault_handler :: "ptr \<Rightarrow> u64 \<Rightarrow> int \<Rightarrow> 'p proc \<Rightarrow> (int \<times> unit \<times> 'p proc) option" where
  "nexusrt_firmware_fault_handler ctx faulting_addr timeout_ms pr =
     with_ctx ctx (\<lambda>pf fw. case fw_faults fw of None \<Rightarrow> None
       | Some fh \<Rightarrow> (let (s, env) = inject_fetch_hint pf faulting_addr 4096 (fw_env fw)
                    in Some (s, (), fw\<lparr>fw_env := env\<rparr>))) () pr"

text \<open>The cast to \<^verbatim>\<open>StreamClass\<close>, whose underlying type has 8 bits; a value without an
  enumerator gets no stream, as \<^verbatim>\<open>Control\<close> does.\<close>

definition stream_class_cast :: "i32 \<Rightarrow> stream_class" where
  "stream_class_cast n = (let k = unat (ucast n :: u8)
     in if k = 0 then Compute else if k = 1 then Dma else if k = 2 then Fence else Control)"

definition nexusrt_firmware_task_submit :: "ptr \<Rightarrow> string \<Rightarrow> string \<Rightarrow> u32 \<times> u32 \<times> u32 \<Rightarrow> u32 \<times> u32 \<times> u32 \<Rightarrow> u32
    \<Rightarrow> ptr list \<Rightarrow> i32 \<Rightarrow> i32 \<Rightarrow> 'p proc \<Rightarrow> (int \<times> unit \<times> 'p proc) option" where
  "nexusrt_firmware_task_submit ctx module_name function_name grid block smem args klass prio pr =
     with_ctx ctx (\<lambda>pf fw. case fw_mk fw of None \<Rightarrow> None
       | Some mk \<Rightarrow>
           (let (stream, mk1) = acquire_stream (stream_class_cast klass) (sint prio) mk
            in if sh_id stream = 0 then Some (OutOfMemory, (), fw\<lparr>fw_mk := Some mk1\<rparr>)
               else (let (s, env1) = mk_launch pf module_name function_name grid block smem stream args (fw_env fw) mk1;
                         (s2, env2) = (if ok s then mk_sync_stream pf stream env1 else (s, env1))
                     in Some (s2, (), fw\<lparr>fw_env := env2, fw_mk := Some (release_stream stream mk1)\<rparr>)))) () pr"

subsection \<open>Memory\<close>

definition hints_of_flags :: "u32 \<Rightarrow> alloc_hints" where
  "hints_of_flags flags = alloc_hints_default\<lparr>ah_ilc := flags AND 0x01 \<noteq> 0, ah_read_mostly := flags AND 0x02 \<noteq> 0,
     ah_pinned_host := flags AND 0x04 \<noteq> 0, ah_gds_readable := flags AND 0x08 \<noteq> 0, ah_grdma_visible := flags AND 0x10 \<noteq> 0\<rparr>"

definition nexusrt_mem_alloc :: "(u64 \<Rightarrow> u64) \<Rightarrow> ptr \<Rightarrow> u64 \<Rightarrow> u32 \<Rightarrow> 'p proc \<Rightarrow> (int \<times> ptr option \<times> 'p proc) option" where
  "nexusrt_mem_alloc clk ctx bytes flags pr =
     with_ctx ctx (\<lambda>pf fw. map_option (\<lambda>(s, a, st). (s, if ok s then Some (al_hbm_ptr a) else None, fw_put_memory fw st))
       (mm_alloc pf clk bytes (hints_of_flags flags) allocation_default (fw_memory fw))) None pr"

definition nexusrt_mem_free :: "ptr \<Rightarrow> ptr \<Rightarrow> 'p proc \<Rightarrow> (int \<times> unit \<times> 'p proc) option" where
  "nexusrt_mem_free ctx p pr =
     with_ctx ctx (\<lambda>pf fw. map_option (\<lambda>(s, st). (s, (), fw_put_memory fw st))
       (mm_free pf (allocation_default\<lparr>al_hbm_ptr := p\<rparr>) (fw_memory fw))) () pr"

definition nexusrt_mem_prefetch :: "ptr \<Rightarrow> ptr \<Rightarrow> u64 \<Rightarrow> 'p proc \<Rightarrow> (int \<times> unit \<times> 'p proc) option" where
  "nexusrt_mem_prefetch ctx p bytes pr =
     with_ctx ctx (\<lambda>pf fw. let (s, st) = mm_prefetch pf p bytes (fw_memory fw) in Some (s, (), fw_put_memory fw st)) () pr"

definition nexusrt_mem_advise_read_mostly :: "(u64 \<Rightarrow> u64) \<Rightarrow> ptr \<Rightarrow> ptr \<Rightarrow> u64 \<Rightarrow> 'p proc \<Rightarrow> (int \<times> unit \<times> 'p proc) option" where
  "nexusrt_mem_advise_read_mostly clk ctx p bytes pr =
     with_ctx ctx (\<lambda>pf fw. map_option (\<lambda>(s, st). (s, (), fw_put_memory fw st))
       (advise_read_mostly clk p bytes (fw_memory fw))) () pr"

subsection \<open>Scheduler\<close>

definition nexusrt_submit_stage :: "(string \<Rightarrow> u64 \<times> u64) \<Rightarrow> ptr \<Rightarrow> stage_contract \<Rightarrow> 'p proc \<Rightarrow> (int \<times> unit \<times> 'p proc) option" where
  "nexusrt_submit_stage clk ctx c pr =
     with_ctx ctx (\<lambda>pf fw.
       let (s, g) = add_stage (c\<lparr>sc_depends_on := [], sc_producer_warps := 0, sc_consumer_warps := 0\<rparr>) tg_create
       in if \<not> ok s
          then Some (s, (), fw\<lparr>fw_mk := map_option (tg_destroy g) (fw_mk fw)\<rparr>)
          else (case fw_mk fw of
                  None \<Rightarrow> (let s1 = fst (validate (e_device (fw_env fw)) g) in if ok s1 then None else Some (s1, (), fw))
                | Some mk \<Rightarrow>
                    (let (s2, env, mk2, g2) = tg_run pf clk (fw_env fw) mk g
                     in Some (s2, (), fw\<lparr>fw_env := env, fw_mk := Some (tg_destroy g2 mk2)\<rparr>)))) () pr"

definition nexusrt_wait_barrier :: "ptr \<Rightarrow> string \<Rightarrow> u32 \<Rightarrow> 'p proc \<Rightarrow> (int \<times> unit \<times> 'p proc) option" where
  "nexusrt_wait_barrier ctx stage_name timeout_ms pr =
     with_ctx ctx (\<lambda>pf fw. case fw_mk fw of None \<Rightarrow> None
       | Some mk \<Rightarrow> (let (s, env) = sync_all pf (fw_env fw) mk in Some (s, (), fw\<lparr>fw_env := env\<rparr>))) () pr"

definition nexusrt_stream_overlap :: "ptr \<Rightarrow> string \<Rightarrow> string \<Rightarrow> i32 \<Rightarrow> 'p proc \<Rightarrow> int" where
  "nexusrt_stream_overlap ctx a b enable pr =
     (if lookup_handle (pr_reg pr) ctx = None then status_code InvalidArgument else 0)"

subsection \<open>Token optimisation\<close>

fun mask_budget :: "u32 \<Rightarrow> icm_layer list \<Rightarrow> context_scope \<Rightarrow> u64 \<Rightarrow> u64" where
  "mask_budget m [] cs budget = budget"
| "mask_budget m (l # ls) cs budget =
     mask_budget m ls cs (if m AND push_bit (layer_index l) 1 \<noteq> 0
                             then budget + ucast (ls_max_tokens (layer l cs)) else budget)"

definition nexusrt_context_scope :: "ptr \<Rightarrow> u32 \<Rightarrow> 'p proc \<Rightarrow> int \<times> u64 option" where
  "nexusrt_context_scope ctx layer_mask pr =
     (case lookup_handle (pr_reg pr) ctx of
        None \<Rightarrow> (status_code InvalidArgument, None)
      | Some sp \<Rightarrow> (0, Some (mask_budget layer_mask [L0_system, L1_persona, L2_instructions, L3_reference, L4_working] cs_create 0)))"

definition nexusrt_prefetch_attention :: "ptr \<Rightarrow> ptr \<Rightarrow> u64 \<Rightarrow> (nat \<Rightarrow> u32) \<Rightarrow> 'p proc \<Rightarrow> (int \<times> unit \<times> 'p proc) option" where
  "nexusrt_prefetch_attention ctx kv n_slots topk pr =
     with_ctx ctx (\<lambda>pf fw.
       let scope = bind_kv_cache kv (n_slots * 4096) (ucast n_slots) cs_create;
           k = unat (min n_slots 32)
       in case fw_faults fw of
            None \<Rightarrow> if kv = 0 \<or> list_all (\<lambda>i. \<not> ucast i * 4096 < n_slots * 4096) (map topk [0..<k])
                    then Some (fst (prefetch_attention pf (map topk [0..<k]) scope (fw_env fw)), (), fw) else None
          | Some fh \<Rightarrow> (let (s, env) = prefetch_attention pf (map topk [0..<k]) scope (fw_env fw)
                        in Some (s, (), fw\<lparr>fw_env := env\<rparr>))) () pr"

definition nexusrt_token_prune :: "ptr \<Rightarrow> ptr \<Rightarrow> u32 \<Rightarrow> 'p proc \<Rightarrow> int" where
  "nexusrt_token_prune ctx kv max_resident pr =
     (case lookup_handle (pr_reg pr) ctx of
        None \<Rightarrow> status_code InvalidArgument
      | Some sp \<Rightarrow> status_code (fst (cs_prune max_resident
                    (bind_kv_cache kv (ucast max_resident * 4096) max_resident cs_create))))"

subsection \<open>Diagnostics\<close>

definition nexusrt_version :: "int \<times> int \<times> int" where
  "nexusrt_version = (0, 1, 0)"

definition metrics_text :: string where
  "metrics_text = ''{\"status\":\"not_implemented\"}''"

function metrics_copy :: "nat \<Rightarrow> nat \<Rightarrow> string \<Rightarrow> string" where
  "metrics_copy cap i buf =
     (if i + 1 < cap \<and> i < length metrics_text then metrics_copy cap (i + 1) (buf[i := metrics_text ! i])
      else buf[i := CHR 0x00])"
  by pat_completeness auto
termination by (relation "measure (\<lambda>(cap, i, buf). cap - i)") auto

declare metrics_copy.simps [simp del]

text \<open>The handle is a parameter without a name in the code: nothing looks it up.\<close>

definition nexusrt_metrics_dump :: "ptr \<Rightarrow> string option \<Rightarrow> nat \<Rightarrow> int \<times> string option" where
  "nexusrt_metrics_dump ctx out_json cap =
     (case out_json of
        None \<Rightarrow> (-1, None)
      | Some buf \<Rightarrow> if cap = 0 then (-1, Some buf) else (0, Some (metrics_copy cap 0 buf)))"

subsection \<open>Calls as data\<close>

datatype abi_call =
    Firmware_init "string option" ptr
  | Firmware_shutdown ptr
  | Firmware_device_desc ptr nat
  | Firmware_fault_handler ptr u64 int
  | Firmware_task_submit ptr string string "u32 \<times> u32 \<times> u32" "u32 \<times> u32 \<times> u32" u32 "ptr list" i32 i32
  | Mem_alloc ptr u64 u32
  | Mem_free ptr ptr
  | Mem_prefetch ptr ptr u64
  | Mem_advise_read_mostly ptr ptr u64
  | Submit_stage ptr stage_contract
  | Wait_barrier ptr string u32
  | Stream_overlap ptr string string i32
  | Context_scope ptr u32
  | Prefetch_attention ptr ptr u64 "nat \<Rightarrow> u32"
  | Token_prune ptr ptr u32
  | Version
  | Metrics_dump ptr "string option" nat

record clocks =
  ck_boot :: "nat \<Rightarrow> u64"
  ck_page :: "u64 \<Rightarrow> u64"
  ck_stage :: "string \<Rightarrow> u64 \<times> u64"

abbreviation code_state :: "(int \<times> 'a \<times> 'p proc) option \<Rightarrow> (int \<times> 'p proc) option" where
  "code_state r \<equiv> map_option (\<lambda>(c, x, pr). (c, pr)) r"

fun abi_exec :: "clocks \<Rightarrow> abi_call \<Rightarrow> 'p proc \<Rightarrow> (int \<times> 'p proc) option" where
  "abi_exec ck (Firmware_init profile addr) pr =
     (let (c, h, pr') = nexusrt_firmware_init (ck_boot ck) profile addr pr in Some (c, pr'))"
| "abi_exec ck (Firmware_shutdown ctx) pr = Some (nexusrt_firmware_shutdown ctx pr)"
| "abi_exec ck (Firmware_device_desc ctx cap) pr = Some (fst (nexusrt_firmware_device_desc ctx cap pr), pr)"
| "abi_exec ck (Firmware_fault_handler ctx a t) pr = code_state (nexusrt_firmware_fault_handler ctx a t pr)"
| "abi_exec ck (Firmware_task_submit ctx m f g b sm args k prio) pr =
     code_state (nexusrt_firmware_task_submit ctx m f g b sm args k prio pr)"
| "abi_exec ck (Mem_alloc ctx n fl) pr = code_state (nexusrt_mem_alloc (ck_page ck) ctx n fl pr)"
| "abi_exec ck (Mem_free ctx p) pr = code_state (nexusrt_mem_free ctx p pr)"
| "abi_exec ck (Mem_prefetch ctx p n) pr = code_state (nexusrt_mem_prefetch ctx p n pr)"
| "abi_exec ck (Mem_advise_read_mostly ctx p n) pr = code_state (nexusrt_mem_advise_read_mostly (ck_page ck) ctx p n pr)"
| "abi_exec ck (Submit_stage ctx c) pr = code_state (nexusrt_submit_stage (ck_stage ck) ctx c pr)"
| "abi_exec ck (Wait_barrier ctx nm t) pr = code_state (nexusrt_wait_barrier ctx nm t pr)"
| "abi_exec ck (Stream_overlap ctx a b e) pr = Some (nexusrt_stream_overlap ctx a b e pr, pr)"
| "abi_exec ck (Context_scope ctx m) pr = Some (fst (nexusrt_context_scope ctx m pr), pr)"
| "abi_exec ck (Prefetch_attention ctx kv n topk) pr = code_state (nexusrt_prefetch_attention ctx kv n topk pr)"
| "abi_exec ck (Token_prune ctx kv m) pr = Some (nexusrt_token_prune ctx kv m pr, pr)"
| "abi_exec ck Version pr = Some (0, pr)"
| "abi_exec ck (Metrics_dump ctx out cap) pr = Some (fst (nexusrt_metrics_dump ctx out cap), pr)"

text \<open>The handle a call looks up; \<^verbatim>\<open>nexusrt_metrics_dump\<close> takes one and looks nothing up.\<close>

fun handle_of :: "abi_call \<Rightarrow> ptr option" where
  "handle_of (Firmware_shutdown h) = Some h"
| "handle_of (Firmware_device_desc h _) = Some h"
| "handle_of (Firmware_fault_handler h _ _) = Some h"
| "handle_of (Firmware_task_submit h _ _ _ _ _ _ _ _) = Some h"
| "handle_of (Mem_alloc h _ _) = Some h"
| "handle_of (Mem_free h _) = Some h"
| "handle_of (Mem_prefetch h _ _) = Some h"
| "handle_of (Mem_advise_read_mostly h _ _) = Some h"
| "handle_of (Submit_stage h _) = Some h"
| "handle_of (Wait_barrier h _ _) = Some h"
| "handle_of (Stream_overlap h _ _ _) = Some h"
| "handle_of (Context_scope h _) = Some h"
| "handle_of (Prefetch_attention h _ _ _) = Some h"
| "handle_of (Token_prune h _ _) = Some h"
| "handle_of _ = None"

text \<open>The processes a client reaches: the handle of a new context is its address, so it is not
  null and not that of a context still registered.\<close>

definition fresh_handle :: "abi_call \<Rightarrow> 'p proc \<Rightarrow> bool" where
  "fresh_handle c pr = (case c of Firmware_init _ a \<Rightarrow> a \<noteq> 0 \<and> lookup_handle (pr_reg pr) a = None | _ \<Rightarrow> True)"

inductive abi_reach :: "clocks \<Rightarrow> 'p proc \<Rightarrow> bool" for ck where
  start: "pr_reg pr = [] \<Longrightarrow> abi_reach ck pr"
| call: "abi_reach ck pr \<Longrightarrow> fresh_handle c pr \<Longrightarrow> abi_exec ck c pr = Some (code, pr') \<Longrightarrow> abi_reach ck pr'"

subsection \<open>The invariant of registered contexts\<close>

definition fw_ok :: "'p fw \<Rightarrow> bool" where
  "fw_ok fw = ((case fw_mk fw of None \<Rightarrow> False
       | Some mk \<Rightarrow> mk_inv mk \<and> mk_modules mk = [] \<and> length (mk_free_compute mk) = 8 \<and> length (mk_free_dma mk) = 4
           \<and> length (mk_free_fence mk) \<le> 1)
     \<and> fw_dma fw \<noteq> None \<and> fw_faults fw \<noteq> None
     \<and> (case fw_mem fw of None \<Rightarrow> True | Some m \<Rightarrow> pt_inv (mm_pt m)))"

definition proc_ok :: "'p proc \<Rightarrow> bool" where
  "proc_ok pr = (\<forall>h fw. lookup_handle (pr_reg pr) h = Some fw \<longrightarrow> fw_ok fw)"

lemma fw_ok_frame [simp]: "fw_ok (fw\<lparr>fw_env := env\<rparr>) = fw_ok fw" "fw_ok (hw_in hw fw) = fw_ok fw"
  by (simp_all add: fw_ok_def hw_in_def)

lemma fw_okD: "fw_ok fw \<Longrightarrow> \<exists>mk. fw_mk fw = Some mk \<and> mk_inv mk \<and> mk_modules mk = [] \<and> length (mk_free_compute mk) = 8
    \<and> length (mk_free_dma mk) = 4 \<and> length (mk_free_fence mk) \<le> 1"
  by (cases "fw_mk fw") (simp_all add: fw_ok_def)

lemma fw_put_same: "fw_mk fw = Some mk \<Longrightarrow> fw\<lparr>fw_env := e, fw_mk := Some mk\<rparr> = fw\<lparr>fw_env := e\<rparr>"
  "fw_mk fw = Some mk \<Longrightarrow> fw\<lparr>fw_mk := Some mk\<rparr> = fw"
  by (cases fw; simp)+

lemma fw_memory_inv: "fw_ok fw \<Longrightarrow> pt_inv (mm_pt (ms_mm (fw_memory fw)))"
  by (auto simp: fw_ok_def fw_memory_def mm_create_def pt_inv_create split: option.splits)

lemma fw_put_memory_ok: "fw_ok fw \<Longrightarrow> pt_inv (mm_pt (ms_mm st)) \<Longrightarrow> fw_ok (fw_put_memory fw st)"
  by (simp add: fw_ok_def fw_put_memory_def)

lemma with_ctx_ok:
  assumes ok: "proc_ok pr"
    and f: "\<And>pf fw. fw_ok fw \<Longrightarrow> \<exists>s x fw'. f pf fw = Some (s, x, fw') \<and> fw_ok fw'"
  shows "\<exists>c x pr'. with_ctx ctx f d pr = Some (c, x, pr') \<and> proc_ok pr'"
proof (cases "lookup_handle (pr_reg pr) ctx")
  case None
  then show ?thesis using ok by (simp add: with_ctx_def)
next
  case (Some sp)
  obtain pf disp hw where b: "dispatch_backend (pr_dispatch pr) (pr_hw pr) = (pf, disp, hw)" using prod_cases3 by blast
  have "fw_ok (hw_in hw sp)" using ok Some by (simp add: proc_ok_def)
  from f [OF this, of pf] obtain s x fw' where "f pf (hw_in hw sp) = Some (s, x, fw')" "fw_ok fw'" by blast
  then show ?thesis using ok Some b by (simp add: with_ctx_def proc_ok_def hm.find_register)
qed

lemma with_ctx_unknown: "lookup_handle (pr_reg pr) ctx = None \<Longrightarrow> with_ctx ctx f d pr = Some (-1, d, pr)"
  by (simp add: with_ctx_def status_code_def)

lemma code_state_ok: "\<exists>c x pr'. r = Some (c, x, pr') \<and> proc_ok pr' \<Longrightarrow> \<exists>c pr'. code_state r = Some (c, pr') \<and> proc_ok pr'"
  by force

lemma mm_alloc_pt:
  assumes "pt_inv (mm_pt (ms_mm st))"
  shows "\<exists>s a st'. mm_alloc pf clk bytes hints out st = Some (s, a, st') \<and> pt_inv (mm_pt (ms_mm st'))"
  using assms
  by (cases rule: mm_alloc_cases [OF pt_invD(1) [OF assms], where pf = pf and clk = clk and bytes = bytes and hints = hints and out = out])
    (auto simp: alloc_pt_inv)

lemma mm_free_pt:
  assumes "pt_inv (mm_pt (ms_mm st))"
  shows "\<exists>s st'. mm_free pf a st = Some (s, st') \<and> pt_inv (mm_pt (ms_mm st'))"
  using assms
  by (cases rule: mm_free_cases [OF pt_invD(1) [OF assms], where pf = pf and a = a]) (auto simp: pt_unmap_inv)

lemma advise_pt:
  assumes "pt_inv (mm_pt (ms_mm st))"
  shows "\<exists>s st'. advise_read_mostly clk p n st = Some (s, st') \<and> pt_inv (mm_pt (ms_mm st'))"
  using assms advise_eq [OF pt_invD(1) [OF assms], of clk p n] by (auto simp: pt_map_inv)

lemma fault_ok:
  "proc_ok pr \<Longrightarrow> \<exists>c x pr'. nexusrt_firmware_fault_handler ctx a t pr = Some (c, x, pr') \<and> proc_ok pr'"
  unfolding nexusrt_firmware_fault_handler_def
  by (rule with_ctx_ok) (auto simp: fw_ok_def split: prod.split)

lemma task_submit_ok:
  "proc_ok pr \<Longrightarrow> \<exists>c x pr'. nexusrt_firmware_task_submit ctx m f g b sm args k prio pr = Some (c, x, pr') \<and> proc_ok pr'"
  unfolding nexusrt_firmware_task_submit_def
proof (rule with_ctx_ok, assumption)
  fix pf and fw :: "'a fw"
  assume ok: "fw_ok fw"
  then obtain mk where mk: "fw_mk fw = Some mk" "mk_inv mk" using fw_okD by blast
  obtain sh mk1 where a: "acquire_stream (stream_class_cast k) (sint prio) mk = (sh, mk1)" by force
  have r: "release_stream sh mk1 = mk" by (rule mkp.acquire_release [OF mk(2) a])
  have z: "sh_id sh = 0 \<Longrightarrow> mk1 = mk" using acquire_zero [OF mk(2) a] .
  note same = fw_put_same [OF mk(1)]
  show "\<exists>s x fw'. (case fw_mk fw of None \<Rightarrow> None
       | Some mk \<Rightarrow>
           (let (stream, mk1) = acquire_stream (stream_class_cast k) (sint prio) mk
            in if sh_id stream = 0 then Some (OutOfMemory, (), fw\<lparr>fw_mk := Some mk1\<rparr>)
               else (let (s, env1) = mk_launch pf m f g b sm stream args (fw_env fw) mk1;
                         (s2, env2) = (if ok s then mk_sync_stream pf stream env1 else (s, env1))
                     in Some (s2, (), fw\<lparr>fw_env := env2, fw_mk := Some (release_stream stream mk1)\<rparr>))))
     = Some (s, x, fw') \<and> fw_ok fw'"
    using ok z by (cases "sh_id sh = 0") (auto simp: mk a r same split: prod.split)
qed

lemma mem_alloc_ok:
  "proc_ok pr \<Longrightarrow> \<exists>c x pr'. nexusrt_mem_alloc clk ctx n fl pr = Some (c, x, pr') \<and> proc_ok pr'"
  unfolding nexusrt_mem_alloc_def
proof (rule with_ctx_ok, assumption)
  fix pf and fw :: "'a fw"
  assume ok: "fw_ok fw"
  obtain s a st where "mm_alloc pf clk n (hints_of_flags fl) allocation_default (fw_memory fw) = Some (s, a, st)"
    "pt_inv (mm_pt (ms_mm st))" using mm_alloc_pt [OF fw_memory_inv [OF ok]] by blast
  then show "\<exists>s x fw'. map_option (\<lambda>(s, a, st). (s, if ok s then Some (al_hbm_ptr a) else None, fw_put_memory fw st))
       (mm_alloc pf clk n (hints_of_flags fl) allocation_default (fw_memory fw)) = Some (s, x, fw') \<and> fw_ok fw'"
    using fw_put_memory_ok [OF ok] by simp
qed

lemma mem_free_ok:
  "proc_ok pr \<Longrightarrow> \<exists>c x pr'. nexusrt_mem_free ctx p pr = Some (c, x, pr') \<and> proc_ok pr'"
  unfolding nexusrt_mem_free_def
proof (rule with_ctx_ok, assumption)
  fix pf and fw :: "'a fw"
  assume ok: "fw_ok fw"
  obtain s st where "mm_free pf (allocation_default\<lparr>al_hbm_ptr := p\<rparr>) (fw_memory fw) = Some (s, st)"
    "pt_inv (mm_pt (ms_mm st))" using mm_free_pt [OF fw_memory_inv [OF ok]] by blast
  then show "\<exists>s x fw'. map_option (\<lambda>(s, st). (s, (), fw_put_memory fw st))
       (mm_free pf (allocation_default\<lparr>al_hbm_ptr := p\<rparr>) (fw_memory fw)) = Some (s, x, fw') \<and> fw_ok fw'"
    using fw_put_memory_ok [OF ok] by simp
qed

lemma mem_prefetch_ok:
  "proc_ok pr \<Longrightarrow> \<exists>c x pr'. nexusrt_mem_prefetch ctx p n pr = Some (c, x, pr') \<and> proc_ok pr'"
  unfolding nexusrt_mem_prefetch_def
  by (rule with_ctx_ok) (auto simp: mm_prefetch_def fw_memory_inv fw_put_memory_ok split: prod.split)

lemma mem_advise_ok:
  "proc_ok pr \<Longrightarrow> \<exists>c x pr'. nexusrt_mem_advise_read_mostly clk ctx p n pr = Some (c, x, pr') \<and> proc_ok pr'"
  unfolding nexusrt_mem_advise_read_mostly_def
proof (rule with_ctx_ok, assumption)
  fix pf and fw :: "'a fw"
  assume ok: "fw_ok fw"
  obtain s st where "advise_read_mostly clk p n (fw_memory fw) = Some (s, st)"
    "pt_inv (mm_pt (ms_mm st))" using advise_pt [OF fw_memory_inv [OF ok]] by blast
  then show "\<exists>s x fw'. map_option (\<lambda>(s, st). (s, (), fw_put_memory fw st)) (advise_read_mostly clk p n (fw_memory fw))
      = Some (s, x, fw') \<and> fw_ok fw'"
    using fw_put_memory_ok [OF ok] by simp
qed

lemma wait_barrier_ok:
  "proc_ok pr \<Longrightarrow> \<exists>c x pr'. nexusrt_wait_barrier ctx nm t pr = Some (c, x, pr') \<and> proc_ok pr'"
  unfolding nexusrt_wait_barrier_def
  by (rule with_ctx_ok) (auto simp: fw_ok_def split: prod.split option.splits)

lemma prefetch_attention_ok:
  "proc_ok pr \<Longrightarrow> \<exists>c x pr'. nexusrt_prefetch_attention ctx kv n topk pr = Some (c, x, pr') \<and> proc_ok pr'"
  unfolding nexusrt_prefetch_attention_def Let_def
  by (rule with_ctx_ok) (auto simp: fw_ok_def split: prod.split option.splits)

lemma add_stage_ordered: "add_stage c tg_create = (s, g) \<Longrightarrow> ordered (tg_nodes g) \<and> tg_inv d g"
  using add_stage_inv [OF tg_inv_create, of d c]
  by (auto simp: add_stage_def tg_create_def ordered_def stage_node_new_def split: if_splits)

lemma submit_stage_ok:
  "proc_ok pr \<Longrightarrow> \<exists>c x pr'. nexusrt_submit_stage clk ctx sc pr = Some (c, x, pr') \<and> proc_ok pr'"
  unfolding nexusrt_submit_stage_def
proof (rule with_ctx_ok, assumption)
  fix pf and fw :: "'a fw"
  assume ok: "fw_ok fw"
  then obtain mk where mk: "fw_mk fw = Some mk" "mk_inv mk" using fw_okD by blast
  obtain s g where a: "add_stage (sc\<lparr>sc_depends_on := [], sc_producer_warps := 0, sc_consumer_warps := 0\<rparr>) tg_create = (s, g)" by force
  obtain s2 env mk2 g2 where r: "tg_run pf clk (fw_env fw) mk g = (s2, env, mk2, g2)" using prod_cases4 by blast
  have o: "ordered (tg_nodes g)" "tg_inv (e_device (fw_env fw)) g" using add_stage_ordered [OF a] by blast+
  have "mk2 = mk" using tg_run_safe [OF o(2) mk(2) o(1) r] by blast
  then show "\<exists>s x fw'. (let (s, g) = add_stage (sc\<lparr>sc_depends_on := [], sc_producer_warps := 0, sc_consumer_warps := 0\<rparr>) tg_create
       in if \<not> ok s
          then Some (s, (), fw\<lparr>fw_mk := map_option (tg_destroy g) (fw_mk fw)\<rparr>)
          else (case fw_mk fw of
                  None \<Rightarrow> (let s1 = fst (validate (e_device (fw_env fw)) g) in if ok s1 then None else Some (s1, (), fw))
                | Some mk \<Rightarrow>
                    (let (s2, env, mk2, g2) = tg_run pf clk (fw_env fw) mk g
                     in Some (s2, (), fw\<lparr>fw_env := env, fw_mk := Some (tg_destroy g2 mk2)\<rparr>)))) = Some (s, x, fw') \<and> fw_ok fw'"
    using ok by (simp add: a r mk tg_destroy_noop fw_put_same [OF mk(1)])
qed

lemma init_ok:
  assumes "proc_ok pr" and "nexusrt_firmware_init clk profile addr pr = (c, h, pr')"
  shows "proc_ok pr'"
proof -
  let ?opts = "case profile of None \<Rightarrow> boot_options_default | Some p \<Rightarrow> boot_options_default\<lparr>bo_profile := p\<rparr>"
  obtain r ev disp hw where b: "boot clk ?opts (pr_dispatch pr) (pr_hw pr) = (r, ev, disp, hw)" using prod_cases4 by blast
  have o: "bo_stream_pool_compute ?opts = 8" "bo_stream_pool_dma ?opts = 4"
    by (simp_all add: boot_options_default_def split: option.split)
  show ?thesis
  proof (cases "\<exists>cx. br_ctx r = Some cx \<and> br_status r = Ok")
    case True
    then obtain cx where cx: "br_ctx r = Some cx" "br_status r = Ok" by blast
    have "fw_ready (br_device r) ?opts cx" using booted_ready [OF b cx(2)] cx(1) by simp
    then have "fw_ok cx" using o by (auto simp: fw_ready_def fw_ok_def split: option.splits)
    moreover have "pr' = pr\<lparr>pr_dispatch := disp, pr_hw := hw, pr_reg := register_handle addr cx (pr_reg pr)\<rparr>"
      using assms(2) b cx by (simp add: nexusrt_firmware_init_def)
    ultimately show ?thesis using assms(1) by (simp add: proc_ok_def hm.find_register)
  next
    case False
    obtain pf2 disp2 hw2 where b2: "dispatch_backend disp hw = (pf2, disp2, hw2)" using prod_cases3 by blast
    have "pr_reg pr' = pr_reg pr"
    proof (cases "br_ctx r")
      case None
      then show ?thesis using assms(2) b by (auto simp: nexusrt_firmware_init_def)
    next
      case (Some cx)
      then have "br_status r \<noteq> Ok" using False by blast
      then show ?thesis using assms(2) b b2 Some by (auto simp: nexusrt_firmware_init_def)
    qed
    then show ?thesis using assms(1) by (simp add: proc_ok_def)
  qed
qed

lemma shutdown_reg:
  assumes "nexusrt_firmware_shutdown h pr = (c, pr')"
  shows "pr' = pr \<and> c = -1 \<or> pr_reg pr' = snd (take_handle h (pr_reg pr)) \<and> lookup_handle (pr_reg pr) h \<noteq> None \<and> h \<noteq> 0"
  using assms hm.take_found [of h "pr_reg pr"]
  by (auto simp: nexusrt_firmware_shutdown_def status_code_def split: if_splits prod.splits option.splits)

lemma shutdown_ok:
  assumes "proc_ok pr" and "nexusrt_firmware_shutdown h pr = (c, pr')"
  shows "proc_ok pr'"
  using shutdown_reg [OF assms(2)] assms(1) by (auto simp: proc_ok_def hm.find_take split: if_splits)

lemma abi_exec_ok:
  assumes ok: "proc_ok pr"
  shows "\<exists>code pr'. abi_exec ck c pr = Some (code, pr') \<and> proc_ok pr'"
proof (cases c)
  case (Firmware_init profile addr)
  obtain c' h' p' where r: "nexusrt_firmware_init (ck_boot ck) profile addr pr = (c', h', p')" using prod_cases3 by blast
  show ?thesis using init_ok [OF ok r] by (simp add: Firmware_init r)
next
  case (Firmware_shutdown h)
  obtain c' p' where r: "nexusrt_firmware_shutdown h pr = (c', p')" by force
  show ?thesis using shutdown_ok [OF ok r] by (simp add: Firmware_shutdown r)
next
  case (Firmware_fault_handler h a t)
  then show ?thesis using code_state_ok [OF fault_ok [OF ok]] by simp
next
  case (Firmware_task_submit h m f g b sm args k prio)
  then show ?thesis using code_state_ok [OF task_submit_ok [OF ok]] by simp
next
  case (Mem_alloc h n fl)
  then show ?thesis using code_state_ok [OF mem_alloc_ok [OF ok]] by simp
next
  case (Mem_free h p)
  then show ?thesis using code_state_ok [OF mem_free_ok [OF ok]] by simp
next
  case (Mem_prefetch h p n)
  then show ?thesis using code_state_ok [OF mem_prefetch_ok [OF ok]] by simp
next
  case (Mem_advise_read_mostly h p n)
  then show ?thesis using code_state_ok [OF mem_advise_ok [OF ok]] by simp
next
  case (Submit_stage h st)
  then show ?thesis using code_state_ok [OF submit_stage_ok [OF ok]] by simp
next
  case (Wait_barrier h nm t)
  then show ?thesis using code_state_ok [OF wait_barrier_ok [OF ok]] by simp
next
  case (Prefetch_attention h kv n topk)
  then show ?thesis using code_state_ok [OF prefetch_attention_ok [OF ok]] by simp
qed (use ok in simp_all)

lemma abi_reach_ok: "abi_reach ck pr \<Longrightarrow> proc_ok pr"
proof (induction rule: abi_reach.induct)
  case (start pr)
  then show ?case by (simp add: proc_ok_def lookup_handle_def)
next
  case (call pr c code pr')
  then show ?case using abi_exec_ok [OF call.IH, of ck c] by auto
qed

subsection \<open>What the interface promises\<close>

lemma device_desc_unknown: "lookup_handle (pr_reg pr) h = None \<Longrightarrow> nexusrt_firmware_device_desc h n pr = (-1, None)"
  by (simp add: nexusrt_firmware_device_desc_def status_code_def)

lemma unknown_exec:
  assumes "handle_of c = Some h" and "lookup_handle (pr_reg pr) h = None"
  shows "abi_exec ck c pr = Some (-1, pr)"
  using assms
  by (cases c) (simp_all add: nexusrt_firmware_shutdown_def take_handle_def lookup_handle_def [symmetric]
      device_desc_unknown nexusrt_firmware_fault_handler_def nexusrt_firmware_task_submit_def
      nexusrt_mem_alloc_def nexusrt_mem_free_def nexusrt_mem_prefetch_def nexusrt_mem_advise_read_mostly_def
      nexusrt_submit_stage_def nexusrt_wait_barrier_def nexusrt_stream_overlap_def nexusrt_context_scope_def
      nexusrt_prefetch_attention_def nexusrt_token_prune_def with_ctx_unknown status_code_def)

lemma shutdown_known:
  assumes "nexusrt_firmware_shutdown h pr = (c, pr')" and "lookup_handle (pr_reg pr) h \<noteq> None" and "h \<noteq> 0"
  shows "pr_reg pr' = snd (take_handle h (pr_reg pr))"
  using assms by (auto simp: nexusrt_firmware_shutdown_def take_handle_def lookup_handle_def Let_def split: prod.splits option.splits)

text \<open>C24: A handle that is not registered is inert.  In every process, each call that looks its
  handle up, and finds that it is not registered, answers -1 and changes neither the device nor
  any context.  A successful lookup in \<open>nexusrt_firmware_shutdown\<close> takes out that handle and no
  other, whether or not the shutdown itself succeeds, so a second shutdown, a use after shutdown
  and a free through a stale handle are all refused.  The one call that takes a handle and is not
  refused is \<open>nexusrt_metrics_dump\<close>, which never looks it up: it answers 0 for any handle, once it
  has a buffer, and changes nothing either.\<close>

theorem stale_handle_inert:
  "(\<forall>c h. handle_of c = Some h \<longrightarrow> lookup_handle (pr_reg pr) h = None \<longrightarrow> abi_exec ck c pr = Some (-1, pr))
    \<and> (\<forall>h code pr'. nexusrt_firmware_shutdown h pr = (code, pr') \<longrightarrow> h \<noteq> 0 \<longrightarrow> lookup_handle (pr_reg pr) h \<noteq> None
        \<longrightarrow> (\<forall>k. lookup_handle (pr_reg pr') k = (if k = h then None else lookup_handle (pr_reg pr) k)))
    \<and> (\<forall>h out cap. abi_exec ck (Metrics_dump h out cap) pr = Some (if out = None \<or> cap = 0 then -1 else 0, pr))"
proof (intro conjI allI impI)
  fix h out cap
  show "abi_exec ck (Metrics_dump h out cap) pr = Some (if out = None \<or> cap = 0 then -1 else 0, pr)"
    by (simp add: nexusrt_metrics_dump_def split: option.split)
qed (simp_all add: unknown_exec shutdown_known hm.find_take)

definition sim_proc :: "u64 proc" where
  "sim_proc = \<lparr>pr_dispatch = sim_dispatch, pr_hw = 1, pr_reg = []\<rparr>"

lemma sim_reg: "pr_reg sim_proc = []"
  by (simp add: sim_proc_def)

lemma sim_init: "\<exists>c pr'. nexusrt_firmware_init clk None 16 sim_proc = (0, Some 16, pr')
    \<and> lookup_handle (pr_reg pr') 16 = Some c \<and> fw_ready (e_device sim_env) boot_options_default c"
proof -
  obtain c ev disp' hw' where b: "boot clk boot_options_default sim_dispatch 1 =
    (\<lparr>br_status = Ok, br_device = e_device sim_env, br_events = [], br_ctx = Some c\<rparr>, ev, disp', hw')"
    using sim_boot by blast
  have "fw_ready (e_device sim_env) boot_options_default c" using booted_ready [OF b] by simp
  then show ?thesis by (simp add: nexusrt_firmware_init_def sim_proc_def b hm.find_register)
qed

lemma sim_reach: "\<exists>c pr'. abi_reach ck pr' \<and> nexusrt_firmware_init (ck_boot ck) None 16 sim_proc = (0, Some 16, pr')
    \<and> lookup_handle (pr_reg pr') 16 = Some c \<and> fw_ready (e_device sim_env) boot_options_default c"
proof -
  obtain c pr' where i: "nexusrt_firmware_init (ck_boot ck) None 16 sim_proc = (0, Some 16, pr')"
    "lookup_handle (pr_reg pr') 16 = Some c" "fw_ready (e_device sim_env) boot_options_default c"
    using sim_init by blast
  have "abi_reach ck pr'"
    by (rule abi_reach.call [where c = "Firmware_init None 16" and code = 0, OF abi_reach.start [where pr = sim_proc]])
      (simp_all add: fresh_handle_def lookup_handle_def i(1) sim_reg)
  with i show ?thesis by blast
qed

theorem stale_handle_inert_witness:
  "\<exists>(pr :: u64 proc) code pr'. lookup_handle (pr_reg pr) 16 \<noteq> None \<and> nexusrt_firmware_shutdown 16 pr = (code, pr')
    \<and> lookup_handle (pr_reg pr') 16 = None
    \<and> abi_exec \<lparr>ck_boot = (\<lambda>_. 0), ck_page = (\<lambda>_. 0), ck_stage = (\<lambda>_. (0, 0))\<rparr> (Mem_free 16 4096) pr' = Some (-1, pr')"
proof -
  let ?ck = "\<lparr>ck_boot = (\<lambda>_. 0), ck_page = (\<lambda>_. 0), ck_stage = (\<lambda>_. (0, 0))\<rparr>"
  obtain c and pr :: "u64 proc" where l: "lookup_handle (pr_reg pr) 16 = Some c" using sim_init by blast
  obtain code pr' where s: "nexusrt_firmware_shutdown 16 pr = (code, pr')" by force
  have "lookup_handle (pr_reg pr') 16 = None"
    using stale_handle_inert [THEN conjunct2, THEN conjunct1, rule_format, OF s] l by simp
  then show ?thesis
    using stale_handle_inert [THEN conjunct1, rule_format, of "Mem_free 16 4096" 16 pr' ?ck] s l by auto
qed

subsection \<open>Memory through the interface\<close>

definition ctx_memory :: "ptr \<Rightarrow> 'p proc \<Rightarrow> mem_mgr option" where
  "ctx_memory h pr = map_option (\<lambda>fw. ms_mm (fw_memory fw)) (lookup_handle (pr_reg pr) h)"

definition ctx_ilc :: "ptr \<Rightarrow> 'p proc \<Rightarrow> ilc option" where
  "ctx_ilc h pr = Option.bind (lookup_handle (pr_reg pr) h) fw_ilc"

lemma with_ctxE:
  assumes "with_ctx h f d pr = Some (c, x, pr')" and "lookup_handle (pr_reg pr) h = Some fw"
  obtains pf disp hw s fw' where "dispatch_backend (pr_dispatch pr) (pr_hw pr) = (pf, disp, hw)"
    "f pf (hw_in hw fw) = Some (s, x, fw')" "c = status_code s"
    "lookup_handle (pr_reg pr') h = Some fw'" "pr_hw pr' = e_hw (fw_env fw')"
proof -
  obtain pf disp hw where d: "dispatch_backend (pr_dispatch pr) (pr_hw pr) = (pf, disp, hw)" using prod_cases3 by blast
  show ?thesis using assms d that [of pf disp hw]
    by (auto simp: with_ctx_def hm.find_register split: prod.splits)
qed

lemma fw_memory_put [simp]: "fw_memory (fw_put_memory fw st) = st" "fw_ilc (fw_put_memory fw st) = ms_ilc st"
  by (simp_all add: fw_memory_def fw_put_memory_def)

lemma fw_memory_hw [simp]: "ms_mm (fw_memory (hw_in hw fw)) = ms_mm (fw_memory fw)"
  "ms_ilc (fw_memory fw) = fw_ilc fw" "fw_ilc (hw_in hw fw) = fw_ilc fw"
  by (simp_all add: fw_memory_def hw_in_def mm_create_def pt_create_def split: option.split)

lemma code_zero: "status_code s = 0 \<longleftrightarrow> s = Ok"
  using status_code_inject [of s Ok] by (simp add: status_code_def)

lemma pt_unmap_nothing: "pt_valid_kb pt \<Longrightarrow> pt_unmap pt 0 0 = pt"
proof -
  assume kb: "pt_valid_kb pt"
  have "pt_range_end pt 0 0 = 0"
    using kb by (auto simp: pt_range_end_def align_down_def pt_valid_kb_def pt_page_bytes_def)
  then have "pt_pages pt 0 0 = []" by (simp add: page_seq_def)
  then show ?thesis by (simp add: pt_unmap_def unmap_range_fold [OF kb])
qed

lemma alloc_code_ok:
  assumes "nexusrt_mem_alloc clk h n fl pr = Some (0, out, pr1)" and "ctx_memory h pr = Some m"
    and "pt_valid_kb (mm_pt m)"
  shows "\<exists>p a. out = Some p \<and> ctx_memory h pr1 = Some \<lparr>mm_pt = alloc_pt clk (hints_of_flags fl) p n (mm_pt m),
      mm_live = AList.update p a (mm_live m), mm_bytes_allocated = mm_bytes_allocated m + n\<rparr>"
proof -
  obtain fw where fw: "lookup_handle (pr_reg pr) h = Some fw" "m = ms_mm (fw_memory fw)"
    using assms(2) by (auto simp: ctx_memory_def)
  obtain pf disp hw s fw' where f: "map_option (\<lambda>(s, a, st). (s, if ok s then Some (al_hbm_ptr a) else None,
       fw_put_memory (hw_in hw fw) st)) (mm_alloc pf clk n (hints_of_flags fl) allocation_default (fw_memory (hw_in hw fw)))
       = Some (s, out, fw')" "0 = status_code s" "lookup_handle (pr_reg pr1) h = Some fw'"
    by (rule with_ctxE [OF assms(1) [unfolded nexusrt_mem_alloc_def] fw(1)])
  have s: "s = Ok" using f(2) code_zero by metis
  obtain a st where a: "mm_alloc pf clk n (hints_of_flags fl) allocation_default (fw_memory (hw_in hw fw)) = Some (Ok, a, st)"
    "out = Some (al_hbm_ptr a)" "fw' = fw_put_memory (hw_in hw fw) st"
    using f(1) s by auto
  have kb: "pt_valid_kb (mm_pt (ms_mm (fw_memory (hw_in hw fw))))" using assms(3) fw(2) by simp
  show ?thesis
    by (cases rule: mm_alloc_cases [OF kb, where pf = pf and clk = clk and bytes = n
        and hints = "hints_of_flags fl" and out = allocation_default])
      (use a f(3) fw in \<open>auto simp: ctx_memory_def\<close>)
qed

lemma free_code_ok:
  assumes "nexusrt_mem_free h p pr = Some (0, u, pr1)" and "ctx_memory h pr = Some m"
    and "pt_valid_kb (mm_pt m)"
  shows "map_of (mm_live m) p \<noteq> None \<and> ctx_ilc h pr1 = ctx_ilc h pr
    \<and> ctx_memory h pr1 = Some (m\<lparr>mm_live := AList.delete p (mm_live m)\<rparr>)"
proof -
  obtain fw where fw: "lookup_handle (pr_reg pr) h = Some fw" "m = ms_mm (fw_memory fw)"
    using assms(2) by (auto simp: ctx_memory_def)
  let ?a = "allocation_default\<lparr>al_hbm_ptr := p\<rparr>"
  obtain pf disp hw s fw' where f: "map_option (\<lambda>(s, st). (s, (), fw_put_memory (hw_in hw fw) st))
       (mm_free pf ?a (fw_memory (hw_in hw fw))) = Some (s, u, fw')" "0 = status_code s" "lookup_handle (pr_reg pr1) h = Some fw'"
    by (rule with_ctxE [OF assms(1) [unfolded nexusrt_mem_free_def] fw(1)])
  have s: "s = Ok" using f(2) code_zero by metis
  obtain st where a: "mm_free pf ?a (fw_memory (hw_in hw fw)) = Some (Ok, st)" "fw' = fw_put_memory (hw_in hw fw) st"
    using f(1) s by auto
  have kb: "pt_valid_kb (mm_pt (ms_mm (fw_memory (hw_in hw fw))))" using assms(3) fw(2) by simp
  have m: "mm_untag pf ?a x = x" for x by (simp add: mm_untag_def allocation_default_def split: option.split)
  obtain s2 e2 where b: "b_free_hbm pf p (ms_env (fw_memory (hw_in hw fw))) = (s2, e2)" by force
  have ilc: "ms_ilc st = fw_ilc fw"
    using a(1) b unfolding mm_free_def m
    by (auto simp: Let_def bind_eq_Some_conv split: option.splits if_splits)
  show ?thesis
    by (cases rule: mm_free_cases [OF kb, where pf = pf and a = ?a]; cases m)
      (use a f(3) fw kb ilc in \<open>auto simp: ctx_memory_def ctx_ilc_def pt_unmap_nothing allocation_default_def\<close>)
qed

lemma free_unknown:
  assumes "ctx_memory h pr = Some m" and "map_of (mm_live m) p = None"
  shows "\<exists>pr'. nexusrt_mem_free h p pr = Some (-1, (), pr')"
proof -
  obtain fw where fw: "lookup_handle (pr_reg pr) h = Some fw" "m = ms_mm (fw_memory fw)"
    using assms(1) by (auto simp: ctx_memory_def)
  obtain pf disp hw where d: "dispatch_backend (pr_dispatch pr) (pr_hw pr) = (pf, disp, hw)" using prod_cases3 by blast
  show ?thesis
    using fw assms(2) by (simp add: nexusrt_mem_free_def with_ctx_def d mm_free_def status_code_def)
qed

text \<open>C25: \<open>nexusrt_mem_free\<close> does not undo \<open>nexusrt_mem_alloc\<close>.  It frees with an allocation record
  that has the pointer alone, so after a successful allocation and a successful free the block is
  no longer live, and a second free is refused, but all its pages are still mapped as resident
  (those of a block that ends below the top of the address space), the counter of allocated bytes is still raised by the block's size, and the block's
  compression tag is still there.\<close>

theorem abi_free_leaks:
  assumes m: "ctx_memory h pr = Some m" "pt_inv (mm_pt m)"
    and al: "nexusrt_mem_alloc clk h n fl pr = Some (0, Some p, pr1)"
    and fr: "nexusrt_mem_free h p pr1 = Some (0, u, pr2)"
  shows "\<exists>m2. ctx_memory h pr2 = Some m2 \<and> map_of (mm_live m2) p = None
    \<and> (\<exists>pr3. nexusrt_mem_free h p pr2 = Some (-1, (), pr3))
    \<and> mm_bytes_allocated m2 = mm_bytes_allocated m + n
    \<and> ctx_ilc h pr2 = ctx_ilc h pr1
    \<and> (unat p + unat n + 2 ^ 17 \<le> 2 ^ 64 \<longrightarrow>
        (\<forall>x. unat p \<le> unat x \<longrightarrow> unat x < unat p + unat n \<longrightarrow>
          (\<exists>e. pt_lookup (mm_pt m2) x = Some e \<and> evictable e)))"
proof -
  note kb = pt_invD(1) [OF m(2)]
  obtain a where 1: "ctx_memory h pr1 = Some \<lparr>mm_pt = alloc_pt clk (hints_of_flags fl) p n (mm_pt m),
      mm_live = AList.update p a (mm_live m), mm_bytes_allocated = mm_bytes_allocated m + n\<rparr>"
    using alloc_code_ok [OF al m(1) kb] by auto
  have kb1: "pt_valid_kb (alloc_pt clk (hints_of_flags fl) p n (mm_pt m))"
    using alloc_pt_inv [OF m(2)] by (rule pt_invD(1))
  note 2 = free_code_ok [OF fr 1, simplified, OF kb1]
  have live: "map_of (AList.delete p (AList.update p a (mm_live m))) p = None"
    by (simp add: delete_conv)
  have "2 ^ pt_shift (mm_pt m) \<le> (2::nat) ^ 17" by (simp add: pt_shift_def)
  then have cov: "in_pages (mm_pt m) p n x" if "unat p + unat n + 2 ^ 17 \<le> 2 ^ 64"
    "unat p \<le> unat x" "unat x < unat p + unat n" for x
    using that by (intro range_covers [OF kb]) linarith+
  have pages: "unat p + unat n + 2 ^ 17 \<le> 2 ^ 64 \<longrightarrow>
        (\<forall>x. unat p \<le> unat x \<longrightarrow> unat x < unat p + unat n \<longrightarrow>
          (\<exists>e. pt_lookup (alloc_pt clk (hints_of_flags fl) p n (mm_pt m)) x = Some e \<and> evictable e))"
    using cov kb by (simp add: alloc_pt_def Let_def pt_map_lookup evictable_def mapped_entry_def)
  from 2 have "ctx_memory h pr2 = Some \<lparr>mm_pt = alloc_pt clk (hints_of_flags fl) p n (mm_pt m),
      mm_live = AList.delete p (AList.update p a (mm_live m)), mm_bytes_allocated = mm_bytes_allocated m + n\<rparr>" by simp
  with 2 live pages free_unknown [OF this, of p] show ?thesis by simp
qed

definition sim_fw :: "u64 fw" where
  "sim_fw = fw_put_memory (fw_create (e_device sim_env) boot_options_default 1) sim_st"

definition sim_mem_proc :: "u64 proc" where
  "sim_mem_proc = \<lparr>pr_dispatch = dispatch_init\<lparr>d_active := Some sim_backend\<rparr>, pr_hw = e_hw sim_env, pr_reg = [(16, sim_fw)]\<rparr>"

lemma sim_mem_ctx: "with_ctx 16 f d sim_mem_proc = map_option (\<lambda>(s, x, fw'). (status_code s, x,
    sim_mem_proc\<lparr>pr_hw := e_hw (fw_env fw'), pr_reg := [(16, fw')]\<rparr>)) (f sim_backend sim_fw)"
  by (simp add: with_ctx_def sim_mem_proc_def lookup_handle_def register_handle_def dispatch_backend_def hw_in_def
      sim_fw_def fw_put_memory_def sim_st_def fw_create_def)

lemma sim_mem_alloc:
  obtains pr1 where "nexusrt_mem_alloc (\<lambda>_. 0) 16 4096 0 sim_mem_proc = Some (0, Some 0x100000, pr1)"
    "pr_dispatch pr1 = pr_dispatch sim_mem_proc"
proof -
  obtain st where a: "mm_alloc sim_backend (\<lambda>_. 0) 4096 alloc_hints_default allocation_default sim_st
      = Some (Ok, allocation_default\<lparr>al_vaddr := 0x100000, al_bytes := 4096, al_hbm_ptr := 0x100000\<rparr>, st)"
    using sim_alloc by blast
  have h: "hints_of_flags 0 = alloc_hints_default" by (simp add: hints_of_flags_def alloc_hints_default_def)
  have "\<exists>pr1. nexusrt_mem_alloc (\<lambda>_. 0) 16 4096 0 sim_mem_proc = Some (0, Some 0x100000, pr1)
      \<and> pr_dispatch pr1 = pr_dispatch sim_mem_proc"
    by (simp add: nexusrt_mem_alloc_def sim_mem_ctx h a sim_fw_def status_code_def)
  then show ?thesis using that by blast
qed

lemma sim_free_ok:
  assumes "ctx_memory 16 pr = Some m" and "pt_valid_kb (mm_pt m)" and "map_of (mm_live m) p \<noteq> None"
    and "pr_dispatch pr = dispatch_init\<lparr>d_active := Some sim_backend\<rparr>"
  shows "\<exists>pr'. nexusrt_mem_free 16 p pr = Some (0, (), pr')"
proof -
  obtain fw where fw: "lookup_handle (pr_reg pr) 16 = Some fw" "m = ms_mm (fw_memory fw)"
    using assms(1) by (auto simp: ctx_memory_def)
  obtain us where u: "unmap_range (mm_pt m) 0 0 = Some (us, pt_unmap (mm_pt m) 0 0)"
    using pt_unmap_eq [OF assms(2)] by blast
  have un: "mm_untag pf (allocation_default\<lparr>al_hbm_ptr := p\<rparr>) x = x" for pf :: "u64 backend" and x
    by (simp add: mm_untag_def allocation_default_def split: option.split)
  show ?thesis
    using fw assms(3,4) u
    by (auto simp: nexusrt_mem_free_def with_ctx_def dispatch_backend_def mm_free_def un Let_def
        allocation_default_def [THEN arg_cong [of _ _ al_vaddr]] allocation_default_def [THEN arg_cong [of _ _ al_bytes]] status_code_def)
qed

theorem abi_free_leaks_witness:
  "\<exists>pr1 pr2 m2 e. nexusrt_mem_alloc (\<lambda>_. 0) 16 4096 0 sim_mem_proc = Some (0, Some 0x100000, pr1)
    \<and> nexusrt_mem_free 16 0x100000 pr1 = Some (0, (), pr2) \<and> ctx_memory 16 pr2 = Some m2
    \<and> mm_bytes_allocated m2 = 4096 \<and> pt_lookup (mm_pt m2) 0x100FFF = Some e"
proof -
  obtain pr1 where 1: "nexusrt_mem_alloc (\<lambda>_. 0) 16 4096 0 sim_mem_proc = Some (0, Some 0x100000, pr1)"
    "pr_dispatch pr1 = pr_dispatch sim_mem_proc" by (rule sim_mem_alloc)
  have m: "ctx_memory 16 sim_mem_proc = Some (ms_mm sim_st)"
    by (simp add: ctx_memory_def sim_mem_proc_def lookup_handle_def sim_fw_def)
  have inv: "pt_inv (mm_pt (ms_mm sim_st))" using mm_reach_inv [OF sim_st_reach] by (simp add: mm_inv_def)
  note kb = pt_invD(1) [OF inv]
  obtain a where m1: "ctx_memory 16 pr1 = Some \<lparr>mm_pt = alloc_pt (\<lambda>_. 0) (hints_of_flags 0) 0x100000 4096 (mm_pt (ms_mm sim_st)),
      mm_live = AList.update 0x100000 a (mm_live (ms_mm sim_st)), mm_bytes_allocated = mm_bytes_allocated (ms_mm sim_st) + 4096\<rparr>"
    using alloc_code_ok [OF 1(1) m kb] by auto
  obtain pr2 where 2: "nexusrt_mem_free 16 0x100000 pr1 = Some (0, (), pr2)"
    using sim_free_ok [OF m1, of "0x100000"] pt_invD(1) [OF alloc_pt_inv [OF inv]] 1(2)
    by (auto simp: update_conv sim_mem_proc_def)
  have z: "mm_bytes_allocated (ms_mm sim_st) = 0" by (simp add: sim_st_def mm_create_def)
  obtain m2 where m2: "ctx_memory 16 pr2 = Some m2" "mm_bytes_allocated m2 = 4096"
      "\<forall>x. 0x100000 \<le> unat x \<longrightarrow> unat x < 0x101000 \<longrightarrow> (\<exists>e. pt_lookup (mm_pt m2) x = Some e \<and> evictable e)"
    using abi_free_leaks [OF m inv 1(1) 2] by (auto simp: z)
  have "\<exists>e. pt_lookup (mm_pt m2) 0x100FFF = Some e \<and> evictable e" by (rule m2(3) [rule_format]) simp_all
  then show ?thesis using 1(1) 2 m2 by blast
qed

subsection \<open>Queries\<close>

lemma pad_last: "length n < cap \<Longrightarrow> (n @ replicate (cap - length n) z)[cap - 1 := z] = n @ replicate (cap - length n) z"
  by (rule nth_equalityI) (auto simp: nth_append nth_list_update)

lemma strncpy_out_shape:
  assumes "0 < cap"
  shows "length (strncpy_out cap s) = cap"
    and "takeWhile (\<lambda>c. c \<noteq> CHR 0x00) (strncpy_out cap s) = take (cap - 1) (takeWhile (\<lambda>c. c \<noteq> CHR 0x00) s)"
proof -
  define n where "n = take (cap - 1) (takeWhile (\<lambda>c. c \<noteq> CHR 0x00) s)"
  have l: "length n < cap" using assms by (simp add: n_def)
  have e: "strncpy_out cap s = n @ replicate (cap - length n) (CHR 0x00)"
    unfolding strncpy_out_def n_def [symmetric] Let_def using assms pad_last [OF l] by simp
  have nz: "c \<noteq> CHR 0x00" if "c \<in> set n" for c
    using that set_takeWhileD [of c "\<lambda>c. c \<noteq> CHR 0x00" s] in_set_takeD [of c] unfolding n_def by blast
  obtain k where k: "cap - length n = Suc k" using l by (cases "cap - length n") auto
  show "length (strncpy_out cap s) = cap" using l by (simp add: e)
  have "takeWhile (\<lambda>c. c \<noteq> CHR 0x00) (strncpy_out cap s) = takeWhile (\<lambda>c. c \<noteq> CHR 0x00) n"
    unfolding e k replicate_Suc by (rule takeWhile_tail) simp
  also have "\<dots> = n" using nz by (simp add: takeWhile_eq_all_conv)
  finally show "takeWhile (\<lambda>c. c \<noteq> CHR 0x00) (strncpy_out cap s) = take (cap - 1) (takeWhile (\<lambda>c. c \<noteq> CHR 0x00) s)"
    by (simp add: n_def)
qed

lemma feature_bits_bit:
  "bit (feature_bits f) i \<longleftrightarrow> (i = 0 \<and> ff_tma f \<or> i = 1 \<and> ff_ilc f \<or> i = 2 \<and> ff_dsm f \<or> i = 3 \<and> ff_gds f
    \<or> i = 4 \<and> ff_grdma f \<or> i = 5 \<and> ff_clusters f \<or> i = 6 \<and> ff_unified_native f)"
proof -
  have b: "bit (if c then x OR push_bit k 1 else x :: u32) i \<longleftrightarrow> bit x i \<or> c \<and> i = k" if "k < 32" for c x k
    using that by (auto simp: bit_simps)
  show ?thesis by (simp add: feature_bits_def Let_def b del: push_bit_of_1) blast
qed

text \<open>The device query reports what boot found.  The name that a caller reads up to its first
  null byte is the device's, cut to the \<open>name_cap - 1\<close> bytes that fit, in a buffer that is always
  terminated and never overrun; bit i of the feature word is set exactly for the i-th feature.\<close>

theorem device_desc_faithful:
  assumes "lookup_handle (pr_reg pr) h = Some fw" and "0 < cap"
  shows "\<exists>di. nexusrt_firmware_device_desc h cap pr = (0, Some di)
    \<and> length (di_name di) = cap
    \<and> takeWhile (\<lambda>c. c \<noteq> CHR 0x00) (di_name di)
        = take (cap - 1) (takeWhile (\<lambda>c. c \<noteq> CHR 0x00) (dd_name (e_device (fw_env fw))))
    \<and> (\<forall>i. bit (di_features_bits di) i =
        (i < 7 \<and> (let f = dd_features (e_device (fw_env fw))
           in [ff_tma f, ff_ilc f, ff_dsm f, ff_gds f, ff_grdma f, ff_clusters f, ff_unified_native f] ! i)))"
proof -
  have b: "bit (feature_bits f) i \<longleftrightarrow> i < 7 \<and>
      [ff_tma f, ff_ilc f, ff_dsm f, ff_gds f, ff_grdma f, ff_clusters f, ff_unified_native f] ! i" for f i
    unfolding feature_bits_bit by (auto simp: less_Suc_eq numeral_eq_Suc)
  show ?thesis
    using assms by (simp add: nexusrt_firmware_device_desc_def device_info_of_def strncpy_out_shape b Let_def)
qed

theorem device_desc_faithful_witness:
  "\<exists>di. nexusrt_firmware_device_desc 16 4 sim_mem_proc = (0, Some di) \<and> length (di_name di) = 4
    \<and> bit (di_features_bits di) 3 \<and> \<not> bit (di_features_bits di) 2"
proof -
  have l: "lookup_handle (pr_reg sim_mem_proc) 16 = Some sim_fw" by (simp add: sim_mem_proc_def lookup_handle_def)
  have d: "dd_features (e_device (fw_env sim_fw)) = dd_features (e_device sim_env)"
    by (simp add: sim_fw_def fw_put_memory_def sim_st_def)
  show ?thesis
    using device_desc_faithful [OF l, of 4] by (auto simp: d sim_env_def no_features_def)
qed

text \<open>The budget of \<open>nexusrt_context_scope\<close>: 13.75 Ki tokens when every layer is asked for; unknown
  mask bits are ignored.\<close>

lemma context_scope_full: "lookup_handle (pr_reg pr) h = Some fw \<Longrightarrow> nexusrt_context_scope h 0x1F pr = (0, Some 14080)"
  by (simp add: nexusrt_context_scope_def layer_def cs_create_def default_layers_def layer_index_def)

lemma metrics_copy_eq: "i \<le> length metrics_text \<Longrightarrow> i < cap \<Longrightarrow> length buf = cap \<Longrightarrow>
  metrics_copy cap i buf = (let n = min (cap - 1) (length metrics_text)
    in (take i buf @ drop i (take n metrics_text) @ CHR 0x00 # drop (Suc n) buf))"
proof (induction cap i buf rule: metrics_copy.induct)
  case (1 cap i buf)
  show ?case
  proof (cases "i + 1 < cap \<and> i < length metrics_text")
    case True
    have t: "take (Suc i) (buf[i := metrics_text ! i]) = take i buf @ [metrics_text ! i]"
      using 1 by (simp add: take_Suc_conv_app_nth)
    have d: "drop i (take n metrics_text) = metrics_text ! i # drop (Suc i) (take n metrics_text)"
      if "n = min (cap - 1) (length metrics_text)" for n
      using that True by (subst Cons_nth_drop_Suc [symmetric]) auto
    have m: "metrics_copy cap i buf = metrics_copy cap (Suc i) (buf[i := metrics_text ! i])"
      using True by (subst metrics_copy.simps) simp
    show ?thesis
      using 1(1) [OF True] 1 True by (simp add: m t d Let_def)
  next
    case False
    then have n: "min (cap - Suc 0) (length metrics_text) = i" using 1 by auto
    have m: "metrics_copy cap i buf = buf[i := CHR 0x00]"
      unfolding metrics_copy.simps [of cap i buf] if_not_P [OF False] by (rule refl)
    show ?thesis using 1(2-4) by (simp add: m n Let_def upd_conv_take_nth_drop)
  qed
qed

lemma metrics_dump_copy:
  "0 < length buf \<Longrightarrow> nexusrt_metrics_dump ctx (Some buf) (length buf)
    = (0, Some (let n = min (length buf - 1) (length metrics_text)
        in take n metrics_text @ CHR 0x00 # drop (Suc n) buf))"
  by (simp add: nexusrt_metrics_dump_def metrics_copy_eq Let_def)

subsection \<open>Submission\<close>

lemma task_submit_no_module:
  assumes ok: "fw_ok fw" and l: "lookup_handle (pr_reg pr) h = Some fw"
    and run: "nexusrt_firmware_task_submit h m f g b sm args k p pr = Some (code, u, pr')"
  shows "code \<noteq> 0 \<and> pr_hw pr' = snd (snd (dispatch_backend (pr_dispatch pr) (pr_hw pr)))"
proof -
  obtain mk where mk: "fw_mk fw = Some mk" "mk_inv mk" "mk_modules mk = []" using fw_okD [OF ok] by blast
  obtain sh mk1 where a: "acquire_stream (stream_class_cast k) (sint p) mk = (sh, mk1)" by force
  have m1: "mk_modules mk1 = []" using acquire_modules [OF a] mk(3) by simp
  obtain pf disp hw s fw' where d: "dispatch_backend (pr_dispatch pr) (pr_hw pr) = (pf, disp, hw)"
    and r: "(case fw_mk (hw_in hw fw) of None \<Rightarrow> None
       | Some mk \<Rightarrow>
           (let (stream, mk1) = acquire_stream (stream_class_cast k) (sint p) mk
            in if sh_id stream = 0 then Some (OutOfMemory, (), (hw_in hw fw)\<lparr>fw_mk := Some mk1\<rparr>)
               else (let (s, env1) = mk_launch pf m f g b sm stream args (fw_env (hw_in hw fw)) mk1;
                         (s2, env2) = (if ok s then mk_sync_stream pf stream env1 else (s, env1))
                     in Some (s2, (), (hw_in hw fw)\<lparr>fw_env := env2, fw_mk := Some (release_stream stream mk1)\<rparr>)))) = Some (s, u, fw')"
    and c: "code = status_code s" and h: "pr_hw pr' = e_hw (fw_env fw')"
    by (rule with_ctxE [OF run [unfolded nexusrt_firmware_task_submit_def] l])
  have "fw_mk (hw_in hw fw) = Some mk" "e_hw (fw_env (hw_in hw fw)) = hw" by (simp_all add: hw_in_def mk)
  then have "s \<noteq> Ok \<and> e_hw (fw_env fw') = hw"
    using r by (auto simp: a mk_launch_no_module [OF m1] split: if_splits)
  then show ?thesis using c h d by (simp add: code_zero)
qed

lemma submit_stage_no_module:
  assumes ok: "fw_ok fw" and l: "lookup_handle (pr_reg pr) h = Some fw"
    and run: "nexusrt_submit_stage clk h c pr = Some (code, u, pr')"
  shows "code \<noteq> 0 \<and> pr_hw pr' = snd (snd (dispatch_backend (pr_dispatch pr) (pr_hw pr)))"
proof -
  obtain mk where mk: "fw_mk fw = Some mk" "mk_inv mk" "mk_modules mk = []" using fw_okD [OF ok] by blast
  let ?c = "c\<lparr>sc_depends_on := [], sc_producer_warps := 0, sc_consumer_warps := 0\<rparr>"
  obtain s1 g where a: "add_stage ?c tg_create = (s1, g)" by force
  obtain pf disp hw s fw' where d: "dispatch_backend (pr_dispatch pr) (pr_hw pr) = (pf, disp, hw)"
    and r: "(let (s, g) = add_stage ?c tg_create
       in if \<not> ok s
          then Some (s, (), (hw_in hw fw)\<lparr>fw_mk := map_option (tg_destroy g) (fw_mk (hw_in hw fw))\<rparr>)
          else (case fw_mk (hw_in hw fw) of
                  None \<Rightarrow> (let s1 = fst (validate (e_device (fw_env (hw_in hw fw))) g) in if ok s1 then None else Some (s1, (), hw_in hw fw))
                | Some mk \<Rightarrow>
                    (let (s2, env, mk2, g2) = tg_run pf clk (fw_env (hw_in hw fw)) mk g
                     in Some (s2, (), (hw_in hw fw)\<lparr>fw_env := env, fw_mk := Some (tg_destroy g2 mk2)\<rparr>)))) = Some (s, u, fw')"
    and c: "code = status_code s" and h: "pr_hw pr' = e_hw (fw_env fw')"
    by (rule with_ctxE [OF run [unfolded nexusrt_submit_stage_def] l])
  have w: "fw_mk (hw_in hw fw) = Some mk" "e_hw (fw_env (hw_in hw fw)) = hw" by (simp_all add: hw_in_def mk)
  obtain s2 env mk2 g2 where t: "tg_run pf clk (fw_env (hw_in hw fw)) mk g = (s2, env, mk2, g2)" using prod_cases4 by blast
  have n: "s2 \<noteq> Ok \<and> env = fw_env (hw_in hw fw)" if "s1 = Ok"
  proof (rule tg_run_no_module [OF mk(2,3) t])
    show "map_of (tg_nodes g) (sc_name c) = Some (stage_node_new ?c)"
      using a that by (auto simp: add_stage_def tg_create_def split: if_splits)
    show "ready_to_run (tg_nodes g) (stage_node_new ?c)" by (simp add: ready_iff deps_done_def stage_node_new_def)
  qed
  then have "s \<noteq> Ok \<and> e_hw (fw_env fw') = hw"
    using r w by (cases "s1 = Ok") (auto simp: a t)
  then show ?thesis using c h d by (simp add: code_zero)
qed

definition submission :: "abi_call \<Rightarrow> bool" where
  "submission c = (case c of Firmware_task_submit _ _ _ _ _ _ _ _ _ \<Rightarrow> True | Submit_stage _ _ \<Rightarrow> True | _ \<Rightarrow> False)"

text \<open>C39: No kernel can be launched through the C interface.  The exported functions have no way to
  load a module, so in every process a client reaches the module tables are empty, and every
  \<open>nexusrt_firmware_task_submit\<close> and every \<open>nexusrt_submit_stage\<close>, on any driver, returns an
  error without handing anything to the driver beyond its selection.\<close>

theorem abi_never_launches:
  assumes r: "abi_reach ck pr" and s: "submission c" and run: "abi_exec ck c pr = Some (code, pr')"
  shows "code \<noteq> 0 \<and> pr_hw pr' \<in> {pr_hw pr, snd (snd (dispatch_backend (pr_dispatch pr) (pr_hw pr)))}"
proof -
  obtain h where h: "handle_of c = Some h" using s by (cases c) (simp_all add: submission_def)
  show ?thesis
  proof (cases "lookup_handle (pr_reg pr) h")
    case None
    then show ?thesis using unknown_exec [OF h None, of ck] run by auto
  next
    case (Some fw)
    have ok: "fw_ok fw" using abi_reach_ok [OF r] Some by (simp add: proc_ok_def)
    show ?thesis
      using s run h task_submit_no_module [OF ok Some] submit_stage_no_module [OF ok Some]
      by (cases c) (auto simp: submission_def)
  qed
qed

theorem abi_never_launches_witness:
  "\<exists>(pr :: u64 proc) code pr'. abi_reach \<lparr>ck_boot = (\<lambda>_. 0), ck_page = (\<lambda>_. 0), ck_stage = (\<lambda>_. (0, 0))\<rparr> pr
    \<and> lookup_handle (pr_reg pr) 16 \<noteq> None
    \<and> abi_exec \<lparr>ck_boot = (\<lambda>_. 0), ck_page = (\<lambda>_. 0), ck_stage = (\<lambda>_. (0, 0))\<rparr>
        (Firmware_task_submit 16 ''m'' ''f'' (1, 1, 1) (1, 1, 1) 0 [] 0 0) pr = Some (code, pr') \<and> code \<noteq> 0"
proof -
  let ?ck = "\<lparr>ck_boot = (\<lambda>_. 0), ck_page = (\<lambda>_. 0), ck_stage = (\<lambda>_. (0, 0))\<rparr>"
  let ?c = "Firmware_task_submit 16 ''m'' ''f'' (1, 1, 1) (1, 1, 1) 0 [] 0 0"
  obtain fw and pr :: "u64 proc" where r: "abi_reach ?ck pr" "lookup_handle (pr_reg pr) 16 = Some fw"
    using sim_reach [of ?ck] by blast
  obtain code pr' where e: "abi_exec ?ck ?c pr = Some (code, pr')"
    using abi_exec_ok [OF abi_reach_ok [OF r(1)], of ?ck ?c] by blast
  have "submission ?c" by (simp add: submission_def)
  from abi_never_launches [OF r(1) this e] r e show ?thesis by blast
qed

subsection \<open>What a call answers\<close>

text \<open>The statuses of a list of streams, each waited for after those before it, and the first of
  them that is an error.\<close>

definition sync_answers :: "'p backend \<Rightarrow> stream_handle list \<Rightarrow> 'p env \<Rightarrow> status list" where
  "sync_answers pf hs env = map (\<lambda>i. fst (b_sync_stream pf (sh_raw (hs ! i))
     (fold (\<lambda>h e. snd (b_sync_stream pf (sh_raw h) e)) (take i hs) env))) [0..<length hs]"

definition first_error :: "status list \<Rightarrow> status" where
  "first_error ss = (case filter (\<lambda>s. s \<noteq> Ok) ss of [] \<Rightarrow> Ok | s # _ \<Rightarrow> s)"

text \<open>The status of a call on a registered context: the driver's own where there is one call to
  pass on, and otherwise one that the arguments and the context determine.\<close>

definition answer :: "'p backend \<Rightarrow> 'p fw \<Rightarrow> abi_call \<Rightarrow> status" where
  "answer pf fw c = (case c of
     Firmware_fault_handler _ a _ \<Rightarrow> fst (b_prefetch_range pf a 4096 (fw_env fw))
   | Firmware_task_submit _ _ _ _ _ _ _ k _ \<Rightarrow>
       if mk_free_list (stream_class_cast k) (the (fw_mk fw)) = [] then OutOfMemory else InvalidArgument
   | Mem_alloc _ n _ \<Rightarrow> if n = 0 then InvalidArgument else fst (b_alloc_hbm pf n (fw_env fw))
   | Mem_free _ p \<Rightarrow> if map_of (mm_live (ms_mm (fw_memory fw))) p = None then InvalidArgument
                    else fst (b_free_hbm pf p (fw_env fw))
   | Mem_prefetch _ p n \<Rightarrow> fst (b_prefetch_range pf p n (fw_env fw))
   | Submit_stage _ st \<Rightarrow>
       if sc_name st \<noteq> '''' \<and> dd_smem_per_sm_bytes (e_device (fw_env fw)) div 1024 < sc_sm_footprint_mb st
       then ContractViolation else InvalidArgument
   | Wait_barrier _ _ _ \<Rightarrow> first_error (sync_answers pf (mk_pool (the (fw_mk fw))) (fw_env fw))
   | Prefetch_attention _ kv _ _ \<Rightarrow> if kv = 0 then InvalidArgument else Ok
   | Token_prune _ kv _ \<Rightarrow> if kv = 0 then InvalidArgument else Ok
   | _ \<Rightarrow> Ok)"

lemma sync_answers_Cons: "sync_answers pf (h # hs) env
    = fst (b_sync_stream pf (sh_raw h) env) # sync_answers pf hs (snd (b_sync_stream pf (sh_raw h) env))"
  unfolding sync_answers_def length_Cons upt_conv_Cons [OF zero_less_Suc] map_Suc_upt [symmetric] by simp

lemma sync_list_first: "fst (sync_list pf hs env) = first_error (sync_answers pf hs env)"
proof (induction hs arbitrary: env)
  case Nil
  then show ?case by (simp add: sync_answers_def first_error_def)
next
  case (Cons h hs)
  then show ?case by (simp add: sync_answers_Cons first_error_def case_prod_unfold Let_def)
qed

lemma sync_list_append: "sync_list pf (hs @ hs') env
    = (let (s, env1) = sync_list pf hs env in if \<not> ok s then (s, env1) else sync_list pf hs' env1)"
  by (induction hs arbitrary: env) (simp_all add: case_prod_unfold Let_def)

lemma sync_all_pool: "sync_all pf env mk = sync_list pf (mk_pool mk) env"
  by (auto simp: sync_all_def mk_pool_def sync_list_append Let_def split: prod.split)

lemma acquire_none: "mk_inv mk \<Longrightarrow> sh_id (fst (acquire_stream k p mk)) = 0 \<longleftrightarrow> mk_free_list k mk = []"
proof -
  assume inv: "mk_inv mk"
  obtain h mk' where a: "acquire_stream k p mk = (h, mk')" by force
  have e: "mk_free_list k mk = [] \<Longrightarrow> sh_id h = 0"
    using a by (auto simp: acquire_stream_def mk_free_list_def stream_handle_default_def split: stream_class.splits)
  show ?thesis
    using inv a
  proof (cases rule: acquire_cases)
    case empty
    then have "mk_free_list k mk = []"
      using a inv by (cases k; cases "mk_free_list k mk" rule: rev_cases)
        (auto simp: acquire_stream_def mk_free_list_def pool_simps)
    then show ?thesis using a empty by simp
  qed (use a in \<open>auto simp: mk_free_list_def\<close>)
qed

text \<open>A graph of one stage, on a kernel without modules and with a stream to spare.\<close>

lemma single_run:
  assumes inv: "mk_inv mk" "mk_modules mk = []" "mk_free_compute mk \<noteq> []" "mk_free_dma mk \<noteq> []"
    and c: "sc_name c \<noteq> ''''" "sc_depends_on c = []"
    and a: "add_stage c tg_create = (s1, g)" and run: "tg_run pf clk env mk g = (s, env', mk', g')"
  shows "s = (if dd_smem_per_sm_bytes (e_device env) div 1024 < sc_sm_footprint_mb c then ContractViolation else InvalidArgument)"
proof -
  let ?n = "stage_node_new c"
  have g: "tg_nodes g = [(sc_name c, ?n)]" "\<not> tg_validated g"
    using a c(1) by (auto simp: add_stage_def tg_create_def split: if_splits)
  have n: "sn_deps ?n = []" "sn_contract ?n = c" "ready_to_run (tg_nodes g) ?n"
    using c(2) by (simp_all add: stage_node_new_def ready_to_run_def)
  have wf: "um_wf (tg_nodes g)" using g by (simp add: um_wf_def)
  have dag: "dag (tg_nodes g)"
    using n by (simp add: dag_def g dep_rel_def deps_of_def acyclic_def split: if_splits)
  obtain s2 n2 env2 mk2 where l: "tg_launch pf clk ?n env mk = (s2, n2, env2, mk2)" using prod_cases4 by blast
  obtain sh mk1 where q: "acquire_stream (stage_class c) 0 mk = (sh, mk1)" by force
  have "mk_free_list (stage_class c) mk \<noteq> []" using inv(3,4) by (simp add: stage_class_def mk_free_list_def)
  then have "sh_id sh \<noteq> 0" using acquire_none [OF inv(1), of "stage_class c" 0] q by simp
  moreover have "mk_modules mk1 = []" using acquire_modules [OF q] inv(2) by simp
  ultimately have "s2 = InvalidArgument"
    using l by (auto simp: tg_launch_def n(2) q Let_def mk_launch_no_module)
  then have "run_loop pf clk env mk (tg_nodes g) = (InvalidArgument, env2, mk2, [(sc_name c, n2)])"
    using n(3) l by (subst run_loop.simps) (simp add: g)
  then show ?thesis
    using run g dag n(2) by (auto simp: tg_run_def validate_cases [OF wf] contracts_ok_def not_le split: if_splits prod.splits)
qed

text \<open>The calls that go through the context, with what runs inside it.\<close>

lemma with_ctx_status:
  assumes "with_ctx h f d pr = Some (code, x, pr')" and "lookup_handle (pr_reg pr) h = Some fw"
    and "dispatch_backend (pr_dispatch pr) (pr_hw pr) = (pf, disp, hw)"
    and f: "\<And>s y fw'. f pf (hw_in hw fw) = Some (s, y, fw') \<Longrightarrow> s = t"
  shows "code = status_code t"
  using assms by (elim with_ctxE) auto

lemma alloc_status:
  assumes "pt_valid_kb (mm_pt (ms_mm st))" and "mm_alloc pf clk n hints a st = Some (s, a', st')"
  shows "s = (if n = 0 then InvalidArgument else fst (b_alloc_hbm pf n (ms_env st)))"
  using mm_alloc_cases [OF assms(1), of n pf clk hints a] assms(2) by (metis fst_conv option.inject prod.inject)

lemma free_status:
  assumes "pt_valid_kb (mm_pt (ms_mm st))" and "mm_free pf (allocation_default\<lparr>al_hbm_ptr := p\<rparr>) st = Some (s, st')"
  shows "s = (if map_of (mm_live (ms_mm st)) p = None then InvalidArgument else fst (b_free_hbm pf p (ms_env st)))"
proof -
  have un: "mm_untag pf (allocation_default\<lparr>al_hbm_ptr := p\<rparr>) st = st"
    by (simp add: mm_untag_def allocation_default_def split: option.split)
  obtain t e where b: "b_free_hbm pf p (ms_env st) = (t, e)" by force
  show ?thesis
    using assms(2) by (auto simp: mm_free_def un b Let_def bind_eq_Some_conv split: option.splits if_splits)
qed

lemma fw_memory_env: "ms_env (fw_memory fw) = fw_env fw" "fw_env (fw_put_memory fw st) = ms_env st"
  by (simp_all add: fw_memory_def fw_put_memory_def)

lemma task_submit_status:
  assumes ok: "fw_ok fw" and l: "lookup_handle (pr_reg pr) h = Some fw"
    and b: "dispatch_backend (pr_dispatch pr) (pr_hw pr) = (pf, disp, hw)"
    and run: "nexusrt_firmware_task_submit h m f g bl sm args k p pr = Some (code, u, pr')"
  shows "code = status_code (if mk_free_list (stream_class_cast k) (the (fw_mk fw)) = [] then OutOfMemory else InvalidArgument)"
proof (rule with_ctx_status [OF run [unfolded nexusrt_firmware_task_submit_def] l b])
  fix s y fw'
  obtain mk where mk: "fw_mk fw = Some mk" "mk_inv mk" "mk_modules mk = []" using fw_okD [OF ok] by blast
  obtain sh mk1 where a: "acquire_stream (stream_class_cast k) (sint p) mk = (sh, mk1)" by force
  have m1: "mk_modules mk1 = []" using acquire_modules [OF a] mk(3) by simp
  have w: "fw_mk (hw_in hw fw) = Some mk" by (simp add: hw_in_def mk)
  have z: "sh_id sh = 0 \<longleftrightarrow> mk_free_list (stream_class_cast k) mk = []"
    using acquire_none [OF mk(2), of "stream_class_cast k" "sint p"] a by simp
  assume "(case fw_mk (hw_in hw fw) of None \<Rightarrow> None
       | Some mk \<Rightarrow>
           (let (stream, mk1) = acquire_stream (stream_class_cast k) (sint p) mk
            in if sh_id stream = 0 then Some (OutOfMemory, (), (hw_in hw fw)\<lparr>fw_mk := Some mk1\<rparr>)
               else (let (s, env1) = mk_launch pf m f g bl sm stream args (fw_env (hw_in hw fw)) mk1;
                         (s2, env2) = (if ok s then mk_sync_stream pf stream env1 else (s, env1))
                     in Some (s2, (), (hw_in hw fw)\<lparr>fw_env := env2, fw_mk := Some (release_stream stream mk1)\<rparr>)))) = Some (s, y, fw')"
  then show "s = (if mk_free_list (stream_class_cast k) (the (fw_mk fw)) = [] then OutOfMemory else InvalidArgument)"
    using z by (auto simp: w a mk(1) mk_launch_no_module [OF m1] split: if_splits)
qed

lemma submit_stage_status:
  assumes ok: "fw_ok fw" and l: "lookup_handle (pr_reg pr) h = Some fw"
    and b: "dispatch_backend (pr_dispatch pr) (pr_hw pr) = (pf, disp, hw)"
    and run: "nexusrt_submit_stage clk h c pr = Some (code, u, pr')"
  shows "code = status_code (if sc_name c \<noteq> '''' \<and> dd_smem_per_sm_bytes (e_device (fw_env fw)) div 1024 < sc_sm_footprint_mb c
       then ContractViolation else InvalidArgument)"
proof (rule with_ctx_status [OF run [unfolded nexusrt_submit_stage_def] l b])
  fix s y fw'
  let ?c = "c\<lparr>sc_depends_on := [], sc_producer_warps := 0, sc_consumer_warps := 0\<rparr>"
  obtain mk where mk: "fw_mk fw = Some mk" "mk_inv mk" "mk_modules mk = []" "length (mk_free_compute mk) = 8" "length (mk_free_dma mk) = 4"
    using fw_okD [OF ok] by blast
  then have ne: "mk_free_compute mk \<noteq> []" "mk_free_dma mk \<noteq> []" by auto
  have w: "fw_mk (hw_in hw fw) = Some mk" "e_device (fw_env (hw_in hw fw)) = e_device (fw_env fw)" by (simp_all add: hw_in_def mk)
  obtain s1 g where a: "add_stage ?c tg_create = (s1, g)" by force
  obtain s2 env mk2 g2 where t: "tg_run pf clk (fw_env (hw_in hw fw)) mk g = (s2, env, mk2, g2)" using prod_cases4 by blast
  have s1: "s1 = (if sc_name c = '''' then InvalidArgument else Ok)"
    using a by (auto simp: add_stage_def tg_create_def split: if_splits)
  note s2 = single_run [OF mk(2,3) ne _ _ a t, simplified]
  assume "(let (s, g) = add_stage ?c tg_create
       in if \<not> ok s
          then Some (s, (), (hw_in hw fw)\<lparr>fw_mk := map_option (tg_destroy g) (fw_mk (hw_in hw fw))\<rparr>)
          else (case fw_mk (hw_in hw fw) of
                  None \<Rightarrow> (let s1 = fst (validate (e_device (fw_env (hw_in hw fw))) g) in if ok s1 then None else Some (s1, (), hw_in hw fw))
                | Some mk \<Rightarrow>
                    (let (s2, env, mk2, g2) = tg_run pf clk (fw_env (hw_in hw fw)) mk g
                     in Some (s2, (), (hw_in hw fw)\<lparr>fw_env := env, fw_mk := Some (tg_destroy g2 mk2)\<rparr>)))) = Some (s, y, fw')"
  then show "s = (if sc_name c \<noteq> '''' \<and> dd_smem_per_sm_bytes (e_device (fw_env fw)) div 1024 < sc_sm_footprint_mb c
       then ContractViolation else InvalidArgument)"
    using s1 s2 by (auto simp: a w t split: if_splits)
qed

lemma abi_exec_answer:
  assumes ok: "fw_ok fw" and h: "handle_of c = Some h" and l: "lookup_handle (pr_reg pr) h = Some fw"
    and live: "c \<noteq> Firmware_shutdown h"
    and b: "dispatch_backend (pr_dispatch pr) (pr_hw pr) = (pf, disp, hw)"
    and run: "abi_exec ck c pr = Some (code, pr')"
  shows "code = status_code (answer pf (hw_in hw fw) c)"
proof -
  obtain mk where mk: "fw_mk fw = Some mk" using fw_okD [OF ok] by blast
  obtain fh where fh: "fw_faults fw = Some fh" using ok by (auto simp: fw_ok_def)
  have w: "fw_mk (hw_in hw fw) = Some mk" "fw_faults (hw_in hw fw) = Some fh" by (simp_all add: hw_in_def mk fh)
  have kb: "pt_valid_kb (mm_pt (ms_mm (fw_memory (hw_in hw fw))))"
    using fw_memory_inv [of "hw_in hw fw"] ok pt_invD(1) by simp
  note out = with_ctx_status [OF _ l b]
  show ?thesis
  proof (cases c)
    case (Firmware_fault_handler k a t)
    then show ?thesis using run h
      by (auto simp: nexusrt_firmware_fault_handler_def answer_def inject_fetch_hint_def w split: prod.splits dest!: out [where t = "answer pf (hw_in hw fw) c"])
  next
    case (Firmware_task_submit k m f g bl sm args kl prio)
    then show ?thesis using run h task_submit_status [OF ok l b] by (auto simp: answer_def hw_in_def)
  next
    case (Submit_stage k st)
    then show ?thesis using run h submit_stage_status [OF ok l b] by (auto simp: answer_def hw_in_def)
  next
    case (Mem_alloc k n fl)
    then obtain x where "nexusrt_mem_alloc (ck_page ck) h n fl pr = Some (code, x, pr')" using run h by auto
    then show ?thesis unfolding Mem_alloc answer_def abi_call.case nexusrt_mem_alloc_def
      by (rule out) (auto dest!: alloc_status [OF kb] simp: fw_memory_env)
  next
    case (Mem_free k p)
    then obtain x where "nexusrt_mem_free h p pr = Some (code, x, pr')" using run h by auto
    then show ?thesis unfolding Mem_free answer_def abi_call.case nexusrt_mem_free_def
      by (rule out) (auto dest!: free_status [OF kb] simp: fw_memory_env)
  next
    case (Mem_prefetch k p n)
    then obtain x where "nexusrt_mem_prefetch h p n pr = Some (code, x, pr')" using run h by auto
    then show ?thesis unfolding Mem_prefetch answer_def abi_call.case nexusrt_mem_prefetch_def
      by (rule out) (auto simp: mm_prefetch_def fw_memory_env split: prod.splits)
  next
    case (Mem_advise_read_mostly k p n)
    then obtain x where "nexusrt_mem_advise_read_mostly (ck_page ck) h p n pr = Some (code, x, pr')" using run h by auto
    then show ?thesis unfolding Mem_advise_read_mostly answer_def abi_call.case nexusrt_mem_advise_read_mostly_def
      by (rule out) (auto simp: advise_eq [OF kb])
  next
    case (Wait_barrier k nm t)
    then obtain x where "nexusrt_wait_barrier h nm t pr = Some (code, x, pr')" using run h by auto
    then show ?thesis unfolding Wait_barrier answer_def abi_call.case nexusrt_wait_barrier_def
      by (rule out) (auto simp: w sync_all_pool sync_list_first [symmetric] split: prod.splits)
  next
    case (Prefetch_attention k kv n topk)
    then obtain x where "nexusrt_prefetch_attention h kv n topk pr = Some (code, x, pr')" using run h by auto
    then show ?thesis unfolding Prefetch_attention answer_def abi_call.case nexusrt_prefetch_attention_def
      by (rule out) (auto simp: w prefetch_attention_def bind_kv_cache_def Let_def split: if_splits)
  qed (use h l live run in \<open>auto simp: answer_def nexusrt_firmware_device_desc_def nexusrt_stream_overlap_def
      nexusrt_context_scope_def nexusrt_token_prune_def cs_prune_def bind_kv_cache_def status_code_def split: if_splits\<close>)
qed

text \<open>C23: What every call on a registered context answers, in the processes a client reaches and
  on any driver.  The fault handler and \<open>nexusrt_mem_prefetch\<close> pass on the answer of the driver's
  prefetch; a task submission answers \<open>OutOfMemory\<close> when no stream of its class is free and
  \<open>InvalidArgument\<close> otherwise; an allocation of no bytes and a free of a pointer that is not live
  answer \<open>InvalidArgument\<close>, and others what the driver answers; a stage answers
  \<open>ContractViolation\<close> when it is named and asks for more shared memory than the device has per
  multiprocessor, and \<open>InvalidArgument\<close> otherwise; the barrier answers the first error of the
  streams of the pool, waited for in turn; attention prefetching and pruning answer
  \<open>InvalidArgument\<close> for a null cache and \<open>Ok\<close> otherwise; the remaining ones, which read the
  context or advise, answer \<open>Ok\<close>.  The call that shuts the context down is not among them.\<close>

theorem abi_answers:
  assumes r: "abi_reach ck pr" and h: "handle_of c = Some h" "lookup_handle (pr_reg pr) h = Some fw"
    and live: "c \<noteq> Firmware_shutdown h"
    and b: "dispatch_backend (pr_dispatch pr) (pr_hw pr) = (pf, disp, hw)"
    and run: "abi_exec ck c pr = Some (code, pr')"
  shows "code = status_code (answer pf (hw_in hw fw) c)"
  using abi_exec_answer [OF _ h live b run] abi_reach_ok [OF r] h(2) by (simp add: proc_ok_def)

theorem abi_answers_witness:
  "\<exists>(pr :: u64 proc). abi_reach \<lparr>ck_boot = (\<lambda>_. 0), ck_page = (\<lambda>_. 0), ck_stage = (\<lambda>_. (0, 0))\<rparr> pr
    \<and> (\<forall>code pr'. abi_exec \<lparr>ck_boot = (\<lambda>_. 0), ck_page = (\<lambda>_. 0), ck_stage = (\<lambda>_. (0, 0))\<rparr>
        (Firmware_task_submit 16 ''m'' ''f'' (1, 1, 1) (1, 1, 1) 0 [] 3 0) pr = Some (code, pr') \<longrightarrow> code = status_code OutOfMemory)
    \<and> (\<forall>code pr'. abi_exec \<lparr>ck_boot = (\<lambda>_. 0), ck_page = (\<lambda>_. 0), ck_stage = (\<lambda>_. (0, 0))\<rparr>
        (Token_prune 16 0 8) pr = Some (code, pr') \<longrightarrow> code = status_code InvalidArgument)"
proof -
  let ?ck = "\<lparr>ck_boot = (\<lambda>_. 0), ck_page = (\<lambda>_. 0), ck_stage = (\<lambda>_. (0, 0))\<rparr>"
  obtain fw and pr :: "u64 proc" where r: "abi_reach ?ck pr" "lookup_handle (pr_reg pr) 16 = Some fw"
    using sim_reach [of ?ck] by blast
  obtain pf disp hw where b: "dispatch_backend (pr_dispatch pr) (pr_hw pr) = (pf, disp, hw)" using prod_cases3 by blast
  note a = abi_answers [OF r(1) _ r(2) _ b]
  have "stream_class_cast 3 = Control" by (simp add: stream_class_cast_def)
  then have "code = status_code OutOfMemory"
    if "abi_exec ?ck (Firmware_task_submit 16 ''m'' ''f'' (1, 1, 1) (1, 1, 1) 0 [] 3 0) pr = Some (code, pr')" for code pr'
    using a [OF _ _ that] by (simp add: answer_def mk_free_list_def)
  moreover have "code = status_code InvalidArgument" if "abi_exec ?ck (Token_prune 16 0 8) pr = Some (code, pr')" for code pr'
    using a [OF _ _ that] by (simp add: answer_def)
  ultimately show ?thesis using r(1) by blast
qed

end
