(* ===== verification/Pipeline.thy ===== *)
theory Pipeline
  imports TaskGraph Boot TokenScope "HOL-Library.Char_ord"
begin

text \<open>
  The pipeline (\<^verbatim>\<open>src/pipeline/orchestrator.hpp\<close>, \<^verbatim>\<open>orchestrator.cpp\<close>) and the
  stage classes beside it (\<^verbatim>\<open>preprocess.cpp\<close>, \<^verbatim>\<open>train.cpp\<close>,
  \<^verbatim>\<open>infer.cpp\<close>, \<^verbatim>\<open>postprocess.cpp\<close>).  The pipeline's own state is its
  graph, its scope and the built flag; what it reaches through the context (the environment,
  the micro-kernel, the DMA engine, the memory manager) is an argument of each operation.
\<close>

subsection \<open>State\<close>

record pipeline_config =
  pc_contracts_yaml :: string
  pc_runtime_yaml :: string
  pc_hardware_yaml :: string
  pc_dry_run :: bool
  pc_enable_review_gates :: bool

definition pipeline_config_default :: pipeline_config where
  "pipeline_config_default = \<lparr>pc_contracts_yaml = ''config/pipeline.yaml'', pc_runtime_yaml = ''config/runtime.yaml'',
     pc_hardware_yaml = ''config/hardware.yaml'', pc_dry_run = False, pc_enable_review_gates = False\<rparr>"

record pipeline =
  pl_cfg :: pipeline_config
  pl_graph :: task_graph
  pl_scope :: context_scope
  pl_built :: bool

definition pl_create :: "pipeline_config \<Rightarrow> pipeline" where
  "pl_create cfg = \<lparr>pl_cfg = cfg, pl_graph = tg_create, pl_scope = cs_create, pl_built = False\<rparr>"

subsection \<open>Building the graph\<close>

definition stage_preprocess :: stage_contract where
  "stage_preprocess = stage_contract_default\<lparr>sc_name := ''preprocess'', sc_module := ''nexusrt.kernels.tokenize'',
     sc_function := ''tokenize_bpe_u8'', sc_token_budget := 8192, sc_sm_footprint_mb := 32,
     sc_mem_footprint_mb := 256, sc_grid := (32, 1, 1), sc_block := (256, 1, 1)\<rparr>"

definition stage_train :: stage_contract where
  "stage_train = stage_contract_default\<lparr>sc_name := ''train'', sc_module := ''nexusrt.kernels.train'',
     sc_function := ''transformer_fwd_bwd'', sc_token_budget := 8192, sc_sm_footprint_mb := 128,
     sc_mem_footprint_mb := 32768, sc_depends_on := [''preprocess''], sc_grid := (64, 1, 1), sc_block := (256, 1, 1)\<rparr>"

definition stage_infer :: stage_contract where
  "stage_infer = stage_contract_default\<lparr>sc_name := ''infer'', sc_module := ''nexusrt.kernels.infer'',
     sc_function := ''decode_step'', sc_token_budget := 4096, sc_sm_footprint_mb := 64,
     sc_mem_footprint_mb := 16384, sc_depends_on := [''preprocess''], sc_grid := (32, 1, 1), sc_block := (256, 1, 1)\<rparr>"

definition stage_postprocess :: stage_contract where
  "stage_postprocess = stage_contract_default\<lparr>sc_name := ''postprocess'', sc_module := ''nexusrt.kernels.postprocess'',
     sc_function := ''detokenize_format'', sc_token_budget := 1024, sc_sm_footprint_mb := 16,
     sc_mem_footprint_mb := 64, sc_depends_on := [''infer''], sc_grid := (8, 1, 1), sc_block := (128, 1, 1)\<rparr>"

fun add_stages :: "stage_contract list \<Rightarrow> task_graph \<Rightarrow> status \<times> task_graph" where
  "add_stages [] g = (Ok, g)"
| "add_stages (c # cs) g = (let (s, g1) = add_stage c g in if \<not> ok s then (s, g1) else add_stages cs g1)"

definition pl_build :: "device_desc \<Rightarrow> pipeline \<Rightarrow> status \<times> pipeline" where
  "pl_build d p =
     (let (s, g1) = add_stages [stage_preprocess, stage_train, stage_infer, stage_postprocess] (pl_graph p)
      in if \<not> ok s then (s, p\<lparr>pl_graph := g1\<rparr>)
         else (let (s2, g2) = validate d g1
               in if \<not> ok s2 then (s2, p\<lparr>pl_graph := g2\<rparr>)
                  else (Ok, p\<lparr>pl_graph := g2, pl_built := True\<rparr>)))"

definition pl_run :: "'p backend \<Rightarrow> (string \<Rightarrow> u64 \<times> u64) \<Rightarrow> 'p env \<Rightarrow> microkernel \<Rightarrow> pipeline
    \<Rightarrow> status \<times> 'p env \<times> microkernel \<times> pipeline" where
  "pl_run pf clk env mk p =
     (let (s, p1) = (if \<not> pl_built p then pl_build (e_device env) p else (Ok, p))
      in if \<not> ok s then (s, env, mk, p1)
         else if pc_dry_run (pl_cfg p1) then (Ok, env, mk, p1)
         else (let (s2, env', mk', g') = tg_run pf clk env mk (pl_graph p1)
               in (s2, env', mk', p1\<lparr>pl_graph := g'\<rparr>)))"

subsection \<open>The per-stage entry points\<close>

definition pl_run_preprocess :: "'p backend \<Rightarrow> (u64 \<Rightarrow> u64) \<Rightarrow> dma_engine \<Rightarrow> string \<Rightarrow> 'p mstate
    \<Rightarrow> (status \<times> 'p mstate) option" where
  "pl_run_preprocess pf clk de corpus_path st =
     Option.bind (mm_alloc pf clk (push_bit 20 1) alloc_hints_default allocation_default st) (\<lambda>(s, buf, st1).
       if \<not> ok s then Some (s, st1)
       else (let (s2, env2) = gds_read pf de corpus_path 0 (al_hbm_ptr buf) (push_bit 20 1) (ms_env st1)
             in map_option (\<lambda>(_, st3). (s2, st3)) (mm_free pf buf (st1\<lparr>ms_env := env2\<rparr>))))"

fun pl_run_train :: "'p backend \<Rightarrow> nat \<Rightarrow> 'p env \<Rightarrow> microkernel \<Rightarrow> status \<times> 'p env" where
  "pl_run_train pf 0 env mk = (Ok, env)"
| "pl_run_train pf (Suc n) env mk =
     (let (s, env') = sync_all pf env mk in if \<not> ok s then (s, env') else pl_run_train pf n env' mk)"

fun decode_loop :: "nat \<Rightarrow> i32 list \<Rightarrow> context_scope \<Rightarrow> i32 list \<times> context_scope" where
  "decode_loop 0 out cs = (out, cs)"
| "decode_loop (Suc n) out cs =
     (let cs' = snd (cs_step (of_nat (length out)) cs); nxt = of_nat (length out)
      in decode_loop n (out @ [nxt]) cs')"

definition pl_run_infer :: "i32 list \<Rightarrow> u32 \<Rightarrow> pipeline \<Rightarrow> status \<times> i32 list \<times> pipeline" where
  "pl_run_infer prompt max_new_tokens p =
     (let (out, cs) = decode_loop (unat max_new_tokens) prompt (pl_scope p)
      in (Ok, out, p\<lparr>pl_scope := cs\<rparr>))"

definition detok_char :: "i32 \<Rightarrow> char" where
  "detok_char t = (if 32 \<le> sint t \<and> sint t < 127 then char_of (nat (sint t)) else CHR '' '')"

definition pl_run_postprocess :: "i32 list \<Rightarrow> status \<times> string" where
  "pl_run_postprocess tokens = (Ok, map detok_char tokens)"

subsection \<open>Metrics\<close>

fun show_nat :: "nat \<Rightarrow> string" where
  "show_nat n = (if n < 10 then [char_of (48 + n)] else show_nat (n div 10) @ [char_of (48 + n mod 10)])"

definition show_int :: "int \<Rightarrow> string" where
  "show_int i = (if i < 0 then ''-'' @ show_nat (nat (- i)) else show_nat (nat i))"

definition state_code :: "stage_state \<Rightarrow> int" where
  "state_code st = (case st of Pending \<Rightarrow> 0 | stage_state.Ready \<Rightarrow> 1 | Running \<Rightarrow> 2 | Completed \<Rightarrow> 3 | Failed \<Rightarrow> 4)"

definition stage_json :: "task_graph \<Rightarrow> string \<Rightarrow> string" where
  "stage_json g name =
     (let n = tg_find g name
      in ''{\"name\":\"'' @ name @ ''\",'' @ ''\"state\":''
         @ show_int (case n of None \<Rightarrow> 0 | Some m \<Rightarrow> state_code (sn_state m)) @ '',''
         @ ''\"last_status\":'' @ show_int (case n of None \<Rightarrow> 0 | Some m \<Rightarrow> sn_last_status m) @ ''}'')"

fun join_comma :: "string list \<Rightarrow> string" where
  "join_comma [] = []"
| "join_comma [x] = x"
| "join_comma (x # y # xs) = x @ '','' @ join_comma (y # xs)"

definition metrics_json :: "pipeline \<Rightarrow> string" where
  "metrics_json p = ''{\"stages\":['' @ join_comma (map (stage_json (pl_graph p)) (stage_names (pl_graph p))) @ '']}''"

subsection \<open>The stage classes\<close>

definition preprocess_run :: "'p backend \<Rightarrow> (u64 \<Rightarrow> u64) \<Rightarrow> dma_engine \<Rightarrow> string \<Rightarrow> u64 \<Rightarrow> ptr \<Rightarrow> u64 \<Rightarrow> 'p mstate
    \<Rightarrow> (status \<times> 'p mstate) option" where
  "preprocess_run pf clk de corpus_path bytes_to_read out_token_hbm out_capacity st =
     Option.bind (mm_alloc pf clk bytes_to_read alloc_hints_default allocation_default st) (\<lambda>(s, raw, st1).
       if \<not> ok s then Some (s, st1)
       else (let (s2, env2) = gds_read pf de corpus_path 0 (al_hbm_ptr raw) bytes_to_read (ms_env st1);
                 st2 = st1\<lparr>ms_env := env2\<rparr>
             in if \<not> ok s2 then map_option (\<lambda>(_, st3). (s2, st3)) (mm_free pf raw st2)
                else map_option (\<lambda>(_, st3). (Ok, st3)) (mm_free pf raw st2)))"

definition train_step :: "'p backend \<Rightarrow> u32 \<Rightarrow> u32 \<Rightarrow> 'p env \<Rightarrow> microkernel \<Rightarrow> status \<times> 'p env" where
  "train_step pf micro_batch seq_len env mk = sync_all pf env mk"

definition sync_gradients :: "u32 \<Rightarrow> status" where
  "sync_gradients n_ranks = Ok"

definition infer_prefill :: "i32 list \<Rightarrow> context_scope \<Rightarrow> status \<times> context_scope" where
  "infer_prefill prompt cs = (Ok, snd (cs_step 0 cs))"

fun infer_loop :: "nat \<Rightarrow> u32 \<Rightarrow> i32 list \<Rightarrow> context_scope \<Rightarrow> i32 list \<times> context_scope" where
  "infer_loop 0 i out cs = (out, cs)"
| "infer_loop (Suc n) i out cs = infer_loop n (i + 1) (out @ [i]) (snd (cs_step (i + 1) cs))"

definition infer_decode :: "u32 \<Rightarrow> context_scope \<Rightarrow> status \<times> i32 list \<times> context_scope" where
  "infer_decode max_new_tokens cs = (let (out, cs') = infer_loop (unat max_new_tokens) 0 [] cs in (Ok, out, cs'))"

definition postprocess_run :: "i32 list \<Rightarrow> bool \<Rightarrow> status \<times> string" where
  "postprocess_run tokens copy_to_host = (Ok, map detok_char tokens)"

subsection \<open>The built graph\<close>

definition canonical_nodes :: "(string, stage_node) umap" where
  "canonical_nodes = map (\<lambda>c. (sc_name c, stage_node_new c)) [stage_preprocess, stage_train, stage_infer, stage_postprocess]"

lemmas stage_defs = stage_preprocess_def stage_train_def stage_infer_def stage_postprocess_def stage_contract_default_def

lemma add_canonical:
  "add_stages [stage_preprocess, stage_train, stage_infer, stage_postprocess] tg_create = (Ok, tg_create\<lparr>tg_nodes := canonical_nodes\<rparr>)"
  by (simp add: add_stage_def stage_defs tg_create_def canonical_nodes_def)

lemma canonical_kahn: "deps_exist canonical_nodes" "kahn_count canonical_nodes = length canonical_nodes"
  by code_simp+

lemma canonical_wf: "um_wf canonical_nodes"
  by (simp add: um_wf_def canonical_nodes_def stage_defs)

lemma canonical_dag: "dag canonical_nodes"
  using kahn_count_all [OF canonical_wf] deps_exist_iff [OF canonical_wf] canonical_kahn by (simp add: dag_def)

lemma canonical_contracts: "contracts_ok d canonical_nodes \<longleftrightarrow> 128 \<le> dd_smem_per_sm_bytes d div 1024"
proof -
  have "128 \<le> x \<Longrightarrow> 32 \<le> x \<and> 64 \<le> x \<and> 16 \<le> x" for x :: u32
    by (auto intro: order_trans [of _ "128 :: u32"])
  then show ?thesis
    by (auto simp: contracts_ok_def canonical_nodes_def stage_node_new_def stage_defs not_less)
qed

lemma pl_build_fresh:
  "pl_build d (pl_create cfg) =
     (if 128 \<le> dd_smem_per_sm_bytes d div 1024
      then (Ok, (pl_create cfg)\<lparr>pl_graph := \<lparr>tg_nodes = canonical_nodes, tg_overlap = [], tg_validated = True\<rparr>, pl_built := True\<rparr>)
      else (ContractViolation, (pl_create cfg)\<lparr>pl_graph := \<lparr>tg_nodes = canonical_nodes, tg_overlap = [], tg_validated = False\<rparr>\<rparr>))"
proof -
  have b: "add_stages [stage_preprocess, stage_train, stage_infer, stage_postprocess] tg_create
      = (Ok, \<lparr>tg_nodes = canonical_nodes, tg_overlap = [], tg_validated = False\<rparr>)"
    unfolding add_canonical by (simp add: tg_create_def)
  have v: "validate d \<lparr>tg_nodes = canonical_nodes, tg_overlap = [], tg_validated = False\<rparr>
      = (if 128 \<le> dd_smem_per_sm_bytes d div 1024 then (Ok, \<lparr>tg_nodes = canonical_nodes, tg_overlap = [], tg_validated = True\<rparr>)
         else (ContractViolation, \<lparr>tg_nodes = canonical_nodes, tg_overlap = [], tg_validated = False\<rparr>))"
    using canonical_contracts [of d] canonical_dag canonical_wf by (simp add: validate_cases)
  show ?thesis by (simp add: pl_build_def pl_create_def b v del: add_stages.simps)
qed

lemma add_stages_taken: "tg_find g (sc_name c) \<noteq> None \<Longrightarrow> add_stages (c # cs) g = (InvalidArgument, g)"
  by (simp add: add_stage_def tg_find_def)

lemma canonical_find:
  "map_of canonical_nodes ''preprocess'' = Some (stage_node_new stage_preprocess)"
  "map_of canonical_nodes ''train'' = Some (stage_node_new stage_train)"
  "map_of canonical_nodes ''infer'' = Some (stage_node_new stage_infer)"
  "map_of canonical_nodes ''postprocess'' = Some (stage_node_new stage_postprocess)"
  by (simp_all add: canonical_nodes_def stage_defs)

lemma canonical_inv: "contracts_ok d canonical_nodes \<or> \<not> v \<Longrightarrow> tg_inv d \<lparr>tg_nodes = canonical_nodes, tg_overlap = ov, tg_validated = v\<rparr>"
  using canonical_wf canonical_dag
  by (auto simp: tg_inv_def canonical_nodes_def stage_node_new_def stage_defs split: if_splits)

subsection \<open>What the pipeline promises\<close>

text \<open>C10: The pipeline runs end to end.  On a device with 128 KB of shared memory per
  multiprocessor, with a well-formed pool and a driver that accepts the four kernels, a run of
  a new pipeline builds the graph and answers \<open>Ok\<close> with every stage completed, each after those
  it depends on, and the stream pool as it was; running again does nothing.  A dry run builds
  and calls no driver.\<close>

theorem pipeline_end_to_end:
  assumes mk: "mk_inv mk" and smem: "128 \<le> dd_smem_per_sm_bytes (e_device env) div 1024"
    and acc: "\<And>c env. c \<in> {stage_preprocess, stage_train, stage_infer, stage_postprocess}
      \<Longrightarrow> fst (tg_launch pf clk (stage_node_new c) env mk) = Ok"
  shows "\<exists>env' p'. pl_run pf clk env mk (pl_create cfg) = (Ok, env', mk, p') \<and> pl_built p'
    \<and> stage_names (pl_graph p') = [''preprocess'', ''train'', ''infer'', ''postprocess'']
    \<and> (if pc_dry_run cfg then env' = env \<and> tg_nodes (pl_graph p') = canonical_nodes
       else wait_all (pl_graph p') = Ok \<and> ordered (tg_nodes (pl_graph p')))
    \<and> pl_run pf clk env' mk p' = (Ok, env', mk, p')"
proof (cases "pc_dry_run cfg")
  case True
  then show ?thesis using smem
    by (simp add: pl_run_def pl_build_fresh) (simp add: pl_create_def canonical_nodes_def stage_names_def stage_defs pl_run_def)
next
  case False
  let ?g = "\<lparr>tg_nodes = canonical_nodes, tg_overlap = [], tg_validated = True\<rparr>"
  have inv: "tg_inv (e_device env) ?g" by (rule canonical_inv) (simp add: canonical_contracts smem)
  obtain s env' mk' g' where run: "tg_run pf clk env mk ?g = (s, env', mk', g')" using prod_cases4 by blast
  have nodes: "map_of canonical_nodes k = Some n \<Longrightarrow>
      \<exists>c \<in> {stage_preprocess, stage_train, stage_infer, stage_postprocess}. n = stage_node_new c" for k n
    by (auto simp: canonical_nodes_def split: if_splits)
  have ok: "s = Ok"
  proof -
    have "fst (tg_run pf clk env mk ?g) = Ok"
    proof (rule tg_run_accepted [OF inv mk])
      show "fst (validate (e_device env) ?g) = Ok"
        using canonical_dag canonical_wf smem by (simp add: validate_cases canonical_contracts)
      show "fst (tg_launch pf clk n env mk) = Ok" if "tg_find ?g k = Some n" for k n env
        using nodes [of k n] that acc by (auto simp: tg_find_def)
    qed
    then show ?thesis using run by simp
  qed
  have ord: "ordered canonical_nodes"
    unfolding ordered_def using nodes by (fastforce simp: stage_node_new_def)
  note safe = tg_run_safe [OF inv mk _ run]
  have "wait_all g' = Ok"
    using tg_run_ends [OF inv mk run] nodes ok by (fastforce simp: tg_find_def stage_node_new_def)
  then have ends: "wait_all g' = Ok \<and> (\<forall>k n. tg_find g' k = Some n \<longrightarrow> sn_state n = Completed)"
    by (simp add: wait_all_iff tg_find_def)
  have f: "mk' = mk" "ordered (tg_nodes g')" "stage_names g' = stage_names ?g" using safe ord by simp_all
  have v: "tg_validated g'" by (cases rule: tg_run_cases [OF inv mk run]) (simp_all add: ok)
  have again: "tg_run pf clk env' mk g' = (Ok, env', mk, g')"
    using v ends by (intro tg_run_idle) (auto simp: ready_to_run_def)
  have "pl_run pf clk env mk (pl_create cfg) = (Ok, env', mk, (pl_create cfg)\<lparr>pl_graph := g', pl_built := True\<rparr>)"
    using smem False run ok f by (simp add: pl_run_def pl_build_fresh) (simp add: pl_create_def)
  then show ?thesis using False ends f again
    by (simp add: pl_run_def) (simp add: pl_create_def stage_names_def canonical_nodes_def stage_defs)
qed

definition pl_mk :: microkernel where
  "pl_mk = demo_mk\<lparr>mk_modules := map (\<lambda>c. (sc_module c, \<lparr>km_id = 3, km_name = sc_module c, km_raw_module = 0,
     km_functions = [(sc_function c, 1)]\<rparr>)) [stage_preprocess, stage_train, stage_infer, stage_postprocess]\<rparr>"

lemma pl_mk_inv: "mk_inv pl_mk"
  using demo_mk_inv by (simp add: pl_mk_def pool_simps)

lemma canonical_class: "c \<in> {stage_preprocess, stage_train, stage_infer, stage_postprocess} \<Longrightarrow> stage_class c = Compute"
proof -
  have "stage_class stage_preprocess = Compute" "stage_class stage_train = Compute"
    "stage_class stage_infer = Compute" "stage_class stage_postprocess = Compute" by code_simp+
  then show "c \<in> {stage_preprocess, stage_train, stage_infer, stage_postprocess} \<Longrightarrow> stage_class c = Compute" by auto
qed

lemma pl_mk_accepts:
  assumes "c \<in> {stage_preprocess, stage_train, stage_infer, stage_postprocess}"
  shows "fst (tg_launch sim_backend clk (stage_node_new c) env pl_mk) = Ok"
proof -
  have f: "find_module mk (sc_module c) = Some \<lparr>km_id = 3, km_name = sc_module c, km_raw_module = 0,
     km_functions = [(sc_function c, 1)]\<rparr>" if "mk_modules mk = mk_modules pl_mk" for mk
    using assms that by (auto simp: find_module_def pl_mk_def stage_defs)
  then have l: "mk_launch sim_backend (sc_module c) (sc_function c) g b sm h args e mk = (Ok, e)"
    if "mk_modules mk = mk_modules pl_mk" for g b sm h args e mk
    using f [OF that] by (simp add: mk_launch_def)
  let ?mk1 = "pl_mk\<lparr>mk_free_compute := [stream_handle_default\<lparr>sh_id := 1\<rparr>]\<rparr>"
  have a: "acquire_stream Compute 0 pl_mk = (stream_handle_default\<lparr>sh_id := 2\<rparr>, ?mk1)"
    by (simp add: acquire_stream_def pl_mk_def demo_mk_def)
  have "mk_modules ?mk1 = mk_modules pl_mk" by simp
  from l [OF this] show ?thesis
    using canonical_class [OF assms] by (simp add: tg_launch_def stage_node_new_def a mk_sync_stream_def Let_def)
qed

theorem pipeline_end_to_end_witness:
  "\<exists>env' p'. pl_run sim_backend (\<lambda>_. (0, 0)) sim_env pl_mk (pl_create pipeline_config_default) = (Ok, env', pl_mk, p')
    \<and> wait_all (pl_graph p') = Ok"
proof -
  have "128 \<le> dd_smem_per_sm_bytes (e_device sim_env) div 1024" by (simp add: sim_env_def)
  from pipeline_end_to_end [OF pl_mk_inv this pl_mk_accepts, of "\<lambda>_. (0, 0)" pipeline_config_default] show ?thesis
    by (auto simp: pipeline_config_default_def)
qed

text \<open>On a device with less than 128 KB of shared memory per multiprocessor, which the Pascal and
  Turing devices the code names have, the pipeline never runs: the first attempt is rejected as
  a contract violation of the train stage, and since the stages it registered stay in the
  graph, every later attempt on whatever device is rejected as an invalid argument.  No driver
  is called and no stage leaves the pending state.\<close>

theorem small_device_never_runs:
  assumes "dd_smem_per_sm_bytes (e_device env) div 1024 < 128"
  shows "\<exists>p1. pl_run pf clk env mk (pl_create cfg) = (ContractViolation, env, mk, p1)
    \<and> \<not> pl_built p1 \<and> tg_nodes (pl_graph p1) = canonical_nodes
    \<and> pl_run pf2 clk2 env2 mk2 p1 = (InvalidArgument, env2, mk2, p1)"
proof -
  let ?g = "\<lparr>tg_nodes = canonical_nodes, tg_overlap = [], tg_validated = False\<rparr>"
  let ?p = "(pl_create cfg)\<lparr>pl_graph := ?g\<rparr>"
  have t: "add_stages [stage_preprocess, stage_train, stage_infer, stage_postprocess] ?g = (InvalidArgument, ?g)"
    by (rule add_stages_taken) (simp add: tg_find_def canonical_find stage_preprocess_def)
  then have "pl_build d ?p = (InvalidArgument, ?p)" for d
    unfolding pl_build_def by (simp del: add_stages.simps)
  then have "pl_run pf2 clk2 env2 mk2 ?p = (InvalidArgument, env2, mk2, ?p)"
    by (simp add: pl_run_def pl_create_def)
  moreover have "pl_run pf clk env mk (pl_create cfg) = (ContractViolation, env, mk, ?p)"
  proof -
    have "\<not> 128 \<le> dd_smem_per_sm_bytes (e_device env) div 1024" using assms by (simp add: not_le)
    moreover have "\<not> pl_built (pl_create cfg)" by (simp add: pl_create_def)
    ultimately show ?thesis by (simp add: pl_run_def pl_build_fresh)
  qed
  ultimately show ?thesis by (intro exI [of _ ?p]) (simp add: pl_create_def)
qed

theorem small_device_never_runs_witness:
  "\<exists>p1. pl_run sim_backend (\<lambda>_. (0, 0)) (sim_env\<lparr>e_device := (e_device sim_env)\<lparr>dd_smem_per_sm_bytes := 0x10000\<rparr>\<rparr>)
      pl_mk (pl_create pipeline_config_default) = (ContractViolation,
        sim_env\<lparr>e_device := (e_device sim_env)\<lparr>dd_smem_per_sm_bytes := 0x10000\<rparr>\<rparr>, pl_mk, p1)
    \<and> pl_run sim_backend (\<lambda>_. (0, 0)) sim_env pl_mk p1 = (InvalidArgument, sim_env, pl_mk, p1)"
  using small_device_never_runs [of "sim_env\<lparr>e_device := (e_device sim_env)\<lparr>dd_smem_per_sm_bytes := 0x10000\<rparr>\<rparr>"
      sim_backend "\<lambda>_. (0, 0)" pl_mk pipeline_config_default sim_backend "\<lambda>_. (0, 0)" sim_env pl_mk]
  by auto

lemma decode_loop_out:
  "fst (decode_loop n out cs) = out @ map of_nat [length out..<length out + n]"
  by (induction n arbitrary: out cs) (simp_all add: Let_def upt_conv_Cons del: upt_Suc)

lemma total_step: "cs_ok cs \<Longrightarrow> cs_ok (snd (cs_step g cs)) \<and> total_bytes_used (snd (cs_step g cs)) = total_bytes_used cs + 4"
  by (simp add: cm.tick_inv cm.tick_used)

lemma decode_loop_meter:
  "cs_ok cs \<Longrightarrow> cs_ok (snd (decode_loop n out cs))
    \<and> total_bytes_used (snd (decode_loop n out cs)) = total_bytes_used cs + of_nat (4 * n)"
proof (induction n arbitrary: out cs)
  case (Suc n)
  then show ?case using Suc.IH [of "snd (cs_step (of_nat (length out)) cs)" "out @ [of_nat (length out)]"]
    by (simp add: Let_def total_step algebra_simps)
qed simp

text \<open>Inference keeps the prompt and appends exactly the requested number of tokens, each being
  (as the placeholder decoder has it) the number of tokens before it, and charges the scope 4
  bytes for each new token and nothing for the prompt.\<close>

theorem infer_appends:
  assumes "cs_ok (pl_scope p)"
  shows "\<exists>p'. pl_run_infer prompt n p = (Ok, prompt @ map of_nat [length prompt..<length prompt + unat n], p')
    \<and> pl_graph p' = pl_graph p \<and> cs_ok (pl_scope p')
    \<and> total_bytes_used (pl_scope p') = total_bytes_used (pl_scope p) + 4 * ucast n"
proof -
  obtain out cs where d: "decode_loop (unat n) prompt (pl_scope p) = (out, cs)" by force
  have "out = prompt @ map of_nat [length prompt..<length prompt + unat n]"
    using decode_loop_out [of "unat n" prompt "pl_scope p"] d by simp
  moreover have "cs_ok cs \<and> total_bytes_used cs = total_bytes_used (pl_scope p) + of_nat (4 * unat n)"
    using decode_loop_meter [OF assms, of "unat n" prompt] d by simp
  ultimately show ?thesis using d by (simp add: pl_run_infer_def)
qed

theorem infer_appends_witness:
  "\<exists>p'. pl_run_infer [7, 8] 3 (pl_create pipeline_config_default) = (Ok, [7, 8, 2, 3, 4], p')
    \<and> total_bytes_used (pl_scope p') = 12"
proof -
  have c: "cs_ok (pl_scope (pl_create pipeline_config_default))" by (simp add: pl_create_def cs_ok_create)
  have u: "unat (3 :: u32) = 3" by simp
  have t: "total_bytes_used (pl_scope (pl_create pipeline_config_default)) = 0"
    by (simp add: pl_create_def cs_create_def total_bytes_used_def default_layers_def)
  show ?thesis using infer_appends [OF c, of "[7, 8]" 3] unfolding u t by (auto simp: upt_rec)
qed

lemma mm_free_accepted:
  assumes "\<And>p e. fst (b_free_hbm pf p e) = Ok" and "map_of (mm_live (ms_mm st)) (al_hbm_ptr a) \<noteq> None"
    and "mm_free pf a st = Some (s, st')"
  shows "s = Ok"
proof -
  have "b_free_hbm pf p e = (Ok, snd (b_free_hbm pf p e))" for p e using assms(1) [of p e] by (metis prod.collapse)
  then show ?thesis using assms(2,3)
    by (auto simp: mm_free_def Let_def bind_eq_Some_conv split: option.splits prod.splits if_splits)
qed

text \<open>Preprocessing leaks nothing: over an allocator that hands out fresh pointers and a driver
  that accepts releases, the live table and the byte counter are afterwards what they were,
  whether or not the allocation and the read succeeded, and the status is the allocation's
  failure or the read's.  The pipeline's own entry point is that stage with 1 MB.\<close>

theorem preprocess_no_leak:
  fixes st :: "'p mstate"
  assumes inv: "mm_inv (ms_mm st)" and fresh: "alloc_fresh pf bytes st"
    and rel: "\<And>p e. fst (b_free_hbm pf p e) = Ok"
  shows "\<exists>s st'. preprocess_run pf clk de path bytes out cap st = Some (s, st')
    \<and> mm_live (ms_mm st') = mm_live (ms_mm st) \<and> mm_bytes_allocated (ms_mm st') = mm_bytes_allocated (ms_mm st)
    \<and> (case mm_alloc pf clk bytes alloc_hints_default allocation_default st of
         None \<Rightarrow> False
       | Some (s1, a, st1) \<Rightarrow> s = (if s1 = Ok then fst (gds_read pf de path 0 (al_hbm_ptr a) bytes (ms_env st1)) else s1))
    \<and> pl_run_preprocess pf clk de path st = preprocess_run pf clk de path (push_bit 20 1) out cap st"
proof -
  obtain s1 a st1 where al: "mm_alloc pf clk bytes alloc_hints_default allocation_default st = Some (s1, a, st1)"
    using mm_alloc_returns [OF mm_inv_kb [OF inv]] by (metis not_None_eq prod_cases3)
  have eq: "pl_run_preprocess pf clk de path st = preprocess_run pf clk de path (push_bit 20 1) out cap st"
    unfolding pl_run_preprocess_def preprocess_run_def
    by (rule Option.bind_cong) (auto simp: Let_def split: prod.split)
  show ?thesis
  proof (cases "s1 = Ok")
    case False
    then have "ms_mm st1 = ms_mm st"
      using al by (cases rule: mm_alloc_cases [OF mm_inv_kb [OF inv], where pf = pf and clk = clk and bytes = bytes
            and hints = alloc_hints_default and out = allocation_default]) auto
    then show ?thesis using al False eq by (simp add: preprocess_run_def)
  next
    case True
    obtain s2 env2 where g: "gds_read pf de path 0 (al_hbm_ptr a) bytes (ms_env st1) = (s2, env2)" by force
    let ?st2 = "st1\<lparr>ms_env := env2\<rparr>"
    have inv1: "mm_inv (ms_mm st1)"
      using mm_alloc_inv [OF inv _ al] fresh by (auto simp: alloc_fresh_def)
    have live: "map_of (mm_live (ms_mm st1)) (al_hbm_ptr a) \<noteq> None"
      using al True by (cases rule: mm_alloc_cases [OF mm_inv_kb [OF inv], where pf = pf and clk = clk and bytes = bytes
            and hints = alloc_hints_default and out = allocation_default]) auto
    obtain s3 st3 where f: "mm_free pf a ?st2 = Some (s3, st3)"
      using mm_free_returns [of ?st2 pf a] mm_inv_kb [OF inv1] by auto
    obtain s4 st4 where f1: "mm_free pf a st1 = Some (s4, st4)"
      using mm_free_returns [of st1 pf a] mm_inv_kb [OF inv1] by auto
    have ok: "s3 = Ok" "s4 = Ok" using mm_free_accepted [OF rel _ f] mm_free_accepted [OF rel _ f1] live by simp_all
    have "mm_live (ms_mm st4) = mm_live (ms_mm st) \<and> mm_bytes_allocated (ms_mm st4) = mm_bytes_allocated (ms_mm st)"
      using alloc_free [OF inv fresh _ f1] al True ok by simp
    moreover have "ms_mm st3 = ms_mm st4"
      using mm_free_mm [OF mm_inv_kb [OF inv1], of ?st2] f f1 ok by simp
    moreover have "preprocess_run pf clk de path bytes out cap st = Some (s2, st3)"
      using al True g f by (simp add: preprocess_run_def Let_def)
    ultimately show ?thesis using al True g eq by (intro exI [of _ s2] exI [of _ st3]) simp
  qed
qed

theorem preprocess_no_leak_witness:
  "\<exists>s st'. preprocess_run sim_backend (\<lambda>_. 0) (dma_create (e_device sim_env)) ''corpus.txt'' 4096 0 0 sim_st = Some (s, st')
    \<and> mm_live (ms_mm st') = mm_live (ms_mm sim_st)"
proof -
  have fresh: "alloc_fresh sim_backend 4096 sim_st" by (simp add: alloc_fresh_def sim_st_def mm_create_def)
  have rel: "fst (b_free_hbm sim_backend p e) = Ok" for p e by simp
  show ?thesis using preprocess_no_leak [OF mm_reach_inv [OF sim_st_reach] fresh rel] by blast
qed

text \<open>Detokenising is total and printable: one character per token, each between space and tilde,
  the same in both implementations, and text of such characters survives the trip through its
  character codes.\<close>

theorem detokenize_printable:
  "(\<exists>out. pl_run_postprocess tokens = (Ok, out) \<and> postprocess_run tokens h = (Ok, out)
      \<and> length out = length tokens \<and> list_all (\<lambda>c. 32 \<le> (of_char c :: nat) \<and> of_char c < (127 :: nat)) out)
   \<and> (list_all (\<lambda>c. 32 \<le> (of_char c :: nat) \<and> of_char c < (127 :: nat)) txt
      \<longrightarrow> pl_run_postprocess (map (\<lambda>c. of_nat (of_char c)) txt) = (Ok, txt))"
proof (intro conjI impI)
  have "32 \<le> (of_char (detok_char t) :: nat) \<and> of_char (detok_char t) < (127 :: nat)" for t
    by (auto simp: detok_char_def nat_less_iff)
  then show "\<exists>out. pl_run_postprocess tokens = (Ok, out) \<and> postprocess_run tokens h = (Ok, out)
      \<and> length out = length tokens \<and> list_all (\<lambda>c. 32 \<le> (of_char c :: nat) \<and> of_char c < (127 :: nat)) out"
    by (simp add: pl_run_postprocess_def postprocess_run_def list_all_iff)
next
  assume p: "list_all (\<lambda>c. 32 \<le> (of_char c :: nat) \<and> of_char c < (127 :: nat)) txt"
  have "detok_char (of_nat (of_char c)) = c" if "32 \<le> (of_char c :: nat)" "of_char c < (127 :: nat)" for c
  proof -
    have "sint (of_nat (of_char c) :: i32) = int (of_char c)"
      using that by (simp add: signed_of_nat signed_take_bit_int_eq_self)
    then show ?thesis using that by (simp add: detok_char_def)
  qed
  then show "pl_run_postprocess (map (\<lambda>c. of_nat (of_char c)) txt) = (Ok, txt)"
    using p by (auto simp: pl_run_postprocess_def list_all_iff map_idI)
qed

theorem detokenize_printable_witness:
  "pl_run_postprocess (map (\<lambda>c. of_nat (of_char c)) ''Hi!'') = (Ok, ''Hi!'')"
  using detokenize_printable [of "[]" True "''Hi!''"] by simp

end
