(* ===== verification/KvCache.thy ===== *)
theory KvCache
  imports Interfaces "HOL-Library.Product_Lexorder"
begin

text \<open>
  The KV cache of \<^verbatim>\<open>src/token_opt/kv_cache.hpp\<close> and \<^verbatim>\<open>kv_cache.cpp\<close>.  Attention
  weights are elements of an arbitrary linear order with a zero, which covers
  \<^verbatim>\<open>float\<close> without NaN.  \<^verbatim>\<open>pages_\<close> is an association list; the candidates are sorted
  by weight and page, so its order plays no role.  The mutex is not recursive: an operation
  that takes it while holding it never returns, which is the result \<^term>\<open>None\<close>.
\<close>

subsection \<open>State\<close>

record 'f kv_page =
  kp_first_token_index :: u32
  kp_refcount :: u32
  kp_last_attention :: 'f
  kp_resident :: bool

definition kv_page_default :: "('f :: zero) kv_page" where
  "kv_page_default = \<lparr>kp_first_token_index = 0, kp_refcount = 0, kp_last_attention = 0, kp_resident = False\<rparr>"

record 'f kv_cache =
  kv_max_resident :: u32
  kv_page_size_tokens :: u32
  kv_eviction_band :: u32
  kv_resident :: u32
  kv_pages :: "(u32, 'f kv_page) umap"

definition kv_create :: "u32 \<Rightarrow> u32 \<Rightarrow> u32 \<Rightarrow> 'f kv_cache" where
  "kv_create max_res page_size band = \<lparr>kv_max_resident = max_res, kv_page_size_tokens = page_size,
     kv_eviction_band = band, kv_resident = 0, kv_pages = []\<rparr>"

subsection \<open>Operations\<close>

definition kv_page_of :: "'f kv_cache \<Rightarrow> u32 \<Rightarrow> u32" where
  "kv_page_of kv token = token AND NOT (kv_page_size_tokens kv - 1)"

definition kv_get :: "u32 \<Rightarrow> ('f :: zero) kv_cache \<Rightarrow> 'f kv_page" where
  "kv_get page kv = (case map_of (kv_pages kv) page of None \<Rightarrow> kv_page_default | Some p \<Rightarrow> p)"

definition kv_put :: "u32 \<Rightarrow> 'f kv_page \<Rightarrow> 'f kv_cache \<Rightarrow> 'f kv_cache" where
  "kv_put page p kv = kv\<lparr>kv_pages := AList.update page p (kv_pages kv)\<rparr>"

definition kv_cands :: "('f :: {linorder, zero}) kv_cache \<Rightarrow> ('f \<times> u32) list" where
  "kv_cands kv = sort (map (\<lambda>(idx, p). (kp_last_attention p, idx))
     (filter (\<lambda>(idx, p). kp_resident p \<and> kp_refcount p = 0) (kv_pages kv)))"

definition kv_drop :: "u32 \<Rightarrow> ('f :: zero) kv_cache \<Rightarrow> 'f kv_cache" where
  "kv_drop page kv =
     (let p = kv_get page kv
      in (kv_put page (p\<lparr>kp_resident := False, kp_last_attention := 0\<rparr>) kv)\<lparr>kv_resident := kv_resident kv - 1\<rparr>)"

definition kv_evict :: "u32 \<Rightarrow> ('f :: {linorder, zero}) kv_cache \<Rightarrow> u32 \<times> 'f kv_cache" where
  "kv_evict n kv =
     (let victims = map snd (take (unat n) (kv_cands kv))
      in (word_of_nat (length victims), fold kv_drop victims kv))"

definition kv_touch :: "u32 \<Rightarrow> ('f :: {linorder, zero}) \<Rightarrow> 'f kv_cache \<Rightarrow> 'f kv_cache option" where
  "kv_touch token w kv =
     (let page = kv_page_of kv token;
          p = (kv_get page kv)\<lparr>kp_first_token_index := page\<rparr>;
          p1 = p\<lparr>kp_last_attention := max (kp_last_attention p) w\<rparr>
      in if kp_resident p1 then Some (kv_put page p1 kv)
         else if kv_resident kv \<ge> kv_max_resident kv then None
         else Some ((kv_put page (p1\<lparr>kp_resident := True\<rparr>) kv)\<lparr>kv_resident := kv_resident kv + 1\<rparr>))"

definition kv_pin :: "u32 \<Rightarrow> ('f :: zero) kv_cache \<Rightarrow> 'f kv_cache" where
  "kv_pin token kv =
     (let page = kv_page_of kv token; p = kv_get page kv
      in kv_put page (p\<lparr>kp_refcount := kp_refcount p + 1\<rparr>) kv)"

definition kv_unpin :: "u32 \<Rightarrow> 'f kv_cache \<Rightarrow> 'f kv_cache" where
  "kv_unpin token kv =
     (let page = kv_page_of kv token
      in case map_of (kv_pages kv) page of
           None \<Rightarrow> kv
         | Some p \<Rightarrow> if kp_refcount p > 0 then kv_put page (p\<lparr>kp_refcount := kp_refcount p - 1\<rparr>) kv else kv)"

subsection \<open>Counting resident pages\<close>

definition kv_count :: "'f kv_cache \<Rightarrow> nat" where
  "kv_count kv = um_count kp_resident (kv_pages kv)"

definition kv_inv :: "'f kv_cache \<Rightarrow> bool" where
  "kv_inv kv = (um_wf (kv_pages kv) \<and> unat (kv_resident kv) = kv_count kv
     \<and> kv_count kv \<le> unat (kv_max_resident kv))"

lemma kv_inv_create: "kv_inv (kv_create m s b)"
  by (simp add: kv_inv_def kv_create_def kv_count_def um_count_def)

lemma um_count_insert_new:
  "map_of m k = None \<Longrightarrow> um_count P (AList.update k v m) = um_count P m + (if P v then 1 else 0)"
  by (induction m) (auto simp: um_count_def split: if_splits)

lemma kv_count_put:
  assumes "um_wf (kv_pages kv)"
  shows "kv_count (kv_put page p kv) + (if kp_resident (kv_get page kv) then 1 else 0)
    = kv_count kv + (if kp_resident p then 1 else 0)"
proof (cases "map_of (kv_pages kv) page")
  case None
  then show ?thesis
    by (simp add: kv_count_def kv_put_def kv_get_def kv_page_default_def um_count_insert_new)
next
  case (Some q)
  then show ?thesis
    using um_count_update [OF assms Some, of kp_resident p] by (simp add: kv_count_def kv_put_def kv_get_def)
qed

lemma kv_put_frame [simp]:
  "kv_max_resident (kv_put page p kv) = kv_max_resident kv"
  "kv_page_size_tokens (kv_put page p kv) = kv_page_size_tokens kv"
  "kv_eviction_band (kv_put page p kv) = kv_eviction_band kv"
  "kv_resident (kv_put page p kv) = kv_resident kv"
  "um_wf (kv_pages (kv_put page p kv)) = um_wf (kv_pages kv)"
  "kv_get a (kv_put page p kv) = (if a = page then p else kv_get a kv)"
  by (simp_all add: kv_put_def kv_get_def)

lemma kv_set_resident [simp]:
  "kv_get a (kv\<lparr>kv_resident := n\<rparr>) = kv_get a kv" "kv_count (kv\<lparr>kv_resident := n\<rparr>) = kv_count kv"
  by (simp_all add: kv_get_def kv_count_def)

lemma kv_drop_inv:
  assumes inv: "kv_inv kv" and r: "kp_resident (kv_get a kv)"
  shows "kv_inv (kv_drop a kv)"
proof -
  have wf: "um_wf (kv_pages kv)" using inv by (simp add: kv_inv_def)
  let ?p = "(kv_get a kv)\<lparr>kp_resident := False, kp_last_attention := 0\<rparr>"
  have c: "kv_count (kv_put a ?p kv) + 1 = kv_count kv"
    using kv_count_put [OF wf, of a ?p] r by simp
  then have "0 < unat (kv_resident kv)" using inv by (simp add: kv_inv_def)
  then have "unat (kv_resident kv - 1) = unat (kv_resident kv) - 1"
    by (simp add: unat_minus_one unat_gt_0)
  then show ?thesis using inv c by (simp add: kv_inv_def kv_drop_def Let_def)
qed

lemma kv_drop_get: "kv_get a (kv_drop b kv) =
    (if a = b then (kv_get a kv)\<lparr>kp_resident := False, kp_last_attention := 0\<rparr> else kv_get a kv)"
  by (simp add: kv_drop_def Let_def)

lemma kv_drops:
  "kv_inv kv \<Longrightarrow> distinct as \<Longrightarrow> (\<And>a. a \<in> set as \<Longrightarrow> kp_resident (kv_get a kv)) \<Longrightarrow>
    kv_inv (fold kv_drop as kv) \<and> kv_count (fold kv_drop as kv) + length as = kv_count kv
    \<and> kv_max_resident (fold kv_drop as kv) = kv_max_resident kv
    \<and> (\<forall>a. kv_get a (fold kv_drop as kv) =
         (if a \<in> set as then (kv_get a kv)\<lparr>kp_resident := False, kp_last_attention := 0\<rparr> else kv_get a kv))"
proof (induction as arbitrary: kv)
  case (Cons b as)
  have i: "kv_inv (kv_drop b kv)" by (rule kv_drop_inv [OF Cons.prems(1) Cons.prems(3)]) simp
  have r: "kp_resident (kv_get a (kv_drop b kv))" if "a \<in> set as" for a
    using Cons.prems(2,3) that by (auto simp: kv_drop_get)
  have wf: "um_wf (kv_pages kv)" using Cons.prems(1) by (simp add: kv_inv_def)
  have c: "kv_count (kv_drop b kv) + 1 = kv_count kv"
    using kv_count_put [OF wf, of b "(kv_get b kv)\<lparr>kp_resident := False, kp_last_attention := 0\<rparr>"] Cons.prems(3) [of b]
    by (simp add: kv_drop_def Let_def)
  have m: "kv_max_resident (kv_drop b kv) = kv_max_resident kv" by (simp add: kv_drop_def Let_def)
  show ?case
    using Cons.IH [OF i _ r] Cons.prems(2) c m by (auto simp: kv_drop_get)
qed simp

lemma kv_cands_props:
  assumes "um_wf (kv_pages kv)"
  shows "distinct (map snd (kv_cands kv))"
    and "a \<in> set (map snd (kv_cands kv)) \<longleftrightarrow> kp_resident (kv_get a kv) \<and> kp_refcount (kv_get a kv) = 0"
    and "(w, a) \<in> set (kv_cands kv) \<Longrightarrow> w = kp_last_attention (kv_get a kv)"
proof -
  let ?f = "filter (\<lambda>(idx, p). kp_resident p \<and> kp_refcount p = 0) (kv_pages kv)"
  let ?c = "\<lambda>(idx, p). (kp_last_attention p, idx)"
  have "mset (map snd (kv_cands kv)) = image_mset snd (mset (map ?c ?f))"
    by (simp add: kv_cands_def)
  also have "\<dots> = mset (map (snd \<circ> ?c) ?f)" by (simp only: mset_map [symmetric] map_map)
  also have "snd \<circ> ?c = fst" by auto
  finally have m: "mset (map snd (kv_cands kv)) = mset (map fst ?f)" .
  have "distinct (map fst ?f)" using assms by (simp add: um_wf_def distinct_map_filter)
  then show "distinct (map snd (kv_cands kv))" by (simp only: mset_eq_imp_distinct_iff [OF m])
  show "a \<in> set (map snd (kv_cands kv)) \<longleftrightarrow> kp_resident (kv_get a kv) \<and> kp_refcount (kv_get a kv) = 0"
  proof -
    have "a \<in> set (map snd (kv_cands kv)) \<longleftrightarrow>
        (\<exists>p. (a, p) \<in> set (kv_pages kv) \<and> kp_resident p \<and> kp_refcount p = 0)"
      unfolding mset_eq_setD [OF m] by force
    also have "\<dots> \<longleftrightarrow> kp_resident (kv_get a kv) \<and> kp_refcount (kv_get a kv) = 0"
      by (simp add: um_in_map_of [OF assms] kv_get_def kv_page_default_def split: option.split)
    finally show ?thesis .
  qed
  show "w = kp_last_attention (kv_get a kv)" if "(w, a) \<in> set (kv_cands kv)"
    using that um_in_map_of [OF assms] by (auto simp: kv_cands_def kv_get_def)
qed

subsection \<open>Eviction\<close>

definition kv_victims :: "u32 \<Rightarrow> ('f :: {linorder, zero}) kv_cache \<Rightarrow> u32 list" where
  "kv_victims n kv = map snd (take (unat n) (kv_cands kv))"

lemma kv_victims_facts:
  assumes "kv_inv kv"
  shows "distinct (kv_victims n kv)"
    and "a \<in> set (kv_victims n kv) \<Longrightarrow> kp_resident (kv_get a kv) \<and> kp_refcount (kv_get a kv) = 0"
    and "length (kv_victims n kv) = min (unat n) (length (kv_cands kv))"
proof -
  have wf: "um_wf (kv_pages kv)" using assms by (simp add: kv_inv_def)
  have v: "kv_victims n kv = take (unat n) (map snd (kv_cands kv))" by (simp add: kv_victims_def take_map)
  show "distinct (kv_victims n kv)" using kv_cands_props(1) [OF wf] by (simp add: v)
  show "kp_resident (kv_get a kv) \<and> kp_refcount (kv_get a kv) = 0" if "a \<in> set (kv_victims n kv)"
  proof -
    have "a \<in> set (map snd (kv_cands kv))" using that unfolding v by (rule in_set_takeD)
    then show ?thesis using kv_cands_props(2) [OF wf] by simp
  qed
  show "length (kv_victims n kv) = min (unat n) (length (kv_cands kv))" by (simp add: kv_victims_def)
qed

lemma kv_evict_eq: "kv_evict n kv = (word_of_nat (length (kv_victims n kv)), fold kv_drop (kv_victims n kv) kv)"
  by (simp add: kv_evict_def kv_victims_def)

lemma kv_evict_facts:
  assumes "kv_inv kv"
  shows "kv_inv (snd (kv_evict n kv))"
    and "kv_count (snd (kv_evict n kv)) + length (kv_victims n kv) = kv_count kv"
    and "kv_get a (snd (kv_evict n kv)) = (if a \<in> set (kv_victims n kv)
          then (kv_get a kv)\<lparr>kp_resident := False, kp_last_attention := 0\<rparr> else kv_get a kv)"
  using kv_drops [OF assms kv_victims_facts(1) [OF assms], of n] kv_victims_facts(2) [OF assms]
  by (simp_all add: kv_evict_eq)

interpretation kve: pinned_eviction kv_inv "\<lambda>n kv. snd (kv_evict n kv)"
  "\<lambda>kv a. kp_resident (kv_get a kv)" "\<lambda>kv a. kp_refcount (kv_get a kv) > 0"
proof
  fix kv :: "('f :: {linorder, zero}) kv_cache" and n a
  assume inv: "kv_inv kv"
  note g = kv_evict_facts(3) [OF inv, of a n] and v = kv_victims_facts(2) [OF inv, of a n]
  show "kv_inv (snd (kv_evict n kv))" by (rule kv_evict_facts(1) [OF inv])
  show "(kp_refcount (kv_get a (snd (kv_evict n kv))) > 0) = (kp_refcount (kv_get a kv) > 0)"
    by (simp add: g)
  show "kp_resident (kv_get a kv)" if "kp_resident (kv_get a (snd (kv_evict n kv)))"
    using that by (simp add: g split: if_splits)
  show "kp_resident (kv_get a (snd (kv_evict n kv)))"
    if "kp_refcount (kv_get a kv) > 0" "kp_resident (kv_get a kv)"
    using that v by (auto simp: g)
qed

subsection \<open>What the cache promises\<close>

text \<open>How many pages may go.\<close>

lemma kv_cands_count:
  assumes "um_wf (kv_pages kv)"
  shows "length (kv_cands kv) = card {a. kp_resident (kv_get a kv) \<and> kp_refcount (kv_get a kv) = 0}"
proof -
  have "length (kv_cands kv) = card (set (map snd (kv_cands kv)))"
    using distinct_card [OF kv_cands_props(1) [OF assms]] by simp
  also have "set (map snd (kv_cands kv)) = {a. kp_resident (kv_get a kv) \<and> kp_refcount (kv_get a kv) = 0}"
    using kv_cands_props(2) [OF assms] by blast
  finally show ?thesis .
qed

text \<open>A dropped page comes before an eligible page that stays.\<close>

lemma kv_evict_least:
  assumes wf: "um_wf (kv_pages kv)" and a: "a \<in> set (kv_victims n kv)" and b: "b \<notin> set (kv_victims n kv)"
    "kp_resident (kv_get b kv)" "kp_refcount (kv_get b kv) = 0"
  shows "(kp_last_attention (kv_get a kv), a) \<le> (kp_last_attention (kv_get b kv), b)"
proof -
  let ?c = "kv_cands kv"
  obtain w where w: "(w, a) \<in> set (take (unat n) ?c)" using a by (auto simp: kv_victims_def)
  have "b \<in> set (map snd ?c)" using kv_cands_props(2) [OF wf] b by blast
  then obtain u where u: "(u, b) \<in> set ?c" by auto
  have "(u, b) \<notin> set (take (unat n) ?c)" using b(1) by (force simp: kv_victims_def)
  moreover have "(u, b) \<in> set (take (unat n) ?c @ drop (unat n) ?c)" using u by simp
  ultimately have u': "(u, b) \<in> set (drop (unat n) ?c)" unfolding set_append by blast
  have "sorted (take (unat n) ?c @ drop (unat n) ?c)" by (simp add: kv_cands_def)
  then have "(w, a) \<le> (u, b)" using w u' unfolding sorted_append by blast
  then show ?thesis using kv_cands_props(3) [OF wf] in_set_takeD [OF w] u by fastforce
qed

text \<open>C17: Eviction drops as many pages as asked, or all it may: the count returned is the smaller
  of the request and the number of pages that are resident and not pinned, the resident counter
  falls by it, each page is untouched or was a resident page without pins and is now out with
  weight zero, and every dropped page comes before every eligible page that stays, by its
  attention weight and among equal weights by its number.\<close>

theorem kv_evict_exact:
  fixes kv :: "('f :: {linorder, zero}) kv_cache"
  assumes inv: "kv_inv kv" and run: "kv_evict n kv = (m, kv')"
  shows "kv_inv kv'
    \<and> unat m = min (unat n) (card {a. kp_resident (kv_get a kv) \<and> kp_refcount (kv_get a kv) = 0})
    \<and> unat (kv_resident kv') + unat m = unat (kv_resident kv)
    \<and> (\<forall>a. kv_get a kv' = kv_get a kv \<or> kp_resident (kv_get a kv) \<and> kp_refcount (kv_get a kv) = 0
          \<and> kv_get a kv' = (kv_get a kv)\<lparr>kp_resident := False, kp_last_attention := 0\<rparr>)
    \<and> (\<forall>a b. kp_resident (kv_get a kv) \<and> \<not> kp_resident (kv_get a kv')
          \<and> kp_resident (kv_get b kv') \<and> kp_refcount (kv_get b kv) = 0
          \<longrightarrow> kp_last_attention (kv_get a kv) < kp_last_attention (kv_get b kv)
            \<or> kp_last_attention (kv_get a kv) = kp_last_attention (kv_get b kv) \<and> a < b)"
proof (intro conjI allI impI)
  note e = kv_evict_facts [OF inv, where n = n]
  have wf: "um_wf (kv_pages kv)" using inv by (simp add: kv_inv_def)
  have kv': "kv' = snd (kv_evict n kv)" and m: "m = word_of_nat (length (kv_victims n kv))"
    using run by (simp_all add: kv_evict_eq)
  have len: "length (kv_victims n kv) = min (unat n) (length (kv_cands kv))"
    using kv_victims_facts(3) [OF inv] .
  have lt: "length (kv_victims n kv) < 2 ^ 32" using len unat_u32_less [of n] by simp
  have um: "unat m = min (unat n) (length (kv_cands kv))"
    using lt len by (simp add: m unat_of_nat)
  then show "unat m = min (unat n) (card {a. kp_resident (kv_get a kv) \<and> kp_refcount (kv_get a kv) = 0})"
    by (simp add: kv_cands_count [OF wf])
  show inv': "kv_inv kv'" using e(1) kv' by simp
  show "unat (kv_resident kv') + unat m = unat (kv_resident kv)"
    using e(2) inv inv' um len by (simp add: kv_inv_def kv')
  show "kv_get a kv' = kv_get a kv \<or> kp_resident (kv_get a kv) \<and> kp_refcount (kv_get a kv) = 0
          \<and> kv_get a kv' = (kv_get a kv)\<lparr>kp_resident := False, kp_last_attention := 0\<rparr>" for a
    using kv_victims_facts(2) [OF inv, of a n] e(3) [of a] by (auto simp: kv')
  fix a b
  assume ab: "kp_resident (kv_get a kv) \<and> \<not> kp_resident (kv_get a kv')
          \<and> kp_resident (kv_get b kv') \<and> kp_refcount (kv_get b kv) = 0"
  then have v: "a \<in> set (kv_victims n kv)" "b \<notin> set (kv_victims n kv)" "kp_resident (kv_get b kv)"
    using e(3) [of a] e(3) [of b] by (auto simp: kv' split: if_splits)
  then have "a \<noteq> b" by blast
  then show "kp_last_attention (kv_get a kv) < kp_last_attention (kv_get b kv)
      \<or> kp_last_attention (kv_get a kv) = kp_last_attention (kv_get b kv) \<and> a < b"
    using kv_evict_least [OF wf v] ab by (auto simp: less_eq_prod_def)
qed

definition demo_kv :: "int kv_cache" where
  "demo_kv = (kv_create 4 16 1)\<lparr>kv_resident := 2, kv_pages :=
     [(0, kv_page_default\<lparr>kp_last_attention := 7, kp_resident := True\<rparr>),
      (16, kv_page_default\<lparr>kp_last_attention := 3, kp_resident := True\<rparr>)]\<rparr>"

lemma demo_kv_inv: "kv_inv demo_kv"
  by (simp add: kv_inv_def demo_kv_def kv_create_def kv_count_def um_count_def um_wf_def kv_page_default_def)

lemma demo_kv_evict: "kv_evict 1 demo_kv = (1, (kv_create 4 16 1)\<lparr>kv_resident := 1, kv_pages :=
     [(0, kv_page_default\<lparr>kp_last_attention := 7, kp_resident := True\<rparr>),
      (16, kv_page_default\<lparr>kp_last_attention := 0, kp_resident := False\<rparr>)]\<rparr>)"
  by (simp add: kv_evict_def kv_cands_def demo_kv_def kv_create_def kv_page_default_def kv_drop_def
      kv_get_def kv_put_def less_eq_prod_def Let_def)

theorem kv_evict_exact_witness:
  "\<exists>kv'. kv_evict 1 demo_kv = (1, kv') \<and> kv_inv kv' \<and> unat (kv_resident kv') + 1 = unat (kv_resident demo_kv)"
  using demo_kv_evict kv_evict_exact [OF demo_kv_inv demo_kv_evict] by simp

text \<open>C31: Touching a page never overfills the cache: when it returns, the page is resident with
  the maximum of its weights, the counter equals the number of resident pages and does not
  exceed the bound, and no other page changes.  It does not return exactly when the page is
  not resident and the cache is full: it then locks its own mutex a second time through
  \<^verbatim>\<open>evict\<close>.\<close>

theorem kv_touch_outcome:
  fixes kv :: "('f :: {linorder, zero}) kv_cache"
  assumes inv: "kv_inv kv"
  shows "(kv_touch t w kv = None \<longleftrightarrow>
      \<not> kp_resident (kv_get (kv_page_of kv t) kv) \<and> kv_count kv = unat (kv_max_resident kv))
    \<and> (\<forall>kv'. kv_touch t w kv = Some kv' \<longrightarrow> kv_inv kv' \<and> unat (kv_resident kv') \<le> unat (kv_max_resident kv')
         \<and> (\<forall>a. kv_get a kv' = (if a = kv_page_of kv t
              then (kv_get a kv)\<lparr>kp_first_token_index := a, kp_resident := True,
                     kp_last_attention := max (kp_last_attention (kv_get a kv)) w\<rparr>
              else kv_get a kv)))"
proof -
  let ?a = "kv_page_of kv t"
  let ?p = "(kv_get ?a kv)\<lparr>kp_first_token_index := ?a, kp_last_attention := max (kp_last_attention (kv_get ?a kv)) w\<rparr>"
  have wf: "um_wf (kv_pages kv)" using inv by (simp add: kv_inv_def)
  have full: "kv_max_resident kv \<le> kv_resident kv \<longleftrightarrow> kv_count kv = unat (kv_max_resident kv)"
    using inv by (auto simp: kv_inv_def word_le_nat_alt)
  show ?thesis
  proof (cases "kp_resident (kv_get ?a kv)")
    case True
    have t: "kv_touch t w kv = Some (kv_put ?a ?p kv)" using True by (simp add: kv_touch_def Let_def)
    have e: "(kv_get ?a kv)\<lparr>kp_first_token_index := ?a, kp_resident := True,
        kp_last_attention := max (kp_last_attention (kv_get ?a kv)) w\<rparr> = ?p"
      using True by (cases "kv_get ?a kv") simp
    have "kv_inv (kv_put ?a ?p kv)" using kv_count_put [OF wf, of ?a ?p] inv True by (simp add: kv_inv_def)
    then show ?thesis using True e by (auto simp: t kv_inv_def)
  next
    case False
    let ?q = "?p\<lparr>kp_resident := True\<rparr>"
    have t: "kv_touch t w kv = (if kv_count kv = unat (kv_max_resident kv) then None
        else Some ((kv_put ?a ?q kv)\<lparr>kv_resident := kv_resident kv + 1\<rparr>))"
      using False by (simp add: kv_touch_def Let_def flip: full)
    have c: "kv_count (kv_put ?a ?q kv) = kv_count kv + 1" using kv_count_put [OF wf, of ?a ?q] False by simp
    have "kv_inv ((kv_put ?a ?q kv)\<lparr>kv_resident := kv_resident kv + 1\<rparr>)" if "kv_count kv \<noteq> unat (kv_max_resident kv)"
    proof -
      have lt: "kv_count kv < unat (kv_max_resident kv)" using that inv by (simp add: kv_inv_def)
      then have "unat (kv_resident kv) + 1 < 2 ^ 32"
        using inv unat_u32_less [of "kv_max_resident kv"] by (simp add: kv_inv_def)
      then have "unat (kv_resident kv + 1) = unat (kv_resident kv) + 1"
        using unat_add_lem [of "kv_resident kv" 1] by simp
      then show ?thesis using inv c lt by (simp add: kv_inv_def)
    qed
    then show ?thesis using False t by (auto simp: kv_inv_def)
  qed
qed

theorem kv_touch_outcome_witness:
  "\<exists>kv'. kv_touch 5 (2 :: int) (kv_create 1 16 1) = Some kv' \<and> kv_inv kv' \<and> kv_touch 20 2 kv' = None"
proof -
  let ?kv = "kv_create 1 16 1 :: int kv_cache"
  have inv0: "kv_inv ?kv" by (rule kv_inv_create)
  have "kv_count ?kv = 0" "kv_max_resident ?kv = 1" by (simp_all add: kv_count_def um_count_def kv_create_def)
  then have "kv_touch 5 (2 :: int) ?kv \<noteq> None"
    using kv_touch_outcome [OF inv0, of 5 2] by simp
  then obtain kv' where t: "kv_touch 5 (2 :: int) ?kv = Some kv'" by blast
  then have inv: "kv_inv kv'" using kv_touch_outcome [OF inv0, of 5 2] by blast
  have k: "kv' = (kv_put 0 (kv_page_default\<lparr>kp_last_attention := 2, kp_resident := True\<rparr>) ?kv)\<lparr>kv_resident := 1\<rparr>"
    using t by (simp add: kv_touch_def kv_page_of_def kv_create_def kv_get_def kv_page_default_def kv_put_def Let_def)
  have "kv_touch 20 2 kv' = None"
    unfolding k by (simp add: kv_touch_def kv_page_of_def kv_create_def kv_get_def kv_page_default_def kv_put_def Let_def)
  then show ?thesis using t inv by blast
qed

lemma kv_pin_inv: "kv_inv kv \<Longrightarrow> kv_inv (kv_pin t kv)"
  using kv_count_put [of kv "kv_page_of kv t" "(kv_get (kv_page_of kv t) kv)\<lparr>kp_refcount := kp_refcount (kv_get (kv_page_of kv t) kv) + 1\<rparr>"]
  by (simp add: kv_inv_def kv_pin_def Let_def split: if_splits)

lemma kv_pin_get: "kv_get a (kv_pin t kv) = (if a = kv_page_of kv t
    then (kv_get a kv)\<lparr>kp_refcount := kp_refcount (kv_get a kv) + 1\<rparr> else kv_get a kv)"
  by (simp add: kv_pin_def Let_def)

text \<open>A pinned page stays: pinning a resident page, unless its 32-bit count wraps, keeps it
  resident through any sequence of evictions of any size, and unpinning afterwards restores
  its count.\<close>

theorem kv_pin_protects:
  fixes kv :: "('f :: {linorder, zero}) kv_cache"
  assumes inv: "kv_inv kv" and res: "kp_resident (kv_get (kv_page_of kv t) kv)"
    and max: "kp_refcount (kv_get (kv_page_of kv t) kv) \<noteq> - 1"
  shows "let kv' = fold (\<lambda>n kv. snd (kv_evict n kv)) ns (kv_pin t kv)
    in kv_inv kv' \<and> kp_resident (kv_get (kv_page_of kv t) kv') \<and> kp_refcount (kv_get (kv_page_of kv t) kv') > 0
      \<and> kp_refcount (kv_get (kv_page_of kv t) (kv_unpin t (kv_pin t kv))) = kp_refcount (kv_get (kv_page_of kv t) kv)"
proof -
  let ?a = "kv_page_of kv t"
  have nz: "kp_refcount (kv_get ?a kv) + 1 \<noteq> 0" using max by (metis add_eq_0_iff2)
  have p: "kp_refcount (kv_get ?a (kv_pin t kv)) > 0" "kp_resident (kv_get ?a (kv_pin t kv))"
    using nz res by (simp_all add: kv_pin_get word_gt_0)
  have pg: "kv_page_of (kv_pin t kv) t = ?a" by (simp add: kv_page_of_def kv_pin_def Let_def)
  have "map_of (kv_pages (kv_pin t kv)) ?a = Some ((kv_get ?a kv)\<lparr>kp_refcount := kp_refcount (kv_get ?a kv) + 1\<rparr>)"
    by (simp add: kv_pin_def kv_put_def Let_def)
  then have "kp_refcount (kv_get ?a (kv_unpin t (kv_pin t kv))) = kp_refcount (kv_get ?a kv)"
    using nz by (simp add: kv_unpin_def pg Let_def word_gt_0)
  then show ?thesis
    using kve.evictions_inv [OF kv_pin_inv [OF inv]] kve.evictions_keep [OF kv_pin_inv [OF inv] p]
      kve.evictions_pinned [OF kv_pin_inv [OF inv], where k = ?a] p
    by (simp add: Let_def)
qed

theorem kv_pin_protects_witness:
  "kp_resident (kv_get 16 (fold (\<lambda>n kv. snd (kv_evict n kv)) [1, 5] (kv_pin 17 demo_kv)))"
proof -
  have p: "kv_page_of demo_kv 17 = 16" by (simp add: kv_page_of_def demo_kv_def kv_create_def)
  have r: "kp_resident (kv_get (kv_page_of demo_kv 17) demo_kv)"
    "kp_refcount (kv_get (kv_page_of demo_kv 17) demo_kv) \<noteq> - 1"
    unfolding p by (simp_all add: demo_kv_def kv_create_def kv_get_def kv_page_default_def)
  show ?thesis using kv_pin_protects [OF demo_kv_inv r, of "[1, 5]"] unfolding p Let_def by blast
qed

end
