(* ===== verification/SelfTests.thy ===== *)
theory SelfTests
  imports Abi Pipeline KvCache
begin

text \<open>
  The self tests that ship with the components (\<^verbatim>\<open>src/firmware/selftest.cpp\<close> and
  its siblings in \<^verbatim>\<open>memory\<close>, \<^verbatim>\<open>scheduler\<close>, \<^verbatim>\<open>token_opt\<close> and
  \<^verbatim>\<open>pipeline\<close>), as programs over the model.  A test boots the machine, skips when there is
  no device, uses the components and shuts the context down; a failed \<^verbatim>\<open>ASSERT\<close> ends the
  test and a failed \<^verbatim>\<open>EXPECT\<close> lets it go on.  \<open>Hung\<close> is a test that never returns.
  The polling thread, \<^verbatim>\<open>use_count\<close> and the text of the messages are outside the model.
\<close>

subsection \<open>Running a test\<close>

datatype verdict = Passed | Skipped | Test_failed | Hung

type_synonym 'p test = "'p dispatch \<Rightarrow> 'p \<Rightarrow> verdict \<times> 'p dispatch \<times> 'p"

definition check_all :: "bool list \<Rightarrow> verdict" where
  "check_all bs = (if list_all id bs then Passed else Test_failed)"

definition after_boot :: "status \<Rightarrow> verdict \<Rightarrow> verdict" where
  "after_boot s v = (if s = DeviceNotFound then Skipped else if s \<noteq> Ok then Test_failed else v)"

text \<open>The frame of every test that boots: the context lives until the end of the test, whose
  last act is its destruction.\<close>

definition with_boot :: "(nat \<Rightarrow> u64) \<Rightarrow> boot_options
    \<Rightarrow> ('p backend \<Rightarrow> boot_event list \<Rightarrow> device_desc \<Rightarrow> 'p fw \<Rightarrow> verdict \<times> 'p fw) \<Rightarrow> 'p test" where
  "with_boot clk opts body disp hw =
     (let (r, ev, disp1, hw1) = boot clk opts disp hw
      in case br_ctx r of
           None \<Rightarrow> (after_boot (br_status r) Test_failed, disp1, hw1)
         | Some c \<Rightarrow>
             (let (pf, disp2, hw2) = dispatch_backend disp1 hw1;
                  (v, c') = (if br_status r = Ok then body pf ev (br_device r) (hw_in hw2 c)
                             else (after_boot (br_status r) Test_failed, hw_in hw2 c))
              in (v, disp2, e_hw (fw_destroy pf c'))))"

subsection \<open>src/firmware/selftest.cpp\<close>

definition boot_detects_device :: "(nat \<Rightarrow> u64) \<Rightarrow> 'p test" where
  "boot_detects_device clk = with_boot clk (boot_options_default\<lparr>bo_profile := ''auto''\<rparr>)
     (\<lambda>pf ev d c. if dd_vendor d = Unknown_vendor \<or> \<not> dd_hbm_capacity_bytes d > 0 then (Test_failed, c)
        else (let (s, c') = shutdown pf c in (check_all [s = Ok], c')))"

definition boot_emits_events :: "(nat \<Rightarrow> u64) \<Rightarrow> 'p test" where
  "boot_emits_events clk = with_boot clk (boot_options_default\<lparr>bo_on_event := True\<rparr>)
     (\<lambda>pf ev d c. (check_all [be_phase (hd ev) = PreInit, be_phase (last ev) = boot_phase.Ready],
        snd (shutdown pf c)))"

text \<open>\<^verbatim>\<open>microkernel()\<close> dereferences the micro-kernel, which a booted context always has.\<close>

definition the_mk :: "'p fw \<Rightarrow> microkernel" where
  "the_mk c = (case fw_mk c of None \<Rightarrow> mk_create (e_device (fw_env c)) | Some mk \<Rightarrow> mk)"

definition stream_pool_acquire_release :: "(nat \<Rightarrow> u64) \<Rightarrow> 'p test" where
  "stream_pool_acquire_release clk = with_boot clk boot_options_default
     (\<lambda>pf ev d c.
        let (s1, mk1) = acquire_stream Compute 0 (the_mk c)
        in if sh_id s1 = 0 then (Test_failed, c\<lparr>fw_mk := Some mk1\<rparr>) else
        (let (s2, mk2) = acquire_stream Compute 0 mk1
         in if sh_id s2 = 0 \<or> sh_id s1 = sh_id s2 then (Test_failed, c\<lparr>fw_mk := Some mk2\<rparr>) else
         (let (s3, mk3) = acquire_stream Compute 0 (release_stream s2 (release_stream s1 mk2))
          in if sh_id s3 = 0 then (Test_failed, c\<lparr>fw_mk := Some mk3\<rparr>)
             else (Passed, snd (shutdown pf (c\<lparr>fw_mk := Some (release_stream s3 mk3)\<rparr>))))))"

definition warp_spec_defaults :: "(nat \<Rightarrow> u64) \<Rightarrow> 'p test" where
  "warp_spec_defaults clk = with_boot clk boot_options_default
     (\<lambda>pf ev d c. (check_all [wq_total_warps (mk_default_ws (the_mk c)) = 16], snd (shutdown pf c)))"

definition fault_handler_polls :: "(nat \<Rightarrow> u64) \<Rightarrow> 'p test" where
  "fault_handler_polls clk = with_boot clk (boot_options_default\<lparr>bo_fault_buffer_slots := 16\<rparr>)
     (\<lambda>pf ev d c. let (s, env) = inject_fetch_hint pf 0 4096 (fw_env c)
        in (check_all [s = Ok], snd (shutdown pf (c\<lparr>fw_env := env\<rparr>))))"

subsection \<open>src/memory/selftest.cpp\<close>

text \<open>The three tests allocate 1 MB, use it, and free it.\<close>

definition with_block :: "(nat \<Rightarrow> u64) \<Rightarrow> (u64 \<Rightarrow> u64)
    \<Rightarrow> ('p backend \<Rightarrow> allocation \<Rightarrow> 'p mstate \<Rightarrow> bool list \<times> 'p mstate) \<Rightarrow> 'p test" where
  "with_block clk mclk use = with_boot clk boot_options_default
     (\<lambda>pf ev d c.
        case mm_alloc pf mclk (push_bit 20 1) alloc_hints_default allocation_default (fw_memory c) of
          None \<Rightarrow> (Hung, c)
        | Some (s, a, st) \<Rightarrow>
            if s \<noteq> Ok then (Test_failed, fw_put_memory c st)
            else (let (checks, st1) = use pf a st
                  in case mm_free pf a st1 of
                       None \<Rightarrow> (Hung, c)
                     | Some (s2, st2) \<Rightarrow>
                         (check_all (checks @ [s2 = Ok]), snd (shutdown pf (fw_put_memory c st2)))))"

definition alloc_free_test :: "(nat \<Rightarrow> u64) \<Rightarrow> (u64 \<Rightarrow> u64) \<Rightarrow> 'p test" where
  "alloc_free_test clk mclk = with_block clk mclk (\<lambda>pf a st. ([al_hbm_ptr a \<noteq> 0], st))"

definition page_table_incref_decref :: "(nat \<Rightarrow> u64) \<Rightarrow> (u64 \<Rightarrow> u64) \<Rightarrow> u64 \<Rightarrow> u64 \<Rightarrow> 'p test" where
  "page_table_incref_decref clk mclk t1 t2 = with_block clk mclk
     (\<lambda>pf a st. let (s1, pt1) = incref t1 (mm_pt (ms_mm st)) (al_vaddr a);
                    (s2, pt2) = decref t2 pt1 (al_vaddr a)
                in ([s1 = Ok, s2 = Ok], st\<lparr>ms_mm := (ms_mm st)\<lparr>mm_pt := pt2\<rparr>\<rparr>))"

definition prefetch_noop :: "(nat \<Rightarrow> u64) \<Rightarrow> (u64 \<Rightarrow> u64) \<Rightarrow> 'p test" where
  "prefetch_noop clk mclk = with_block clk mclk
     (\<lambda>pf a st. let (s, st1) = mm_prefetch pf (al_hbm_ptr a) (push_bit 20 1) st in ([s = Ok], st1))"

subsection \<open>src/scheduler/selftest.cpp\<close>

definition no_machine :: "verdict \<Rightarrow> 'p test" where
  "no_machine v disp hw = (v, disp, hw)"

definition warp_spec_hopper :: "'p test" where
  "warp_spec_hopper = no_machine (let ws = policy_for_arch Hopper
     in check_all [wp_use_tma ws, wp_use_dsm ws, wp_cluster_size ws = 8, wp_total_warps ws = 16])"

definition warp_spec_ampere :: "'p test" where
  "warp_spec_ampere = no_machine (let ws = policy_for_arch Ampere
     in check_all [\<not> wp_use_tma ws, wp_total_warps ws = 16])"

text \<open>The graph is destroyed after the shutdown, before the context.\<close>

definition with_graph :: "(nat \<Rightarrow> u64) \<Rightarrow> stage_contract \<Rightarrow> stage_contract
    \<Rightarrow> (status \<Rightarrow> status \<Rightarrow> status \<Rightarrow> bool list) \<Rightarrow> 'p test" where
  "with_graph clk a b checks = with_boot clk boot_options_default
     (\<lambda>pf ev d c.
        let (s1, g1) = add_stage a tg_create;
            (s2, g2) = add_stage b g1;
            (s3, g3) = validate (e_device (fw_env c)) g2;
            c1 = snd (shutdown pf c)
        in (check_all (checks s1 s2 s3), c1\<lparr>fw_mk := Some (tg_destroy g3 (the_mk c1))\<rparr>))"

definition task_graph_add_validate :: "(nat \<Rightarrow> u64) \<Rightarrow> 'p test" where
  "task_graph_add_validate clk = with_graph clk
     (stage_contract_default\<lparr>sc_name := ''a'', sc_module := ''m'', sc_function := ''f''\<rparr>)
     (stage_contract_default\<lparr>sc_name := ''b'', sc_module := ''m'', sc_function := ''f'', sc_depends_on := [''a'']\<rparr>)
     (\<lambda>s1 s2 s3. [s1 = Ok, s2 = Ok, s3 = Ok])"

definition task_graph_rejects_cycle :: "(nat \<Rightarrow> u64) \<Rightarrow> 'p test" where
  "task_graph_rejects_cycle clk = with_graph clk
     (stage_contract_default\<lparr>sc_name := ''a'', sc_depends_on := [''b'']\<rparr>)
     (stage_contract_default\<lparr>sc_name := ''b'', sc_depends_on := [''a'']\<rparr>)
     (\<lambda>s1 s2 s3. [s3 \<noteq> Ok])"

subsection \<open>src/token_opt/selftest.cpp\<close>

definition layer_defaults :: "(nat \<Rightarrow> u64) \<Rightarrow> 'p test" where
  "layer_defaults clk = with_boot clk boot_options_default
     (\<lambda>pf ev d c. (check_all [ls_max_tokens (layer L0_system cs_create) = 256,
                              ls_max_tokens (layer L4_working cs_create) = 4096], snd (shutdown pf c)))"

definition step_advances_l4 :: "(nat \<Rightarrow> u64) \<Rightarrow> 'p test" where
  "step_advances_l4 clk = with_boot clk boot_options_default
     (\<lambda>pf ev d c.
        let before = ls_bytes_used (layer L4_working cs_create);
            cs = snd (cs_step 1 cs_create);
            after = ls_bytes_used (layer L4_working cs)
        in (check_all [after > before], snd (shutdown pf c)))"

fun touch_all :: "('f :: {linorder, zero}) \<Rightarrow> u32 list \<Rightarrow> 'f kv_cache \<Rightarrow> 'f kv_cache option" where
  "touch_all w [] kv = Some kv"
| "touch_all w (i # is) kv = Option.bind (kv_touch i w kv) (touch_all w is)"

definition kv_cache_evict :: "(nat \<Rightarrow> u64) \<Rightarrow> ('f :: {linorder, zero}) \<Rightarrow> 'p test" where
  "kv_cache_evict clk w = with_boot clk boot_options_default
     (\<lambda>pf ev d c. case touch_all w (map (\<lambda>i. of_nat (16 * i)) [0..<8]) (kv_create 4 16 1) of
        None \<Rightarrow> (Hung, c)
      | Some kv \<Rightarrow> (check_all [kv_resident kv \<le> kv_max_resident kv], snd (shutdown pf c)))"

subsection \<open>src/pipeline/selftest.cpp\<close>

definition build_validate :: "(nat \<Rightarrow> u64) \<Rightarrow> (string \<Rightarrow> u64 \<times> u64) \<Rightarrow> 'p test" where
  "build_validate clk rclk = with_boot clk boot_options_default
     (\<lambda>pf ev d c.
        let (s1, p1) = pl_build (e_device (fw_env c)) (pl_create (pipeline_config_default\<lparr>pc_dry_run := True\<rparr>));
            (s2, env, mk, p2) = pl_run pf rclk (fw_env c) (the_mk c) p1;
            c1 = snd (shutdown pf (c\<lparr>fw_env := env, fw_mk := Some mk\<rparr>))
        in (check_all [s1 = Ok, s2 = Ok], c1\<lparr>fw_mk := Some (tg_destroy (pl_graph p2) (the_mk c1))\<rparr>))"

definition infer_loop_produces_tokens :: "(nat \<Rightarrow> u64) \<Rightarrow> 'p test" where
  "infer_loop_produces_tokens clk = with_boot clk boot_options_default
     (\<lambda>pf ev d c.
        let (s, out, p) = pl_run_infer [1, 2, 3] 5 (pl_create pipeline_config_default);
            c1 = snd (shutdown pf c)
        in (check_all [s = Ok, length out = 8], c1\<lparr>fw_mk := Some (tg_destroy (pl_graph p) (the_mk c1))\<rparr>))"

subsection \<open>Verdicts\<close>

lemma check_all_simps [simp]:
  "check_all [] = Passed" "check_all (b # bs) = (if b then check_all bs else Test_failed)"
  by (simp_all add: check_all_def)

lemma after_boot_cases [simp]:
  "after_boot Ok v = v" "after_boot DeviceNotFound v = Skipped"
  by (simp_all add: after_boot_def)

lemma after_boot_bad: "s \<noteq> Ok \<Longrightarrow> after_boot s v = after_boot s w"
  by (simp add: after_boot_def)

lemma fw_ready_hw_in [simp]: "fw_ready d opts (hw_in h c) = fw_ready d opts c"
  by (simp add: fw_ready_def hw_in_def)

text \<open>The verdict of a test is what its body finds on a ready context, when the boot succeeded.\<close>

lemma with_boot_verdict:
  fixes body :: "'p backend \<Rightarrow> boot_event list \<Rightarrow> device_desc \<Rightarrow> 'p fw \<Rightarrow> verdict \<times> 'p fw"
  assumes body: "\<And>r ev disp1 hw1 c h pf. boot clk opts disp hw = (r, ev, disp1, hw1) \<Longrightarrow> br_status r = Ok
      \<Longrightarrow> br_ctx r = Some c \<Longrightarrow> fw_ready (br_device r) opts c \<Longrightarrow> pf = fst (dispatch_backend disp1 hw1)
      \<Longrightarrow> fst (body pf ev (br_device r) (hw_in h c)) = v"
  shows "fst (with_boot clk opts body disp hw) = after_boot (boot_status clk opts disp hw) v"
proof -
  obtain r ev disp1 hw1 where b: "boot clk opts disp hw = (r, ev, disp1, hw1)" using prod_cases4 by blast
  obtain pf disp2 hw2 where d: "dispatch_backend disp1 hw1 = (pf, disp2, hw2)" using prod_cases3 by blast
  show ?thesis
  proof (cases "br_status r = Ok")
    case True
    obtain c where c: "br_ctx r = Some c" "fw_ready (br_device r) opts c" using booted_ready [OF b True] by blast
    obtain v1 c1 where v1: "body pf ev (br_device r) (hw_in hw2 c) = (v1, c1)" by force
    have "fst (body pf ev (br_device r) (hw_in hw2 c)) = v" by (rule body [OF b True c]) (simp add: d)
    then show ?thesis by (simp add: with_boot_def boot_status_def b c d True v1)
  next
    case False
    have "fst (with_boot clk opts body disp hw) = after_boot (br_status r) Test_failed"
      by (simp add: with_boot_def b d False split: option.split prod.split)
    then show ?thesis using after_boot_bad [OF False] by (simp add: boot_status_def b)
  qed
qed

lemma fw_readyD:
  assumes "fw_ready d opts c"
  obtains mk where "fw_mk c = Some mk" "mk_inv mk" "mk_default_ws mk = default_warp_spec (dd_arch d)"
    "length (mk_free_compute mk) = unat (bo_stream_pool_compute opts)"
  using assms by (auto simp: fw_ready_def split: option.splits)

lemma the_mk_hw_in [simp]: "the_mk (hw_in h c) = the_mk c"
  by (simp add: the_mk_def hw_in_def split: option.split)

lemma default_warps: "wq_total_warps (default_warp_spec a) = 16"
  by (simp add: default_warp_spec_def wq_total_warps_def)

text \<open>Two compute streams can be taken from a pool that has two, with distinct ids, and one again
  after both are back.\<close>

lemma acquire_twice:
  assumes inv: "mk_inv mk" and n: "2 \<le> length (mk_free_compute mk)"
    and a: "acquire_stream Compute p mk = (s1, mk1)" and b: "acquire_stream Compute q mk1 = (s2, mk2)"
    and c: "acquire_stream Compute p' (release_stream s2 (release_stream s1 mk2)) = (s3, mk3)"
  shows "sh_id s1 \<noteq> 0 \<and> sh_id s2 \<noteq> 0 \<and> sh_id s1 \<noteq> sh_id s2 \<and> sh_id s3 \<noteq> 0"
proof -
  obtain xs x y where l: "mk_free_compute mk = xs @ [x, y]"
  proof -
    assume h: "\<And>xs x y. mk_free_compute mk = xs @ [x, y] \<Longrightarrow> thesis"
    show thesis
    proof (cases "mk_free_compute mk" rule: rev_cases)
      case (snoc ys y)
      then show ?thesis using n h by (cases ys rule: rev_cases) auto
    next
      case Nil
      then show ?thesis using n by simp
    qed
  qed
  have k: "sh_klass x = Compute" "sh_klass y = Compute" "sh_id x \<noteq> 0" "sh_id y \<noteq> 0" "sh_id x \<noteq> sh_id y"
    using inv l by (auto simp: pool_simps)
  have 1: "s1 = y" "mk1 = mk\<lparr>mk_free_compute := xs @ [x]\<rparr>" using a l by (auto simp: acquire_stream_def butlast_append)
  have 2: "s2 = x" "mk2 = mk\<lparr>mk_free_compute := xs\<rparr>" using b 1 by (auto simp: acquire_stream_def)
  have "s3 = x" using c k by (simp add: 1 2 release_stream_def acquire_stream_def)
  then show ?thesis using k 1 2 by simp
qed

lemma emits_events_verdict: "fst (boot_emits_events clk disp hw)
    = after_boot (boot_status clk (boot_options_default\<lparr>bo_on_event := True\<rparr>) disp hw) Passed"
  unfolding boot_emits_events_def
proof (rule with_boot_verdict)
  fix r ev disp1 hw1 c and h :: 'a and pf :: "'a backend"
  assume b: "boot clk (boot_options_default\<lparr>bo_on_event := True\<rparr>) disp hw = (r, ev, disp1, hw1)" and ok: "br_status r = Ok"
  from boot_trace [OF b] have "map be_phase ev = all_phases"
    by (simp add: ok trace_ok_def ended_at_def all_phases_def less_eq_boot_phase_def)
  then have "be_phase (hd ev) = PreInit" "be_phase (last ev) = boot_phase.Ready"
    by (auto simp: all_phases_def)
  then show "fst (check_all [be_phase (hd ev) = PreInit, be_phase (last ev) = boot_phase.Ready], snd (shutdown pf (hw_in h c))) = Passed"
    by simp
qed

lemma stream_pool_verdict: "fst (stream_pool_acquire_release clk disp hw)
    = after_boot (boot_status clk boot_options_default disp hw) Passed"
  unfolding stream_pool_acquire_release_def
proof (rule with_boot_verdict, goal_cases)
  case (1 r ev disp1 hw1 c h pf)
  obtain mk where mk: "fw_mk c = Some mk" "mk_inv mk" "length (mk_free_compute mk) = 8"
    using fw_readyD [OF 1(4)] by (auto simp: boot_options_default_def)
  obtain s1 mk1 where a: "acquire_stream Compute 0 mk = (s1, mk1)" by force
  obtain s2 mk2 where b: "acquire_stream Compute 0 mk1 = (s2, mk2)" by force
  obtain s3 mk3 where c: "acquire_stream Compute 0 (release_stream s2 (release_stream s1 mk2)) = (s3, mk3)" by force
  have "the_mk c = mk" using mk(1) by (simp add: the_mk_def)
  then show ?case using acquire_twice [OF mk(2) _ a b c] mk(3) by (simp add: a b c)
qed

lemma warp_spec_verdict: "fst (warp_spec_defaults clk disp hw)
    = after_boot (boot_status clk boot_options_default disp hw) Passed"
  unfolding warp_spec_defaults_def
proof (rule with_boot_verdict, goal_cases)
  case (1 r ev disp1 hw1 c h pf)
  then obtain mk where "fw_mk c = Some mk" "mk_default_ws mk = default_warp_spec (dd_arch (br_device r))"
    using fw_readyD by blast
  then show ?case by (simp add: the_mk_def hw_in_def default_warps)
qed

lemma policy_verdicts: "warp_spec_hopper disp hw = (Passed, disp, hw)" "warp_spec_ampere disp hw = (Passed, disp, hw)"
  by (simp_all add: warp_spec_hopper_def warp_spec_ampere_def no_machine_def Let_def policy_for_arch_def
      warp_spec_policy_default_def wp_total_warps_def)

lemma graph_verdict:
  assumes "\<And>d s1 g1 s2 g2. add_stage a tg_create = (s1, g1) \<Longrightarrow> add_stage b g1 = (s2, g2) \<Longrightarrow> check_all (checks s1 s2 (fst (validate d g2))) = Passed"
  shows "fst (with_graph clk a b checks disp hw) = after_boot (boot_status clk boot_options_default disp hw) Passed"
  unfolding with_graph_def
proof (rule with_boot_verdict, goal_cases)
  case (1 r ev disp1 hw1 c h pf)
  obtain s1 g1 where a: "add_stage a tg_create = (s1, g1)" by force
  obtain s2 g2 where b: "add_stage b g1 = (s2, g2)" by force
  obtain s3 g3 where v: "validate (e_device (fw_env (hw_in h c))) g2 = (s3, g3)" by force
  show ?case using assms [OF a b, of "e_device (fw_env (hw_in h c))"] by (simp add: a b v Let_def)
qed

lemma add_validate_verdict: "fst (task_graph_add_validate clk disp hw)
    = after_boot (boot_status clk boot_options_default disp hw) Passed"
  unfolding task_graph_add_validate_def
proof (rule graph_verdict, goal_cases)
  case (1 d s1 g1 s2 g2)
  let ?ns = "[(''a'', stage_node_new (stage_contract_default\<lparr>sc_name := ''a'', sc_module := ''m'', sc_function := ''f''\<rparr>)),
    (''b'', stage_node_new (stage_contract_default\<lparr>sc_name := ''b'', sc_module := ''m'', sc_function := ''f'', sc_depends_on := [''a'']\<rparr>))]"
  have s: "s1 = Ok" "s2 = Ok" and g: "g2 = \<lparr>tg_nodes = ?ns, tg_overlap = [], tg_validated = False\<rparr>"
    using 1 by (auto simp: add_stage_def tg_create_def stage_contract_default_def)
  have c: "contracts_ok d ?ns" by (simp add: contracts_ok_def stage_node_new_def stage_contract_default_def)
  have wf: "um_wf ?ns" by (simp add: um_wf_def)
  have "deps_exist ?ns" "kahn_count ?ns = length ?ns" by code_simp+
  then have "dag ?ns" using kahn_count_all [OF wf] deps_exist_iff [OF wf] by (simp add: dag_def)
  then have "fst (validate d g2) = Ok" using c wf by (simp add: g validate_cases)
  then show ?case using s by simp
qed

lemma rejects_cycle_verdict: "fst (task_graph_rejects_cycle clk disp hw)
    = after_boot (boot_status clk boot_options_default disp hw) Passed"
  unfolding task_graph_rejects_cycle_def
proof (rule graph_verdict, goal_cases)
  case (1 d s1 g1 s2 g2)
  let ?ns = "[(''a'', stage_node_new (stage_contract_default\<lparr>sc_name := ''a'', sc_depends_on := [''b'']\<rparr>)),
    (''b'', stage_node_new (stage_contract_default\<lparr>sc_name := ''b'', sc_depends_on := [''a'']\<rparr>))]"
  have g: "g2 = \<lparr>tg_nodes = ?ns, tg_overlap = [], tg_validated = False\<rparr>"
    using 1 by (auto simp: add_stage_def tg_create_def stage_contract_default_def)
  have wf: "um_wf ?ns" by (simp add: um_wf_def)
  have "kahn_count ?ns \<noteq> length ?ns" "deps_exist ?ns" by code_simp+
  then have "\<not> dag ?ns" using kahn_count_all [OF wf] deps_exist_iff [OF wf] by (simp add: dag_def)
  then have "fst (validate d g2) \<noteq> Ok" using wf by (simp add: g validate_cases)
  then show ?case by simp
qed

lemma layer_verdicts:
  "fst (layer_defaults clk disp hw) = after_boot (boot_status clk boot_options_default disp hw) Passed"
  "fst (step_advances_l4 clk disp hw) = after_boot (boot_status clk boot_options_default disp hw) Passed"
  unfolding layer_defaults_def step_advances_l4_def
  by (rule with_boot_verdict, simp add: Let_def layer_def layer_index_def cs_create_def default_layers_def
      cs_step_def add_bytes_def layer_cap_def)+

lemma infer_verdict: "fst (infer_loop_produces_tokens clk disp hw)
    = after_boot (boot_status clk boot_options_default disp hw) Passed"
  unfolding infer_loop_produces_tokens_def
proof (rule with_boot_verdict, goal_cases)
  case (1 r ev disp1 hw1 c h pf)
  obtain s out p where i: "pl_run_infer [1, 2, 3] 5 (pl_create pipeline_config_default) = (s, out, p)" using prod_cases3 by blast
  then have "s = Ok" "out = fst (decode_loop 5 [1, 2, 3] (pl_scope (pl_create pipeline_config_default)))"
    by (auto simp: pl_run_infer_def split: prod.splits)
  then have "s = Ok \<and> length out = 8" by (simp add: decode_loop_out)
  then show ?case by (simp add: i Let_def)
qed


text \<open>The five touches that open a fifth page of a cache with room for four: the last one evicts
  while the mutex is held.\<close>

lemma touch_all_hangs: "touch_all w (map (\<lambda>i. of_nat (16 * i)) [0..<8]) (kv_create 4 16 1) = None"
proof -
  have l: "map (\<lambda>i. of_nat (16 * i)) [0..<8] = [0, 16, 32, 48, 64, 80, 96, 112 :: u32]"
    by (simp add: upt_rec)
  have p: "kv_page_of kv i = i AND NOT 15" if "kv_page_size_tokens kv = 16" for kv :: "'a kv_cache" and i
    by (simp add: kv_page_of_def that)
  show ?thesis
    unfolding l
    by (simp add: kv_touch_def Let_def p kv_create_def kv_get_def kv_put_def kv_page_default_def)
qed

lemma kv_evict_verdict: "fst (kv_cache_evict clk w disp hw)
    = after_boot (boot_status clk boot_options_default disp hw) Hung"
  unfolding kv_cache_evict_def by (rule with_boot_verdict) (simp only: touch_all_hangs option.case fst_conv)

text \<open>The dry run of the pipeline test passes exactly on a device with enough shared memory.\<close>

definition booted_smem :: "(nat \<Rightarrow> u64) \<Rightarrow> boot_options \<Rightarrow> 'p dispatch \<Rightarrow> 'p \<Rightarrow> u32" where
  "booted_smem clk opts disp hw = (case br_ctx (fst (boot clk opts disp hw)) of
     None \<Rightarrow> 0 | Some c \<Rightarrow> dd_smem_per_sm_bytes (e_device (fw_env c)))"

lemma build_verdict: "fst (build_validate clk rclk disp hw)
    = after_boot (boot_status clk boot_options_default disp hw)
        (if 128 \<le> booted_smem clk boot_options_default disp hw div 1024 then Passed else Test_failed)"
  unfolding build_validate_def
proof (rule with_boot_verdict, goal_cases)
  case (1 r ev disp1 hw1 c h pf)
  have d: "dd_smem_per_sm_bytes (e_device (fw_env (hw_in h c))) = booted_smem clk boot_options_default disp hw"
    using 1 by (simp add: booted_smem_def hw_in_def)
  obtain s1 p1 where b: "pl_build (e_device (fw_env (hw_in h c))) (pl_create (pipeline_config_default\<lparr>pc_dry_run := True\<rparr>)) = (s1, p1)"
    by force
  obtain s2 env mk p2 where r: "pl_run pf rclk (fw_env (hw_in h c)) (the_mk c) p1 = (s2, env, mk, p2)"
    using prod_cases4 by blast
  have s1: "s1 = (if 128 \<le> booted_smem clk boot_options_default disp hw div 1024 then Ok else ContractViolation)"
    using b by (auto simp: pl_build_fresh d split: if_splits)
  have "s2 = Ok" if s: "s1 = Ok"
  proof -
    have "pl_built p1 \<and> pl_cfg p1 = pl_cfg (pl_create (pipeline_config_default\<lparr>pc_dry_run := True\<rparr>))"
      using b s by (auto simp: pl_build_fresh split: if_splits)
    then have "pl_built p1" "pc_dry_run (pl_cfg p1)" by (simp_all add: pl_create_def)
    then show ?thesis using r by (simp add: pl_run_def)
  qed
  then show ?case using s1 by (simp add: b r Let_def)
qed

subsection \<open>On a driver that works\<close>

text \<open>What the remaining tests rely on of the driver: an allocation of their size succeeds with a
  pointer that is not null and leaves a page of room in the address space, and releases and
  hints are accepted.\<close>

definition working_for :: "u64 \<Rightarrow> 'p backend \<Rightarrow> bool" where
  "working_for n pf = ((\<forall>env. \<exists>p env'. b_alloc_hbm pf n env = (Ok, p, env') \<and> p \<noteq> 0 \<and> unat p + unat n + 2 ^ 17 \<le> 2 ^ 64)
     \<and> (\<forall>p env. fst (b_free_hbm pf p env) = Ok) \<and> (\<forall>v n env. fst (b_prefetch_range pf v n env) = Ok)
     \<and> (\<forall>env. fst (b_release_vaddress pf env) = Ok))"

definition working :: "'p backend \<Rightarrow> bool" where
  "working pf = working_for (push_bit 20 1) pf"

lemma working_accepts:
  assumes "working_for n pf"
  shows "\<exists>p env'. b_alloc_hbm pf n env = (Ok, p, env') \<and> p \<noteq> 0 \<and> unat p + unat n + 2 ^ 17 \<le> 2 ^ 64"
    "fst (b_free_hbm pf p env) = Ok" "\<exists>env'. b_prefetch_range pf v k env = (Ok, env')" "fst (b_release_vaddress pf env) = Ok"
  using assms unfolding working_for_def by (simp_all add: prod_eq_iff)

lemma boot_active:
  assumes "d_active disp = Some pf" and "boot clk opts disp hw = (r, ev, disp1, hw1)"
  shows "disp1 = disp" "fst (dispatch_backend disp1 hw1) = pf"
proof -
  have p: "dispatch_probe disp h = (True, disp, h)" "dispatch_backend disp h = (pf, disp, h)" for h
    using assms(1) by (simp_all add: dispatch_probe_def dispatch_backend_def)
  show "disp1 = disp"
    using assms(2) by (auto simp: boot_def probe_driver_def p Let_def boot_fail_def split: prod.splits if_splits)
  then show "fst (dispatch_backend disp1 hw1) = pf" by (simp add: p)
qed

lemma shutdown_accepted:
  assumes "\<And>env. fst (b_release_vaddress pf env) = Ok"
  shows "fst (shutdown pf c) = Ok"
  using assms [of "fw_env (takedown pf c)"] by (auto simp: shutdown_takedown split: prod.splits)

text \<open>A fresh manager: the block is mapped unpinned and live, so it can be used and freed.\<close>

lemma fresh_block:
  assumes w: "working_for n pf" and n: "n \<noteq> 0" and st: "ms_mm st = mm_create env0"
  obtains a st1 where "mm_alloc pf clk n alloc_hints_default allocation_default st = Some (Ok, a, st1)"
    "al_hbm_ptr a \<noteq> 0" "al_vaddr a = al_hbm_ptr a" "mm_inv (ms_mm st1)" "map_of (mm_live (ms_mm st1)) (al_hbm_ptr a) = Some a"
    "\<exists>e. pt_lookup (mm_pt (ms_mm st1)) (al_vaddr a) = Some e \<and> pe_refcount e = 0"
    "mm_pt (ms_mm st1) = alloc_pt clk alloc_hints_default (al_vaddr a) n (mm_pt (mm_create env0))"
    "unat (al_vaddr a) + unat n + 2 ^ 17 \<le> 2 ^ 64"
proof -
  have inv: "mm_inv (ms_mm st)" using st by (simp add: mm_inv_create)
  note kb = mm_inv_kb [OF inv]
  obtain p env' where p: "b_alloc_hbm pf n (ms_env st) = (Ok, p, env')" "p \<noteq> 0" "unat p + unat n + 2 ^ 17 \<le> 2 ^ 64"
    using working_accepts(1) [OF w] by blast
  have "\<exists>a st1. mm_alloc pf clk n alloc_hints_default allocation_default st = Some (Ok, a, st1)
      \<and> al_hbm_ptr a = p \<and> al_vaddr a = p \<and> mm_pt (ms_mm st1) = alloc_pt clk alloc_hints_default p n (mm_pt (ms_mm st))
      \<and> map_of (mm_live (ms_mm st1)) p = Some a"
    by (rule mm_alloc_cases [OF kb, where pf = pf and clk = clk and bytes = n and hints = alloc_hints_default
          and out = allocation_default]) (use p n in auto)
  then obtain a st1 where a: "mm_alloc pf clk n alloc_hints_default allocation_default st = Some (Ok, a, st1)"
    "al_hbm_ptr a = p" "al_vaddr a = p" "mm_pt (ms_mm st1) = alloc_pt clk alloc_hints_default p n (mm_pt (ms_mm st))"
    "map_of (mm_live (ms_mm st1)) p = Some a" by blast
  have sh: "2 ^ pt_shift (mm_pt (ms_mm st)) \<le> (2::nat) ^ 17" by (simp add: pt_shift_def)
  have u: "0 < unat n" using n by (simp add: unat_gt_0)
  have "unat p + unat n + 2 ^ pt_shift (mm_pt (ms_mm st)) \<le> 2 ^ 64" using p(3) sh by simp
  then have "in_pages (mm_pt (ms_mm st)) p n p" by (rule range_covers [OF kb]) (use u in simp_all)
  then have l: "\<exists>e. pt_lookup (mm_pt (ms_mm st1)) p = Some e \<and> pe_refcount e = 0"
    using kb by (simp add: a(4) alloc_pt_def Let_def pt_map_lookup mapped_entry_def alloc_hints_default_def)
  have "alloc_fresh pf n st" by (simp add: alloc_fresh_def p st mm_create_def)
  then have "mm_inv (ms_mm st1)" by (intro mm_alloc_inv [OF inv _ a(1)]) (auto simp: alloc_fresh_def)
  then show ?thesis using a p l st by (intro that) auto
qed

lemma megabyte: "(push_bit 20 1 :: u64) \<noteq> 0"
  by simp

lemma block_verdict:
  assumes act: "d_active disp = Some pf" and w: "working pf"
    and use: "\<And>a (st :: 'p mstate). al_hbm_ptr a \<noteq> 0 \<Longrightarrow> mm_inv (ms_mm st) \<Longrightarrow> map_of (mm_live (ms_mm st)) (al_hbm_ptr a) = Some a
      \<Longrightarrow> \<exists>e. pt_lookup (mm_pt (ms_mm st)) (al_vaddr a) = Some e \<and> pe_refcount e = 0 \<Longrightarrow>
      list_all id (fst (use pf a st)) \<and> pt_valid_kb (mm_pt (ms_mm (snd (use pf a st))))
      \<and> mm_live (ms_mm (snd (use pf a st))) = mm_live (ms_mm st)"
  shows "fst (with_block clk mclk use disp hw) = after_boot (boot_status clk boot_options_default disp hw) Passed"
  unfolding with_block_def
proof (rule with_boot_verdict, goal_cases)
  case (1 r ev disp1 hw1 c h pf')
  have pf: "pf' = pf" using boot_active [OF act 1(1)] 1(5) by simp
  let ?c = "hw_in h c"
  have "fw_mem ?c = None" using 1(4) by (simp add: fw_ready_def hw_in_def)
  then have fresh: "ms_mm (fw_memory ?c) = mm_create (fw_env ?c)" by (simp add: fw_memory_def)
  obtain a st1 where a: "mm_alloc pf mclk (push_bit 20 1) alloc_hints_default allocation_default (fw_memory ?c) = Some (Ok, a, st1)"
    and k: "al_hbm_ptr a \<noteq> 0" "mm_inv (ms_mm st1)" "map_of (mm_live (ms_mm st1)) (al_hbm_ptr a) = Some a"
      "\<exists>e. pt_lookup (mm_pt (ms_mm st1)) (al_vaddr a) = Some e \<and> pe_refcount e = 0"
    using fresh_block [OF w [unfolded working_def] megabyte fresh, where clk = mclk] by blast
  obtain checks st2 where u: "use pf a st1 = (checks, st2)" by force
  have st2: "list_all id checks" "pt_valid_kb (mm_pt (ms_mm st2))" "map_of (mm_live (ms_mm st2)) (al_hbm_ptr a) \<noteq> None"
    using use [OF k] k(3) by (simp_all add: u)
  obtain s st3 where f: "mm_free pf a st2 = Some (s, st3)" using mm_free_returns [OF st2(2)] by (metis not_None_eq surj_pair)
  have "s = Ok" using working_accepts(2) [OF w [unfolded working_def]] by (intro mm_free_accepted [OF _ st2(3) f]) simp
  then show ?case using st2(1) by (simp add: pf a [simplified] u f check_all_def)
qed

lemma memory_verdicts:
  assumes act: "d_active disp = Some pf" and w: "working pf"
  shows "fst (alloc_free_test clk mclk disp hw) = after_boot (boot_status clk boot_options_default disp hw) Passed"
    and "fst (page_table_incref_decref clk mclk t1 t2 disp hw) = after_boot (boot_status clk boot_options_default disp hw) Passed"
    and "fst (prefetch_noop clk mclk disp hw) = after_boot (boot_status clk boot_options_default disp hw) Passed"
proof -
  show "fst (alloc_free_test clk mclk disp hw) = after_boot (boot_status clk boot_options_default disp hw) Passed"
    unfolding alloc_free_test_def by (rule block_verdict [OF act w]) (simp add: mm_inv_kb)
  show "fst (page_table_incref_decref clk mclk t1 t2 disp hw) = after_boot (boot_status clk boot_options_default disp hw) Passed"
    unfolding page_table_incref_decref_def
  proof (rule block_verdict [OF act w], goal_cases)
    case (1 a st)
    then obtain e where e: "pt_lookup (mm_pt (ms_mm st)) (al_vaddr a) = Some e" "pe_refcount e = 0" by blast
    obtain pt1 where i: "incref t1 (mm_pt (ms_mm st)) (al_vaddr a) = (Ok, pt1)" using e by (simp add: incref_eq)
    obtain pt2 where d: "decref t2 pt1 (al_vaddr a) = (Ok, pt2)" using incref_decref [OF i] by blast
    have "pt_inv pt1" using incref_inv [of "mm_pt (ms_mm st)" t1 "al_vaddr a"] 1(2) i by (simp add: mm_inv_def)
    then have "pt_inv pt2" using decref_inv [of pt1 t2 "al_vaddr a"] d by simp
    then show ?case by (simp add: i d pt_invD(1))
  qed
  show "fst (prefetch_noop clk mclk disp hw) = after_boot (boot_status clk boot_options_default disp hw) Passed"
    unfolding prefetch_noop_def
  proof (rule block_verdict [OF act w], goal_cases)
    case (1 a st)
    obtain env' where "b_prefetch_range pf (al_hbm_ptr a) (push_bit 20 1) (ms_env st) = (Ok, env')"
      using working_accepts(3) [OF w [unfolded working_def]] by blast
    then show ?case using 1 by (simp add: mm_prefetch_def mm_inv_kb)
  qed
qed

lemma fault_polls_verdict:
  assumes act: "d_active disp = Some pf" and w: "working pf"
  shows "fst (fault_handler_polls clk disp hw)
    = after_boot (boot_status clk (boot_options_default\<lparr>bo_fault_buffer_slots := 16\<rparr>) disp hw) Passed"
  unfolding fault_handler_polls_def
proof (rule with_boot_verdict, goal_cases)
  case (1 r ev disp1 hw1 c h pf')
  have pf: "pf' = pf" using boot_active [OF act 1(1)] 1(5) by simp
  obtain env' where "b_prefetch_range pf 0 4096 (fw_env (hw_in h c)) = (Ok, env')"
    using working_accepts(3) [OF w [unfolded working_def]] by blast
  then show ?case by (simp add: inject_fetch_hint_def pf)
qed

lemma boot_options_auto: "boot_options_default\<lparr>bo_profile := ''auto''\<rparr> = boot_options_default"
  by (simp add: boot_options_default_def)

lemma detects_device_verdict:
  assumes act: "d_active disp = Some pf" and w: "working pf"
  shows "fst (boot_detects_device clk disp hw)
    = after_boot (boot_status clk boot_options_default disp hw)
        (if dd_hbm_capacity_bytes (br_device (fst (boot clk boot_options_default disp hw))) = 0 then Test_failed else Passed)"
  unfolding boot_detects_device_def
  unfolding boot_options_auto
proof (rule with_boot_verdict, goal_cases)
  case (1 r ev disp1 hw1 c h pf')
  have pf: "pf' = pf" using boot_active [OF act 1(1)] 1(5) by simp
  obtain c' where s: "shutdown pf (hw_in h c) = (Ok, c')"
    using shutdown_accepted [of pf "hw_in h c", OF working_accepts(4) [OF w [unfolded working_def]]] by (metis prod.collapse)
  have "dd_vendor (br_device r) \<noteq> Unknown_vendor" using booted_ready [OF 1(1,2)] by simp
  then show ?case using 1(1) by (simp add: pf s word_gt_0)
qed

subsection \<open>What the suites report\<close>

definition bench_backend :: "u64 backend" where
  "bench_backend = sim_backend\<lparr>b_describe_device := (\<lambda>_ hw. (e_device sim_env, hw)),
     b_alloc_hbm := (\<lambda>_ e. (Ok, 0x100000, e))\<rparr>"

definition bench :: "u64 dispatch" where
  "bench = dispatch_init\<lparr>d_active := Some bench_backend\<rparr>"

lemma bench_facts: "d_active bench = Some bench_backend" "working bench_backend" "accepting bench_backend"
  "boot_status clk opts bench hw = Ok" "br_device (fst (boot clk opts bench hw)) = e_device sim_env"
proof -
  show a: "d_active bench = Some bench_backend" by (simp add: bench_def)
  show "working bench_backend"
    by (simp add: working_def working_for_def bench_backend_def)
  show c: "accepting bench_backend"
    by (simp add: accepting_def bench_backend_def)
  have d: "b_describe_device bench_backend p h = (e_device sim_env, h)" for p h by (simp add: bench_backend_def)
  show "boot_status clk opts bench hw = Ok" "br_device (fst (boot clk opts bench hw)) = e_device sim_env"
    using boot_accepting [OF c a, of opts hw clk] by (simp_all add: d sim_env_def)
qed

text \<open>C11: What each of the 17 self tests reports.  Whatever the driver is, a test that boots skips
  when the boot finds no device and fails when the boot fails otherwise; when the boot succeeds
  the tests of the event trace, the stream pool, the warp defaults, the task graph, the layer
  budgets, the token step and the inference loop pass, the pipeline's dry run passes exactly when
  a multiprocessor has 128 KB of shared memory, and the test of cache eviction never returns: the
  fifth of its eight touches evicts while it holds the mutex that eviction takes.  The two tests
  of the warp policies, which do not boot, pass.  When the selected backend also grants a megabyte and accepts
  releases, hints and the return of the address range, the three memory tests and the fetch-hint
  test pass, and the device test passes exactly when the device reports memory.\<close>

theorem self_test_verdicts:
  fixes w :: "'f :: {linorder, zero}"
  shows
  "fst (boot_emits_events clk disp hw)
      = after_boot (boot_status clk (boot_options_default\<lparr>bo_on_event := True\<rparr>) disp hw) Passed
    \<and> (\<forall>t \<in> {stream_pool_acquire_release clk, warp_spec_defaults clk, task_graph_add_validate clk,
          task_graph_rejects_cycle clk, layer_defaults clk, step_advances_l4 clk, infer_loop_produces_tokens clk}.
        fst (t disp hw) = after_boot (boot_status clk boot_options_default disp hw) Passed)
    \<and> fst (build_validate clk rclk disp hw) = after_boot (boot_status clk boot_options_default disp hw)
        (if 128 \<le> booted_smem clk boot_options_default disp hw div 1024 then Passed else Test_failed)
    \<and> fst (kv_cache_evict clk w disp hw) = after_boot (boot_status clk boot_options_default disp hw) Hung
    \<and> warp_spec_hopper disp hw = (Passed, disp, hw) \<and> warp_spec_ampere disp hw = (Passed, disp, hw)
    \<and> (d_active disp = Some pf \<and> working pf \<longrightarrow>
        (\<forall>t \<in> {alloc_free_test clk mclk, page_table_incref_decref clk mclk t1 t2, prefetch_noop clk mclk}.
          fst (t disp hw) = after_boot (boot_status clk boot_options_default disp hw) Passed)
      \<and> fst (fault_handler_polls clk disp hw)
          = after_boot (boot_status clk (boot_options_default\<lparr>bo_fault_buffer_slots := 16\<rparr>) disp hw) Passed
      \<and> fst (boot_detects_device clk disp hw) = after_boot (boot_status clk boot_options_default disp hw)
          (if dd_hbm_capacity_bytes (br_device (fst (boot clk boot_options_default disp hw))) = 0 then Test_failed else Passed))"
  by (simp add: emits_events_verdict stream_pool_verdict warp_spec_verdict add_validate_verdict
      rejects_cycle_verdict layer_verdicts kv_evict_verdict infer_verdict build_verdict policy_verdicts
      memory_verdicts fault_polls_verdict detects_device_verdict)

theorem self_test_verdicts_witness:
  "fst (stream_pool_acquire_release (\<lambda>_. 0) (dispatch_init :: nat dispatch) 0) = Skipped
    \<and> fst (task_graph_add_validate (\<lambda>_. 0) bench 1) = Passed
    \<and> fst (alloc_free_test (\<lambda>_. 0) (\<lambda>_. 0) bench 1) = Passed \<and> fst (boot_detects_device (\<lambda>_. 0) bench 1) = Passed
    \<and> fst (kv_cache_evict (\<lambda>_. 0) (1 :: int) bench 1) = Hung"
proof -
  have n: "boot_status (\<lambda>_. 0) boot_options_default (dispatch_init :: nat dispatch) 0 = DeviceNotFound"
    by (simp add: boot_status_def boot_def probe_driver_def dispatch_probe_def dispatch_init_def boot_fail_def)
  have h: "dd_hbm_capacity_bytes (e_device sim_env) \<noteq> 0" by (simp add: sim_env_def)
  show ?thesis
    using self_test_verdicts [of "\<lambda>_. 0" "dispatch_init :: nat dispatch" 0 "\<lambda>_. (0, 0)" "1 :: int"] n
      self_test_verdicts [of "\<lambda>_. 0" bench 1 "\<lambda>_. (0, 0)" "1 :: int" bench_backend "\<lambda>_. 0"] h
    by (simp add: bench_facts)
qed

end
