(* ===== verification/Frames.thy ===== *)
theory Frames
  imports Abi
begin

text \<open>
  What a backend keeps, the program keeps.  A locale fixes a reflexive and transitive relation on
  environments in which the calls of a backend stay; the operations of the components, and the
  calls of the C interface on a registered context, then stay in it too.  There are three of
  them, each extending the one before: \<open>backend_calm\<close> asks it of the calls that neither take nor
  give device memory nor launch, \<open>backend_memory\<close> of allocation and release as well, and
  \<open>backend_frame\<close> of launches too.  The calls that only a tensor-map engine makes are left out,
  as no context has one.
\<close>

text \<open>How a call of the C interface moves the process: not at all, or the one registered context it
  names, along \<open>M\<close>, with the hardware state following that context.\<close>

definition ctx_moves :: "('p fw \<Rightarrow> 'p fw \<Rightarrow> bool) \<Rightarrow> 'p dispatch \<Rightarrow> 'p \<Rightarrow> 'p proc \<Rightarrow> 'p proc \<Rightarrow> bool" where
  "ctx_moves M disp hw pr pr' = (pr' = pr \<or> (\<exists>h fw fw'. lookup_handle (pr_reg pr) h = Some fw
     \<and> M (hw_in hw fw) fw'
     \<and> pr' = pr\<lparr>pr_dispatch := disp, pr_hw := e_hw (fw_env fw'), pr_reg := register_handle h fw' (pr_reg pr)\<rparr>))"

lemma ctx_moves_same [simp]: "ctx_moves M disp hw pr pr"
  by (simp add: ctx_moves_def)

lemma hw_in_fields [simp]: "fw_tma (hw_in hw fw) = fw_tma fw" "fw_mk (hw_in hw fw) = fw_mk fw"
  "fw_faults (hw_in hw fw) = fw_faults fw" "fw_mem (hw_in hw fw) = fw_mem fw"
  by (simp_all add: hw_in_def)

lemma ctx_moves_mono: "ctx_moves M disp hw pr pr' \<Longrightarrow> (\<And>a b. M a b \<Longrightarrow> N a b) \<Longrightarrow> ctx_moves N disp hw pr pr'"
  unfolding ctx_moves_def by blast

lemma with_ctx_moves:
  assumes run: "with_ctx ctx f d pr = Some (c, x, pr')"
    and b: "dispatch_backend (pr_dispatch pr) (pr_hw pr) = (pf, disp, hw)"
    and f: "\<And>fw s x fw'. lookup_handle (pr_reg pr) ctx = Some fw \<Longrightarrow> f pf (hw_in hw fw) = Some (s, x, fw') \<Longrightarrow> M (hw_in hw fw) fw'"
  shows "ctx_moves M disp hw pr pr'"
proof (cases "lookup_handle (pr_reg pr) ctx")
  case None
  then show ?thesis using run by (simp add: with_ctx_def)
next
  case (Some fw)
  then obtain s fw' where r: "f pf (hw_in hw fw) = Some (s, x, fw')"
    "pr' = pr\<lparr>pr_dispatch := disp, pr_hw := e_hw (fw_env fw'), pr_reg := register_handle ctx fw' (pr_reg pr)\<rparr>"
    using run b by (auto simp: with_ctx_def)
  then show ?thesis using f [OF Some r(1)] Some unfolding ctx_moves_def by blast
qed

text \<open>What a move may change beside the environment: the pool, the blocks, or nothing that anyone
  owns.\<close>

definition fw_live :: "'p fw \<Rightarrow> (ptr, allocation) umap" where
  "fw_live fw = mm_live (ms_mm (fw_memory fw))"

definition env_moves :: "('p env \<Rightarrow> 'p env \<Rightarrow> bool) \<Rightarrow> 'p fw \<Rightarrow> 'p fw \<Rightarrow> bool" where
  "env_moves R fw fw' = (R (fw_env fw) (fw_env fw') \<and> fw_tma fw' = fw_tma fw \<and> fw_faults fw' = fw_faults fw)"

definition memory_moves :: "('p env \<Rightarrow> 'p env \<Rightarrow> bool) \<Rightarrow> 'p fw \<Rightarrow> 'p fw \<Rightarrow> bool" where
  "memory_moves R fw fw' = (env_moves R fw fw' \<and> fw_mk fw' = fw_mk fw)"

definition calm_moves :: "('p env \<Rightarrow> 'p env \<Rightarrow> bool) \<Rightarrow> 'p fw \<Rightarrow> 'p fw \<Rightarrow> bool" where
  "calm_moves R fw fw' = (memory_moves R fw fw' \<and> fw_live fw' = fw_live fw)"

lemmas moves_defs = env_moves_def memory_moves_def calm_moves_def

lemma fw_live_env [simp]: "fw_live (fw\<lparr>fw_env := e\<rparr>) = fw_live fw" "fw_live (hw_in hw fw) = fw_live fw"
  "fw_live (fw_put_memory fw st) = mm_live (ms_mm st)"
  by (simp_all add: fw_live_def) (simp add: fw_memory_def mm_create_def split: option.split)

lemma fw_put_memory_moves:
  "R (ms_env (fw_memory fw)) (ms_env st) \<Longrightarrow> memory_moves R fw (fw_put_memory fw st)"
  "R (ms_env (fw_memory fw)) (ms_env st) \<Longrightarrow> mm_live (ms_mm st) = fw_live fw \<Longrightarrow> calm_moves R fw (fw_put_memory fw st)"
  by (simp_all add: moves_defs) (simp_all add: fw_put_memory_def fw_memory_def)

lemma mm_prefetch_mm [simp]: "ms_mm (snd (mm_prefetch pf p n st)) = ms_mm st"
  by (simp add: mm_prefetch_def case_prod_unfold Let_def)

lemma advise_live: "advise_read_mostly clk p n st = Some (s, st') \<Longrightarrow> mm_live (ms_mm st') = mm_live (ms_mm st)"
  by (auto simp: advise_read_mostly_def)

subsection \<open>Calls that neither allocate nor launch\<close>

locale backend_calm =
  fixes pf :: "'p backend" and R :: "'p env \<Rightarrow> 'p env \<Rightarrow> bool"
  assumes stay [simp, intro]: "R e e"
    and trans: "R e1 e2 \<Longrightarrow> R e2 e3 \<Longrightarrow> R e1 e3"
    and prefetch: "R e (snd (b_prefetch_range pf v n e))"
    and create: "R e (snd (snd (b_create_stream pf k prio e)))"
    and destroy: "R e (snd (b_destroy_stream pf p e))"
    and sync: "R e (snd (b_sync_stream pf p e))"
    and gds_init: "R e (snd (b_gds_init pf e))"
    and gds_fini: "R e (snd (b_gds_fini pf e))"
    and grdma_init: "R e (snd (b_grdma_init pf e))"
    and grdma_fini: "R e (snd (b_grdma_fini pf e))"
    and install: "R e (snd (b_install_fault_buffer pf p sl e))"
    and uninstall: "R e (snd (b_uninstall_fault_buffer pf p e))"
    and tag: "R e (snd (b_ilc_tag pf p e))"
    and untag: "R e (snd (b_ilc_untag pf p e))"
    and release: "R e (snd (b_release_vaddress pf e))"
begin

lemmas calls = prefetch create destroy sync gds_init gds_fini grdma_init grdma_fini
  install uninstall tag untag release

lemma fold_keeps: "(\<And>x e. R e (f x e)) \<Longrightarrow> R e (fold f xs e)"
  by (induction xs arbitrary: e) (auto intro: trans)

lemma mk_sync_keeps: "R env (snd (mk_sync_stream pf h env))"
  by (simp add: mk_sync_stream_def calls)

lemma sync_list_keeps: "R env (snd (sync_list pf hs env))"
proof (induction hs arbitrary: env)
  case (Cons h hs)
  show ?case using Cons [of "snd (b_sync_stream pf (sh_raw h) env)"] sync [of env "sh_raw h"]
    by (auto simp: case_prod_unfold Let_def intro: trans)
qed simp

lemma sync_all_keeps: "R env (snd (sync_all pf env mk))"
proof -
  let ?e1 = "snd (sync_list pf (mk_free_compute mk) env)"
  let ?e2 = "snd (sync_list pf (mk_free_dma mk) ?e1)"
  have "R env ?e1" "R ?e1 ?e2" "R ?e2 (snd (sync_list pf (mk_free_fence mk) ?e2))"
    by (rule sync_list_keeps)+
  then show ?thesis unfolding sync_all_def Let_def case_prod_unfold by (auto intro: trans)
qed

lemma spawn_one_keeps: "R env (fst (snd (spawn_one pf k prio env mk)))"
  using create [of env k prio] by (simp add: spawn_one_def Let_def case_prod_unfold)

lemma spawn_n_keeps: "R env (fst (snd (spawn_n pf k prio n env mk)))"
proof (induction n arbitrary: env mk)
  case (Suc n)
  show ?case using Suc spawn_one_keeps [of env k prio mk] by (auto simp: case_prod_unfold Let_def intro: trans)
qed simp

lemma spawn_pool_keeps: "R env (fst (snd (spawn_stream_pool pf nc nd env mk)))"
proof -
  let ?s1 = "spawn_n pf Compute 0 (unat nc) env mk"
  let ?s2 = "spawn_n pf Dma (-1) (unat nd) (fst (snd ?s1)) (snd (snd ?s1))"
  have "R env (fst (snd ?s1))" "R (fst (snd ?s1)) (fst (snd ?s2))"
    "R (fst (snd ?s2)) (fst (snd (spawn_one pf Fence 1 (fst (snd ?s2)) (snd (snd ?s2)))))"
    by (rule spawn_n_keeps spawn_one_keeps)+
  then show ?thesis unfolding spawn_stream_pool_def Let_def case_prod_unfold by (auto intro: trans)
qed

lemma drain_keeps: "R env (fst (snd (drain_streams pf env mk)))"
  by (simp add: drain_streams_def Let_def fold_keeps calls del: fold_append)

lemma ilc_tag_keeps: "R env (fst (snd (ilc_tag pf h b env ic)))"
  using tag [of env h] by (simp add: ilc_tag_def Let_def case_prod_unfold)

lemma ilc_untag_keeps: "R env (fst (snd (ilc_untag pf h env ic)))"
  using untag [of env h] by (simp add: ilc_untag_def Let_def case_prod_unfold)

lemma ilc_disable_keeps: "R env (fst (snd (ilc_disable pf env ic)))"
  by (simp add: ilc_disable_def fold_keeps calls)

lemma mm_tag_keeps: "R (ms_env st) (ms_env (snd (mm_tag pf hints p b a st)))"
  using ilc_tag_keeps by (simp add: mm_tag_def Let_def case_prod_unfold split: option.split)

lemma mm_untag_keeps: "R (ms_env st) (ms_env (mm_untag pf a st))"
  using ilc_untag_keeps by (simp add: mm_untag_def Let_def case_prod_unfold split: option.split)

lemma advise_keeps: "advise_read_mostly clk p n st = Some (s, st') \<Longrightarrow> R (ms_env st) (ms_env st')"
  by (auto simp: advise_read_mostly_def)

lemma mm_prefetch_keeps: "R (ms_env st) (ms_env (snd (mm_prefetch pf p n st)))"
  using prefetch [of "ms_env st" p n] by (simp add: mm_prefetch_def Let_def case_prod_unfold)

lemma inject_keeps: "R env (snd (inject_fetch_hint pf v n env))"
  by (simp add: inject_fetch_hint_def calls)

lemma hint_slots_keeps: "R env (hint_slots pf kv bytes is env)"
proof (induction "is" arbitrary: env)
  case (Cons i "is")
  show ?case using Cons trans [OF inject_keeps Cons] by (simp add: Let_def)
qed simp

lemma prefetch_attention_keeps: "R env (snd (prefetch_attention pf topk cs env))"
  by (simp add: prefetch_attention_def hint_slots_keeps)

lemma dma_shutdown_keeps: "R env (fst (dma_shutdown pf env de))"
  using trans [OF grdma_fini gds_fini] by (simp add: dma_shutdown_def calls)

lemma enable_keeps:
  "R env (fst (snd (enable_gds pf env de)))" "R env (fst (snd (enable_grdma pf env de)))"
  by (simp_all add: enable_gds_def enable_grdma_def calls Let_def case_prod_unfold)

lemma register_dma_keeps:
  assumes "register_dma pf d opts fw = (s, fw')"
  shows "R (fw_env fw) (fw_env fw')"
proof -
  obtain s1 e1 d1 where 1: "(if ff_gds (dd_features d) \<and> bo_enable_gds opts
      then enable_gds pf (fw_env fw) (dma_create d) else (Ok, fw_env fw, dma_create d)) = (s1, e1, d1)" using prod_cases3 by blast
  obtain s2 e2 d2 where 2: "(if ff_grdma (dd_features d) \<and> bo_enable_grdma opts
      then enable_grdma pf e1 d1 else (Ok, e1, d1)) = (s2, e2, d2)" using prod_cases3 by blast
  have k1: "R (fw_env fw) e1" using 1 enable_keeps(1) [of "fw_env fw" "dma_create d"] by (auto split: if_splits)
  have k2: "R e1 e2" using 2 enable_keeps(2) [of e1 d1] by (auto split: if_splits)
  show ?thesis
    using assms k1 trans [OF k1 k2] unfolding register_dma_def 1 by (auto simp: 2 split: if_splits)
qed

lemma spawn_scheduler_keeps:
  assumes "spawn_scheduler pf d opts fw = (s, fw')"
  shows "R (fw_env fw) (fw_env fw')"
  using assms spawn_pool_keeps [of "fw_env fw" "bo_stream_pool_compute opts" "bo_stream_pool_dma opts" "mk_create d"]
  by (auto simp: spawn_scheduler_def split: prod.splits)

lemma fault_moves:
  assumes b: "dispatch_backend (pr_dispatch pr) (pr_hw pr) = (pf, disp, hw)"
    and run: "nexusrt_firmware_fault_handler ctx a t pr = Some (c, x, pr')"
  shows "ctx_moves (calm_moves R) disp hw pr pr'"
  by (rule with_ctx_moves [OF run [unfolded nexusrt_firmware_fault_handler_def] b])
    (auto simp: Let_def case_prod_unfold inject_keeps moves_defs split: option.splits)

lemma prefetch_moves:
  assumes b: "dispatch_backend (pr_dispatch pr) (pr_hw pr) = (pf, disp, hw)"
    and run: "nexusrt_mem_prefetch ctx p n pr = Some (c, x, pr')"
  shows "ctx_moves (calm_moves R) disp hw pr pr'"
  by (rule with_ctx_moves [OF run [unfolded nexusrt_mem_prefetch_def] b])
    (auto simp: Let_def case_prod_unfold fw_live_def intro!: fw_put_memory_moves(2) mm_prefetch_keeps)

lemma advise_moves:
  assumes b: "dispatch_backend (pr_dispatch pr) (pr_hw pr) = (pf, disp, hw)"
    and run: "nexusrt_mem_advise_read_mostly clk ctx p n pr = Some (c, x, pr')"
  shows "ctx_moves (calm_moves R) disp hw pr pr'"
  by (rule with_ctx_moves [OF run [unfolded nexusrt_mem_advise_read_mostly_def] b])
    (auto simp: fw_live_def dest: advise_keeps advise_live intro!: fw_put_memory_moves(2))

lemma barrier_moves:
  assumes b: "dispatch_backend (pr_dispatch pr) (pr_hw pr) = (pf, disp, hw)"
    and run: "nexusrt_wait_barrier ctx nm t pr = Some (c, x, pr')"
  shows "ctx_moves (calm_moves R) disp hw pr pr'"
  by (rule with_ctx_moves [OF run [unfolded nexusrt_wait_barrier_def] b])
    (auto simp: Let_def case_prod_unfold sync_all_keeps moves_defs split: option.splits)

lemma attention_moves:
  assumes b: "dispatch_backend (pr_dispatch pr) (pr_hw pr) = (pf, disp, hw)"
    and run: "nexusrt_prefetch_attention ctx kv n topk pr = Some (c, x, pr')"
  shows "ctx_moves (calm_moves R) disp hw pr pr'"
  by (rule with_ctx_moves [OF run [unfolded nexusrt_prefetch_attention_def] b])
    (auto simp: Let_def case_prod_unfold prefetch_attention_keeps moves_defs split: option.splits if_splits)

lemma calm_call_moves:
  assumes b: "dispatch_backend (pr_dispatch pr) (pr_hw pr) = (pf, disp, hw)"
    and run: "abi_exec ck c pr = Some (code, pr')"
    and c: "\<And>p a. c \<noteq> Firmware_init p a" "\<And>h. c \<noteq> Firmware_shutdown h" "\<not> submission c"
      "\<And>h n fl. c \<noteq> Mem_alloc h n fl" "\<And>h p. c \<noteq> Mem_free h p"
  shows "ctx_moves (calm_moves R) disp hw pr pr'"
  using run c
  by (cases c) (auto simp: submission_def dest: fault_moves [OF b] prefetch_moves [OF b] advise_moves [OF b]
      barrier_moves [OF b] attention_moves [OF b])

end

subsection \<open>Calls that do not launch\<close>

locale backend_memory = backend_calm +
  assumes alloc: "R e (snd (snd (b_alloc_hbm pf n e)))"
    and free_hbm: "R e (snd (b_free_hbm pf p e))"
begin

lemma mm_alloc_keeps:
  assumes "mm_alloc pf clk bytes hints out st = Some (s, a, st')"
  shows "R (ms_env st) (ms_env st')"
proof (cases "bytes = 0")
  case False
  obtain s1 p e1 where b: "b_alloc_hbm pf bytes (ms_env st) = (s1, p, e1)" using prod_cases3 by blast
  have e: "R (ms_env st) e1" using alloc [of "ms_env st" bytes] b by simp
  show ?thesis
  proof (cases "s1 = Ok")
    case True
    let ?o = "out\<lparr>al_vaddr := p, al_bytes := bytes, al_hints := hints, al_hbm_ptr := p\<rparr>"
    obtain o2 st2 where t: "mm_tag pf hints p bytes ?o (st\<lparr>ms_env := e1\<rparr>) = (o2, st2)" by force
    have "R e1 (ms_env st2)" using mm_tag_keeps [of "st\<lparr>ms_env := e1\<rparr>" hints p bytes ?o] by (simp add: t)
    moreover have "ms_env st' = ms_env st2"
      using assms False b True t
      by (auto simp: mm_alloc_def bind_eq_Some_conv mm_map_def advise_read_mostly_def split: if_splits)
    ultimately show ?thesis using trans [OF e] by simp
  qed (use assms False b e in \<open>auto simp: mm_alloc_def\<close>)
qed (use assms in \<open>simp add: mm_alloc_def\<close>)

lemma mm_free_keeps:
  assumes "mm_free pf a st = Some (s, st')"
  shows "R (ms_env st) (ms_env st')"
proof (cases "map_of (mm_live (ms_mm st)) (al_hbm_ptr a)")
  case (Some x)
  have "ms_env st' = snd (b_free_hbm pf (al_hbm_ptr a) (ms_env (mm_untag pf a st)))"
    using assms Some by (auto simp: mm_free_def Let_def bind_eq_Some_conv case_prod_unfold split: if_splits)
  then show ?thesis using trans [OF mm_untag_keeps free_hbm] by simp
qed (use assms in \<open>simp add: mm_free_def\<close>)

lemma destroy_one_keeps: "R (ms_env st) (ms_env (destroy_one pf a st))"
proof -
  let ?st = "if al_hbm_ptr a \<noteq> 0 then st\<lparr>ms_env := snd (b_free_hbm pf (al_hbm_ptr a) (ms_env st))\<rparr> else st"
  have "R (ms_env st) (ms_env ?st)" by (simp add: free_hbm)
  then show ?thesis unfolding destroy_one_def Let_def using mm_untag_keeps trans by blast
qed

lemma destroy_all_keeps: "R (ms_env st) (ms_env (fold (\<lambda>(p, a). destroy_one pf a) ls st))"
proof (induction ls arbitrary: st)
  case (Cons l ls)
  show ?case using trans [OF destroy_one_keeps Cons] by (simp add: case_prod_unfold)
qed simp

lemma mm_destroy_keeps: "R (ms_env st) (ms_env (mm_destroy pf st))"
  using destroy_all_keeps by (simp add: mm_destroy_def Let_def)

lemma fh_uninstall_keeps: "R env (fst (snd (fh_uninstall pf env fh)))"
  using trans [OF uninstall free_hbm] by (simp add: fh_uninstall_def Let_def)

lemma shutdown_keeps: "R (fw_env fw) (fw_env (snd (shutdown pf fw))) \<and> fw_tma (snd (shutdown pf fw)) = fw_tma fw"
proof -
  let ?moves = "\<lambda>a b. R (fw_env a) (fw_env b) \<and> fw_tma b = fw_tma a"
  obtain last0 fw1 where 1: "(case fw_faults fw of None \<Rightarrow> (Ok, fw)
      | Some fh \<Rightarrow> (let (s, env, fh') = fh_uninstall pf (fw_env fw) fh in (s, fw\<lparr>fw_env := env, fw_faults := Some fh'\<rparr>))) = (last0, fw1)"
    by force
  obtain fw2 where 2: "(case fw_mk fw1 of None \<Rightarrow> fw1
      | Some mk \<Rightarrow> (let (s, env, mk') = drain_streams pf (fw_env fw1) mk in fw1\<lparr>fw_env := env, fw_mk := Some mk'\<rparr>)) = fw2"
    by simp
  obtain fw3 where 3: "(case fw_dma fw2 of None \<Rightarrow> fw2
      | Some de \<Rightarrow> (let (env, de') = dma_shutdown pf (fw_env fw2) de in fw2\<lparr>fw_env := env, fw_dma := Some de'\<rparr>)) = fw3"
    by simp
  obtain fw4 where 4: "(case fw_ilc fw3 of None \<Rightarrow> fw3
      | Some ic \<Rightarrow> (let (s, env, ic') = ilc_disable pf (fw_env fw3) ic in fw3\<lparr>fw_env := env, fw_ilc := Some ic'\<rparr>)) = fw4"
    by simp
  have "?moves fw fw1"
    using 1 by (cases "fw_faults fw") (auto simp: Let_def case_prod_unfold fh_uninstall_keeps)
  moreover have "?moves fw1 fw2"
    using 2 by (cases "fw_mk fw1") (auto simp: Let_def case_prod_unfold drain_keeps)
  moreover have "?moves fw2 fw3"
    using 3 by (cases "fw_dma fw2") (auto simp: Let_def case_prod_unfold dma_shutdown_keeps)
  moreover have "?moves fw3 fw4"
    using 4 by (cases "fw_ilc fw3") (auto simp: Let_def case_prod_unfold ilc_disable_keeps)
  ultimately have "?moves fw fw4" using trans by metis
  moreover have "snd (shutdown pf fw) = fw4\<lparr>fw_env := snd (b_release_vaddress pf (fw_env fw4))\<rparr>"
    unfolding shutdown_def Let_def prod.case 1 [unfolded Let_def] 2 [unfolded Let_def] 3 [unfolded Let_def] 4 [unfolded Let_def]
    by (simp add: case_prod_unfold)
  ultimately show ?thesis using trans [OF _ release] by simp
qed

lemma fw_destroy_keeps:
  assumes "fw_tma fw = None"
  shows "R (fw_env fw) (fw_destroy pf fw)"
proof -
  obtain fw1 where 1: "(case fw_mem fw of None \<Rightarrow> fw | Some m \<Rightarrow> fw_put_memory fw (mm_destroy pf (fw_memory fw))) = fw1" by simp
  obtain env2 where 2: "(case fw_ilc fw1 of None \<Rightarrow> fw_env fw1 | Some ic \<Rightarrow> fst (snd (ilc_disable pf (fw_env fw1) ic))) = env2" by simp
  obtain env3 where 3: "(case fw_faults fw1 of None \<Rightarrow> env2 | Some fh \<Rightarrow> fst (snd (fh_uninstall pf env2 fh))) = env3" by simp
  obtain env5 where 5: "(case fw_dma fw1 of None \<Rightarrow> env3 | Some de \<Rightarrow> fst (dma_shutdown pf env3 de)) = env5" by simp
  have t: "fw_tma fw1 = None" using 1 assms by (cases "fw_mem fw") (auto simp: fw_put_memory_def)
  have "R (fw_env fw) (fw_env fw1)"
    using 1 mm_destroy_keeps [of "fw_memory fw"] by (cases "fw_mem fw") (auto simp: fw_put_memory_def fw_memory_def)
  moreover have "R (fw_env fw1) env2" using 2 by (cases "fw_ilc fw1") (auto simp: ilc_disable_keeps)
  moreover have "R env2 env3" using 3 by (cases "fw_faults fw1") (auto simp: fh_uninstall_keeps)
  moreover have "R env3 env5" using 5 by (cases "fw_dma fw1") (auto simp: dma_shutdown_keeps)
  moreover have "R env5 (fw_destroy pf fw)"
    unfolding fw_destroy_def Let_def 1 2 3 t option.case 5
    by (cases "fw_mk fw1") (simp_all add: drain_keeps)
  ultimately show ?thesis using trans by metis
qed

lemma attach_keeps:
  assumes "attach_fault_handler pf opts fw = (s, fw')"
  shows "R (fw_env fw) (fw_env fw')"
proof -
  have "R env (fst (snd (fh_install pf env fh)))" for env fh
    using alloc [of env "ucast (fh_buffer_slots fh) * sizeof_fault_record"] trans [OF alloc install]
    by (simp add: fh_install_def Let_def case_prod_unfold)
  then show ?thesis using assms by (auto simp: attach_fault_handler_def Let_def case_prod_unfold)
qed

lemma alloc_moves:
  assumes b: "dispatch_backend (pr_dispatch pr) (pr_hw pr) = (pf, disp, hw)"
    and run: "nexusrt_mem_alloc clk ctx n fl pr = Some (c, x, pr')"
  shows "ctx_moves (memory_moves R) disp hw pr pr'"
  by (rule with_ctx_moves [OF run [unfolded nexusrt_mem_alloc_def] b])
    (auto dest!: mm_alloc_keeps intro!: fw_put_memory_moves(1))

lemma free_moves:
  assumes b: "dispatch_backend (pr_dispatch pr) (pr_hw pr) = (pf, disp, hw)"
    and run: "nexusrt_mem_free ctx p pr = Some (c, x, pr')"
  shows "ctx_moves (memory_moves R) disp hw pr pr'"
  by (rule with_ctx_moves [OF run [unfolded nexusrt_mem_free_def] b])
    (auto dest!: mm_free_keeps intro!: fw_put_memory_moves(1))

lemma memory_call_moves:
  assumes b: "dispatch_backend (pr_dispatch pr) (pr_hw pr) = (pf, disp, hw)"
    and run: "abi_exec ck c pr = Some (code, pr')"
    and c: "\<And>p a. c \<noteq> Firmware_init p a" "\<And>h. c \<noteq> Firmware_shutdown h" "\<not> submission c"
  shows "ctx_moves (memory_moves R) disp hw pr pr'"
proof (cases "(\<exists>h n fl. c = Mem_alloc h n fl) \<or> (\<exists>h p. c = Mem_free h p)")
  case True
  then show ?thesis using run by (auto dest: alloc_moves [OF b] free_moves [OF b])
next
  case False
  then have "ctx_moves (calm_moves R) disp hw pr pr'" using calm_call_moves [OF b run c] by blast
  then show ?thesis by (rule ctx_moves_mono) (simp add: calm_moves_def)
qed

lemma shutdown_moves:
  assumes b: "dispatch_backend (pr_dispatch pr) (pr_hw pr) = (pf, disp, hw)"
    and run: "nexusrt_firmware_shutdown ctx pr = (code, pr')"
  shows "pr' = pr \<or> (\<exists>fw env. lookup_handle (pr_reg pr) ctx = Some fw
    \<and> (fw_tma fw = None \<longrightarrow> R (fw_env (hw_in hw fw)) env)
    \<and> pr' = pr\<lparr>pr_dispatch := disp, pr_hw := e_hw env, pr_reg := snd (take_handle ctx (pr_reg pr))\<rparr>)"
proof (cases "ctx \<noteq> 0 \<and> lookup_handle (pr_reg pr) ctx \<noteq> None")
  case False
  then have "pr' = pr"
    using run by (auto simp: nexusrt_firmware_shutdown_def take_handle_def lookup_handle_def split: if_splits)
  then show ?thesis ..
next
  case True
  then obtain fw where fw: "lookup_handle (pr_reg pr) ctx = Some fw" by blast
  obtain s fw' where s: "shutdown pf (hw_in hw fw) = (s, fw')" by force
  have k: "R (fw_env (hw_in hw fw)) (fw_env fw') \<and> fw_tma fw' = fw_tma fw"
    using shutdown_keeps [of "hw_in hw fw"] by (simp add: s)
  have "pr' = pr\<lparr>pr_dispatch := disp, pr_hw := e_hw (fw_destroy pf fw'), pr_reg := snd (take_handle ctx (pr_reg pr))\<rparr>"
    using run True fw b s by (simp add: nexusrt_firmware_shutdown_def take_handle_def lookup_handle_def)
  then show ?thesis using fw k trans fw_destroy_keeps [of fw'] by fastforce
qed

end

subsection \<open>All calls\<close>

locale backend_frame = backend_memory +
  assumes kernel: "R e (snd (b_launch_kernel pf fn g b sm h args e))"
begin

lemma launch_keeps: "R env (snd (mk_launch pf m f g b sm sh args env mk))"
  by (simp add: mk_launch_def kernel split: option.split)

lemma tg_launch_keeps: "R env (fst (snd (snd (tg_launch pf clk n env mk))))"
proof -
  let ?c = "sn_contract n"
  obtain sh mk1 where a: "acquire_stream (stage_class ?c) 0 mk = (sh, mk1)" by force
  obtain s env1 where l: "mk_launch pf (sc_module ?c) (sc_function ?c) (sc_grid ?c) (sc_block ?c)
      (sc_shared_mem_bytes ?c) sh (sc_kernel_args ?c) env mk1 = (s, env1)" by force
  have "R env env1" using launch_keeps [of env] l by (metis snd_conv)
  moreover have "R env1 (snd (mk_sync_stream pf sh env1))" by (rule mk_sync_keeps)
  ultimately show ?thesis
    unfolding tg_launch_def Let_def a by (auto simp: l case_prod_unfold intro: trans)
qed

lemma run_pass_keeps: "run_pass pf clk ks env mk ns p = (s, env', mk', ns', p') \<Longrightarrow> R env env'"
proof (induction ks arbitrary: env mk ns p)
  case (Cons k ks)
  show ?case
  proof (cases "\<exists>n. map_of ns k = Some n \<and> ready_to_run ns n")
    case False
    then show ?thesis using Cons by (auto split: option.splits)
  next
    case True
    then obtain n where n: "map_of ns k = Some n" "ready_to_run ns n" by blast
    obtain s1 n1 env1 mk1 where l: "tg_launch pf clk n env mk = (s1, n1, env1, mk1)" using prod_cases4 by blast
    have "R env env1" using tg_launch_keeps [of env clk n mk] l by simp
    moreover have "R env1 env'"
      using Cons.prems Cons.IH [of env1 mk1 "AList.update k n1 ns" True] n l by (auto simp: Let_def split: if_splits)
    ultimately show ?thesis by (rule trans)
  qed
qed simp

lemma run_loop_keeps: "run_loop pf clk env mk ns = (s, env', mk', ns') \<Longrightarrow> R env env'"
proof (induction "card (pending_keys ns)" arbitrary: env mk ns rule: less_induct)
  case less
  obtain s1 env1 mk1 ns1 p1 where p: "run_pass pf clk (map fst ns) env mk ns False = (s1, env1, mk1, ns1, p1)"
    using prod_cases5 by blast
  have e: "R env env1" by (rule run_pass_keeps [OF p])
  show ?case
  proof (cases "s1 = Ok \<and> p1")
    case True
    then have "pending_keys ns1 \<subset> pending_keys ns" using run_pass_pending [OF p] by simp
    then have "card (pending_keys ns1) < card (pending_keys ns)" by (intro psubset_card_mono finite_pending)
    moreover have "run_loop pf clk env1 mk1 ns1 = (s, env', mk', ns')"
      using less.prems True by (simp add: run_loop.simps [of pf clk env] p)
    ultimately have "R env1 env'" by (rule less.hyps)
    with e show ?thesis by (rule trans)
  next
    case False
    then show ?thesis using less.prems e by (subst (asm) run_loop.simps) (auto simp: p split: if_splits)
  qed
qed

lemma tg_run_keeps: "tg_run pf clk env mk g = (s, env', mk', g') \<Longrightarrow> R env env'"
  using run_loop_keeps
  by (auto simp: tg_run_def split: prod.splits if_splits)

lemma task_moves:
  assumes b: "dispatch_backend (pr_dispatch pr) (pr_hw pr) = (pf, disp, hw)"
    and run: "nexusrt_firmware_task_submit ctx m f g bl sm args k prio pr = Some (c, x, pr')"
  shows "ctx_moves (env_moves R) disp hw pr pr'"
  by (rule with_ctx_moves [OF run [unfolded nexusrt_firmware_task_submit_def] b])
    (auto simp: Let_def case_prod_unfold launch_keeps env_moves_def intro: trans [OF launch_keeps mk_sync_keeps] split: option.splits if_splits)

lemma stage_moves:
  assumes b: "dispatch_backend (pr_dispatch pr) (pr_hw pr) = (pf, disp, hw)"
    and run: "nexusrt_submit_stage clk ctx st pr = Some (c, x, pr')"
  shows "ctx_moves (env_moves R) disp hw pr pr'"
  by (rule with_ctx_moves [OF run [unfolded nexusrt_submit_stage_def] b])
    (auto simp: Let_def env_moves_def dest: tg_run_keeps split: prod.splits option.splits if_splits)

lemma call_moves:
  assumes b: "dispatch_backend (pr_dispatch pr) (pr_hw pr) = (pf, disp, hw)"
    and run: "abi_exec ck c pr = Some (code, pr')"
    and c: "\<And>p a. c \<noteq> Firmware_init p a" "\<And>h. c \<noteq> Firmware_shutdown h"
  shows "ctx_moves (env_moves R) disp hw pr pr'"
proof (cases "submission c")
  case True
  then show ?thesis using run by (cases c) (auto simp: submission_def dest: task_moves [OF b] stage_moves [OF b])
next
  case False
  then have "ctx_moves (memory_moves R) disp hw pr pr'" using memory_call_moves [OF b run c] by blast
  then show ?thesis by (rule ctx_moves_mono) (simp add: memory_moves_def)
qed

end

end
