(* ===== verification/Prefetcher.thy ===== *)
theory Prefetcher
  imports TokenScope
begin

text \<open>
  The attention prefetcher of \<^verbatim>\<open>src/token_opt/prefetcher.hpp\<close> and
  \<^verbatim>\<open>prefetcher.cpp\<close>: a sliding window of attention rows, their sum as the score of each
  slot, and hints for the best slots.  Scores are elements of an arbitrary linear order with
  addition and zero.  \<^verbatim>\<open>std::partial_sort\<close> leaves the order of equal scores open; the
  model takes equal scores by ascending slot, and no lemma depends on it.
\<close>

record 'f prefetcher =
  pr_history :: "'f list list"
  pr_window :: u32

definition pr_create :: "'f prefetcher" where
  "pr_create = \<lparr>pr_history = [], pr_window = 16\<rparr>"

definition set_history_window :: "u32 \<Rightarrow> 'f prefetcher \<Rightarrow> 'f prefetcher" where
  "set_history_window n pr = pr\<lparr>pr_window := n\<rparr>"

fun trim_front :: "nat \<Rightarrow> 'a list \<Rightarrow> 'a list" where
  "trim_front w [] = []"
| "trim_front w (x # xs) = (if length (x # xs) > w then trim_front w xs else x # xs)"

definition observe :: "'f list \<Rightarrow> 'f prefetcher \<Rightarrow> 'f prefetcher" where
  "observe row pr = pr\<lparr>pr_history := trim_front (unat (pr_window pr)) (pr_history pr @ [row])\<rparr>"

definition add_row :: "('f :: {zero, plus}) list \<Rightarrow> 'f list \<Rightarrow> 'f list" where
  "add_row r score = map (\<lambda>i. if i < length r then score ! i + r ! i else score ! i) [0..<length score]"

definition slot_scores :: "('f :: {zero, plus}) list list \<Rightarrow> 'f list" where
  "slot_scores hist = fold add_row hist (replicate (length (last hist)) 0)"

definition top_slots :: "nat \<Rightarrow> ('f :: linorder) list \<Rightarrow> nat list" where
  "top_slots k score =
     take (min k (length score)) (rev (sort_key (\<lambda>i. score ! i) (rev [0..<length score])))"

definition prefetch_next :: "'p backend \<Rightarrow> u32 \<Rightarrow> ('f :: {linorder, zero, plus}) prefetcher \<Rightarrow> context_scope
    \<Rightarrow> 'p env \<Rightarrow> status \<times> 'p env" where
  "prefetch_next pf k pr cs env =
     (if pr_history pr = [] then (Ok, env)
      else prefetch_attention pf (map of_nat (top_slots (unat k) (slot_scores (pr_history pr)))) cs env)"

subsection \<open>Lemmas\<close>

lemma trim_front_drop: "trim_front w xs = drop (length xs - w) xs"
  by (induction w xs rule: trim_front.induct) (auto simp: Suc_diff_le not_less)

lemma length_add_row [simp]: "length (add_row r s) = length s"
  by (simp add: add_row_def)

lemma length_slot_scores: "length (slot_scores hist) = length (last hist)"
proof -
  have "length (fold add_row h s) = length s" for h and s :: "'a list"
    by (induction h arbitrary: s) simp_all
  then show ?thesis by (simp add: slot_scores_def)
qed

lemma slot_scores_nth:
  fixes hist :: "('f :: {zero, plus}) list list"
  assumes "i < length (last hist)"
  shows "slot_scores hist ! i = fold (\<lambda>r acc. if i < length r then acc + r ! i else acc) hist 0"
proof -
  have "i < length s \<Longrightarrow> fold add_row h s ! i = fold (\<lambda>r acc. if i < length r then acc + r ! i else acc) h (s ! i)"
    for h and s :: "'f list"
  proof (induction h arbitrary: s)
    case (Cons r h)
    then show ?case by (simp add: add_row_def)
  qed simp
  then show ?thesis using assms by (simp add: slot_scores_def)
qed

lemma top_slots_facts:
  shows "distinct (top_slots k score)" "set (top_slots k score) \<subseteq> {..<length score}"
    and "length (top_slots k score) = min k (length score)"
    and "i \<in> set (top_slots k score) \<Longrightarrow> j < length score \<Longrightarrow> j \<notin> set (top_slots k score) \<Longrightarrow> score ! j \<le> score ! i"
proof -
  let ?s = "rev (sort_key (\<lambda>i. score ! i) (rev [0..<length score]))"
  have t: "top_slots k score = take (min k (length score)) ?s" by (simp add: top_slots_def)
  show "distinct (top_slots k score)" by (simp add: t)
  have "set ?s = {..<length score}" by auto
  then show sub: "set (top_slots k score) \<subseteq> {..<length score}" unfolding t by (metis set_take_subset)
  show "length (top_slots k score) = min k (length score)" by (simp add: t)
  assume i: "i \<in> set (top_slots k score)" and j: "j < length score" "j \<notin> set (top_slots k score)"
  have "sorted (map (\<lambda>i. score ! i) (rev ?s))" by simp
  then have "sorted_wrt (\<ge>) (map (\<lambda>i. score ! i) ?s)"
    by (simp add: sorted_wrt_rev flip: rev_map)
  then have w: "sorted_wrt (\<ge>) (map (\<lambda>i. score ! i) (take (min k (length score)) ?s)
      @ map (\<lambda>i. score ! i) (drop (min k (length score)) ?s))"
    by (metis append_take_drop_id map_append)
  have "j \<in> set ?s" using j(1) by simp
  then have "j \<in> set (take (min k (length score)) ?s @ drop (min k (length score)) ?s)" by (simp only: append_take_drop_id)
  then have "j \<in> set (drop (min k (length score)) ?s)" using j(2) unfolding t set_append by blast
  then show "score ! j \<le> score ! i" using w i unfolding t sorted_wrt_append by auto
qed

subsection \<open>What the prefetcher promises\<close>

text \<open>The history is a sliding window: after observing any rows it holds the last rows seen,
  at most the window's number of them, oldest first.\<close>

theorem history_is_window:
  "pr_history (fold observe rows pr_create) = drop (length rows - 16) rows"
proof -
  have "pr_window pr = 16 \<Longrightarrow> pr_history pr = drop (length seen - 16) seen \<Longrightarrow>
    pr_history (fold observe rows pr) = drop (length (seen @ rows) - 16) (seen @ rows)"
    for rows seen and pr :: "'a prefetcher"
  proof (induction rows arbitrary: pr seen)
    case (Cons row rows)
    have w: "pr_window (observe row pr) = 16" using Cons.prems(1) by (simp add: observe_def)
    have "pr_history (observe row pr) = drop (length (seen @ [row]) - 16) (seen @ [row])"
    proof (cases "length seen < 16")
      case True
      then show ?thesis using Cons.prems by (simp add: observe_def trim_front_drop)
    next
      case False
      then obtain n where "length seen = 16 + n" by (metis le_Suc_ex not_less)
      then show ?thesis using Cons.prems by (simp add: observe_def trim_front_drop Suc_diff_le)
    qed
    from Cons.IH [OF w this] show ?case by simp
  qed simp
  from this [of pr_create "[]" rows] show ?thesis by (simp add: pr_create_def)
qed

text \<open>C34: The next prefetch hints the best slots: the smaller of \<^verbatim>\<open>k\<close> and the row length, all
  distinct, none scoring below a slot left out, the score of a slot being the sum of its
  weights over the window; with no history it does nothing.\<close>

theorem prefetch_next_best:
  fixes pr :: "('f :: {linorder, zero, plus}) prefetcher"
  assumes h: "pr_history pr \<noteq> []" and len: "length (last (pr_history pr)) \<le> 2 ^ 32"
  defines "score \<equiv> (\<lambda>i. fold (\<lambda>r acc. if i < length r then acc + r ! i else acc) (pr_history pr) 0)"
  shows "\<exists>slots :: u32 list. prefetch_next pf k pr cs env = prefetch_attention pf slots cs env
    \<and> length slots = min (unat k) (length (last (pr_history pr))) \<and> distinct slots
    \<and> (\<forall>s \<in> set slots. unat s < length (last (pr_history pr)))
    \<and> (\<forall>s \<in> set slots. \<forall>j < length (last (pr_history pr)). of_nat j \<notin> set slots \<longrightarrow> score j \<le> score (unat s))"
proof -
  let ?n = "length (last (pr_history pr))"
  let ?sc = "slot_scores (pr_history pr)"
  let ?t = "top_slots (unat k) ?sc"
  note f = top_slots_facts [where k = "unat k" and score = ?sc, unfolded length_slot_scores]
  have u: "unat (of_nat i :: u32) = i" if "i < ?n" for i
    using that len by (subst unat_of_nat) simp
  have inj: "inj_on (of_nat :: nat \<Rightarrow> u32) {..<?n}" by (rule inj_onI) (metis lessThan_iff u)
  have d: "distinct (map (of_nat :: nat \<Rightarrow> u32) ?t)"
    using f(1,2) by (simp add: distinct_map inj_on_subset [OF inj])
  have r: "unat s < ?n \<and> unat s \<in> set ?t" if "s \<in> set (map (of_nat :: nat \<Rightarrow> u32) ?t)" for s
    using that f(2) u by auto
  have b: "score j \<le> score (unat s)"
    if "s \<in> set (map (of_nat :: nat \<Rightarrow> u32) ?t)" "j < ?n" "of_nat j \<notin> set (map (of_nat :: nat \<Rightarrow> u32) ?t)" for s j
  proof -
    have "j \<notin> set ?t" using that(3) by auto
    then have "?sc ! j \<le> ?sc ! unat s" using f(4) r [OF that(1)] that(2) by blast
    then show ?thesis using r [OF that(1)] that(2) by (simp add: score_def slot_scores_nth)
  qed
  show ?thesis
    using h f(3) d r b by (intro exI [of _ "map of_nat ?t"]) (auto simp: prefetch_next_def)
qed

theorem prefetch_next_best_witness:
  "\<exists>slots :: u32 list. prefetch_next sim_backend 2 ((pr_create :: int prefetcher)\<lparr>pr_history := [[1, 5, 2], [4, 0, 9]]\<rparr>)
       (bind_kv_cache 0x1000 0x4000 8 cs_create) sim_env
     = prefetch_attention sim_backend slots (bind_kv_cache 0x1000 0x4000 8 cs_create) sim_env
    \<and> length slots = 2 \<and> distinct slots"
  using prefetch_next_best [of "(pr_create :: int prefetcher)\<lparr>pr_history := [[1, 5, 2], [4, 0, 9]]\<rparr>"
      sim_backend 2 "bind_kv_cache 0x1000 0x4000 8 cs_create" sim_env]
  by auto

end
