(* ===== verification/UnitTests.thy ===== *)
theory UnitTests
  imports SelfTests Frames Prefetcher
begin

text \<open>
  The GoogleTest suites (\<^verbatim>\<open>tests/unit/test_firmware.cpp\<close>, \<^verbatim>\<open>test_memory.cpp\<close>,
  \<^verbatim>\<open>test_scheduler.cpp\<close>, \<^verbatim>\<open>test_token_opt.cpp\<close>) as programs over the model.  All tests of
  a fixture boot in \<^verbatim>\<open>SetUp\<close>, skip without a device, and shut the context down in
  \<^verbatim>\<open>TearDown\<close>, which also runs after a failed assertion; the fixture's destructor then
  destroys the context.  A test that dereferences null ends the program without a result and
  counts as \<^term>\<open>Hung\<close>.  The time of the n-th event is \<open>clk n\<close>, that of a page \<open>mclk a\<close>.
\<close>

subsection \<open>The fixture\<close>

text \<open>The body gets the backend, the device, the dispatcher and the context, and leaves the last
  two.\<close>

definition fixture :: "(nat \<Rightarrow> u64)
    \<Rightarrow> ('p backend \<Rightarrow> device_desc \<Rightarrow> 'p dispatch \<Rightarrow> 'p fw \<Rightarrow> verdict \<times> 'p dispatch \<times> 'p fw) \<Rightarrow> 'p test" where
  "fixture clk body disp hw =
     (let (r, ev, disp1, hw1) = boot clk boot_options_default disp hw
      in case br_ctx r of
           None \<Rightarrow> (after_boot (br_status r) Test_failed, disp1, hw1)
         | Some c \<Rightarrow>
             (let (pf, disp2, hw2) = dispatch_backend disp1 hw1;
                  (v, disp3, c1) = (if br_status r = Ok then body pf (br_device r) disp2 (hw_in hw2 c)
                                    else (after_boot (br_status r) Test_failed, disp2, hw_in hw2 c))
              in (v, disp3, e_hw (fw_destroy pf (snd (shutdown pf c1))))))"

text \<open>A body that leaves the dispatcher alone.\<close>

definition body_on :: "('p backend \<Rightarrow> device_desc \<Rightarrow> 'p fw \<Rightarrow> verdict \<times> 'p fw)
    \<Rightarrow> 'p backend \<Rightarrow> device_desc \<Rightarrow> 'p dispatch \<Rightarrow> 'p fw \<Rightarrow> verdict \<times> 'p dispatch \<times> 'p fw" where
  "body_on f pf d disp c = (let (v, c1) = f pf d c in (v, disp, c1))"

subsection \<open>tests/unit/test_firmware.cpp\<close>

definition boot_populates_device_desc :: "(nat \<Rightarrow> u64) \<Rightarrow> 'p test" where
  "boot_populates_device_desc clk = fixture clk (body_on (\<lambda>pf d c.
     (check_all [dd_vendor d \<noteq> Unknown_vendor, dd_hbm_capacity_bytes d > 0, dd_sm_count d > 0], c)))"

definition unit_stream_pool :: "(nat \<Rightarrow> u64) \<Rightarrow> 'p test" where
  "unit_stream_pool clk = fixture clk (body_on (\<lambda>pf d c.
     let (s, mk) = acquire_stream Compute 0 (the_mk c)
     in if sh_id s = 0 then (Test_failed, c\<lparr>fw_mk := Some mk\<rparr>)
        else (Passed, c\<lparr>fw_mk := Some (release_stream s mk)\<rparr>)))"

definition dma_engine_gds_fallback :: "(nat \<Rightarrow> u64) \<Rightarrow> 'p test" where
  "dma_engine_gds_fallback clk = fixture clk (body_on (\<lambda>pf d c.
     (case fw_dma c of None \<Rightarrow> Hung | Some de \<Rightarrow> check_all [\<not> (de_gds_enabled de \<or> True)], c)))"

definition fault_handler_injects :: "(nat \<Rightarrow> u64) \<Rightarrow> 'p test" where
  "fault_handler_injects clk = fixture clk (body_on (\<lambda>pf d c.
     let (s, env) = inject_fetch_hint pf 0 4096 (fw_env c) in (check_all [s = Ok], c\<lparr>fw_env := env\<rparr>)))"

definition ilc_manager_disabled_on_ampere :: "(nat \<Rightarrow> u64) \<Rightarrow> 'p test" where
  "ilc_manager_disabled_on_ampere clk = fixture clk (body_on (\<lambda>pf d c.
     (if dd_arch d \<noteq> Hopper then check_all [fw_ilc c = None]
      else (case fw_ilc c of None \<Rightarrow> Hung | Some ic \<Rightarrow> check_all [ilc_on ic]), c)))"

definition unit_warp_spec :: "(nat \<Rightarrow> u64) \<Rightarrow> 'p test" where
  "unit_warp_spec clk = fixture clk (body_on (\<lambda>pf d c.
     (check_all [wq_total_warps (mk_default_ws (the_mk c)) = 16], c)))"

text \<open>The second context boots beside the fixture's, and is gone at the end of the body.\<close>

definition boot_events_emitted_in_order :: "(nat \<Rightarrow> u64) \<Rightarrow> (nat \<Rightarrow> u64) \<Rightarrow> 'p test" where
  "boot_events_emitted_in_order clk clk2 = fixture clk (\<lambda>pf d disp c.
     let (r, ev, disp1, hw1) = boot clk2 (boot_options_default\<lparr>bo_on_event := True\<rparr>) disp (e_hw (fw_env c));
         v = after_boot (br_status r) (check_all [be_phase (hd ev) = PreInit, be_phase (last ev) = boot_phase.Ready])
     in case br_ctx r of
          None \<Rightarrow> (v, disp1, hw_in hw1 c)
        | Some c2 \<Rightarrow>
            (let (pf2, disp2, hw2) = dispatch_backend disp1 hw1;
                 c3 = (if br_status r = Ok then snd (shutdown pf2 (hw_in hw2 c2)) else hw_in hw2 c2)
             in (v, disp2, hw_in (e_hw (fw_destroy pf2 c3)) c)))"

definition status_string_all_values :: "'p test" where
  "status_string_all_values = no_machine (check_all [status_string Ok = ''ok'',
     status_string DeviceNotFound = ''device not found'', status_string ContractViolation = ''contract violation''])"

subsection \<open>tests/unit/test_memory.cpp\<close>

text \<open>The tests that allocate 64 KB, use the block and free it.\<close>

definition unit_block :: "(nat \<Rightarrow> u64) \<Rightarrow> (u64 \<Rightarrow> u64)
    \<Rightarrow> ('p backend \<Rightarrow> allocation \<Rightarrow> 'p mstate \<Rightarrow> bool list \<times> 'p mstate) \<Rightarrow> 'p test" where
  "unit_block clk mclk use = fixture clk (body_on (\<lambda>pf d c.
     case mm_alloc pf mclk (push_bit 16 1) alloc_hints_default allocation_default (fw_memory c) of
       None \<Rightarrow> (Hung, c)
     | Some (s, a, st) \<Rightarrow>
         if s \<noteq> Ok then (Test_failed, fw_put_memory c st)
         else (let (checks, st1) = use pf a st
               in case mm_free pf a st1 of
                    None \<Rightarrow> (Hung, c)
                  | Some (s2, st2) \<Rightarrow> (check_all (checks @ [s2 = Ok]), fw_put_memory c st2))))"

definition on_table :: "(page_table \<Rightarrow> bool list \<times> page_table) \<Rightarrow> 'p mstate \<Rightarrow> bool list \<times> 'p mstate" where
  "on_table f st = (let (checks, pt) = f (mm_pt (ms_mm st)) in (checks, st\<lparr>ms_mm := (ms_mm st)\<lparr>mm_pt := pt\<rparr>\<rparr>))"

definition unit_alloc_free :: "(nat \<Rightarrow> u64) \<Rightarrow> (u64 \<Rightarrow> u64) \<Rightarrow> 'p test" where
  "unit_alloc_free clk mclk = unit_block clk mclk (\<lambda>pf a st. ([al_hbm_ptr a \<noteq> 0], st))"

definition unit_incref_decref :: "(nat \<Rightarrow> u64) \<Rightarrow> (u64 \<Rightarrow> u64) \<Rightarrow> u64 \<Rightarrow> u64 \<Rightarrow> 'p test" where
  "unit_incref_decref clk mclk t1 t2 = unit_block clk mclk (\<lambda>pf a. on_table (\<lambda>pt.
     let (s1, pt1) = incref t1 pt (al_vaddr a); (s2, pt2) = decref t2 pt1 (al_vaddr a)
     in ([s1 = Ok, s2 = Ok], pt2)))"

definition eviction_respects_refcount :: "(nat \<Rightarrow> u64) \<Rightarrow> (u64 \<Rightarrow> u64) \<Rightarrow> u64 \<Rightarrow> u64 \<Rightarrow> 'p test" where
  "eviction_respects_refcount clk mclk t1 t2 = unit_block clk mclk (\<lambda>pf a st. on_table (\<lambda>pt.
     let pt1 = snd (incref t1 pt (al_vaddr a));
         (evicted, pt2) = evict_until (ms_env st) pt1 95 50 LruRefcount
     in ([evicted = 0], snd (decref t2 pt2 (al_vaddr a)))) st)"

definition coalescer_runs :: "(nat \<Rightarrow> u64) \<Rightarrow> 'p test" where
  "coalescer_runs clk = fixture clk (body_on (\<lambda>pf d c. (check_all [fst mm_coalesce = Ok], fw_put_memory c (fw_memory c))))"

definition unit_prefetch :: "(nat \<Rightarrow> u64) \<Rightarrow> (u64 \<Rightarrow> u64) \<Rightarrow> 'p test" where
  "unit_prefetch clk mclk = unit_block clk mclk (\<lambda>pf a st.
     let (s, st1) = mm_prefetch pf (al_hbm_ptr a) (push_bit 16 1) st in ([s = Ok], st1))"

definition coalescer_align :: "'p test" where
  "coalescer_align = no_machine (check_all [align_to_warp 0 Hopper = 0, align_to_warp 1 Hopper = 128,
     align_to_warp 127 Hopper = 128, align_to_warp 128 Hopper = 128, align_to_warp 129 Hopper = 256])"

subsection \<open>tests/unit/test_scheduler.cpp\<close>

text \<open>The graph is destroyed at the end of the body, before the context is shut down.\<close>

definition unit_graph :: "(nat \<Rightarrow> u64) \<Rightarrow> (device_desc \<Rightarrow> bool list \<times> task_graph) \<Rightarrow> 'p test" where
  "unit_graph clk f = fixture clk (body_on (\<lambda>pf d c.
     let (checks, g) = f (e_device (fw_env c)) in (check_all checks, c\<lparr>fw_mk := Some (tg_destroy g (the_mk c))\<rparr>)))"

definition stage_a :: stage_contract where
  "stage_a = stage_contract_default\<lparr>sc_name := ''a'', sc_module := ''m'', sc_function := ''f''\<rparr>"

definition unit_add_validate :: "(nat \<Rightarrow> u64) \<Rightarrow> 'p test" where
  "unit_add_validate clk = unit_graph clk (\<lambda>d.
     let (s1, g1) = add_stage stage_a tg_create;
         (s2, g2) = add_stage (stage_a\<lparr>sc_name := ''b'', sc_depends_on := [''a'']\<rparr>) g1;
         (s3, g3) = validate d g2
     in ([s1 = Ok, s2 = Ok, s3 = Ok], g3))"

definition unit_reject_cycle :: "(nat \<Rightarrow> u64) \<Rightarrow> 'p test" where
  "unit_reject_cycle clk = unit_graph clk (\<lambda>d.
     let (s1, g1) = add_stage (stage_contract_default\<lparr>sc_name := ''a'', sc_depends_on := [''b'']\<rparr>) tg_create;
         (s2, g2) = add_stage (stage_contract_default\<lparr>sc_name := ''b'', sc_depends_on := [''a'']\<rparr>) g1;
         (s3, g3) = validate d g2
     in ([s3 \<noteq> Ok], g3))"

definition unit_rejects_duplicate :: "(nat \<Rightarrow> u64) \<Rightarrow> 'p test" where
  "unit_rejects_duplicate clk = unit_graph clk (\<lambda>d.
     let (s1, g1) = add_stage stage_a tg_create; (s2, g2) = add_stage stage_a g1
     in ([s1 = Ok, s2 \<noteq> Ok], g2))"

text \<open>The body sets the module of the first stage twice, that of the second one never.\<close>

definition unit_set_overlap :: "(nat \<Rightarrow> u64) \<Rightarrow> 'p test" where
  "unit_set_overlap clk = unit_graph clk (\<lambda>d.
     let g1 = snd (add_stage stage_a tg_create);
         g2 = snd (add_stage (stage_contract_default\<lparr>sc_name := ''b'', sc_function := ''f''\<rparr>) g1);
         (s, g3) = set_overlap ''a'' ''b'' True g2
     in ([s = Ok], g3))"

definition unit_scoped_stream :: "(nat \<Rightarrow> u64) \<Rightarrow> 'p test" where
  "unit_scoped_stream clk = fixture clk (body_on (\<lambda>pf d c.
     let (s, mk) = scoped_open Compute 0 (the_mk c)
     in (check_all [sh_id s \<noteq> 0, sh_raw s \<noteq> 0], c\<lparr>fw_mk := Some (scoped_close s mk)\<rparr>)))"

definition hopper_defaults :: "'p test" where
  "hopper_defaults = no_machine (let ws = policy_for_arch Hopper
     in check_all [wp_use_tma ws, wp_cluster_size ws = 8, wp_total_warps ws = 16])"

definition ampere_defaults :: "'p test" where
  "ampere_defaults = no_machine (let ws = policy_for_arch Ampere
     in check_all [\<not> wp_use_tma ws, \<not> wp_use_dsm ws, wp_total_warps ws = 16])"

definition apple_defaults :: "'p test" where
  "apple_defaults = no_machine (let ws = policy_for_arch AppleSilicon
     in check_all [wp_producer_warps ws = 0, wp_consumer_warps ws = 16])"

subsection \<open>tests/unit/test_token_opt.cpp\<close>

definition unit_layer_defaults :: "(nat \<Rightarrow> u64) \<Rightarrow> 'p test" where
  "unit_layer_defaults clk = fixture clk (body_on (\<lambda>pf d c.
     (check_all [ls_max_tokens (layer L0_system cs_create) = 256, ls_max_tokens (layer L1_persona cs_create) = 512,
        ls_max_tokens (layer L2_instructions cs_create) = 1024, ls_max_tokens (layer L3_reference cs_create) = 8192,
        ls_max_tokens (layer L4_working cs_create) = 4096], c)))"

definition unit_step :: "(nat \<Rightarrow> u64) \<Rightarrow> 'p test" where
  "unit_step clk = fixture clk (body_on (\<lambda>pf d c.
     (check_all [ls_bytes_used (layer L4_working (snd (cs_step 1 cs_create))) > ls_bytes_used (layer L4_working cs_create)], c)))"

definition unit_prefetcher_empty :: "(nat \<Rightarrow> u64) \<Rightarrow> 'f :: {linorder, zero, plus} prefetcher \<Rightarrow> 'p test" where
  "unit_prefetcher_empty clk ap = fixture clk (body_on (\<lambda>pf d c.
     let (s, env) = prefetch_next pf 8 ap cs_create (fw_env c) in (check_all [s = Ok], c\<lparr>fw_env := env\<rparr>)))"

definition unit_prefetcher_topk :: "(nat \<Rightarrow> u64) \<Rightarrow> 'f :: {linorder, zero, plus} list \<Rightarrow> 'p test" where
  "unit_prefetcher_topk clk row = fixture clk (body_on (\<lambda>pf d c.
     let cs = bind_kv_cache 0x1000 (4096 * 32) 32 cs_create;
         (s, env) = prefetch_next pf 2 (observe row pr_create) cs (fw_env c)
     in (check_all [s = Ok], c\<lparr>fw_env := env\<rparr>)))"

definition kv_evicts_to_max :: "(nat \<Rightarrow> u64) \<Rightarrow> ('f :: {linorder, zero}) \<Rightarrow> 'p test" where
  "kv_evicts_to_max clk w = fixture clk (body_on (\<lambda>pf d c.
     (case touch_all w (map (\<lambda>i. of_nat (16 * i)) [0..<8]) (kv_create 4 16 1) of
        None \<Rightarrow> Hung | Some kv \<Rightarrow> check_all [kv_resident kv \<le> kv_max_resident kv], c)))"

definition kv_pinned_not_evicted :: "(nat \<Rightarrow> u64) \<Rightarrow> ('f :: {linorder, zero}) \<Rightarrow> 'p test" where
  "kv_pinned_not_evicted clk w = fixture clk (body_on (\<lambda>pf d c.
     (case Option.bind (kv_touch 0 w (kv_create 2 16 1)) (\<lambda>kv.
             Option.bind (kv_touch 16 w (kv_pin 0 kv)) (kv_touch 32 w)) of
        None \<Rightarrow> Hung | Some kv \<Rightarrow> check_all [kv_resident kv \<ge> 1], c)))"

subsection \<open>Verdicts on any driver\<close>

lemma fixture_verdict:
  assumes body: "\<And>r ev disp1 hw1 c h pf d. boot clk boot_options_default disp hw = (r, ev, disp1, hw1) \<Longrightarrow> br_status r = Ok
      \<Longrightarrow> br_ctx r = Some c \<Longrightarrow> fw_ready (br_device r) boot_options_default c \<Longrightarrow> (pf, d) = (fst (dispatch_backend disp1 hw1), fst (snd (dispatch_backend disp1 hw1)))
      \<Longrightarrow> fst (body pf (br_device r) d (hw_in h c)) = v"
  shows "fst (fixture clk body disp hw) = after_boot (boot_status clk boot_options_default disp hw) v"
proof -
  obtain r ev disp1 hw1 where b: "boot clk boot_options_default disp hw = (r, ev, disp1, hw1)" using prod_cases4 by blast
  obtain pf disp2 hw2 where d: "dispatch_backend disp1 hw1 = (pf, disp2, hw2)" using prod_cases3 by blast
  show ?thesis
  proof (cases "br_status r = Ok")
    case True
    obtain c where c: "br_ctx r = Some c" "fw_ready (br_device r) boot_options_default c" using booted_ready [OF b True] by blast
    obtain v1 d1 c1 where v1: "body pf (br_device r) disp2 (hw_in hw2 c) = (v1, d1, c1)" using prod_cases3 by blast
    have "fst (body pf (br_device r) disp2 (hw_in hw2 c)) = v" by (rule body [OF b True c]) (simp add: d)
    then show ?thesis by (simp add: fixture_def boot_status_def b c d True v1)
  next
    case False
    have "fst (fixture clk body disp hw) = after_boot (br_status r) Test_failed"
      by (simp add: fixture_def b d False split: option.split prod.split)
    then show ?thesis using after_boot_bad [OF False] by (simp add: boot_status_def b)
  qed
qed

text \<open>A body that only looks at the context it is given.\<close>

lemma body_verdict:
  assumes "\<And>r ev disp1 hw1 c h pf. boot clk boot_options_default disp hw = (r, ev, disp1, hw1) \<Longrightarrow> br_status r = Ok
      \<Longrightarrow> br_ctx r = Some c \<Longrightarrow> fw_ready (br_device r) boot_options_default c \<Longrightarrow> pf = fst (dispatch_backend disp1 hw1)
      \<Longrightarrow> fst (f pf (br_device r) (hw_in h c)) = v"
  shows "fst (fixture clk (body_on f) disp hw) = after_boot (boot_status clk boot_options_default disp hw) v"
proof (rule fixture_verdict, goal_cases)
  case (1 r ev disp1 hw1 c h pf d)
  have "fst (f pf (br_device r) (hw_in h c)) = v" using assms [OF 1(1-4)] 1(5) by simp
  then show ?case by (simp add: body_on_def case_prod_unfold)
qed

lemma default_ready:
  assumes "fw_ready d boot_options_default c"
  obtains mk de where "fw_mk c = Some mk" "mk_inv mk" "mk_default_ws mk = default_warp_spec (dd_arch d)"
    "mk_free_compute mk \<noteq> []" "fw_dma c = Some de" "the_mk c = mk"
proof -
  obtain mk where mk: "fw_mk c = Some mk" "mk_inv mk" "mk_default_ws mk = default_warp_spec (dd_arch d)"
    "length (mk_free_compute mk) = 8" using fw_readyD [OF assms] by (auto simp: boot_options_default_def)
  obtain de where de: "fw_dma c = Some de" using assms by (auto simp: fw_ready_def split: option.splits)
  have "mk_free_compute mk \<noteq> []" "the_mk c = mk" using mk(1,4) by (auto simp: the_mk_def)
  then show ?thesis using that mk de by blast
qed

lemma hw_in_parts [simp]: "fw_mk (hw_in h c) = fw_mk c" "fw_dma (hw_in h c) = fw_dma c" "fw_ilc (hw_in h c) = fw_ilc c"
    "fw_mem (hw_in h c) = fw_mem c"
  by (simp_all add: hw_in_def)

lemma acquire_last:
  assumes "mk_inv mk" and "mk_free_compute mk \<noteq> []"
  shows "acquire_stream Compute p mk = (last (mk_free_compute mk), mk\<lparr>mk_free_compute := butlast (mk_free_compute mk)\<rparr>)"
    "sh_id (last (mk_free_compute mk)) \<noteq> 0"
  using assms last_in_set [OF assms(2)] by (auto simp: acquire_stream_def pool_simps list_all_iff)

lemma unit_device_verdicts:
  "fst (unit_stream_pool clk disp hw) = after_boot (boot_status clk boot_options_default disp hw) Passed"
  "fst (dma_engine_gds_fallback clk disp hw) = after_boot (boot_status clk boot_options_default disp hw) Test_failed"
  "fst (unit_warp_spec clk disp hw) = after_boot (boot_status clk boot_options_default disp hw) Passed"
  "fst (coalescer_runs clk disp hw) = after_boot (boot_status clk boot_options_default disp hw) Passed"
proof -
  show "fst (unit_stream_pool clk disp hw) = after_boot (boot_status clk boot_options_default disp hw) Passed"
    unfolding unit_stream_pool_def
    by (rule body_verdict, erule default_ready) (simp add: acquire_last)
  show "fst (dma_engine_gds_fallback clk disp hw) = after_boot (boot_status clk boot_options_default disp hw) Test_failed"
    unfolding dma_engine_gds_fallback_def
    by (rule body_verdict, erule default_ready) simp
  show "fst (unit_warp_spec clk disp hw) = after_boot (boot_status clk boot_options_default disp hw) Passed"
    unfolding unit_warp_spec_def
    by (rule body_verdict, erule default_ready) (simp add: default_warps)
  show "fst (coalescer_runs clk disp hw) = after_boot (boot_status clk boot_options_default disp hw) Passed"
    unfolding coalescer_runs_def by (rule body_verdict) (simp add: mm_coalesce_def coalescer_run_def)
qed

text \<open>The stream taken last from the pool decides the scoped-stream test.\<close>

definition booted_raw :: "(nat \<Rightarrow> u64) \<Rightarrow> 'p dispatch \<Rightarrow> 'p \<Rightarrow> ptr" where
  "booted_raw clk disp hw = (case br_ctx (fst (boot clk boot_options_default disp hw)) of
     None \<Rightarrow> 0 | Some c \<Rightarrow> sh_raw (last (mk_free_compute (the_mk c))))"

lemma scoped_stream_verdict: "fst (unit_scoped_stream clk disp hw)
    = after_boot (boot_status clk boot_options_default disp hw) (if booted_raw clk disp hw \<noteq> 0 then Passed else Test_failed)"
  unfolding unit_scoped_stream_def
proof (rule body_verdict, goal_cases)
  case (1 r ev disp1 hw1 c h pf)
  obtain mk where mk: "mk_inv mk" "mk_free_compute mk \<noteq> []" "the_mk c = mk" using default_ready [OF 1(4)] by blast
  then show ?case using 1(1,3) by (simp add: scoped_open_def acquire_last booted_raw_def)
qed

lemma unit_pure_verdicts:
  "status_string_all_values disp hw = (Passed, disp, hw)" "coalescer_align disp hw = (Passed, disp, hw)"
  "hopper_defaults disp hw = (Passed, disp, hw)" "ampere_defaults disp hw = (Passed, disp, hw)" "apple_defaults disp hw = (Passed, disp, hw)"
  by (simp_all add: status_string_all_values_def coalescer_align_def hopper_defaults_def ampere_defaults_def apple_defaults_def
      no_machine_def status_string_def align_to_warp_def policy_for_arch_def warp_spec_policy_default_def wp_total_warps_def)

lemma unit_graph_verdict:
  assumes "\<And>d. check_all (fst (f d)) = Passed"
  shows "fst (unit_graph clk f disp hw) = after_boot (boot_status clk boot_options_default disp hw) Passed"
  unfolding unit_graph_def by (rule body_verdict) (use assms in \<open>simp add: case_prod_unfold\<close>)

text \<open>The nodes and the verdict of the two-stage graphs, as in the self tests.\<close>

lemma stage_a_name [simp]: "sc_name stage_a = ''a''"
  by (simp add: stage_a_def)

lemma two_stages:
  assumes "sc_name a = ''a''" and "sc_name b = ''b''" and "add_stage a tg_create = (s1, g1)" and "add_stage b g1 = (s2, g2)"
  shows "s1 = Ok" "s2 = Ok" "g2 = \<lparr>tg_nodes = [(''a'', stage_node_new a), (''b'', stage_node_new b)], tg_overlap = [], tg_validated = False\<rparr>"
  using assms by (auto simp: add_stage_def tg_create_def)

lemma unit_graph_verdicts:
  "fst (unit_add_validate clk disp hw) = after_boot (boot_status clk boot_options_default disp hw) Passed"
  "fst (unit_reject_cycle clk disp hw) = after_boot (boot_status clk boot_options_default disp hw) Passed"
  "fst (unit_rejects_duplicate clk disp hw) = after_boot (boot_status clk boot_options_default disp hw) Passed"
  "fst (unit_set_overlap clk disp hw) = after_boot (boot_status clk boot_options_default disp hw) Passed"
proof -
  let ?b = "stage_a\<lparr>sc_name := ''b'', sc_depends_on := [''a'']\<rparr>"
  let ?x = "stage_contract_default\<lparr>sc_name := ''a'', sc_depends_on := [''b'']\<rparr>"
    and ?y = "stage_contract_default\<lparr>sc_name := ''b'', sc_depends_on := [''a'']\<rparr>"
  have wf: "um_wf [(''a'', m), (''b'', n)]" for m n :: stage_node by (simp add: um_wf_def)
  show "fst (unit_add_validate clk disp hw) = after_boot (boot_status clk boot_options_default disp hw) Passed"
    unfolding unit_add_validate_def
  proof (rule unit_graph_verdict)
    fix d
    obtain s1 g1 where 1: "add_stage stage_a tg_create = (s1, g1)" by force
    obtain s2 g2 where 2: "add_stage ?b g1 = (s2, g2)" by force
    note t = two_stages [OF _ _ 1 2]
    let ?ns = "[(''a'', stage_node_new stage_a), (''b'', stage_node_new ?b)]"
    have c: "contracts_ok d ?ns" by (simp add: contracts_ok_def stage_node_new_def stage_contract_default_def stage_a_def)
    have "deps_exist ?ns" "kahn_count ?ns = length ?ns" by code_simp+
    then have "dag ?ns" using kahn_count_all [OF wf] deps_exist_iff [OF wf] by (simp add: dag_def)
    then have "fst (validate d g2) = Ok" using c wf t(3) by (simp add: validate_cases)
    then show "check_all (fst (let (s1, g1) = add_stage stage_a tg_create; (s2, g2) = add_stage ?b g1; (s3, g3) = validate d g2
        in ([s1 = Ok, s2 = Ok, s3 = Ok], g3))) = Passed"
      using t(1,2) by (simp add: 1 2 case_prod_unfold Let_def)
  qed
  show "fst (unit_reject_cycle clk disp hw) = after_boot (boot_status clk boot_options_default disp hw) Passed"
    unfolding unit_reject_cycle_def
  proof (rule unit_graph_verdict)
    fix d
    obtain s1 g1 where 1: "add_stage ?x tg_create = (s1, g1)" by force
    obtain s2 g2 where 2: "add_stage ?y g1 = (s2, g2)" by force
    note t = two_stages [OF _ _ 1 2]
    let ?ns = "[(''a'', stage_node_new ?x), (''b'', stage_node_new ?y)]"
    have "kahn_count ?ns \<noteq> length ?ns" "deps_exist ?ns" by code_simp+
    then have "\<not> dag ?ns" using kahn_count_all [OF wf] deps_exist_iff [OF wf] by (simp add: dag_def)
    then have "fst (validate d g2) \<noteq> Ok" using wf t(3) by (simp add: validate_cases)
    then show "check_all (fst (let (s1, g1) = add_stage ?x tg_create; (s2, g2) = add_stage ?y g1; (s3, g3) = validate d g2
        in ([s3 \<noteq> Ok], g3))) = Passed"
      by (simp add: 1 2 case_prod_unfold)
  qed
  show "fst (unit_rejects_duplicate clk disp hw) = after_boot (boot_status clk boot_options_default disp hw) Passed"
    unfolding unit_rejects_duplicate_def by (rule unit_graph_verdict) (simp add: add_stage_def tg_create_def stage_a_def)
  show "fst (unit_set_overlap clk disp hw) = after_boot (boot_status clk boot_options_default disp hw) Passed"
    unfolding unit_set_overlap_def by (rule unit_graph_verdict) (simp add: set_overlap_def Let_def)
qed

lemma unit_token_verdicts:
  "fst (unit_layer_defaults clk disp hw) = after_boot (boot_status clk boot_options_default disp hw) Passed"
  "fst (unit_step clk disp hw) = after_boot (boot_status clk boot_options_default disp hw) Passed"
  "fst (unit_prefetcher_empty clk (pr_create :: ('f :: {linorder, zero, plus}) prefetcher) disp hw)
    = after_boot (boot_status clk boot_options_default disp hw) Passed"
  "fst (unit_prefetcher_topk clk row disp hw) = after_boot (boot_status clk boot_options_default disp hw) Passed"
proof -
  show "fst (unit_layer_defaults clk disp hw) = after_boot (boot_status clk boot_options_default disp hw) Passed"
    "fst (unit_step clk disp hw) = after_boot (boot_status clk boot_options_default disp hw) Passed"
    unfolding unit_layer_defaults_def unit_step_def
    by (rule body_verdict, simp add: Let_def layer_def layer_index_def cs_create_def default_layers_def
        cs_step_def add_bytes_def layer_cap_def)+
  show "fst (unit_prefetcher_empty clk (pr_create :: 'f prefetcher) disp hw)
    = after_boot (boot_status clk boot_options_default disp hw) Passed"
    unfolding unit_prefetcher_empty_def by (rule body_verdict) (simp add: prefetch_next_def pr_create_def)
  show "fst (unit_prefetcher_topk clk row disp hw) = after_boot (boot_status clk boot_options_default disp hw) Passed"
    unfolding unit_prefetcher_topk_def
    by (rule body_verdict)
      (simp add: prefetch_next_def prefetch_attention_def bind_kv_cache_def Let_def)
qed

lemma pinned_touch_hangs:
  "Option.bind (kv_touch 0 w (kv_create 2 16 1)) (\<lambda>kv. Option.bind (kv_touch 16 w (kv_pin 0 kv)) (kv_touch 32 w)) = None"
proof -
  have p: "kv_page_of kv i = i AND NOT 15" if "kv_page_size_tokens kv = 16" for kv :: "'a kv_cache" and i
    by (simp add: kv_page_of_def that)
  show ?thesis
    by (simp add: kv_touch_def Let_def p kv_create_def kv_get_def kv_put_def kv_pin_def kv_page_default_def)
qed

lemma unit_kv_verdicts:
  "fst (kv_evicts_to_max clk w disp hw) = after_boot (boot_status clk boot_options_default disp hw) Hung"
  "fst (kv_pinned_not_evicted clk w disp hw) = after_boot (boot_status clk boot_options_default disp hw) Hung"
  unfolding kv_evicts_to_max_def kv_pinned_not_evicted_def
  by (rule body_verdict, simp only: touch_all_hangs pinned_touch_hangs option.case fst_conv)+

subsection \<open>Verdicts of the memory suite\<close>

text \<open>A block of 64 KB lies on at most two pages.\<close>

lemma small_block_pages:
  assumes kb: "pt_valid_kb pt" and fits: "unat v + unat b + 2 ^ 17 \<le> 2 ^ 64" and b: "unat b = 2 ^ 16"
  shows "length (pt_pages pt v b) \<le> 2"
proof -
  have sh: "2 ^ pt_shift pt \<le> (2 :: nat) ^ 17" by (simp add: pt_shift_def)
  have e: "unat (pt_range_end pt v b) div 2 ^ pt_shift pt = (unat v + unat b + (2 ^ pt_shift pt - 1)) div 2 ^ pt_shift pt"
    using fits sh by (subst range_end_value [OF kb]) simp_all
  have s: "unat (pt_range_start pt v) div 2 ^ pt_shift pt = unat v div 2 ^ pt_shift pt"
    by (simp add: pt_range_start_def unat_align [OF kb])
  have "(x + 2 ^ 16 + (P - 1)) div P \<le> x div P + 2" if "2 ^ 16 \<le> P" for x P :: nat
  proof -
    have "(x + 2 ^ 16 + (P - 1)) div P \<le> (x + 2 * P) div P" using that by (intro div_le_mono) simp
    also have "\<dots> = x div P + 2" using that div_mult_self1 [of P x 2] by simp
    finally show ?thesis .
  qed
  then have "(unat v + unat b + (2 ^ pt_shift pt - 1)) div 2 ^ pt_shift pt \<le> unat v div 2 ^ pt_shift pt + 2"
    unfolding b by (simp add: pt_shift_def)
  then show ?thesis by (simp add: page_seq_def e s)
qed

lemma fresh_table_length:
  assumes fits: "unat v + unat b + 2 ^ 17 \<le> 2 ^ 64" and b: "unat b = 2 ^ 16"
  shows "length (pt_table (alloc_pt clk alloc_hints_default v b (mm_pt (mm_create env)))) \<le> 2"
proof -
  let ?pt = "mm_pt (mm_create env)"
  have kb: "pt_valid_kb ?pt" and t: "pt_table ?pt = []"
    by (simp_all add: mm_create_def pt_create_def pt_valid_kb_def)
  note l = length_fold_update [of "mapped_entry clk ?pt (pt_range_start ?pt v) Hbm v" "pt_pages ?pt v b" "[]"]
  show ?thesis
    using order_trans [OF l] small_block_pages [OF kb fits b]
    by (simp add: alloc_pt_def alloc_hints_default_def pt_map_def map_range_fold [OF kb] t)
qed

text \<open>With room for three pages, two resident pages are below the watermark of 95%.\<close>

lemma no_eviction:
  assumes kb: "pt_valid_kb pt" and len: "length (pt_table pt) \<le> 2" and room: "3 * 2 ^ 17 \<le> unat (e_hbm_pool_bytes env)"
  shows "evict_until env pt 95 lo pol = (0, pt)"
proof -
  let ?n = "um_count (\<lambda>e. pe_residency e = Hbm) (pt_table pt)" and ?t = "e_hbm_pool_bytes env div pt_page_bytes pt"
  have n: "?n \<le> 2" unfolding um_count_def by (rule order_trans [OF length_filter_le len])
  then have r: "unat (count_residency (\<lambda>r. r = Hbm) pt) \<le> 2"
    by (simp add: count_residency_def unat_of_nat take_bit_nat_eq_self)
  have P: "unat (pt_page_bytes pt) = 2 ^ pt_shift pt" using kb by (simp add: pt_page_bytes_pow unat_pow2)
  have t: "unat ?t = unat (e_hbm_pool_bytes env) div 2 ^ pt_shift pt" by (simp add: unat_div P)
  have "3 \<le> unat ?t" "unat ?t < 2 ^ 48"
    using room unat_u64_less [of "e_hbm_pool_bytes env"] unfolding t by (auto simp: pt_shift_def)
  then have "unat (?t * 95) = unat ?t * 95" by (simp add: unat_word_ariths)
  then have "unat (?t * ucast (95 :: u32) div 100) = unat ?t * 95 div 100" by (simp add: unat_div)
  moreover have "2 \<le> unat ?t * 95 div 100" using \<open>3 \<le> unat ?t\<close> by simp
  ultimately have "count_residency (\<lambda>r. r = Hbm) pt \<le> ?t * ucast (95 :: u32) div 100"
    using r unfolding word_le_nat_alt by linarith
  then show ?thesis by (simp add: evict_until_def Let_def)
qed

definition booted_pool :: "(nat \<Rightarrow> u64) \<Rightarrow> 'p dispatch \<Rightarrow> 'p \<Rightarrow> u64" where
  "booted_pool clk disp hw = (case br_ctx (fst (boot clk boot_options_default disp hw)) of
     None \<Rightarrow> 0 | Some c \<Rightarrow> e_hbm_pool_bytes (fw_env c))"

text \<open>A backend that leaves the size of the pool, a field of the context, alone.\<close>

definition same_pool :: "'p env \<Rightarrow> 'p env \<Rightarrow> bool" where
  "same_pool e e' = (e_hbm_pool_bytes e' = e_hbm_pool_bytes e)"

definition pool_kept :: "'p backend \<Rightarrow> bool" where
  "pool_kept pf = (backend_memory pf same_pool \<and> (\<forall>d e. same_pool e (snd (b_lock_clocks pf d e)))
     \<and> (\<forall>n e. same_pool e (snd (b_reserve_vaddress pf n e))) \<and> (\<forall>e. same_pool e (snd (b_map_hbm_pool pf e))))"

lemma pool_keptD:
  assumes "pool_kept pf"
  shows "backend_memory pf same_pool" "backend_calm pf same_pool"
    "e_hbm_pool_bytes (snd (snd (b_alloc_hbm pf n env))) = e_hbm_pool_bytes env"
    "init_hbm pf d fw = (s, fw') \<Longrightarrow> e_hbm_pool_bytes (fw_env fw') = hbm_pool_size d"
proof -
  show m: "backend_memory pf same_pool" using assms by (simp add: pool_kept_def)
  show "backend_calm pf same_pool" by (rule backend_memory.axioms(1) [OF m])
  show "e_hbm_pool_bytes (snd (snd (b_alloc_hbm pf n env))) = e_hbm_pool_bytes env"
    using backend_memory.alloc [OF m, of env n] by (simp add: same_pool_def)
  have "same_pool e (snd (b_reserve_vaddress pf k e))" "same_pool e (snd (b_map_hbm_pool pf e))" for k e
    using assms by (simp_all add: pool_kept_def)
  then show "init_hbm pf d fw = (s, fw') \<Longrightarrow> e_hbm_pool_bytes (fw_env fw') = hbm_pool_size d"
    by (auto simp: init_hbm_def Let_def same_pool_def case_prod_unfold split: if_splits)
qed

lemma booted_pool_size:
  assumes act: "d_active disp = Some pf" and kept: "pool_kept pf" and ok: "boot_status clk boot_options_default disp hw = Ok"
  shows "booted_pool clk disp hw = hbm_pool_size (fst (b_describe_device pf ''auto'' hw))"
proof -
  have p: "dispatch_probe disp h = (True, disp, h)" "dispatch_backend disp h = (pf, disp, h)" for h
    using act by (simp_all add: dispatch_probe_def dispatch_backend_def)
  obtain d hw1 where d: "b_describe_device pf ''auto'' hw = (d, hw1)" by force
  have o: "bo_profile boot_options_default = ''auto''" by (simp add: boot_options_default_def)
  obtain r ev disp1 hw2 where b: "boot clk boot_options_default disp hw = (r, ev, disp1, hw2)" using prod_cases4 by blast
  let ?ev = "emit clk boot_options_default DriverProbe Ok ''driver found'' (emit clk boot_options_default PreInit Ok ''boot started'' [])"
  obtain r1 ev1 where c: "boot_ctx pf clk boot_options_default d (fw_create d boot_options_default hw1) ?ev = (r1, ev1)" by force
  have "dd_vendor d \<noteq> Unknown_vendor" "r = r1" "br_status r1 = Ok"
    using ok b c by (auto simp: boot_status_def boot_def probe_driver_def p o d Let_def boot_fail_def split: if_splits)
  note k = pool_keptD [OF kept]
  from c show ?thesis
  proof (cases rule: boot_ctx_cases)
    case (up s2 fw2 fw3 fw4 fw5 fw6 s7 fw7)
    have "e_hbm_pool_bytes (fw_env fw3) = hbm_pool_size d" by (rule k(4) [OF up(2)])
    moreover have "same_pool (fw_env fw3) (fw_env fw4)" by (rule backend_calm.register_dma_keeps [OF k(2) up(3)])
    moreover have "same_pool (fw_env fw4) (fw_env fw5)" by (rule backend_calm.spawn_scheduler_keeps [OF k(2) up(4)])
    moreover have "same_pool (fw_env fw5) (fw_env fw6)" by (rule backend_memory.attach_keeps [OF k(1) up(5)])
    moreover have "fw_env fw7 = fw_env fw6" using init_ilc_fields [OF up(6)] by auto
    ultimately show ?thesis using up(7) \<open>r = r1\<close> by (simp add: booted_pool_def b d same_pool_def)
  qed (use \<open>br_status r1 = Ok\<close> in \<open>simp_all add: boot_fail_def\<close>)
qed

lemma mm_alloc_env:
  "mm_alloc pf clk n alloc_hints_default out st = Some (Ok, a, st1) \<Longrightarrow> n \<noteq> 0 \<Longrightarrow> ms_env st1 = snd (snd (b_alloc_hbm pf n (ms_env st)))"
proof -
  assume run: "mm_alloc pf clk n alloc_hints_default out st = Some (Ok, a, st1)" and n: "n \<noteq> 0"
  have h: "\<not> ah_ilc alloc_hints_default" "\<not> ah_read_mostly alloc_hints_default" by (simp_all add: alloc_hints_default_def)
  obtain s p e where b: "b_alloc_hbm pf n (ms_env st) = (s, p, e)" using prod_cases3 by blast
  have t: "mm_tag pf alloc_hints_default p n o2 st2 = (o2, st2)" for o2 st2
    by (simp add: mm_tag_def h split: option.split)
  show "ms_env st1 = snd (snd (b_alloc_hbm pf n (ms_env st)))"
    using run n by (auto simp: mm_alloc_def b h t mm_map_def Let_def bind_eq_Some_conv split: if_splits)
qed

lemma unit_block_verdict:
  assumes act: "d_active disp = Some pf" and w: "working_for (push_bit 16 1) pf"
    and use: "\<And>a (st :: 'p mstate). al_hbm_ptr a \<noteq> 0 \<Longrightarrow> mm_inv (ms_mm st) \<Longrightarrow> map_of (mm_live (ms_mm st)) (al_hbm_ptr a) = Some a
      \<Longrightarrow> \<exists>e. pt_lookup (mm_pt (ms_mm st)) (al_vaddr a) = Some e \<and> pe_refcount e = 0
      \<Longrightarrow> length (pt_table (mm_pt (ms_mm st))) \<le> 2
      \<Longrightarrow> (pool_kept pf \<Longrightarrow> e_hbm_pool_bytes (ms_env st) = booted_pool clk disp hw)
      \<Longrightarrow> list_all id (fst (use pf a st)) \<and> pt_valid_kb (mm_pt (ms_mm (snd (use pf a st))))
      \<and> mm_live (ms_mm (snd (use pf a st))) = mm_live (ms_mm st)"
  shows "fst (unit_block clk mclk use disp hw) = after_boot (boot_status clk boot_options_default disp hw) Passed"
  unfolding unit_block_def
proof (rule body_verdict, goal_cases)
  case (1 r ev disp1 hw1 c h pf')
  have pf: "pf' = pf" using boot_active [OF act 1(1)] 1(5) by simp
  let ?c = "hw_in h c" and ?n = "push_bit 16 1 :: u64"
  have nz: "?n \<noteq> 0" "unat ?n = 2 ^ 16" by simp_all
  have "fw_mem ?c = None" using 1(4) by (simp add: fw_ready_def)
  then have fresh: "ms_mm (fw_memory ?c) = mm_create (fw_env ?c)" by (simp add: fw_memory_def)
  obtain a st1 where a: "mm_alloc pf mclk ?n alloc_hints_default allocation_default (fw_memory ?c) = Some (Ok, a, st1)"
    and k: "al_hbm_ptr a \<noteq> 0" "mm_inv (ms_mm st1)" "map_of (mm_live (ms_mm st1)) (al_hbm_ptr a) = Some a"
      "\<exists>e. pt_lookup (mm_pt (ms_mm st1)) (al_vaddr a) = Some e \<and> pe_refcount e = 0"
    and t: "mm_pt (ms_mm st1) = alloc_pt mclk alloc_hints_default (al_vaddr a) ?n (mm_pt (mm_create (fw_env ?c)))"
      "unat (al_vaddr a) + unat ?n + 2 ^ 17 \<le> 2 ^ 64"
    using fresh_block [OF w nz(1) fresh, where clk = mclk] by blast
  have len: "length (pt_table (mm_pt (ms_mm st1))) \<le> 2" unfolding t(1) by (rule fresh_table_length [OF t(2) nz(2)])
  have pool: "e_hbm_pool_bytes (ms_env st1) = booted_pool clk disp hw" if "pool_kept pf"
    using pool_keptD(3) [OF that] mm_alloc_env [OF a nz(1)] 1(1,3) by (simp add: booted_pool_def fw_memory_def hw_in_def)
  obtain checks st2 where u: "use pf a st1 = (checks, st2)" by force
  have st2: "list_all id checks" "pt_valid_kb (mm_pt (ms_mm st2))" "map_of (mm_live (ms_mm st2)) (al_hbm_ptr a) \<noteq> None"
    using use [OF k len pool] k(3) by (simp_all add: u)
  obtain s st3 where f: "mm_free pf a st2 = Some (s, st3)" using mm_free_returns [OF st2(2)] by (metis not_None_eq surj_pair)
  have "s = Ok" using working_accepts(2) [OF w] by (intro mm_free_accepted [OF _ st2(3) f]) simp
  then show ?case using st2(1) by (simp add: pf a [simplified] u f check_all_def)
qed

lemma unit_memory_verdicts:
  assumes act: "d_active disp = Some pf" and w: "working_for (push_bit 16 1) pf"
  shows "fst (unit_alloc_free clk mclk disp hw) = after_boot (boot_status clk boot_options_default disp hw) Passed"
    and "fst (unit_incref_decref clk mclk t1 t2 disp hw) = after_boot (boot_status clk boot_options_default disp hw) Passed"
    and "fst (unit_prefetch clk mclk disp hw) = after_boot (boot_status clk boot_options_default disp hw) Passed"
    and "pool_kept pf \<Longrightarrow> 3 * 2 ^ 17 \<le> unat (hbm_pool_size (fst (b_describe_device pf ''auto'' hw))) \<Longrightarrow>
      fst (eviction_respects_refcount clk mclk t1 t2 disp hw) = after_boot (boot_status clk boot_options_default disp hw) Passed"
proof -
  show "fst (unit_alloc_free clk mclk disp hw) = after_boot (boot_status clk boot_options_default disp hw) Passed"
    unfolding unit_alloc_free_def by (rule unit_block_verdict [OF act w]) (simp add: mm_inv_kb)
  show "fst (unit_prefetch clk mclk disp hw) = after_boot (boot_status clk boot_options_default disp hw) Passed"
    unfolding unit_prefetch_def
  proof (rule unit_block_verdict [OF act w], goal_cases)
    case (1 a st)
    obtain env' where "b_prefetch_range pf (al_hbm_ptr a) (push_bit 16 1) (ms_env st) = (Ok, env')"
      using working_accepts(3) [OF w] by blast
    then show ?case using 1 by (simp add: mm_prefetch_def mm_inv_kb)
  qed
  show "fst (unit_incref_decref clk mclk t1 t2 disp hw) = after_boot (boot_status clk boot_options_default disp hw) Passed"
    unfolding unit_incref_decref_def
  proof (rule unit_block_verdict [OF act w], goal_cases)
    case (1 a st)
    then obtain e where e: "pt_lookup (mm_pt (ms_mm st)) (al_vaddr a) = Some e" "pe_refcount e = 0" by blast
    obtain pt1 where i: "incref t1 (mm_pt (ms_mm st)) (al_vaddr a) = (Ok, pt1)" using e by (simp add: incref_eq)
    obtain pt2 where d: "decref t2 pt1 (al_vaddr a) = (Ok, pt2)" using incref_decref [OF i] by blast
    have "pt_inv pt1" using incref_inv [of "mm_pt (ms_mm st)" t1 "al_vaddr a"] 1(2) i by (simp add: mm_inv_def)
    then have "pt_inv pt2" using decref_inv [of pt1 t2 "al_vaddr a"] d by simp
    then show ?case by (simp add: on_table_def i d pt_invD(1))
  qed
  assume kept: "pool_kept pf" and size: "3 * 2 ^ 17 \<le> unat (hbm_pool_size (fst (b_describe_device pf ''auto'' hw)))"
  have evicts: "fst (eviction_respects_refcount clk mclk t1 t2 disp hw) = after_boot (boot_status clk boot_options_default disp hw) Passed"
    if room: "3 * 2 ^ 17 \<le> unat (booted_pool clk disp hw)"
    unfolding eviction_respects_refcount_def
  proof (rule unit_block_verdict [OF act w], goal_cases)
    case (1 a st)
    then obtain e where e: "pt_lookup (mm_pt (ms_mm st)) (al_vaddr a) = Some e" "pe_refcount e = 0" by blast
    obtain pt1 where i: "incref t1 (mm_pt (ms_mm st)) (al_vaddr a) = (Ok, pt1)" using e by (simp add: incref_eq)
    obtain s pt2 where d: "decref t2 pt1 (al_vaddr a) = (s, pt2)" by force
    have inv1: "pt_inv pt1" using incref_inv [of "mm_pt (ms_mm st)" t1 "al_vaddr a"] 1(2) i by (simp add: mm_inv_def)
    have "length (pt_table pt1) = length (pt_table (mm_pt (ms_mm st)))"
      using i e by (auto simp: incref_eq pt_lookup_def length_update_known)
    then have "evict_until (ms_env st) pt1 95 50 LruRefcount = (0, pt1)"
      using 1(5,6) kept room by (intro no_eviction [OF pt_invD(1) [OF inv1]]) simp_all
    moreover have "pt_inv pt2" using decref_inv [OF inv1, of t2 "al_vaddr a"] d by simp
    ultimately show ?case by (simp add: on_table_def i d pt_invD(1))
  qed
  show "fst (eviction_respects_refcount clk mclk t1 t2 disp hw) = after_boot (boot_status clk boot_options_default disp hw) Passed"
  proof (cases "boot_status clk boot_options_default disp hw = Ok")
    case True
    then show ?thesis using evicts booted_pool_size [OF act kept True] size by simp
  next
    case False
    have "\<exists>v. fst (eviction_respects_refcount clk mclk t1 t2 disp hw) = after_boot (boot_status clk boot_options_default disp hw) v"
      unfolding eviction_respects_refcount_def unit_block_def
      by (rule exI, rule body_verdict) (use False in \<open>simp add: boot_status_def\<close>)
    then show ?thesis using after_boot_bad [OF False] by metis
  qed
qed

lemma unit_fault_verdict:
  assumes act: "d_active disp = Some pf" and w: "working_for n pf"
  shows "fst (fault_handler_injects clk disp hw) = after_boot (boot_status clk boot_options_default disp hw) Passed"
  unfolding fault_handler_injects_def
proof (rule body_verdict, goal_cases)
  case (1 r ev disp1 hw1 c h pf')
  have pf: "pf' = pf" using boot_active [OF act 1(1)] 1(5) by simp
  obtain env' where "b_prefetch_range pf 0 4096 (fw_env (hw_in h c)) = (Ok, env')" using working_accepts(3) [OF w] by blast
  then show ?case by (simp add: inject_fetch_hint_def pf)
qed

subsection \<open>What the unit tests report\<close>

text \<open>A selected backend on which every boot succeeds.\<close>

definition machine :: "'p backend \<Rightarrow> 'p dispatch \<Rightarrow> bool" where
  "machine pf disp = (d_active disp = Some pf \<and> accepting pf
     \<and> (\<forall>h. dd_vendor (fst (b_describe_device pf ''auto'' h)) \<noteq> Unknown_vendor))"

lemma machine_boots: "machine pf disp \<Longrightarrow> boot_status clk boot_options_default disp hw = Ok"
proof -
  assume m: "machine pf disp"
  have "bo_profile boot_options_default = ''auto''" by (simp add: boot_options_default_def)
  then show "boot_status clk boot_options_default disp hw = Ok"
    using m boot_accepting(1) [of pf disp boot_options_default hw clk] by (simp add: machine_def)
qed

lemma populates_verdict:
  "fst (boot_populates_device_desc clk disp hw) = after_boot (boot_status clk boot_options_default disp hw)
     (let d = br_device (fst (boot clk boot_options_default disp hw))
      in if dd_hbm_capacity_bytes d \<noteq> 0 \<and> dd_sm_count d \<noteq> 0 then Passed else Test_failed)"
  unfolding boot_populates_device_desc_def
proof (rule body_verdict, goal_cases)
  case (1 r ev disp1 hw1 c h pf)
  have "dd_vendor (br_device r) \<noteq> Unknown_vendor" using booted_ready [OF 1(1,2)] by simp
  then show ?case using 1(1) by (simp add: Let_def word_gt_0)
qed

text \<open>On Hopper with compression the test also looks at whether the manager is enabled.\<close>

lemma ilc_test_verdict:
  assumes "\<not> (dd_arch (br_device (fst (boot clk boot_options_default disp hw))) = Hopper
      \<and> ff_ilc (dd_features (br_device (fst (boot clk boot_options_default disp hw)))))"
  shows "fst (ilc_manager_disabled_on_ampere clk disp hw) = after_boot (boot_status clk boot_options_default disp hw)
     (let d = br_device (fst (boot clk boot_options_default disp hw))
      in if dd_arch d = Hopper then Hung else if ff_ilc (dd_features d) then Test_failed else Passed)"
  unfolding ilc_manager_disabled_on_ampere_def
proof (rule body_verdict, goal_cases)
  case (1 r ev disp1 hw1 c h pf)
  have "(fw_ilc c \<noteq> None) = ff_ilc (dd_features (br_device r))"
    using 1(4) by (simp add: fw_ready_def boot_options_default_def)
  then show ?case using 1(1) assms by (auto simp: Let_def)
qed

lemma events_verdict:
  assumes m: "machine pf disp"
  shows "fst (boot_events_emitted_in_order clk clk2 disp hw) = Passed"
proof -
  let ?o = "boot_options_default\<lparr>bo_on_event := True\<rparr>"
  have act: "d_active disp = Some pf" using m by (simp add: machine_def)
  have "bo_profile ?o = ''auto''" by (simp add: boot_options_default_def)
  then have again: "boot_status clk2 ?o disp h = Ok" for h
    using m boot_accepting(1) [of pf disp ?o h clk2] by (simp add: machine_def)
  have "fst (boot_events_emitted_in_order clk clk2 disp hw) = after_boot (boot_status clk boot_options_default disp hw) Passed"
    unfolding boot_events_emitted_in_order_def
  proof (rule fixture_verdict, goal_cases)
    case (1 r ev disp1 hw1 c h pf' d)
    have d: "d = disp" using boot_active [OF act 1(1)] 1(5) act by (simp add: dispatch_backend_def)
    obtain r2 ev2 disp2 hw2 where b: "boot clk2 ?o disp (e_hw (fw_env (hw_in h c))) = (r2, ev2, disp2, hw2)"
      using prod_cases4 by blast
    have ok: "br_status r2 = Ok" using again [of "e_hw (fw_env (hw_in h c))"] b by (simp add: boot_status_def)
    from boot_trace [OF b] have "map be_phase ev2 = all_phases"
      by (simp add: ok trace_ok_def ended_at_def all_phases_def less_eq_boot_phase_def)
    then have "be_phase (hd ev2) = PreInit" "be_phase (last ev2) = boot_phase.Ready" by (auto simp: all_phases_def)
    then show ?case by (simp add: d b ok case_prod_unfold Let_def split: option.split)
  qed
  then show ?thesis by (simp add: machine_boots [OF m])
qed

text \<open>C33: What each of the 28 tests of the four GoogleTest files reports.  Whatever the driver is, a
  test of a fixture skips when the boot finds no device and fails when the boot fails otherwise.
  When the boot succeeds: the tests of the stream pool, the warp defaults, the coalescer, the task
  graph, the layer budgets, the token step and the prefetcher pass; the GDS test fails, as it
  asserts the negation of a tautology; the two tests of the token cache never return; the
  scoped-stream test passes exactly when the compute stream created last is not null; the device
  test passes exactly when the device reports memory and multiprocessors; the compression test
  passes on a device that is not Hopper and has no compression, fails on one that has, and
  dereferences null on a Hopper without it (a Hopper with it is left open).  The tests that do not
  boot pass.  On a selected driver that grants 64 KB and accepts releases and hints, the tests of
  allocation, reference counts, prefetching and fetch hints pass, and the eviction test passes
  when the driver also keeps the size of the pool and the pool has room for three pages of 128 KB.
  The test of the event order passes where every boot succeeds.\<close>

theorem unit_suites:
  fixes row :: "'f :: {linorder, zero, plus} list" and disp :: "'p dispatch"
  shows "let booted = after_boot (boot_status clk boot_options_default disp hw);
        dev = br_device (fst (boot clk boot_options_default disp hw)) in
    (\<forall>t \<in> {unit_stream_pool clk, unit_warp_spec clk, coalescer_runs clk, unit_add_validate clk, unit_reject_cycle clk,
          unit_rejects_duplicate clk, unit_set_overlap clk, unit_layer_defaults clk, unit_step clk,
          unit_prefetcher_empty clk (pr_create :: 'f prefetcher), unit_prefetcher_topk clk row}.
        fst (t disp hw) = booted Passed)
    \<and> fst (dma_engine_gds_fallback clk disp hw) = booted Test_failed
    \<and> fst (kv_evicts_to_max clk w disp hw) = booted Hung \<and> fst (kv_pinned_not_evicted clk w disp hw) = booted Hung
    \<and> fst (unit_scoped_stream clk disp hw) = booted (if booted_raw clk disp hw \<noteq> 0 then Passed else Test_failed)
    \<and> fst (boot_populates_device_desc clk disp hw)
        = booted (if dd_hbm_capacity_bytes dev \<noteq> 0 \<and> dd_sm_count dev \<noteq> 0 then Passed else Test_failed)
    \<and> (\<not> (dd_arch dev = Hopper \<and> ff_ilc (dd_features dev)) \<longrightarrow> fst (ilc_manager_disabled_on_ampere clk disp hw)
        = booted (if dd_arch dev = Hopper then Hung else if ff_ilc (dd_features dev) then Test_failed else Passed))
    \<and> (\<forall>t \<in> {status_string_all_values, coalescer_align, hopper_defaults, ampere_defaults, apple_defaults}.
        t disp hw = (Passed, disp, hw))
    \<and> (d_active disp = Some pf \<and> working_for (push_bit 16 1) pf \<longrightarrow>
        (\<forall>t \<in> {unit_alloc_free clk mclk, unit_incref_decref clk mclk t1 t2, unit_prefetch clk mclk, fault_handler_injects clk}.
          fst (t disp hw) = booted Passed)
      \<and> (pool_kept pf \<and> 3 * 2 ^ 17 \<le> unat (hbm_pool_size (fst (b_describe_device pf ''auto'' hw))) \<longrightarrow>
          fst (eviction_respects_refcount clk mclk t1 t2 disp hw) = booted Passed))
    \<and> (machine pf disp \<longrightarrow> fst (boot_events_emitted_in_order clk clk2 disp hw) = Passed)"
  unfolding Let_def
  using ilc_test_verdict [of clk disp hw] events_verdict [of pf disp clk clk2 hw]
    unit_fault_verdict [of disp pf "push_bit 16 1" clk hw]
  by (simp add: unit_memory_verdicts unit_device_verdicts unit_graph_verdicts unit_token_verdicts unit_kv_verdicts scoped_stream_verdict
      populates_verdict unit_pure_verdicts Let_def)

lemma bench_machine: "machine bench_backend bench" "pool_kept bench_backend" "working_for (push_bit 16 1) bench_backend"
  "b_describe_device bench_backend p h = (e_device sim_env, h)"
proof -
  show d: "b_describe_device bench_backend p h = (e_device sim_env, h)" for p h by (simp add: bench_backend_def)
  show "machine bench_backend bench" using bench_facts(1,3) by (simp add: machine_def d) (simp add: sim_env_def)
  have "backend_memory bench_backend same_pool"
    by unfold_locales (simp_all add: bench_backend_def same_pool_def)
  then show "pool_kept bench_backend" by (simp add: pool_kept_def) (simp add: bench_backend_def same_pool_def)
  show "working_for (push_bit 16 1) bench_backend" by (simp add: working_for_def bench_backend_def)
qed


theorem unit_suites_witness:
  "fst (dma_engine_gds_fallback (\<lambda>_. 0) bench 1) = Test_failed \<and> fst (unit_add_validate (\<lambda>_. 0) bench 1) = Passed
    \<and> fst (kv_evicts_to_max (\<lambda>_. 0) (1 :: int) bench 1) = Hung
    \<and> fst (unit_alloc_free (\<lambda>_. 0) (\<lambda>_. 0) bench 1) = Passed
    \<and> fst (eviction_respects_refcount (\<lambda>_. 0) (\<lambda>_. 0) 1 2 bench 1) = Passed
    \<and> fst (boot_events_emitted_in_order (\<lambda>_. 0) (\<lambda>_. 0) bench 1) = Passed"
proof -
  have r: "3 * 2 ^ 17 \<le> unat (hbm_pool_size (fst (b_describe_device bench_backend ''auto'' h)))" for h
    by (simp add: bench_machine(4)) (simp add: hbm_pool_size_def sim_env_def)
  have a: "d_active bench = Some bench_backend" by (rule bench_facts(1))
  note u = unit_suites [unfolded Let_def, where clk = "\<lambda>_. 0" and ?clk2.0 = "\<lambda>_. 0" and mclk = "\<lambda>_. 0" and disp = bench
      and hw = 1 and pf = bench_backend and row = "[1, 2 :: int]" and w = 1 and ?t1.0 = 1 and ?t2.0 = 2]
  show ?thesis using u [unfolded bench_facts(4) after_boot_cases] a r [of 1] bench_machine(1-3) by blast
qed

end
