(* ===== verification/Returns.thy ===== *)
theory Returns
  imports Frames
begin

text \<open>
  That the calls of the C interface return.  The driver calls of the model are functions, so a
  call of the driver that never comes back cannot be a missing value: a predicate \<open>hung\<close> on the
  state of the hardware tells that some call of the driver did not return.  Over drivers whose
  calls return, no call of the interface hangs or crashes, whatever was called before.  The
  Metal driver is not one of them: its \<^verbatim>\<open>sync_stream\<close> waits for a command buffer that is
  never committed, and the theory of its processes shows the barrier hanging.
\<close>

subsection \<open>Drivers whose calls return\<close>

text \<open>Each call that the firmware makes of a driver, other than those of a tensor-map engine,
  which no context has, and of the fault poller's thread, returns when nothing has hung before it.\<close>

definition returning :: "('p \<Rightarrow> bool) \<Rightarrow> 'p backend \<Rightarrow> bool" where
  "returning hung pf = (\<forall>hw. \<not> hung hw \<longrightarrow>
     \<not> hung (snd (b_probe pf hw)) \<and> (\<forall>prof. \<not> hung (snd (b_describe_device pf prof hw)))
     \<and> (\<forall>e. e_hw e = hw \<longrightarrow>
          (\<forall>d. \<not> hung (e_hw (snd (b_lock_clocks pf d e)))) \<and> (\<forall>n. \<not> hung (e_hw (snd (b_reserve_vaddress pf n e))))
        \<and> \<not> hung (e_hw (snd (b_map_hbm_pool pf e))) \<and> \<not> hung (e_hw (snd (b_release_vaddress pf e)))
        \<and> (\<forall>n. \<not> hung (e_hw (snd (snd (b_alloc_hbm pf n e))))) \<and> (\<forall>p. \<not> hung (e_hw (snd (b_free_hbm pf p e))))
        \<and> (\<forall>v n. \<not> hung (e_hw (snd (b_prefetch_range pf v n e))))
        \<and> (\<forall>k prio. \<not> hung (e_hw (snd (snd (b_create_stream pf k prio e)))))
        \<and> (\<forall>p. \<not> hung (e_hw (snd (b_destroy_stream pf p e)))) \<and> (\<forall>p. \<not> hung (e_hw (snd (b_sync_stream pf p e))))
        \<and> (\<forall>fn g b sm h args. \<not> hung (e_hw (snd (b_launch_kernel pf fn g b sm h args e))))
        \<and> \<not> hung (e_hw (snd (b_gds_init pf e))) \<and> \<not> hung (e_hw (snd (b_gds_fini pf e)))
        \<and> \<not> hung (e_hw (snd (b_grdma_init pf e))) \<and> \<not> hung (e_hw (snd (b_grdma_fini pf e)))
        \<and> (\<forall>p n. \<not> hung (e_hw (snd (b_install_fault_buffer pf p n e))))
        \<and> (\<forall>p. \<not> hung (e_hw (snd (b_uninstall_fault_buffer pf p e))))
        \<and> (\<forall>p. \<not> hung (e_hw (snd (b_ilc_tag pf p e)))) \<and> (\<forall>p. \<not> hung (e_hw (snd (b_ilc_untag pf p e))))))"

text \<open>A successful allocation hands out a block: \<^verbatim>\<open>FaultHandler::install\<close> clears it unchecked.\<close>

definition no_null_block :: "'p backend \<Rightarrow> bool" where
  "no_null_block pf = (\<forall>n e. fst (b_alloc_hbm pf n e) = Ok \<longrightarrow> fst (snd (b_alloc_hbm pf n e)) \<noteq> 0)"

definition sound_driver :: "('p \<Rightarrow> bool) \<Rightarrow> 'p backend \<Rightarrow> bool" where
  "sound_driver hung pf = (returning hung pf \<and> no_null_block pf)"

definition sound_drivers :: "('p \<Rightarrow> bool) \<Rightarrow> 'p dispatch \<Rightarrow> bool" where
  "sound_drivers hung d = ((\<forall>v pf. map_of (d_backends d) v = Some pf \<longrightarrow> sound_driver hung pf)
     \<and> (\<forall>pf. d_active d = Some pf \<longrightarrow> sound_driver hung pf))"

abbreviation keeps_on :: "('p \<Rightarrow> bool) \<Rightarrow> 'p env \<Rightarrow> 'p env \<Rightarrow> bool" where
  "keeps_on hung e e' \<equiv> \<not> hung (e_hw e) \<longrightarrow> \<not> hung (e_hw e')"

lemma returningD:
  assumes "returning hung pf" and "\<not> hung (e_hw e)"
  shows "\<not> hung (e_hw (snd (b_lock_clocks pf d e)))" "\<not> hung (e_hw (snd (b_reserve_vaddress pf n e)))"
    "\<not> hung (e_hw (snd (b_map_hbm_pool pf e)))" "\<not> hung (e_hw (snd (b_release_vaddress pf e)))"
    "\<not> hung (e_hw (snd (snd (b_alloc_hbm pf n e))))" "\<not> hung (e_hw (snd (b_free_hbm pf p e)))"
    "\<not> hung (e_hw (snd (b_prefetch_range pf v n e)))" "\<not> hung (e_hw (snd (snd (b_create_stream pf k prio e))))"
    "\<not> hung (e_hw (snd (b_destroy_stream pf p e)))" "\<not> hung (e_hw (snd (b_sync_stream pf p e)))"
    "\<not> hung (e_hw (snd (b_launch_kernel pf fn g b sm h args e)))"
    "\<not> hung (e_hw (snd (b_gds_init pf e)))" "\<not> hung (e_hw (snd (b_gds_fini pf e)))"
    "\<not> hung (e_hw (snd (b_grdma_init pf e)))" "\<not> hung (e_hw (snd (b_grdma_fini pf e)))"
    "\<not> hung (e_hw (snd (b_install_fault_buffer pf p sl e)))" "\<not> hung (e_hw (snd (b_uninstall_fault_buffer pf p e)))"
    "\<not> hung (e_hw (snd (b_ilc_tag pf p e)))" "\<not> hung (e_hw (snd (b_ilc_untag pf p e)))"
  using assms(1) [unfolded returning_def, THEN spec, THEN mp, OF assms(2),
      THEN conjunct2, THEN conjunct2, THEN spec, THEN mp, OF refl]
  by (simp_all del: split_paired_All)

lemma returning_frame: "returning hung pf \<Longrightarrow> backend_frame pf (keeps_on hung)"
  by unfold_locales (simp_all add: returningD)

lemma sound_null [simp]: "sound_driver hung null_backend"
  by (simp add: sound_driver_def returning_def no_null_block_def null_backend_def)

subsection \<open>Selecting a driver\<close>

lemma probe_order_sound:
  "sound_drivers hung d \<Longrightarrow> \<not> hung hw \<Longrightarrow> probe_order vs d hw = (found, d', hw') \<Longrightarrow> sound_drivers hung d' \<and> \<not> hung hw'"
proof (induction vs arbitrary: hw)
  case (Cons v vs)
  show ?case
  proof (cases "map_of (d_backends d) v")
    case None
    then show ?thesis using Cons by simp
  next
    case (Some pf)
    then have pf: "sound_driver hung pf" using Cons.prems(1) unfolding sound_drivers_def by blast
    obtain f hw1 where p: "b_probe pf hw = (f, hw1)" by force
    have "\<not> hung (snd (b_probe pf hw))" using pf Cons.prems(2) unfolding sound_driver_def returning_def by blast
    then have h: "\<not> hung hw1" by (simp add: p)
    show ?thesis
    proof (cases f)
      case True
      then have "d' = d\<lparr>d_active := Some pf\<rparr>" "hw' = hw1" using Cons.prems(3) by (simp_all add: Some p)
      then show ?thesis using pf h Cons.prems(1) by (simp add: sound_drivers_def)
    next
      case False
      then show ?thesis using Cons.IH [OF Cons.prems(1) h] Cons.prems(3) by (simp add: Some p)
    qed
  qed
qed simp

lemma dispatch_probe_sound:
  "sound_drivers hung d \<Longrightarrow> \<not> hung hw \<Longrightarrow> dispatch_probe d hw = (found, d', hw') \<Longrightarrow> sound_drivers hung d' \<and> \<not> hung hw'"
  unfolding dispatch_probe_def using probe_order_sound by (metis prod.inject)

lemma dispatch_backend_sound:
  assumes "sound_drivers hung d" and "\<not> hung hw" and "dispatch_backend d hw = (pf, d', hw')"
  shows "sound_driver hung pf" "sound_drivers hung d'" "\<not> hung hw'"
proof -
  obtain found d1 hw1 where p: "dispatch_probe d hw = (found, d1, hw1)" using prod_cases3 by blast
  have s: "sound_drivers hung d1 \<and> \<not> hung hw1" by (rule dispatch_probe_sound [OF assms(1,2) p])
  have e: "pf = (case d_active d' of None \<Rightarrow> null_backend | Some b \<Rightarrow> b)" "d' = d1 \<and> hw' = hw1 \<or> d' = d \<and> hw' = hw"
    using assms(3) p by (auto simp: dispatch_backend_def split: if_splits)
  show "sound_drivers hung d'" "\<not> hung hw'" using e(2) s assms by auto
  then show "sound_driver hung pf" using e(1) unfolding sound_drivers_def by (cases "d_active d'") auto
qed

subsection \<open>Boot\<close>

text \<open>A context without a tensor-map engine, whose fault handler did not crash.\<close>

definition fw_fine :: "'p fw \<Rightarrow> bool" where
  "fw_fine fw = (fw_tma fw = None \<and> (\<forall>fh. fw_faults fw = Some fh \<longrightarrow> \<not> fh_crashed fh))"

lemma fw_fine_hw [simp]: "fw_fine (hw_in hw fw) = fw_fine fw"
  by (simp add: fw_fine_def)

lemma boot_env_returns:
  assumes pf: "returning hung pf" and h: "\<not> hung (e_hw (fw_env fw))"
    and 2: "lock_clocks pf d fw = (s2, fw2)" and 3: "init_hbm pf d fw2 = (s3, fw3)"
  shows "\<not> hung (e_hw (fw_env fw3))" "fw_tma fw3 = fw_tma fw" "fw_faults fw3 = fw_faults fw"
proof -
  have h2: "\<not> hung (e_hw (fw_env fw2))"
    using 2 returningD(1) [OF pf h, of d] by (auto simp: lock_clocks_def split: prod.splits)
  define e where "e = (fw_env fw2)\<lparr>e_hbm_pool_bytes := hbm_pool_size d\<rparr>"
  have "\<not> hung (e_hw e)" using h2 by (simp add: e_def)
  note r = returningD(2) [OF pf this, of "hbm_pool_size d"]
  have "fw_env fw3 = snd (b_reserve_vaddress pf (hbm_pool_size d) e)
    \<or> fw_env fw3 = snd (b_map_hbm_pool pf (snd (b_reserve_vaddress pf (hbm_pool_size d) e)))"
    using 3 by (auto simp: init_hbm_def Let_def e_def split: prod.splits if_splits)
  then show "\<not> hung (e_hw (fw_env fw3))" using r returningD(3) [OF pf r] by auto
  show "fw_tma fw3 = fw_tma fw" "fw_faults fw3 = fw_faults fw"
    using lock_clocks_fields [OF 2] init_hbm_fields [OF 3] by auto
qed

lemma attach_fine:
  assumes "no_null_block pf" and "attach_fault_handler pf opts fw = (s, fw')" and "fw_tma fw = None"
  shows "fw_fine fw'"
proof -
  obtain s1 p e1 where a: "b_alloc_hbm pf (ucast (bo_fault_buffer_slots opts) * sizeof_fault_record) (fw_env fw) = (s1, p, e1)"
    using prod_cases3 by blast
  have "s1 = Ok \<longrightarrow> p \<noteq> 0" using assms(1) a unfolding no_null_block_def by (metis fst_conv snd_conv)
  then show ?thesis using assms(2,3) a
    by (auto simp: attach_fault_handler_def fh_install_def fh_create_def fw_fine_def Let_def split: prod.splits if_splits)
qed

lemma boot_ctx_sound:
  assumes pf: "sound_driver hung pf" and run: "boot_ctx pf clk opts d fw ev = (r, ev')"
    and h: "\<not> hung (e_hw (fw_env fw))" and fw: "fw_tma fw = None" "fw_faults fw = None"
  shows "\<exists>c. br_ctx r = Some c \<and> \<not> hung (e_hw (fw_env c)) \<and> fw_fine c"
proof -
  have ret: "returning hung pf" and nn: "no_null_block pf" using pf by (simp_all add: sound_driver_def)
  note frame = returning_frame [OF ret, THEN backend_frame.axioms(1), THEN backend_memory.axioms(1)]
  note mem = returning_frame [OF ret, THEN backend_frame.axioms(1)]
  have dma': "register_dma pf d opts f3 = (s, f4) \<Longrightarrow> fw_tma f4 = fw_tma f3 \<and> fw_faults f4 = fw_faults f3" for f3 s f4
    using register_dma_fields by fastforce
  from run show ?thesis
  proof (cases rule: boot_ctx_cases)
    case (hbm s2 fw2 s fw3)
    then show ?thesis using boot_env_returns [OF ret h hbm(1,2)] fw by (simp add: boot_fail_def fw_fine_def)
  next
    case (dma s2 fw2 fw3 s fw4)
    note e = boot_env_returns [OF ret h dma(1,2)]
    show ?thesis using dma(5) dma'[OF dma(3)] backend_calm.register_dma_keeps [OF frame dma(3)] e fw
      by (simp add: boot_fail_def fw_fine_def)
  next
    case (sched s2 fw2 fw3 fw4 s fw5)
    note e = boot_env_returns [OF ret h sched(1,2)]
    show ?thesis using sched(6) dma' [OF sched(3)] spawn_scheduler_fields [OF sched(4)] e fw
        backend_calm.register_dma_keeps [OF frame sched(3)] backend_calm.spawn_scheduler_keeps [OF frame sched(4)]
      by (simp add: boot_fail_def fw_fine_def)
  next
    case (faults s2 fw2 fw3 fw4 fw5 s fw6)
    note e = boot_env_returns [OF ret h faults(1,2)]
    have "fw_tma fw5 = None" using dma' [OF faults(3)] spawn_scheduler_fields [OF faults(4)] e fw by simp
    then have "fw_fine fw6" by (rule attach_fine [OF nn faults(5)])
    then show ?thesis using faults(7) e backend_calm.register_dma_keeps [OF frame faults(3)]
        backend_calm.spawn_scheduler_keeps [OF frame faults(4)] backend_memory.attach_keeps [OF mem faults(5)]
      by (simp add: boot_fail_def)
  next
    case (up s2 fw2 fw3 fw4 fw5 fw6 s7 fw7)
    note e = boot_env_returns [OF ret h up(1,2)]
    have "fw_tma fw5 = None" using dma' [OF up(3)] spawn_scheduler_fields [OF up(4)] e fw by simp
    then have "fw_fine fw6" by (rule attach_fine [OF nn up(5)])
    moreover obtain ic where "fw7 = fw6\<lparr>fw_ilc := ic\<rparr>" using init_ilc_fields [OF up(6)] by blast
    ultimately show ?thesis using up(7) e backend_calm.register_dma_keeps [OF frame up(3)]
        backend_calm.spawn_scheduler_keeps [OF frame up(4)] backend_memory.attach_keeps [OF mem up(5)]
      by (simp add: fw_fine_def)
  qed
qed

lemma boot_sound:
  assumes s: "sound_drivers hung disp" "\<not> hung hw" and run: "boot clk opts disp hw = (r, ev, disp', hw')"
  shows "sound_drivers hung disp' \<and> \<not> hung hw' \<and> (\<forall>c. br_ctx r = Some c \<longrightarrow> fw_fine c)"
proof -
  obtain s0 d disp1 hw1 where p: "probe_driver opts disp hw = (s0, d, disp1, hw1)" using prod_cases4 by blast
  obtain found dp hp where q: "dispatch_probe disp hw = (found, dp, hp)" using prod_cases3 by blast
  obtain pf1 db hb where b1: "dispatch_backend dp hp = (pf1, db, hb)" using prod_cases3 by blast
  note q' = dispatch_probe_sound [OF s q]
  note b1' = dispatch_backend_sound [OF _ _ b1, of hung]
  have dd: "\<not> hung h" if "b_describe_device pf1 prof hb = (x, h)" for prof x h
    using b1' q' that unfolding sound_driver_def returning_def by (metis snd_conv)
  then have 1: "sound_drivers hung disp1" "\<not> hung hw1"
    using p q' b1' dd by (auto simp: probe_driver_def q b1 split: prod.splits if_splits)
  show ?thesis
  proof (cases "s0 = Ok")
    case False
    then show ?thesis using run 1 by (auto simp: boot_def p boot_fail_def)
  next
    case True
    obtain pf disp2 hw2 where b: "dispatch_backend disp1 hw1 = (pf, disp2, hw2)" using prod_cases3 by blast
    note b' = dispatch_backend_sound [OF 1 b]
    let ?ev1 = "emit clk opts DriverProbe s0 (if ok s0 then ''driver found'' else ''no driver'') (emit clk opts PreInit Ok ''boot started'' [])"
    obtain r1 ev' where c: "boot_ctx pf clk opts d (fw_create d opts hw2) ?ev1 = (r1, ev')" by force
    obtain cx where "br_ctx r1 = Some cx" "\<not> hung (e_hw (fw_env cx))" "fw_fine cx"
      using boot_ctx_sound [OF b'(1) c] b'(3) by (auto simp: fw_create_def)
    moreover from this have "r = r1" "disp' = disp2" "hw' = e_hw (fw_env cx)"
      using run c True unfolding boot_def p Let_def by (auto simp: b Let_def)
    ultimately show ?thesis using b' by simp
  qed
qed

subsection \<open>Calls\<close>

definition proc_sound :: "('p \<Rightarrow> bool) \<Rightarrow> 'p proc \<Rightarrow> bool" where
  "proc_sound hung pr = (proc_ok pr \<and> sound_drivers hung (pr_dispatch pr) \<and> \<not> hung (pr_hw pr)
     \<and> (\<forall>h fw. lookup_handle (pr_reg pr) h = Some fw \<longrightarrow> fw_fine fw))"

lemma init_sound:
  assumes s: "sound_drivers hung (pr_dispatch pr)" "\<not> hung (pr_hw pr)"
    and fine: "\<forall>h fw. lookup_handle (pr_reg pr) h = Some fw \<longrightarrow> fw_fine fw"
    and run: "nexusrt_firmware_init clk profile addr pr = (c, out, pr')"
  shows "sound_drivers hung (pr_dispatch pr') \<and> \<not> hung (pr_hw pr')
    \<and> (\<forall>h fw. lookup_handle (pr_reg pr') h = Some fw \<longrightarrow> fw_fine fw)"
proof -
  let ?opts = "case profile of None \<Rightarrow> boot_options_default | Some p \<Rightarrow> boot_options_default\<lparr>bo_profile := p\<rparr>"
  obtain r ev disp hw where b: "boot clk ?opts (pr_dispatch pr) (pr_hw pr) = (r, ev, disp, hw)" using prod_cases4 by blast
  note b' = boot_sound [OF s b]
  obtain pf2 disp2 hw2 where b2: "dispatch_backend disp hw = (pf2, disp2, hw2)" using prod_cases3 by blast
  note b2' = dispatch_backend_sound [OF _ _ b2, of hung]
  show ?thesis
  proof (cases "br_ctx r")
    case None
    then show ?thesis using run b b' fine by (auto simp: nexusrt_firmware_init_def)
  next
    case (Some cx)
    have f: "fw_fine cx" using b' Some by blast
    show ?thesis
    proof (cases "br_status r = Ok")
      case True
      then show ?thesis using run b b' fine f Some by (auto simp: nexusrt_firmware_init_def hm.find_register split: if_splits)
    next
      case False
      have "\<not> hung (e_hw (fw_destroy pf2 (hw_in hw2 cx)))"
        using backend_memory.fw_destroy_keeps [OF returning_frame [THEN backend_frame.axioms(1)], of hung pf2 "hw_in hw2 cx"]
          b2' b' f by (simp add: sound_driver_def fw_fine_def hw_in_def)
      then show ?thesis using run b b2 b' b2' fine Some False by (auto simp: nexusrt_firmware_init_def)
    qed
  qed
qed

lemma exec_sound:
  assumes inv: "proc_sound hung pr"
  shows "\<exists>code pr'. abi_exec ck c pr = Some (code, pr') \<and> proc_sound hung pr'"
proof -
  have i: "proc_ok pr" "sound_drivers hung (pr_dispatch pr)" "\<not> hung (pr_hw pr)"
    "\<forall>h fw. lookup_handle (pr_reg pr) h = Some fw \<longrightarrow> fw_fine fw" using inv unfolding proc_sound_def by blast+
  obtain code pr' where e: "abi_exec ck c pr = Some (code, pr')" "proc_ok pr'" using abi_exec_ok [OF i(1)] by blast
  obtain pf disp hw where b: "dispatch_backend (pr_dispatch pr) (pr_hw pr) = (pf, disp, hw)" using prod_cases3 by blast
  note b' = dispatch_backend_sound [OF i(2,3) b]
  have fr: "backend_frame pf (keeps_on hung)" using b'(1) by (intro returning_frame) (simp add: sound_driver_def)
  have "sound_drivers hung (pr_dispatch pr') \<and> \<not> hung (pr_hw pr')
    \<and> (\<forall>h fw. lookup_handle (pr_reg pr') h = Some fw \<longrightarrow> fw_fine fw)"
  proof (cases "(\<exists>p a. c = Firmware_init p a) \<or> (\<exists>h. c = Firmware_shutdown h)")
    case True
    then show ?thesis
    proof (elim disjE exE)
      fix p a
      assume c: "c = Firmware_init p a"
      obtain x out y where r: "nexusrt_firmware_init (ck_boot ck) p a pr = (x, out, y)" using prod_cases3 by blast
      then have "pr' = y" using e(1) by (simp add: c)
      then show ?thesis using init_sound [OF i(2-4) r] by simp
    next
      fix h
      assume c: "c = Firmware_shutdown h"
      then have "nexusrt_firmware_shutdown h pr = (code, pr')" using e(1) by simp
      from backend_memory.shutdown_moves [OF fr [THEN backend_frame.axioms(1)] b this] show ?thesis
        using i b' by (auto simp: hm.find_take hw_in_def fw_fine_def split: if_splits)
    qed
  next
    case False
    then have "ctx_moves (env_moves (keeps_on hung)) disp hw pr pr'"
      using backend_frame.call_moves [OF fr b e(1)] by blast
    then show ?thesis
      using i b' by (auto simp: ctx_moves_def env_moves_def hm.find_register hw_in_def fw_fine_def split: if_splits)
  qed
  then show ?thesis using e by (auto simp: proc_sound_def)
qed

text \<open>The processes a client reaches from one without contexts, over drivers whose calls return.\<close>

inductive sound_reach :: "('p \<Rightarrow> bool) \<Rightarrow> clocks \<Rightarrow> 'p proc \<Rightarrow> bool" for hung ck where
  start: "pr_reg pr = [] \<Longrightarrow> sound_drivers hung (pr_dispatch pr) \<Longrightarrow> \<not> hung (pr_hw pr) \<Longrightarrow> sound_reach hung ck pr"
| call: "sound_reach hung ck pr \<Longrightarrow> fresh_handle c pr \<Longrightarrow> abi_exec ck c pr = Some (code, pr') \<Longrightarrow> sound_reach hung ck pr'"

lemma sound_reach_proc: "sound_reach hung ck pr \<Longrightarrow> proc_sound hung pr"
proof (induction rule: sound_reach.induct)
  case (start pr)
  then show ?case by (simp add: proc_sound_def proc_ok_def lookup_handle_def)
next
  case (call pr c code pr')
  then show ?case using exec_sound [OF call.IH, of ck c] by auto
qed

text \<open>C2: Over drivers whose calls return, no sequence of calls crashes or hangs the library.  The
  hypothesis is on the registered drivers: each of their calls, made when none has hung, returns,
  and a successful allocation is not null (a hang inside a driver, as Metal's barrier, is
  outside).  Then in every process a client reaches, every call answers a code, with no null
  subsystem dereferenced, every page loop ended and no driver call hung; and every registered
  context has a fault handler that was installed without a crash and a well-formed pool with
  the 8 compute and 4 copy streams it was booted with (and at most one fence stream), whatever
  was submitted, however it failed.\<close>

theorem abi_total:
  assumes "sound_reach hung ck pr"
  shows "(\<exists>code pr'. abi_exec ck c pr = Some (code, pr') \<and> \<not> hung (pr_hw pr'))
    \<and> (\<forall>h fw. lookup_handle (pr_reg pr) h = Some fw \<longrightarrow>
         (\<exists>fh. fw_faults fw = Some fh \<and> \<not> fh_crashed fh)
       \<and> (\<exists>mk. fw_mk fw = Some mk \<and> mk_inv mk
         \<and> length (mk_free_compute mk) = 8 \<and> length (mk_free_dma mk) = 4 \<and> length (mk_free_fence mk) \<le> 1))"
proof (intro conjI allI impI)
  have inv: "proc_sound hung pr" by (rule sound_reach_proc [OF assms])
  show "\<exists>code pr'. abi_exec ck c pr = Some (code, pr') \<and> \<not> hung (pr_hw pr')"
    using exec_sound [OF inv, of ck c] by (auto simp: proc_sound_def)
  fix h fw
  assume "lookup_handle (pr_reg pr) h = Some fw"
  then have ok: "fw_ok fw" "fw_fine fw" using inv by (auto simp: proc_sound_def proc_ok_def)
  show "\<exists>fh. fw_faults fw = Some fh \<and> \<not> fh_crashed fh" using ok by (auto simp: fw_ok_def fw_fine_def)
  show "\<exists>mk. fw_mk fw = Some mk \<and> mk_inv mk
         \<and> length (mk_free_compute mk) = 8 \<and> length (mk_free_dma mk) = 4 \<and> length (mk_free_fence mk) \<le> 1"
    using fw_okD [OF ok(1)] by blast
qed

text \<open>A driver over a counter that is 0 once a call has hung: its calls return, and with a
  \<^verbatim>\<open>sync_stream\<close> that does not, it is no such driver.\<close>

definition steady_backend :: "u64 backend" where
  "steady_backend = null_backend\<lparr>
     b_describe_device := (\<lambda>_ hw. (e_device sim_env, hw)),
     b_reserve_vaddress := (\<lambda>_ e. (Ok, e)), b_map_hbm_pool := (\<lambda>e. (Ok, e)),
     b_alloc_hbm := (\<lambda>_ e. (Ok, 0x100000, e)), b_create_stream := (\<lambda>_ _ e. (Ok, 16, e)),
     b_gds_init := (\<lambda>e. (Ok, e)), b_grdma_init := (\<lambda>e. (Ok, e))\<rparr>"

abbreviation steady_proc :: "u64 proc" where
  "steady_proc \<equiv> \<lparr>pr_dispatch = dispatch_init\<lparr>d_active := Some steady_backend\<rparr>, pr_hw = 1, pr_reg = []\<rparr>"

lemma steady_sound: "sound_driver (\<lambda>hw. hw = 0) steady_backend"
  by (simp add: sound_driver_def returning_def no_null_block_def steady_backend_def null_backend_def)

lemma steady_init:
  obtains fw pr' where "nexusrt_firmware_init clk None 16 steady_proc = (0, Some 16, pr')"
    "lookup_handle (pr_reg pr') 16 = Some fw"
proof -
  let ?disp = "dispatch_init\<lparr>d_active := Some steady_backend\<rparr>"
  obtain r ev disp' hw' where b: "boot clk boot_options_default ?disp 1 = (r, ev, disp', hw')" using prod_cases4 by blast
  have "boot_status clk boot_options_default ?disp 1 = Ok"
    by (rule boot_accepting(1) [where pf = steady_backend])
      (simp_all add: accepting_def steady_backend_def null_backend_def sim_env_def)
  then have s: "br_status r = Ok" by (simp add: boot_status_def b)
  then obtain c where "br_ctx r = Some c" using booted_ready [OF b] by blast
  then show ?thesis using that s b by (simp add: nexusrt_firmware_init_def hm.find_register)
qed

theorem abi_total_witness:
  "\<exists>(pr :: u64 proc) fw. sound_reach (\<lambda>hw. hw = 0) \<lparr>ck_boot = (\<lambda>_. 0), ck_page = (\<lambda>_. 0), ck_stage = (\<lambda>_. (0, 0))\<rparr> pr
    \<and> lookup_handle (pr_reg pr) 16 = Some fw
    \<and> (\<exists>mk. fw_mk fw = Some mk \<and> length (mk_free_compute mk) = 8 \<and> length (mk_free_dma mk) = 4)
    \<and> (\<exists>code pr'. abi_exec \<lparr>ck_boot = (\<lambda>_. 0), ck_page = (\<lambda>_. 0), ck_stage = (\<lambda>_. (0, 0))\<rparr> (Wait_barrier 16 ''s'' 0) pr
         = Some (code, pr') \<and> pr_hw pr' \<noteq> 0)
    \<and> \<not> returning (\<lambda>hw. hw = 0) (steady_backend\<lparr>b_sync_stream := (\<lambda>_ e. (Ok, e\<lparr>e_hw := 0\<rparr>))\<rparr>)"
proof -
  let ?ck = "\<lparr>ck_boot = (\<lambda>_. 0), ck_page = (\<lambda>_. 0), ck_stage = (\<lambda>_. (0, 0))\<rparr>"
  obtain fw pr where i: "nexusrt_firmware_init (ck_boot ?ck) None 16 steady_proc = (0, Some 16, pr)"
    "lookup_handle (pr_reg pr) 16 = Some fw" by (rule steady_init)
  have s: "sound_reach (\<lambda>hw. hw = 0) ?ck steady_proc"
    by (rule sound_reach.start) (simp_all add: sound_drivers_def dispatch_init_def steady_sound)
  have r: "sound_reach (\<lambda>hw. hw = 0) ?ck pr"
    by (rule sound_reach.call [where c = "Firmware_init None 16" and code = 0, OF s])
      (simp_all add: fresh_handle_def lookup_handle_def i(1) [simplified])
  have n: "\<not> returning (\<lambda>hw. hw = 0) (steady_backend\<lparr>b_sync_stream := (\<lambda>_ e. (Ok, e\<lparr>e_hw := 0\<rparr>))\<rparr>)"
    by (auto simp: returning_def intro!: exI [of _ 1] exI [of _ sim_env]) (simp add: sim_env_def)
  note t = abi_total [OF r, of "Wait_barrier 16 ''s'' 0"]
  have "\<exists>mk. fw_mk fw = Some mk \<and> length (mk_free_compute mk) = 8 \<and> length (mk_free_dma mk) = 4"
    using t [THEN conjunct2] i(2) by blast
  then show ?thesis using t [THEN conjunct1] r i(2) n by blast
qed

end
