(* ===== verification/SoleBackend.thy ===== *)
theory SoleBackend
  imports Frames
begin

text \<open>
  A process with one backend.  Exactly one of the two shims is compiled into a build; its static
  initialiser registers it, and everything the process does goes through it.  The locale states
  what a backend has to show for an invariant of the context in such a process: \<open>idle\<close> holds of
  the hardware while no context is registered, \<open>good\<close> of the registered context.  A shim keeps its
  state in a table keyed by the address of the context, which is the handle; the model follows one
  address, so contexts live there one after another.
\<close>

subsection \<open>Submissions\<close>

text \<open>No module can be loaded through the C interface, so a submission leaves its context exactly
  as it was.\<close>

lemma submission_inert:
  assumes reach: "abi_reach ck pr" and s: "submission c" and run: "abi_exec ck c pr = Some (code, pr')"
    and b: "dispatch_backend (pr_dispatch pr) (pr_hw pr) = (pf, disp, hw)"
  shows "ctx_moves (\<lambda>a b. b = a) disp hw pr pr'"
proof -
  have ok: "fw_ok (hw_in hw fw)" if "lookup_handle (pr_reg pr) h = Some fw" for h fw
    using abi_reach_ok [OF reach] that by (simp add: proc_ok_def)
  show ?thesis
  proof (cases c)
    case (Firmware_task_submit h m f g bl sm args k prio)
    then obtain x where r: "nexusrt_firmware_task_submit h m f g bl sm args k prio pr = Some (code, x, pr')" using run by auto
    show ?thesis
    proof (rule with_ctx_moves [OF r [unfolded nexusrt_firmware_task_submit_def] b])
      fix fw s x fw'
      assume l: "lookup_handle (pr_reg pr) h = Some fw" and q: "(case fw_mk (hw_in hw fw) of None \<Rightarrow> None
       | Some mk \<Rightarrow>
           (let (stream, mk1) = acquire_stream (stream_class_cast k) (sint prio) mk
            in if sh_id stream = 0 then Some (OutOfMemory, (), (hw_in hw fw)\<lparr>fw_mk := Some mk1\<rparr>)
               else (let (s, env1) = mk_launch pf m f g bl sm stream args (fw_env (hw_in hw fw)) mk1;
                         (s2, env2) = (if ok s then mk_sync_stream pf stream env1 else (s, env1))
                     in Some (s2, (), (hw_in hw fw)\<lparr>fw_env := env2, fw_mk := Some (release_stream stream mk1)\<rparr>)))) = Some (s, x, fw')"
      obtain mk where mk: "fw_mk (hw_in hw fw) = Some mk" "mk_inv mk" "mk_modules mk = []" using fw_okD [OF ok [OF l]] by blast
      obtain sh mk1 where a: "acquire_stream (stream_class_cast k) (sint prio) mk = (sh, mk1)" by force
      have m1: "mk_modules mk1 = []" using acquire_modules [OF a] mk(3) by simp
      have r: "release_stream sh mk1 = mk" by (rule mkp.acquire_release [OF mk(2) a])
      have z: "sh_id sh = 0 \<Longrightarrow> mk1 = mk" using acquire_zero [OF mk(2) a] .
      show "fw' = hw_in hw fw"
        using q z by (auto simp: mk(1) a r mk_launch_no_module [OF m1] fw_put_same [OF mk(1)] simp del: hw_in_fields split: if_splits)
    qed
  next
    case (Submit_stage h sc)
    then obtain x where r: "nexusrt_submit_stage (ck_stage ck) h sc pr = Some (code, x, pr')" using run by auto
    let ?c = "sc\<lparr>sc_depends_on := [], sc_producer_warps := 0, sc_consumer_warps := 0\<rparr>"
    show ?thesis
    proof (rule with_ctx_moves [OF r [unfolded nexusrt_submit_stage_def] b])
      fix fw s x fw'
      assume l: "lookup_handle (pr_reg pr) h = Some fw" and q: "(let (s, g) = add_stage ?c tg_create
       in if \<not> ok s
          then Some (s, (), (hw_in hw fw)\<lparr>fw_mk := map_option (tg_destroy g) (fw_mk (hw_in hw fw))\<rparr>)
          else (case fw_mk (hw_in hw fw) of
                  None \<Rightarrow> (let s1 = fst (validate (e_device (fw_env (hw_in hw fw))) g) in if ok s1 then None else Some (s1, (), hw_in hw fw))
                | Some mk \<Rightarrow>
                    (let (s2, env, mk2, g2) = tg_run pf (ck_stage ck) (fw_env (hw_in hw fw)) mk g
                     in Some (s2, (), (hw_in hw fw)\<lparr>fw_env := env, fw_mk := Some (tg_destroy g2 mk2)\<rparr>)))) = Some (s, x, fw')"
      obtain mk where mk: "fw_mk (hw_in hw fw) = Some mk" "mk_inv mk" "mk_modules mk = []" using fw_okD [OF ok [OF l]] by blast
      obtain s1 g where a: "add_stage ?c tg_create = (s1, g)" by force
      obtain s2 env mk2 g2 where t: "tg_run pf (ck_stage ck) (fw_env (hw_in hw fw)) mk g = (s2, env, mk2, g2)" using prod_cases4 by blast
      have o: "ordered (tg_nodes g)" "tg_inv (e_device (fw_env (hw_in hw fw))) g" using add_stage_ordered [OF a] by blast+
      have m2: "mk2 = mk" using tg_run_safe [OF o(2) mk(2) o(1) t] by blast
      have n: "env = fw_env (hw_in hw fw)" if "s1 = Ok"
      proof -
        have "map_of (tg_nodes g) (sc_name sc) = Some (stage_node_new ?c)"
          using a that by (auto simp: add_stage_def tg_create_def split: if_splits)
        moreover have "ready_to_run (tg_nodes g) (stage_node_new ?c)"
          by (simp add: ready_iff deps_done_def stage_node_new_def)
        ultimately show ?thesis using tg_run_no_module [OF mk(2,3) t] by blast
      qed
      show "fw' = hw_in hw fw"
        using q n by (cases "s1 = Ok") (auto simp: mk(1) a t m2 tg_destroy_noop fw_put_same [OF mk(1)] simp del: hw_in_fields)
    qed
  qed (use s in \<open>simp_all add: submission_def\<close>)
qed

subsection \<open>The process\<close>

definition own_address :: "ptr \<Rightarrow> abi_call \<Rightarrow> bool" where
  "own_address self c = (case c of Firmware_init _ a \<Rightarrow> a = self | _ \<Rightarrow> True)"

text \<open>The dispatcher before and after the selection.\<close>

definition sole_dispatch :: "vendor \<Rightarrow> 'p backend \<Rightarrow> 'p dispatch" where
  "sole_dispatch v pf = register_backend v pf dispatch_init"

definition sole_active :: "vendor \<Rightarrow> 'p backend \<Rightarrow> 'p dispatch" where
  "sole_active v pf = (sole_dispatch v pf)\<lparr>d_active := Some pf\<rparr>"

inductive sole_reach :: "vendor \<Rightarrow> 'p backend \<Rightarrow> ptr \<Rightarrow> ('p \<Rightarrow> bool) \<Rightarrow> clocks \<Rightarrow> 'p proc \<Rightarrow> bool"
  for v pf self idle ck where
  start: "pr_reg pr = [] \<Longrightarrow> pr_dispatch pr = sole_dispatch v pf \<Longrightarrow> idle (pr_hw pr) \<Longrightarrow> sole_reach v pf self idle ck pr"
| call: "sole_reach v pf self idle ck pr \<Longrightarrow> fresh_handle c pr \<Longrightarrow> own_address self c
    \<Longrightarrow> abi_exec ck c pr = Some (code, pr') \<Longrightarrow> sole_reach v pf self idle ck pr'"

lemma sole_reach_abi: "sole_reach v pf self idle ck pr \<Longrightarrow> abi_reach ck pr"
  by (induction rule: sole_reach.induct) (auto intro: abi_reach.intros)

lemma sole_reach_mono:
  "sole_reach v pf self i ck pr \<Longrightarrow> (\<And>hw. i hw \<Longrightarrow> j hw) \<Longrightarrow> sole_reach v pf self j ck pr"
  by (induction rule: sole_reach.induct) (auto intro: sole_reach.intros)

definition bare :: "'p fw \<Rightarrow> bool" where
  "bare fw = (fw_mk fw = None \<and> fw_dma fw = None \<and> fw_tma fw = None \<and> fw_faults fw = None \<and> fw_ilc fw = None \<and> fw_mem fw = None)"

lemma bareD: "bare fw \<Longrightarrow> fw_mk fw = None" "bare fw \<Longrightarrow> fw_dma fw = None" "bare fw \<Longrightarrow> fw_tma fw = None"
  "bare fw \<Longrightarrow> fw_faults fw = None" "bare fw \<Longrightarrow> fw_ilc fw = None" "bare fw \<Longrightarrow> fw_mem fw = None"
  by (simp_all add: bare_def)

lemma hw_in_same [simp]: "hw_in (e_hw (fw_env fw)) fw = fw"
  by (simp add: hw_in_def)

lemma active_backend [simp]: "dispatch_backend (sole_active v pf) hw = (pf, sole_active v pf, hw)"
  by (simp add: dispatch_backend_def sole_active_def)

lemma no_handle_inert:
  assumes none: "\<And>h. lookup_handle (pr_reg pr) h = None" and run: "abi_exec ck c pr = Some (code, pr')"
    and c: "\<And>p a. c \<noteq> Firmware_init p a"
  shows "pr' = pr"
proof (cases "handle_of c")
  case (Some h)
  then show ?thesis using none run
    by (cases c) (auto simp: with_ctx_unknown nexusrt_firmware_fault_handler_def nexusrt_firmware_task_submit_def
        nexusrt_mem_alloc_def nexusrt_mem_free_def nexusrt_mem_prefetch_def nexusrt_mem_advise_read_mostly_def
        nexusrt_submit_stage_def nexusrt_wait_barrier_def nexusrt_prefetch_attention_def
        nexusrt_firmware_shutdown_def take_handle_def lookup_handle_def split: if_splits)
next
  case None
  then show ?thesis using run c by (cases c) auto
qed

subsection \<open>The invariant of the one context\<close>

locale sole_backend =
  fixes v :: vendor and pf :: "'p backend" and self :: ptr and idle :: "'p \<Rightarrow> bool" and good :: "'p fw \<Rightarrow> bool"
  assumes known: "v = Nvidia \<or> v = Apple"
    and probes: "idle hw \<Longrightarrow> idle (snd (b_probe pf hw))"
    and describes: "idle hw \<Longrightarrow> idle (snd (b_describe_device pf prof hw))"
    and boots: "idle (e_hw (fw_env fw)) \<Longrightarrow> bare fw \<Longrightarrow> boot_ctx pf clk opts d fw ev = (r, ev') \<Longrightarrow> br_ctx r = Some c
      \<Longrightarrow> if br_status r = Ok then good c else idle (e_hw (fw_destroy pf c))"
    and shuts: "good fw \<Longrightarrow> idle (e_hw (fw_destroy pf (snd (shutdown pf fw))))"
    and calls: "abi_reach ck pr \<Longrightarrow> dispatch_backend (pr_dispatch pr) (pr_hw pr) = (pf, disp, hw)
      \<Longrightarrow> abi_exec ck cl pr = Some (code, pr') \<Longrightarrow> (\<And>p a. cl \<noteq> Firmware_init p a) \<Longrightarrow> (\<And>h. cl \<noteq> Firmware_shutdown h)
      \<Longrightarrow> ctx_moves (\<lambda>a b. good a \<longrightarrow> good b) disp hw pr pr'"
begin

lemma probe_cases:
  assumes "probe_driver opts disp hw = (s, d, disp', hw')" and "disp = sole_dispatch v pf \<or> disp = sole_active v pf" and "idle hw"
  shows "idle hw' \<and> (disp' = sole_dispatch v pf \<and> s \<noteq> Ok \<or> disp' = sole_active v pf)"
proof -
  obtain found hw1 where p: "b_probe pf hw = (found, hw1)" by force
  have i: "idle hw1" "idle (snd (b_describe_device pf prof hw1))" "idle (snd (b_describe_device pf prof hw))" for prof
    using probes [OF assms(3)] p describes assms(3) by (simp_all add: describes)
  have w: "b_describe_device pf prof hw1 = (x, h') \<Longrightarrow> idle h'" "b_describe_device pf prof hw = (x, h') \<Longrightarrow> idle h'" for prof x h'
    using i(2,3) [of prof] by simp_all
  have sel: "dispatch_probe (sole_dispatch v pf) hw
      = (found, if found then sole_active v pf else sole_dispatch v pf, hw1)"
    using known p by (auto simp: dispatch_probe_def sole_active_def sole_dispatch_def register_backend_def dispatch_init_def)
  have act: "dispatch_probe (sole_active v pf) hw = (True, sole_active v pf, hw)"
    by (simp add: dispatch_probe_def sole_active_def)
  from assms(2) show ?thesis
  proof
    assume "disp = sole_dispatch v pf"
    then show ?thesis using assms(1) sel i(1) w(1) by (cases found) (auto simp: probe_driver_def split: prod.splits)
  next
    assume "disp = sole_active v pf"
    then show ?thesis using assms(1) act w(2) by (auto simp: probe_driver_def split: prod.splits)
  qed
qed

lemma boot_cases:
  assumes run: "boot clk opts disp hw = (r, ev, disp', hw')"
    and disp: "disp = sole_dispatch v pf \<or> disp = sole_active v pf" and idle: "idle hw"
  shows "disp' = sole_dispatch v pf \<or> disp' = sole_active v pf" "br_ctx r = None \<Longrightarrow> idle hw'"
    "br_ctx r = Some c \<Longrightarrow> disp' = sole_active v pf \<and> hw' = e_hw (fw_env c)
      \<and> (if br_status r = Ok then good c else idle (e_hw (fw_destroy pf c)))"
proof -
  obtain s d disp1 hw1 where p: "probe_driver opts disp hw = (s, d, disp1, hw1)" using prod_cases4 by blast
  note pd = probe_cases [OF p disp idle]
  have "(disp' = sole_dispatch v pf \<or> disp' = sole_active v pf) \<and> (br_ctx r = None \<longrightarrow> idle hw')
    \<and> (\<forall>c. br_ctx r = Some c \<longrightarrow> disp' = sole_active v pf \<and> hw' = e_hw (fw_env c)
      \<and> (if br_status r = Ok then good c else idle (e_hw (fw_destroy pf c))))"
  proof (cases "s = Ok")
    case False
    then have "disp' = disp1" "hw' = hw1" "br_ctx r = None" using run p by (auto simp: boot_def Let_def boot_fail_def)
    then show ?thesis using pd by auto
  next
    case True
    then have a: "disp1 = sole_active v pf" using pd by simp
    let ?ev = "emit clk opts DriverProbe s ''driver found'' (emit clk opts PreInit Ok ''boot started'' [])"
    obtain r1 ev1 where b: "boot_ctx pf clk opts d (fw_create d opts hw1) ?ev = (r1, ev1)" by force
    have r: "r = r1" "disp' = sole_active v pf" "hw' = (case br_ctx r1 of None \<Rightarrow> hw1 | Some c \<Rightarrow> e_hw (fw_env c))"
      using run p True b by (auto simp: boot_def Let_def a)
    have "bare (fw_create d opts hw1)" "idle (e_hw (fw_env (fw_create d opts hw1)))" using pd by (simp_all add: bare_def fw_create_def)
    note l = boots [OF this(2,1) b]
    show ?thesis using l pd by (auto simp: r split: option.splits)
  qed
  then show "disp' = sole_dispatch v pf \<or> disp' = sole_active v pf" "br_ctx r = None \<Longrightarrow> idle hw'"
    "br_ctx r = Some c \<Longrightarrow> disp' = sole_active v pf \<and> hw' = e_hw (fw_env c)
      \<and> (if br_status r = Ok then good c else idle (e_hw (fw_destroy pf c)))" by blast+
qed

definition sole_inv :: "'p proc \<Rightarrow> bool" where
  "sole_inv pr = ((pr_dispatch pr = sole_dispatch v pf \<or> pr_dispatch pr = sole_active v pf)
     \<and> (\<forall>h fw. lookup_handle (pr_reg pr) h = Some fw \<longrightarrow> h = self \<and> pr_dispatch pr = sole_active v pf \<and> good (hw_in (pr_hw pr) fw))
     \<and> (lookup_handle (pr_reg pr) self = None \<longrightarrow> idle (pr_hw pr)))"

lemma init_inv:
  assumes i: "sole_inv pr" and fresh: "lookup_handle (pr_reg pr) self = None"
    and run: "nexusrt_firmware_init clk profile self pr = (code, out, pr')"
  shows "sole_inv pr'"
proof -
  let ?opts = "case profile of None \<Rightarrow> boot_options_default | Some p \<Rightarrow> boot_options_default\<lparr>bo_profile := p\<rparr>"
  obtain r ev disp hw where b: "boot clk ?opts (pr_dispatch pr) (pr_hw pr) = (r, ev, disp, hw)" using prod_cases4 by blast
  have empty: "lookup_handle (pr_reg pr) h = None" for h
    using i fresh by (cases "lookup_handle (pr_reg pr) h") (auto simp: sole_inv_def)
  have d: "pr_dispatch pr = sole_dispatch v pf \<or> pr_dispatch pr = sole_active v pf" and idle: "idle (pr_hw pr)"
    using i fresh by (simp_all add: sole_inv_def)
  note p = boot_cases [OF b d idle]
  show ?thesis
  proof (cases "br_ctx r")
    case None
    then have "pr' = pr\<lparr>pr_dispatch := disp, pr_hw := hw\<rparr>" using run b by (simp add: nexusrt_firmware_init_def)
    then show ?thesis using p(1,2) None empty by (simp add: sole_inv_def)
  next
    case (Some c)
    note q = p(3) [OF Some]
    show ?thesis
    proof (cases "br_status r = Ok")
      case True
      then have "pr' = pr\<lparr>pr_dispatch := disp, pr_hw := hw, pr_reg := register_handle self c (pr_reg pr)\<rparr>"
        using run b Some by (simp add: nexusrt_firmware_init_def)
      then show ?thesis using p(1) q True empty by (simp add: sole_inv_def hm.find_register)
    next
      case False
      then have "pr' = pr\<lparr>pr_dispatch := disp, pr_hw := e_hw (fw_destroy pf c)\<rparr>"
        using run b Some q by (simp add: nexusrt_firmware_init_def)
      then show ?thesis using p(1) q False empty by (simp add: sole_inv_def)
    qed
  qed
qed

lemma shutdown_inv:
  assumes i: "sole_inv pr" and run: "nexusrt_firmware_shutdown h pr = (code, pr')"
  shows "sole_inv pr'"
proof (cases "h \<noteq> 0 \<and> lookup_handle (pr_reg pr) h \<noteq> None")
  case False
  then have "pr' = pr"
    using run by (auto simp: nexusrt_firmware_shutdown_def take_handle_def lookup_handle_def split: if_splits)
  then show ?thesis using i by simp
next
  case True
  then obtain fw where fw: "lookup_handle (pr_reg pr) h = Some fw" by blast
  then have h: "h = self" "pr_dispatch pr = sole_active v pf" "good (hw_in (pr_hw pr) fw)" using i by (auto simp: sole_inv_def)
  have "pr' = pr\<lparr>pr_hw := e_hw (fw_destroy pf (snd (shutdown pf (hw_in (pr_hw pr) fw)))), pr_reg := snd (take_handle h (pr_reg pr))\<rparr>"
    using run True fw h by (auto simp: nexusrt_firmware_shutdown_def take_handle_def lookup_handle_def split: prod.splits)
  then show ?thesis using i shuts [OF h(3)] by (auto simp: sole_inv_def hm.find_take h(1))
qed

lemma call_inv:
  assumes i: "sole_inv pr" and reach: "abi_reach ck pr" and run: "abi_exec ck c pr = Some (code, pr')"
    and c: "\<And>p a. c \<noteq> Firmware_init p a" "\<And>h. c \<noteq> Firmware_shutdown h"
  shows "sole_inv pr'"
proof (cases "lookup_handle (pr_reg pr) self")
  case None
  then have "lookup_handle (pr_reg pr) h = None" for h
    using i by (cases "lookup_handle (pr_reg pr) h") (auto simp: sole_inv_def)
  then show ?thesis using no_handle_inert [OF _ run c(1)] i by blast
next
  case (Some sp)
  then have d: "pr_dispatch pr = sole_active v pf" using i by (auto simp: sole_inv_def)
  have b: "dispatch_backend (pr_dispatch pr) (pr_hw pr) = (pf, pr_dispatch pr, pr_hw pr)" by (simp add: d)
  show ?thesis
  proof (cases "pr' = pr")
    case False
    obtain h fw fw' where fw: "lookup_handle (pr_reg pr) h = Some fw" and g: "good (hw_in (pr_hw pr) fw) \<longrightarrow> good fw'"
      and pr': "pr' = pr\<lparr>pr_dispatch := pr_dispatch pr, pr_hw := e_hw (fw_env fw'), pr_reg := register_handle h fw' (pr_reg pr)\<rparr>"
      using calls [OF reach b run c] False unfolding ctx_moves_def by blast
    have h: "h = self" "good fw'" using i fw g by (auto simp: sole_inv_def)
    have only: "h' = self \<and> x = fw'" if "lookup_handle (pr_reg pr') h' = Some x" for h' x
      using that i h(1) by (cases "h' = self") (auto simp: pr' hm.find_register sole_inv_def)
    have e: "lookup_handle (pr_reg pr') self = Some fw'" "pr_dispatch pr' = sole_active v pf" "pr_hw pr' = e_hw (fw_env fw')"
      by (simp_all add: pr' hm.find_register h(1) d)
    show ?thesis unfolding sole_inv_def e(2,3)
    proof (intro conjI allI impI)
      show "lookup_handle (pr_reg pr') self = None \<Longrightarrow> idle (e_hw (fw_env fw'))" using e(1) by simp
    qed (use only h(2) in \<open>auto dest: only\<close>)
  qed (use i in simp)
qed

lemma reach_inv: "sole_reach v pf self idle ck pr \<Longrightarrow> sole_inv pr"
proof (induction rule: sole_reach.induct)
  case (start pr)
  then show ?case by (simp add: sole_inv_def lookup_handle_def)
next
  case (call pr c code pr')
  show ?case
  proof (cases "(\<exists>p a. c = Firmware_init p a) \<or> (\<exists>h. c = Firmware_shutdown h)")
    case True
    then show ?thesis
    proof
      assume "\<exists>p a. c = Firmware_init p a"
      then obtain p where c: "c = Firmware_init p self" using call.hyps(3) by (auto simp: own_address_def)
      obtain code1 out pr1 where n: "nexusrt_firmware_init (ck_boot ck) p self pr = (code1, out, pr1)" using prod_cases3 by blast
      then have "pr' = pr1" using call.hyps(4) c by simp
      then show ?thesis using init_inv [OF call.IH _ n] call.hyps(2) c by (simp add: fresh_handle_def)
    next
      assume "\<exists>h. c = Firmware_shutdown h"
      then show ?thesis using shutdown_inv [OF call.IH] call.hyps(4) by auto
    qed
  next
    case False
    then show ?thesis using call_inv [OF call.IH sole_reach_abi [OF call.hyps(1)] call.hyps(4)] by blast
  qed
qed

lemma reach_good:
  assumes "sole_reach v pf self idle ck pr"
  shows "lookup_handle (pr_reg pr) h = Some fw \<Longrightarrow> h = self \<and> good (hw_in (pr_hw pr) fw)
      \<and> dispatch_backend (pr_dispatch pr) (pr_hw pr) = (pf, pr_dispatch pr, pr_hw pr)"
    and "lookup_handle (pr_reg pr) self = None \<Longrightarrow> idle (pr_hw pr)"
  using reach_inv [OF assms] by (auto simp: sole_inv_def)

lemma reach_next:
  assumes "sole_reach v pf self idle ck pr" and "fresh_handle c pr" and "own_address self c"
  obtains code pr' where "abi_exec ck c pr = Some (code, pr')" "sole_reach v pf self idle ck pr'"
  using abi_exec_ok [OF abi_reach_ok [OF sole_reach_abi [OF assms(1)]]] sole_reach.call [OF assms] by blast

end

end
