(* ===== verification/HostFiles.thy ===== *)
theory HostFiles
  imports Prelude "HOL-Library.Signed_Division"
begin

text \<open>
  The files and strings of the host as both backends use them: a file is the list of its bytes,
  \<^verbatim>\<open>fread\<close> and \<^verbatim>\<open>fwrite\<close> act on a window of it, and a C string ends at its first
  null character.
\<close>

type_synonym byte_list = "8 word list"

definition c_str :: "string \<Rightarrow> string" where
  "c_str s = takeWhile (\<lambda>c. c \<noteq> CHR 0x00) s"

text \<open>\<^verbatim>\<open>fseek(f, (long)off, SEEK_SET)\<close>: a negative offset is refused, and as the result is not
  looked at the position stays at the start.\<close>

definition file_pos :: "u64 \<Rightarrow> nat" where
  "file_pos off = (if sint off < 0 then 0 else nat (sint off))"

definition file_read :: "nat \<Rightarrow> nat \<Rightarrow> byte_list \<Rightarrow> byte_list" where
  "file_read pos n content = take n (drop pos content)"

definition file_write :: "nat \<Rightarrow> byte_list \<Rightarrow> byte_list \<Rightarrow> byte_list" where
  "file_write pos data content =
     (if data = [] then content
      else take pos (content @ replicate (pos - length content) 0) @ data @ drop (pos + length data) content)"

lemma file_write_read: "file_read pos (length data) (file_write pos data content) = data"
  by (simp add: file_read_def file_write_def)

lemma file_write_length: "data \<noteq> [] \<Longrightarrow> length (file_write pos data content) = max (length content) (pos + length data)"
  by (simp add: file_write_def)

lemma file_write_outside: "i < length content \<Longrightarrow> i < pos \<or> pos + length data \<le> i \<Longrightarrow> file_write pos data content ! i = content ! i"
  by (auto simp: file_write_def nth_append min_def)

lemma file_pos_high: "2 ^ 63 \<le> unat off \<Longrightarrow> file_pos off = 0"
proof -
  assume h: "2 ^ 63 \<le> unat off"
  have "int (2 ^ 63) \<le> int (unat off)" using h by (simp only: zle_int)
  then have "2 ^ 63 \<le> uint off" by simp
  then have "uint off div 2 ^ 63 = 1"
    using unsigned_less [of off, where 'a = int]
    by (intro int_div_pos_eq [of _ _ 1 "uint off - 2 ^ 63"]) simp_all
  then have "bit (uint off) 63" by (simp add: bit_iff_odd)
  then have "sint off < 0" unfolding sint_uint signed_take_bit_negative_iff by simp
  then show ?thesis by (simp add: file_pos_def)
qed

end
