(* ===== verification/CudaShim.thy ===== *)
theory CudaShim
  imports TaskGraph Boot HostFiles
begin

text \<open>
  The CUDA backend (\<^verbatim>\<open>src/firmware/cuda_driver_shim.cu\<close>).  libcuda is not part of the
  repository: its entry points are a record of functions over a driver state, which the shim's
  operations take as an argument.  An output variable that the code reads whatever the result
  code is an option, \<^term>\<open>None\<close> meaning that the call left it alone.  The shim's own state
  is the side table of \<^verbatim>\<open>CudaState\<close>, keyed by the address of the context, the tensor maps it
  has made with \<^verbatim>\<open>new\<close>, and the files it opens; \<open>ch_crashed\<close> records a null
  dereference or the deletion of an object it does not own.  \<open>self\<close> is the address of the
  context that calls.  Signed overflow of a stream priority is
  outside the model, and so are the trace messages on stderr.
\<close>

subsection \<open>libcuda\<close>

datatype cu_result = CUDA_SUCCESS | CUDA_ERROR_OUT_OF_MEMORY | CUDA_ERROR_INVALID_VALUE
  | CUDA_ERROR_NOT_FOUND | CUDA_ERROR_NOT_SUPPORTED | CUDA_ERROR_other nat

datatype cu_attribute = COMPUTE_CAPABILITY_MAJOR | COMPUTE_CAPABILITY_MINOR | MULTIPROCESSOR_COUNT
  | MAX_SHARED_MEMORY_PER_MULTIPROCESSOR | GPU_DIRECT_RDMA_SUPPORTED | NVLINK_BANDWIDTH_KBPS

datatype tmap_type = BFLOAT16 | FLOAT32 | UINT16

type_synonym tensor_map = "u64 list"

record 'd cuda_driver =
  cu_code :: "cu_result \<Rightarrow> int"
  cuInit :: "'d \<Rightarrow> cu_result \<times> 'd"
  cuDeviceGetCount :: "'d \<Rightarrow> cu_result \<times> int"
  cuDeviceGet :: "int \<Rightarrow> 'd \<Rightarrow> cu_result \<times> int option"
  cuDeviceGetName :: "int \<Rightarrow> 'd \<Rightarrow> string"
  cuDeviceGetAttribute :: "cu_attribute \<Rightarrow> int \<Rightarrow> 'd \<Rightarrow> int option"
  cuDeviceTotalMem :: "int \<Rightarrow> 'd \<Rightarrow> u64 option"
  cuDeviceSetMemPool :: "int \<Rightarrow> 'd \<Rightarrow> cu_result \<times> 'd"
  cuDevicePrimaryCtxRetain :: "int \<Rightarrow> 'd \<Rightarrow> cu_result \<times> ptr \<times> 'd"
  cuCtxSetCurrent :: "ptr \<Rightarrow> 'd \<Rightarrow> cu_result \<times> 'd"
  cuMemAddressReserve :: "u64 \<Rightarrow> 'd \<Rightarrow> cu_result \<times> ptr \<times> 'd"
  cuMemAddressFree :: "ptr \<Rightarrow> u64 \<Rightarrow> 'd \<Rightarrow> cu_result \<times> 'd"
  cuMemCreate :: "u64 \<Rightarrow> int \<Rightarrow> 'd \<Rightarrow> cu_result \<times> ptr \<times> 'd"
  cuMemCreateCompressed :: "u64 \<Rightarrow> int \<Rightarrow> 'd \<Rightarrow> cu_result \<times> ptr \<times> 'd"
  cuMemRelease :: "ptr \<Rightarrow> 'd \<Rightarrow> cu_result \<times> 'd"
  cuMemMap :: "ptr \<Rightarrow> u64 \<Rightarrow> ptr \<Rightarrow> 'd \<Rightarrow> cu_result \<times> 'd"
  cuMemUnmap :: "ptr \<Rightarrow> u64 \<Rightarrow> 'd \<Rightarrow> cu_result \<times> 'd"
  cuMemSetAccess :: "ptr \<Rightarrow> u64 \<Rightarrow> int \<Rightarrow> 'd \<Rightarrow> cu_result \<times> 'd"
  cuCtxGetStreamPriorityRange :: "'d \<Rightarrow> (int \<times> int) option"
  cuStreamCreateWithPriority :: "int \<Rightarrow> 'd \<Rightarrow> cu_result \<times> ptr \<times> 'd"
  cuStreamDestroy :: "ptr \<Rightarrow> 'd \<Rightarrow> cu_result \<times> 'd"
  cuStreamSynchronize :: "ptr \<Rightarrow> 'd \<Rightarrow> cu_result \<times> 'd"
  cuModuleLoad :: "string \<Rightarrow> 'd \<Rightarrow> cu_result \<times> ptr \<times> 'd"
  cuModuleLoadData :: "string \<Rightarrow> 'd \<Rightarrow> cu_result \<times> ptr \<times> 'd"
  cuFuncSetMaxDynamicShared :: "ptr \<Rightarrow> u32 \<Rightarrow> 'd \<Rightarrow> cu_result \<times> 'd"
  cuLaunchKernel :: "ptr \<Rightarrow> u32 \<times> u32 \<times> u32 \<Rightarrow> u32 \<times> u32 \<times> u32 \<Rightarrow> u32 \<Rightarrow> ptr \<Rightarrow> ptr list \<Rightarrow> 'd \<Rightarrow> cu_result \<times> 'd"
  cuMemAlloc :: "u64 \<Rightarrow> 'd \<Rightarrow> cu_result \<times> ptr \<times> 'd"
  cuMemFree :: "ptr \<Rightarrow> 'd \<Rightarrow> cu_result \<times> 'd"
  cuMemPrefetchAsync :: "ptr \<Rightarrow> u64 \<Rightarrow> int \<Rightarrow> 'd \<Rightarrow> cu_result \<times> 'd"
  cuMemAllocHost :: "u64 \<Rightarrow> 'd \<Rightarrow> cu_result \<times> ptr \<times> 'd"
  cuMemFreeHost :: "ptr \<Rightarrow> 'd \<Rightarrow> cu_result \<times> 'd"
  cuMemcpyHtoD :: "ptr \<Rightarrow> byte_list \<Rightarrow> 'd \<Rightarrow> cu_result \<times> 'd"
  cuMemcpyDtoH :: "ptr \<Rightarrow> u64 \<Rightarrow> 'd \<Rightarrow> cu_result \<times> byte_list \<times> 'd"
  cuMemcpyHtoDAsync :: "ptr \<Rightarrow> ptr \<Rightarrow> u64 \<Rightarrow> ptr \<Rightarrow> 'd \<Rightarrow> cu_result \<times> 'd"
  cuMemcpyDtoHAsync :: "ptr \<Rightarrow> ptr \<Rightarrow> u64 \<Rightarrow> ptr \<Rightarrow> 'd \<Rightarrow> cu_result \<times> 'd"
  cuMemcpyDtoDAsync :: "ptr \<Rightarrow> ptr \<Rightarrow> u64 \<Rightarrow> ptr \<Rightarrow> 'd \<Rightarrow> cu_result \<times> 'd"
  cuTensorMapEncodeTiled :: "tmap_type \<Rightarrow> ptr \<Rightarrow> u64 list \<Rightarrow> u64 list \<Rightarrow> u32 list \<Rightarrow> int \<Rightarrow> 'd \<Rightarrow> cu_result \<times> tensor_map"

definition store :: "'a option \<Rightarrow> 'a \<Rightarrow> 'a" where
  "store out x = (case out of None \<Rightarrow> x | Some y \<Rightarrow> y)"

subsection \<open>The state of the shim\<close>

record cuda_state =
  st_device :: int
  st_primary :: ptr
  st_compute_root :: ptr
  st_dma_root :: ptr
  st_fence_root :: ptr
  st_last_module :: ptr
  st_fns :: "(string, ptr) umap"
  st_gds_inited :: bool
  st_grdma_inited :: bool

definition cuda_state_default :: cuda_state where
  "cuda_state_default = \<lparr>st_device = -1, st_primary = 0, st_compute_root = 0, st_dma_root = 0, st_fence_root = 0,
     st_last_module = 0, st_fns = [], st_gds_inited = False, st_grdma_inited = False\<rparr>"

record 'd cuda_hw =
  ch_drv :: 'd
  ch_states :: "(ptr, cuda_state) umap"
  ch_tmaps :: "(ptr, tensor_map) umap"
  ch_next :: u64
  ch_files :: "(string, byte_list) umap"
  ch_crashed :: bool

type_synonym 'd cuda_env = "'d cuda_hw env"

abbreviation drv_of :: "'d cuda_env \<Rightarrow> 'd" where
  "drv_of env \<equiv> ch_drv (e_hw env)"

definition put_drv :: "'d \<Rightarrow> 'd cuda_env \<Rightarrow> 'd cuda_env" where
  "put_drv d env = env\<lparr>e_hw := (e_hw env)\<lparr>ch_drv := d\<rparr>\<rparr>"

definition crash :: "'d cuda_env \<Rightarrow> 'd cuda_env" where
  "crash env = env\<lparr>e_hw := (e_hw env)\<lparr>ch_crashed := True\<rparr>\<rparr>"

definition put_state :: "ptr \<Rightarrow> cuda_state \<Rightarrow> 'd cuda_env \<Rightarrow> 'd cuda_env" where
  "put_state self s env = env\<lparr>e_hw := (e_hw env)\<lparr>ch_states := AList.update self s (ch_states (e_hw env))\<rparr>\<rparr>"

definition cu_to_status :: "cu_result \<Rightarrow> status" where
  "cu_to_status r = (case r of CUDA_SUCCESS \<Rightarrow> Ok | CUDA_ERROR_OUT_OF_MEMORY \<Rightarrow> OutOfMemory
     | CUDA_ERROR_INVALID_VALUE \<Rightarrow> InvalidArgument | CUDA_ERROR_NOT_FOUND \<Rightarrow> DeviceNotFound
     | CUDA_ERROR_NOT_SUPPORTED \<Rightarrow> NotImplemented | CUDA_ERROR_other _ \<Rightarrow> DriverError)"

text \<open>\<^verbatim>\<open>state\<close>: the entry of the context, made on first use; null when the primary context
  cannot be retained.\<close>

definition cu_state :: "'d cuda_driver \<Rightarrow> ptr \<Rightarrow> 'd cuda_env \<Rightarrow> cuda_state option \<times> 'd cuda_env" where
  "cu_state cu self env =
     (case map_of (ch_states (e_hw env)) self of
        Some s \<Rightarrow> (Some s, env)
      | None \<Rightarrow>
          (let p = cuda_state_default\<lparr>st_device := store (snd (cuDeviceGet cu 0 (drv_of env))) (-1)\<rparr>;
               (r, primary, d1) = cuDevicePrimaryCtxRetain cu (st_device p) (drv_of env)
           in if r \<noteq> CUDA_SUCCESS then (None, put_drv d1 env)
              else (let p1 = p\<lparr>st_primary := primary\<rparr>;
                        d2 = snd (cuCtxSetCurrent cu primary d1)
                    in (Some p1, put_state self p1 (put_drv d2 env)))))"

text \<open>A driver call whose result code the caller looks at, and one it throws away.\<close>

definition drv_call :: "('d \<Rightarrow> cu_result \<times> 'd) \<Rightarrow> 'd cuda_env \<Rightarrow> cu_result \<times> 'd cuda_env" where
  "drv_call f env = (let (r, d) = f (drv_of env) in (r, put_drv d env))"

definition drv_new :: "('d \<Rightarrow> cu_result \<times> 'b \<times> 'd) \<Rightarrow> 'd cuda_env \<Rightarrow> cu_result \<times> 'b \<times> 'd cuda_env" where
  "drv_new f env = (let (r, x, d) = f (drv_of env) in (r, x, put_drv d env))"

definition drv_do :: "('d \<Rightarrow> cu_result \<times> 'd) \<Rightarrow> 'd cuda_env \<Rightarrow> 'd cuda_env" where
  "drv_do f env = put_drv (snd (f (drv_of env))) env"

subsection \<open>Probing and describing\<close>

definition cuda_probe :: "'d cuda_driver \<Rightarrow> 'd cuda_hw \<Rightarrow> bool \<times> 'd cuda_hw" where
  "cuda_probe cu hw =
     (let (r, d) = cuInit cu (ch_drv hw); hw1 = hw\<lparr>ch_drv := d\<rparr>
      in if r \<noteq> CUDA_SUCCESS then (False, hw1)
         else (let (c, n) = cuDeviceGetCount cu d in (c = CUDA_SUCCESS \<and> n > 0, hw1)))"

definition arch_of_major :: "int \<Rightarrow> arch" where
  "arch_of_major major = (if major = 6 then Pascal else if major = 7 then Turing
     else if major = 8 then Ampere else if major = 9 then Hopper else Unknown_arch)"

text \<open>The NVLink query is compiled only where \<^verbatim>\<open>CU_DEVICE_ATTRIBUTE_NVLINK_BANDWIDTH_KBPS\<close> is
  a macro; otherwise the driver record answers \<^term>\<open>None\<close>.\<close>

definition cuda_describe_device :: "'d cuda_driver \<Rightarrow> string \<Rightarrow> 'd cuda_hw \<Rightarrow> device_desc \<times> 'd cuda_hw" where
  "cuda_describe_device cu profile hw =
     (let d0 = device_desc_default\<lparr>dd_vendor := Nvidia\<rparr>; drv = ch_drv hw;
          (rc, n) = cuDeviceGetCount cu drv
      in if rc \<noteq> CUDA_SUCCESS \<or> n = 0 then (d0, hw)
         else (let (rg, out) = cuDeviceGet cu 0 drv; dev = store out n
               in if rg \<noteq> CUDA_SUCCESS then (d0, hw)
                  else (let attr = (\<lambda>a. store (cuDeviceGetAttribute cu a dev drv) 0);
                            major = attr COMPUTE_CAPABILITY_MAJOR;
                            a = arch_of_major major;
                            hopper = (a = Hopper)
                        in (d0\<lparr>dd_name := c_str (cuDeviceGetName cu dev drv),
                              dd_cc_major := major, dd_cc_minor := attr COMPUTE_CAPABILITY_MINOR,
                              dd_arch := a,
                              dd_hbm_capacity_bytes := store (cuDeviceTotalMem cu dev drv) 0,
                              dd_sm_count := of_int (attr MULTIPROCESSOR_COUNT),
                              dd_smem_per_sm_bytes := of_int (attr MAX_SHARED_MEMORY_PER_MULTIPROCESSOR),
                              dd_features := no_features\<lparr>ff_grdma := attr GPU_DIRECT_RDMA_SUPPORTED \<noteq> 0, ff_gds := True,
                                ff_tma := hopper, ff_ilc := hopper, ff_dsm := hopper, ff_clusters := hopper\<rparr>,
                              dd_nvlink_bandwidth_gbs := of_int (attr NVLINK_BANDWIDTH_KBPS sdiv (1024 * 1024)),
                              dd_hbm_bandwidth_bps := (if hopper then 3352 * 1024 * 1024 * 1024 else 2039 * 1024 * 1024 * 1024)\<rparr>, hw))))"

subsection \<open>Clocks and the address space\<close>

definition cuda_lock_clocks :: "'d cuda_driver \<Rightarrow> ptr \<Rightarrow> device_desc \<Rightarrow> 'd cuda_env \<Rightarrow> status \<times> 'd cuda_env" where
  "cuda_lock_clocks cu self d env =
     (case cu_state cu self env of
        (None, env1) \<Rightarrow> (InvalidArgument, env1)
      | (Some s, env1) \<Rightarrow>
          (Ok, if dd_arch d = Hopper then drv_do (cuDeviceSetMemPool cu (st_device s)) env1 else env1))"

definition put_vaddress :: "u64 \<Rightarrow> u64 \<Rightarrow> 'd cuda_env \<Rightarrow> 'd cuda_env" where
  "put_vaddress base n env = env\<lparr>e_plat := (e_plat env)\<lparr>ph_vaddress_base := base, ph_vaddress_size := n\<rparr>\<rparr>"

definition cuda_reserve_vaddress :: "'d cuda_driver \<Rightarrow> ptr \<Rightarrow> u64 \<Rightarrow> 'd cuda_env \<Rightarrow> status \<times> 'd cuda_env" where
  "cuda_reserve_vaddress cu self bytes env =
     (case cu_state cu self env of
        (None, env1) \<Rightarrow> (InvalidArgument, env1)
      | (Some s, env1) \<Rightarrow>
          if dd_arch (e_device env1) = Pascal \<or> dd_arch (e_device env1) = Turing
          then (Ok, put_vaddress 0 0 env1)
          else (let (r, base, env2) = drv_new (cuMemAddressReserve cu bytes) env1
                in if r \<noteq> CUDA_SUCCESS then (cu_to_status r, env2) else (Ok, put_vaddress base bytes env2)))"

definition cuda_map_hbm_pool :: "'d cuda_driver \<Rightarrow> ptr \<Rightarrow> 'd cuda_env \<Rightarrow> status \<times> 'd cuda_env" where
  "cuda_map_hbm_pool cu self env =
     (case cu_state cu self env of
        (None, env1) \<Rightarrow> (InvalidArgument, env1)
      | (Some s, env1) \<Rightarrow>
          (let base = ph_vaddress_base (e_plat env1); pool = e_hbm_pool_bytes env1
           in if base = 0 \<or> pool = 0 then (Ok, env1)
              else (let (r, h, env2) = drv_new (cuMemCreate cu pool (st_device s)) env1
                    in if r \<noteq> CUDA_SUCCESS then (cu_to_status r, env2)
                       else (let (r, env3) = drv_call (cuMemMap cu base pool h) env2
                             in if r \<noteq> CUDA_SUCCESS then (cu_to_status r, drv_do (cuMemRelease cu h) env3)
                                else (let (r, env4) = drv_call (cuMemSetAccess cu base pool (st_device s)) env3
                                      in (cu_to_status r, env4))))))"

definition cuda_release_vaddress :: "'d cuda_driver \<Rightarrow> 'd cuda_env \<Rightarrow> status \<times> 'd cuda_env" where
  "cuda_release_vaddress cu env =
     (let base = ph_vaddress_base (e_plat env); pool = e_hbm_pool_bytes env
      in if base = 0 then (Ok, env)
         else (let env1 = drv_do (cuMemUnmap cu base pool) env;
                   env2 = drv_do (cuMemAddressFree cu base pool) env1
               in (Ok, put_vaddress 0 0 env2)))"

subsection \<open>Streams, modules, launches\<close>

definition clamp_priority :: "(int \<times> int) option \<Rightarrow> int \<Rightarrow> int" where
  "clamp_priority lg priority =
     (let (least, greatest) = store lg (0, 0);
          prio = greatest + priority;
          prio = (if prio < greatest then greatest else prio)
      in if prio > least then least else prio)"

definition cuda_create_stream :: "'d cuda_driver \<Rightarrow> ptr \<Rightarrow> stream_class \<Rightarrow> int \<Rightarrow> 'd cuda_env \<Rightarrow> status \<times> ptr \<times> 'd cuda_env" where
  "cuda_create_stream cu self klass priority env =
     (case cu_state cu self env of
        (None, env1) \<Rightarrow> (InvalidArgument, 0, env1)
      | (Some s, env1) \<Rightarrow>
          (let prio = clamp_priority (cuCtxGetStreamPriorityRange cu (drv_of env1)) priority;
               (r, stream, env2) = drv_new (cuStreamCreateWithPriority cu prio) env1
           in if r \<noteq> CUDA_SUCCESS then (cu_to_status r, 0, env2) else (Ok, stream, env2)))"

definition cuda_destroy_stream :: "'d cuda_driver \<Rightarrow> ptr \<Rightarrow> 'd cuda_env \<Rightarrow> status \<times> 'd cuda_env" where
  "cuda_destroy_stream cu stream env = (Ok, if stream = 0 then env else drv_do (cuStreamDestroy cu stream) env)"

definition cuda_sync_stream :: "'d cuda_driver \<Rightarrow> ptr \<Rightarrow> 'd cuda_env \<Rightarrow> status \<times> 'd cuda_env" where
  "cuda_sync_stream cu stream env =
     (let (r, env1) = drv_call (cuStreamSynchronize cu stream) env in (cu_to_status r, env1))"

definition is_binary_path :: "string \<Rightarrow> bool" where
  "is_binary_path src = (src \<noteq> [] \<and> hd src = CHR ''/'' \<and> length src > 5
     \<and> (str_contains src ''.cubin'' \<or> str_contains src ''.fatbin''))"

definition cuda_load_module :: "'d cuda_driver \<Rightarrow> ptr \<Rightarrow> string \<Rightarrow> string \<Rightarrow> kernel_module \<Rightarrow> 'd cuda_env
    \<Rightarrow> status \<times> kernel_module \<times> 'd cuda_env" where
  "cuda_load_module cu self name src out env =
     (case cu_state cu self env of
        (None, env1) \<Rightarrow> (InvalidArgument, out, env1)
      | (Some s, env1) \<Rightarrow>
          (let (r, m, env2) = (if is_binary_path src then drv_new (cuModuleLoad cu (c_str src)) env1
                               else drv_new (cuModuleLoadData cu (c_str src)) env1)
           in if r \<noteq> CUDA_SUCCESS then (cu_to_status r, out, env2) else (Ok, out\<lparr>km_raw_module := m\<rparr>, env2)))"

definition cuda_launch_kernel :: "'d cuda_driver \<Rightarrow> ptr \<Rightarrow> ptr \<Rightarrow> u32 \<times> u32 \<times> u32 \<Rightarrow> u32 \<times> u32 \<times> u32 \<Rightarrow> u32 \<Rightarrow> ptr
    \<Rightarrow> ptr list \<Rightarrow> 'd cuda_env \<Rightarrow> status \<times> 'd cuda_env" where
  "cuda_launch_kernel cu self fn grid block smem stream args env =
     (case cu_state cu self env of
        (None, env1) \<Rightarrow> (InvalidArgument, env1)
      | (Some s, env1) \<Rightarrow>
          (let env2 = (if smem > 0 then drv_do (cuFuncSetMaxDynamicShared cu fn smem) env1 else env1);
               (r, env3) = drv_call (cuLaunchKernel cu fn grid block smem stream args) env2
           in (cu_to_status r, env3)))"

subsection \<open>Device memory\<close>

definition cuda_alloc_hbm :: "'d cuda_driver \<Rightarrow> ptr \<Rightarrow> u64 \<Rightarrow> 'd cuda_env \<Rightarrow> status \<times> ptr \<times> 'd cuda_env" where
  "cuda_alloc_hbm cu self bytes env =
     (case cu_state cu self env of
        (None, env1) \<Rightarrow> (InvalidArgument, 0, env1)
      | (Some s, env1) \<Rightarrow>
          (let (r, p, env2) = drv_new (cuMemAlloc cu bytes) env1
           in if r \<noteq> CUDA_SUCCESS then (cu_to_status r, 0, env2) else (Ok, p, env2)))"

definition cuda_free_hbm :: "'d cuda_driver \<Rightarrow> ptr \<Rightarrow> 'd cuda_env \<Rightarrow> status \<times> 'd cuda_env" where
  "cuda_free_hbm cu p env = (Ok, if p = 0 then env else drv_do (cuMemFree cu p) env)"

definition cuda_prefetch_range :: "'d cuda_driver \<Rightarrow> ptr \<Rightarrow> u64 \<Rightarrow> u64 \<Rightarrow> 'd cuda_env \<Rightarrow> status \<times> 'd cuda_env" where
  "cuda_prefetch_range cu self vaddr bytes env =
     (case cu_state cu self env of
        (None, env1) \<Rightarrow> (InvalidArgument, env1)
      | (Some s, env1) \<Rightarrow>
          (let (r, env2) = drv_call (cuMemPrefetchAsync cu vaddr bytes (st_device s)) env1
           in if r = CUDA_ERROR_INVALID_VALUE \<or> r = CUDA_ERROR_NOT_SUPPORTED then (Ok, env2)
              else (cu_to_status r, env2)))"

subsection \<open>Storage\<close>

definition put_file :: "string \<Rightarrow> byte_list \<Rightarrow> 'd cuda_env \<Rightarrow> 'd cuda_env" where
  "put_file path content env = env\<lparr>e_hw := (e_hw env)\<lparr>ch_files := AList.update path content (ch_files (e_hw env))\<rparr>\<rparr>"

definition cuda_gds_init :: "'d cuda_driver \<Rightarrow> ptr \<Rightarrow> 'd cuda_env \<Rightarrow> status \<times> 'd cuda_env" where
  "cuda_gds_init cu self env = (case cu_state cu self env of
     (None, env1) \<Rightarrow> (Ok, crash env1)
   | (Some s, env1) \<Rightarrow> (Ok, put_state self (s\<lparr>st_gds_inited := True\<rparr>) env1))"

definition cuda_gds_fini :: "'d cuda_driver \<Rightarrow> ptr \<Rightarrow> 'd cuda_env \<Rightarrow> status \<times> 'd cuda_env" where
  "cuda_gds_fini cu self env = (case cu_state cu self env of
     (None, env1) \<Rightarrow> (Ok, crash env1)
   | (Some s, env1) \<Rightarrow> (Ok, put_state self (s\<lparr>st_gds_inited := False\<rparr>) env1))"

definition cuda_grdma_init :: "'d cuda_driver \<Rightarrow> ptr \<Rightarrow> 'd cuda_env \<Rightarrow> status \<times> 'd cuda_env" where
  "cuda_grdma_init cu self env = (case cu_state cu self env of
     (None, env1) \<Rightarrow> (Ok, crash env1)
   | (Some s, env1) \<Rightarrow> (Ok, put_state self (s\<lparr>st_grdma_inited := True\<rparr>) env1))"

definition cuda_grdma_fini :: "'d cuda_driver \<Rightarrow> ptr \<Rightarrow> 'd cuda_env \<Rightarrow> status \<times> 'd cuda_env" where
  "cuda_grdma_fini cu self env = (case cu_state cu self env of
     (None, env1) \<Rightarrow> (Ok, crash env1)
   | (Some s, env1) \<Rightarrow> (Ok, put_state self (s\<lparr>st_grdma_inited := False\<rparr>) env1))"

definition cuda_gds_read_fallback :: "'d cuda_driver \<Rightarrow> ptr \<Rightarrow> string \<Rightarrow> u64 \<Rightarrow> ptr \<Rightarrow> u64 \<Rightarrow> 'd cuda_env
    \<Rightarrow> status \<times> 'd cuda_env" where
  "cuda_gds_read_fallback cu self path off dst bytes env =
     (let (r, host_buf, env1) = drv_new (cuMemAllocHost cu bytes) env
      in if r \<noteq> CUDA_SUCCESS then (cu_to_status r, env1)
         else (case map_of (ch_files (e_hw env1)) (c_str path) of
                 None \<Rightarrow> (IoError, drv_do (cuMemFreeHost cu host_buf) env1)
               | Some content \<Rightarrow>
                   (let buf = file_read (file_pos off) (unat bytes) content
                    in if length buf \<noteq> unat bytes then (IoError, drv_do (cuMemFreeHost cu host_buf) env1)
                       else (let (s, env2) = cu_state cu self env1;
                                 (cr, env3) = drv_call (cuMemcpyHtoD cu dst buf) env2
                             in (cu_to_status cr, drv_do (cuMemFreeHost cu host_buf) env3)))))"

definition cuda_gds_write_fallback :: "'d cuda_driver \<Rightarrow> ptr \<Rightarrow> string \<Rightarrow> u64 \<Rightarrow> ptr \<Rightarrow> u64 \<Rightarrow> 'd cuda_env
    \<Rightarrow> status \<times> 'd cuda_env" where
  "cuda_gds_write_fallback cu self path off src bytes env =
     (let (r, host_buf, env1) = drv_new (cuMemAllocHost cu bytes) env
      in if r \<noteq> CUDA_SUCCESS then (cu_to_status r, env1)
         else (let (cr, buf, env2) = drv_new (cuMemcpyDtoH cu src bytes) env1
               in if cr \<noteq> CUDA_SUCCESS then (cu_to_status cr, drv_do (cuMemFreeHost cu host_buf) env2)
                  else (case map_of (ch_files (e_hw env2)) (c_str path) of
                          None \<Rightarrow> (IoError, drv_do (cuMemFreeHost cu host_buf) env2)
                        | Some content \<Rightarrow>
                            (let env3 = put_file (c_str path) (file_write (file_pos off) buf content) env2
                             in (if length buf = unat bytes then Ok else IoError, drv_do (cuMemFreeHost cu host_buf) env3)))))"

subsection \<open>Fault routing\<close>

definition cuda_install_fault_buffer :: "ptr \<Rightarrow> u32 \<Rightarrow> 'd cuda_env \<Rightarrow> status \<times> 'd cuda_env" where
  "cuda_install_fault_buffer buf slots env = (Ok, env)"

definition cuda_uninstall_fault_buffer :: "ptr \<Rightarrow> 'd cuda_env \<Rightarrow> status \<times> 'd cuda_env" where
  "cuda_uninstall_fault_buffer buf env = (Ok, env)"

definition cuda_resolve_fault :: "'d cuda_driver \<Rightarrow> ptr \<Rightarrow> u64 \<Rightarrow> 'd cuda_env \<Rightarrow> status \<times> 'd cuda_env" where
  "cuda_resolve_fault cu self vaddr env = cuda_prefetch_range cu self vaddr 4096 env"

subsection \<open>Tensor maps and compression\<close>

definition swizzle_code :: "tma_swizzle \<Rightarrow> int" where
  "swizzle_code s = (case s of Swizzle_None \<Rightarrow> 0 | B32 \<Rightarrow> 1 | B64 \<Rightarrow> 2 | B128 \<Rightarrow> 3)"

definition tmap_dtype :: "u32 \<Rightarrow> tmap_type" where
  "tmap_dtype elem_size = (if elem_size = 2 then BFLOAT16 else if elem_size = 4 then FLOAT32 else UINT16)"

text \<open>\<open>hopper\<close> is the build switch \<^verbatim>\<open>NEXUSRT_HAVE_CUDA_HOPPER\<close>; \<^verbatim>\<open>new\<close> hands out
  increasing addresses.  The result code of the encoding call is not looked at.\<close>

definition cuda_tma_encode :: "bool \<Rightarrow> 'd cuda_driver \<Rightarrow> tma_descriptor \<Rightarrow> 'd cuda_env \<Rightarrow> status \<times> tma_descriptor \<times> 'd cuda_env" where
  "cuda_tma_encode hopper cu d env =
     (if \<not> hopper then (NotImplemented, d, env)
      else (let dtype = tmap_dtype (td_elem_size d);
                tmap = snd (cuTensorMapEncodeTiled cu dtype (td_host_ptr d) (td_shape d) (td_stride d)
                  [128, 128] (swizzle_code (td_swizzle d)) (drv_of env));
                hw = e_hw env; p = ch_next hw
            in (Ok, d\<lparr>td_raw := p\<rparr>, env\<lparr>e_hw := hw\<lparr>ch_next := p + 1, ch_tmaps := AList.update p tmap (ch_tmaps hw)\<rparr>\<rparr>)))"

definition cuda_tma_issue_copy :: "tma_descriptor \<Rightarrow> ptr \<Rightarrow> u64 \<Rightarrow> u64 \<Rightarrow> ptr \<Rightarrow> 'd cuda_env \<Rightarrow> status \<times> 'd cuda_env" where
  "cuda_tma_issue_copy d smem x y stream env = (Ok, env)"

definition cuda_tma_release :: "ptr \<Rightarrow> 'd cuda_env \<Rightarrow> status \<times> 'd cuda_env" where
  "cuda_tma_release raw env =
     (if raw = 0 then (Ok, env)
      else (case map_of (ch_tmaps (e_hw env)) raw of
              None \<Rightarrow> (Ok, crash env)
            | Some _ \<Rightarrow> (Ok, env\<lparr>e_hw := (e_hw env)\<lparr>ch_tmaps := AList.delete raw (ch_tmaps (e_hw env))\<rparr>\<rparr>)))"

definition cuda_ilc_tag :: "ptr \<Rightarrow> 'd cuda_env \<Rightarrow> status \<times> 'd cuda_env" where
  "cuda_ilc_tag p env = (Ok, env)"

definition cuda_ilc_untag :: "ptr \<Rightarrow> 'd cuda_env \<Rightarrow> status \<times> 'd cuda_env" where
  "cuda_ilc_untag p env = (Ok, env)"

subsection \<open>DMA\<close>

text \<open>The event is 0 where the code leaves the caller's null-initialised variable alone.\<close>

definition cuda_dma_submit :: "'d cuda_driver \<Rightarrow> ptr \<Rightarrow> dma_request \<Rightarrow> 'd cuda_env \<Rightarrow> status \<times> ptr \<times> 'd cuda_env" where
  "cuda_dma_submit cu self r env =
     (case cu_state cu self env of
        (None, env1) \<Rightarrow> (InvalidArgument, 0, env1)
      | (Some s, env1) \<Rightarrow>
          (let stream = st_dma_root s;
               async = (\<lambda>f. let (cr, env2) = drv_call (f (dr_dst r) (dr_src r) (dr_bytes r) stream) env1
                            in (cu_to_status cr, stream, env2))
           in case dr_kind r of
                H2D \<Rightarrow> async (cuMemcpyHtoDAsync cu)
              | D2H \<Rightarrow> async (cuMemcpyDtoHAsync cu)
              | D2D \<Rightarrow> async (cuMemcpyDtoDAsync cu)
              | GdsRead \<Rightarrow> (let (s, env2) = cuda_gds_read_fallback cu self (dr_nvme_path r) (dr_nvme_offset r) (dr_dst r) (dr_bytes r) env1
                            in (s, 0, env2))
              | GdsWrite \<Rightarrow> (let (s, env2) = cuda_gds_write_fallback cu self (dr_nvme_path r) (dr_nvme_offset r) (dr_src r) (dr_bytes r) env1
                             in (s, 0, env2))
              | GrdmaSend \<Rightarrow> (NotImplemented, 0, env1)
              | GrdmaRecv \<Rightarrow> (NotImplemented, 0, env1)))"

definition cuda_dma_wait :: "'d cuda_driver \<Rightarrow> ptr \<Rightarrow> u32 \<Rightarrow> 'd cuda_env \<Rightarrow> status \<times> 'd cuda_env" where
  "cuda_dma_wait cu ev ms env =
     (if ev = 0 then (Ok, env)
      else (let (r, env1) = drv_call (cuStreamSynchronize cu ev) env in (cu_to_status r, env1)))"

subsection \<open>The backend\<close>

definition cuda_backend :: "bool \<Rightarrow> 'd cuda_driver \<Rightarrow> ptr \<Rightarrow> 'd cuda_hw backend" where
  "cuda_backend hopper cu self = \<lparr>
     b_probe = cuda_probe cu,
     b_describe_device = cuda_describe_device cu,
     b_lock_clocks = cuda_lock_clocks cu self,
     b_reserve_vaddress = cuda_reserve_vaddress cu self,
     b_map_hbm_pool = cuda_map_hbm_pool cu self,
     b_release_vaddress = cuda_release_vaddress cu,
     b_alloc_hbm = cuda_alloc_hbm cu self,
     b_free_hbm = cuda_free_hbm cu,
     b_prefetch_range = cuda_prefetch_range cu self,
     b_create_stream = cuda_create_stream cu self,
     b_destroy_stream = cuda_destroy_stream cu,
     b_sync_stream = cuda_sync_stream cu,
     b_load_module = cuda_load_module cu self,
     b_launch_kernel = cuda_launch_kernel cu self,
     b_gds_init = cuda_gds_init cu self,
     b_gds_fini = cuda_gds_fini cu self,
     b_gds_read_fallback = cuda_gds_read_fallback cu self,
     b_gds_write_fallback = cuda_gds_write_fallback cu self,
     b_grdma_init = cuda_grdma_init cu self,
     b_grdma_fini = cuda_grdma_fini cu self,
     b_install_fault_buffer = cuda_install_fault_buffer,
     b_uninstall_fault_buffer = cuda_uninstall_fault_buffer,
     b_resolve_fault = cuda_resolve_fault cu self,
     b_tma_encode = cuda_tma_encode hopper cu,
     b_tma_issue_copy = cuda_tma_issue_copy,
     b_tma_release = cuda_tma_release,
     b_ilc_tag = cuda_ilc_tag,
     b_ilc_untag = cuda_ilc_untag,
     b_dma_submit = cuda_dma_submit cu self,
     b_dma_wait = cuda_dma_wait cu\<rparr>"

text \<open>The static initialiser registers the backend for NVIDIA when the process starts.\<close>

definition cuda_auto_register :: "bool \<Rightarrow> 'd cuda_driver \<Rightarrow> ptr \<Rightarrow> 'd cuda_hw dispatch \<Rightarrow> 'd cuda_hw dispatch" where
  "cuda_auto_register hopper cu self disp = register_backend Nvidia (cuda_backend hopper cu self) disp"

text \<open>A process with this backend alone selects it exactly when a CUDA device answers the probe;
  otherwise \<^verbatim>\<open>backend()\<close> is the null backend, and nothing is selected.\<close>

lemma cuda_selected:
  assumes "cuda_probe cu hw = (found, hw')"
  shows "dispatch_probe (cuda_auto_register hopper cu self dispatch_init) hw
      = (found, (cuda_auto_register hopper cu self dispatch_init)
           \<lparr>d_active := if found then Some (cuda_backend hopper cu self) else None\<rparr>, hw')"
  using assms
  by (simp add: dispatch_probe_def cuda_auto_register_def register_backend_def dispatch_init_def cuda_backend_def)

lemma cuda_absent_boot:
  assumes "cuda_probe cu hw = (False, hw')"
  shows "fst (boot clk opts (cuda_auto_register hopper cu self dispatch_init) hw)
    = boot_fail DeviceNotFound None"
  using cuda_selected [OF assms, of hopper self]
  by (simp add: boot_def probe_driver_def)

subsection \<open>Steps of the shim\<close>

text \<open>One call of the shim on behalf of the context \<open>self\<close>; a tensor map is released once.\<close>

inductive shim_step :: "bool \<Rightarrow> 'd cuda_driver \<Rightarrow> ptr \<Rightarrow> 'd cuda_env \<Rightarrow> 'd cuda_env \<Rightarrow> bool" for hopper cu self where
  lock_clocks: "cuda_lock_clocks cu self d env = (s, env') \<Longrightarrow> shim_step hopper cu self env env'"
| reserve: "cuda_reserve_vaddress cu self n env = (s, env') \<Longrightarrow> shim_step hopper cu self env env'"
| map_pool: "cuda_map_hbm_pool cu self env = (s, env') \<Longrightarrow> shim_step hopper cu self env env'"
| release: "cuda_release_vaddress cu env = (s, env') \<Longrightarrow> shim_step hopper cu self env env'"
| create_stream: "cuda_create_stream cu self k prio env = (s, h, env') \<Longrightarrow> shim_step hopper cu self env env'"
| destroy_stream: "cuda_destroy_stream cu h env = (s, env') \<Longrightarrow> shim_step hopper cu self env env'"
| sync_stream: "cuda_sync_stream cu h env = (s, env') \<Longrightarrow> shim_step hopper cu self env env'"
| load_module: "cuda_load_module cu self nm src m env = (s, m', env') \<Longrightarrow> shim_step hopper cu self env env'"
| launch: "cuda_launch_kernel cu self fn g b smem h args env = (s, env') \<Longrightarrow> shim_step hopper cu self env env'"
| alloc: "cuda_alloc_hbm cu self n env = (s, p, env') \<Longrightarrow> shim_step hopper cu self env env'"
| free: "cuda_free_hbm cu p env = (s, env') \<Longrightarrow> shim_step hopper cu self env env'"
| prefetch: "cuda_prefetch_range cu self v n env = (s, env') \<Longrightarrow> shim_step hopper cu self env env'"
| gds_init: "cuda_gds_init cu self env = (s, env') \<Longrightarrow> shim_step hopper cu self env env'"
| gds_fini: "cuda_gds_fini cu self env = (s, env') \<Longrightarrow> shim_step hopper cu self env env'"
| grdma_init: "cuda_grdma_init cu self env = (s, env') \<Longrightarrow> shim_step hopper cu self env env'"
| grdma_fini: "cuda_grdma_fini cu self env = (s, env') \<Longrightarrow> shim_step hopper cu self env env'"
| gds_read: "cuda_gds_read_fallback cu self path off dst n env = (s, env') \<Longrightarrow> shim_step hopper cu self env env'"
| gds_write: "cuda_gds_write_fallback cu self path off src n env = (s, env') \<Longrightarrow> shim_step hopper cu self env env'"
| resolve: "cuda_resolve_fault cu self v env = (s, env') \<Longrightarrow> shim_step hopper cu self env env'"
| tma_encode: "cuda_tma_encode hopper cu td env = (s, td', env') \<Longrightarrow> shim_step hopper cu self env env'"
| tma_release: "raw = 0 \<or> map_of (ch_tmaps (e_hw env)) raw \<noteq> None \<Longrightarrow> cuda_tma_release raw env = (s, env')
    \<Longrightarrow> shim_step hopper cu self env env'"
| submit: "cuda_dma_submit cu self r env = (s, ev, env') \<Longrightarrow> shim_step hopper cu self env env'"
| wait: "cuda_dma_wait cu ev ms env = (s, env') \<Longrightarrow> shim_step hopper cu self env env'"

inductive_cases shim_stepE: "shim_step hopper cu self env env'"

definition cuda_ready :: "ptr \<Rightarrow> 'd cuda_env \<Rightarrow> bool" where
  "cuda_ready self env = (map_of (ch_states (e_hw env)) self \<noteq> None)"

definition roots_null :: "'d cuda_env \<Rightarrow> bool" where
  "roots_null env = (\<forall>k s. map_of (ch_states (e_hw env)) k = Some s \<longrightarrow> st_dma_root s = 0)"

text \<open>What a call keeps: the null roots, the context's state once made, and freedom from
  crashes once it is made.\<close>

definition shim_keeps :: "ptr \<Rightarrow> 'd cuda_env \<Rightarrow> 'd cuda_env \<Rightarrow> bool" where
  "shim_keeps self env env' = ((roots_null env \<longrightarrow> roots_null env') \<and> (cuda_ready self env \<longrightarrow> cuda_ready self env'
     \<and> (ch_crashed (e_hw env') \<longrightarrow> ch_crashed (e_hw env))))"

lemma drv_frame [simp]:
  "ch_states (e_hw (put_drv d env)) = ch_states (e_hw env)" "ch_crashed (e_hw (put_drv d env)) = ch_crashed (e_hw env)"
  "ch_files (e_hw (put_drv d env)) = ch_files (e_hw env)" "ch_tmaps (e_hw (put_drv d env)) = ch_tmaps (e_hw env)"
  "drv_of (put_drv d env) = d" "e_plat (put_drv d env) = e_plat env" "e_device (put_drv d env) = e_device env"
  "e_hbm_pool_bytes (put_drv d env) = e_hbm_pool_bytes env"
  by (simp_all add: put_drv_def)

lemma vaddr_frame [simp]: "e_hw (put_vaddress b n env) = e_hw env"
  by (simp add: put_vaddress_def)

lemma file_frame [simp]:
  "ch_states (e_hw (put_file p c env)) = ch_states (e_hw env)" "ch_crashed (e_hw (put_file p c env)) = ch_crashed (e_hw env)"
  "drv_of (put_file p c env) = drv_of env" "ch_files (e_hw (put_file p c env)) = AList.update p c (ch_files (e_hw env))"
  by (simp_all add: put_file_def)

lemma keeps_refl: "shim_keeps self env env"
  by (simp add: shim_keeps_def)

lemma keeps_trans: "shim_keeps self a b \<Longrightarrow> shim_keeps self b c \<Longrightarrow> shim_keeps self a c"
  by (auto simp: shim_keeps_def)

lemma keeps_frame: "ch_states (e_hw env') = ch_states (e_hw env) \<Longrightarrow> ch_crashed (e_hw env') = ch_crashed (e_hw env)
    \<Longrightarrow> shim_keeps self env env'"
  by (simp add: shim_keeps_def roots_null_def cuda_ready_def)

lemma keeps_drv: "shim_keeps self env (put_drv d env)"
  by (rule keeps_frame) simp_all

lemma keeps_do: "shim_keeps self env (drv_do f env)"
  unfolding drv_do_def by (rule keeps_drv)

lemma keeps_call: "drv_call f env = (r, env') \<Longrightarrow> shim_keeps self env env'"
  by (auto simp: drv_call_def keeps_drv split: prod.splits)

lemma keeps_new: "drv_new f env = (r, x, env') \<Longrightarrow> shim_keeps self env env'"
  by (auto simp: drv_new_def keeps_drv split: prod.splits)

lemma keeps_put_state: "st_dma_root s = 0 \<or> \<not> roots_null env \<Longrightarrow> shim_keeps self env (put_state self s env)"
  by (auto simp: shim_keeps_def put_state_def roots_null_def cuda_ready_def)

lemma cu_state_ready: "map_of (ch_states (e_hw env)) self = Some s \<Longrightarrow> cu_state cu self env = (Some s, env)"
  by (simp add: cu_state_def)

lemma cu_state_keeps: "cu_state cu self env = (s, env') \<Longrightarrow> shim_keeps self env env'"
  by (auto simp: cu_state_def Let_def keeps_refl keeps_drv cuda_state_default_def split: option.splits prod.splits if_splits
      intro!: keeps_trans [OF keeps_drv keeps_put_state])

lemma cu_state_some:
  assumes "cu_state cu self env = (Some s, env')"
  shows "map_of (ch_states (e_hw env')) self = Some s" "roots_null env \<Longrightarrow> st_dma_root s = 0"
  using assms by (auto simp: cu_state_def Let_def put_state_def cuda_state_default_def roots_null_def
      split: option.splits prod.splits if_splits)

lemma cu_state_none: "cu_state cu self env = (None, env') \<Longrightarrow> \<not> cuda_ready self env"
  by (auto simp: cu_state_def cuda_ready_def split: option.splits)

text \<open>The calls that look the state up first: what follows starts from an environment that has it.\<close>

lemma keeps_with_state:
  assumes "\<And>s env1. cu_state cu self env = (s, env1) \<Longrightarrow> shim_keeps self env1 env' \<or> (s = None \<and> env' = crash env1)"
  shows "shim_keeps self env env'"
proof -
  obtain s env1 where c: "cu_state cu self env = (s, env1)" by force
  note k = cu_state_keeps [OF c]
  from assms [OF c] show ?thesis
  proof
    assume "shim_keeps self env1 env'"
    then show ?thesis by (rule keeps_trans [OF k])
  next
    assume s: "s = None \<and> env' = crash env1"
    then have "\<not> cuda_ready self env" using cu_state_none [of cu self env env1] c by simp
    then show ?thesis using k s by (auto simp: shim_keeps_def crash_def roots_null_def)
  qed
qed

lemmas keeps_intros = keeps_refl keeps_drv keeps_do keeps_call keeps_new

lemma keeps_vaddr: "shim_keeps self env env' \<Longrightarrow> shim_keeps self env (put_vaddress b n env')"
  by (simp add: shim_keeps_def roots_null_def cuda_ready_def)

lemma keeps_lock_clocks: "cuda_lock_clocks cu self d env = (s, env') \<Longrightarrow> shim_keeps self env env'"
  by (rule keeps_with_state [where cu = cu]) (auto simp: cuda_lock_clocks_def intro: keeps_intros split: option.splits prod.splits if_splits)

lemma keeps_reserve: "cuda_reserve_vaddress cu self n env = (s, env') \<Longrightarrow> shim_keeps self env env'"
  by (rule keeps_with_state [where cu = cu]) (auto simp: cuda_reserve_vaddress_def intro: keeps_intros keeps_vaddr split: option.splits prod.splits if_splits)

lemma keeps_map_pool: "cuda_map_hbm_pool cu self env = (s, env') \<Longrightarrow> shim_keeps self env env'"
  by (rule keeps_with_state [where cu = cu])
    (auto simp: cuda_map_hbm_pool_def Let_def intro: keeps_intros keeps_trans [OF keeps_new keeps_call]
      keeps_trans [OF keeps_new keeps_trans [OF keeps_call keeps_do]] keeps_trans [OF keeps_new keeps_trans [OF keeps_call keeps_call]]
      split: option.splits prod.splits if_splits)

lemma keeps_release: "cuda_release_vaddress cu env = (s, env') \<Longrightarrow> shim_keeps self env env'"
  by (auto simp: cuda_release_vaddress_def Let_def intro: keeps_intros keeps_vaddr keeps_trans [OF keeps_do keeps_do] split: if_splits)

lemma keeps_create_stream: "cuda_create_stream cu self k prio env = (s, h, env') \<Longrightarrow> shim_keeps self env env'"
  by (rule keeps_with_state [where cu = cu])
    (auto simp: cuda_create_stream_def Let_def intro: keeps_intros split: option.splits prod.splits if_splits)

lemma keeps_destroy_stream: "cuda_destroy_stream cu h env = (s, env') \<Longrightarrow> shim_keeps self env env'"
  by (auto simp: cuda_destroy_stream_def intro: keeps_intros)

lemma keeps_sync_stream: "cuda_sync_stream cu h env = (s, env') \<Longrightarrow> shim_keeps self env env'"
  by (auto simp: cuda_sync_stream_def intro: keeps_intros split: prod.splits)

lemma keeps_load_module: "cuda_load_module cu self nm src m env = (s, m', env') \<Longrightarrow> shim_keeps self env env'"
  by (rule keeps_with_state [where cu = cu])
    (auto simp: cuda_load_module_def intro: keeps_intros split: option.splits prod.splits if_splits)

lemma keeps_launch: "cuda_launch_kernel cu self fn g b smem h args env = (s, env') \<Longrightarrow> shim_keeps self env env'"
  by (rule keeps_with_state [where cu = cu])
    (auto simp: cuda_launch_kernel_def Let_def intro: keeps_intros keeps_trans [OF keeps_do keeps_call] split: option.splits prod.splits if_splits)

lemma keeps_alloc: "cuda_alloc_hbm cu self n env = (s, p, env') \<Longrightarrow> shim_keeps self env env'"
  by (rule keeps_with_state [where cu = cu])
    (auto simp: cuda_alloc_hbm_def intro: keeps_intros split: option.splits prod.splits if_splits)

lemma keeps_free: "cuda_free_hbm cu p env = (s, env') \<Longrightarrow> shim_keeps self env env'"
  by (auto simp: cuda_free_hbm_def intro: keeps_intros)

lemma keeps_prefetch: "cuda_prefetch_range cu self v n env = (s, env') \<Longrightarrow> shim_keeps self env env'"
  by (rule keeps_with_state [where cu = cu])
    (auto simp: cuda_prefetch_range_def intro: keeps_intros split: option.splits prod.splits if_splits)

lemma keeps_flag:
  assumes "map_of (ch_states (e_hw env)) self = Some s" and "st_dma_root s' = st_dma_root s"
  shows "shim_keeps self env (put_state self s' env)"
  using assms by (intro keeps_put_state) (auto simp: roots_null_def)

lemma keeps_gds_grdma:
  "cuda_gds_init cu self env = (st, env') \<Longrightarrow> shim_keeps self env env'"
  "cuda_gds_fini cu self env = (st, env') \<Longrightarrow> shim_keeps self env env'"
  "cuda_grdma_init cu self env = (st, env') \<Longrightarrow> shim_keeps self env env'"
  "cuda_grdma_fini cu self env = (st, env') \<Longrightarrow> shim_keeps self env env'"
  by (rule keeps_with_state [where cu = cu], auto simp: cuda_gds_init_def cuda_gds_fini_def cuda_grdma_init_def cuda_grdma_fini_def
      dest: cu_state_some(1) intro: keeps_flag split: option.splits)+

lemma keeps_gds_read:
  assumes "cuda_gds_read_fallback cu self path off dst n env = (st, env')" shows "shim_keeps self env env'"
  using assms
  by (auto simp: cuda_gds_read_fallback_def Let_def split: prod.splits option.splits if_splits
      intro: keeps_trans [OF keeps_new keeps_do] keeps_new
        keeps_trans [OF keeps_new keeps_trans [OF cu_state_keeps keeps_trans [OF keeps_call keeps_do]]])

lemma keeps_file: "shim_keeps self env (put_file p c env)"
  by (rule keeps_frame) simp_all

lemma keeps_gds_write:
  assumes "cuda_gds_write_fallback cu self path off src n env = (st, env')" shows "shim_keeps self env env'"
  using assms
  by (auto simp: cuda_gds_write_fallback_def Let_def split: prod.splits option.splits if_splits
      intro: keeps_new keeps_trans [OF keeps_new keeps_trans [OF keeps_new keeps_do]]
        keeps_trans [OF keeps_new keeps_trans [OF keeps_new keeps_trans [OF keeps_file keeps_do]]])

lemma keeps_resolve: "cuda_resolve_fault cu self v env = (s, env') \<Longrightarrow> shim_keeps self env env'"
  unfolding cuda_resolve_fault_def by (rule keeps_prefetch)

lemma keeps_tma_encode: "cuda_tma_encode hopper cu td env = (s, td', env') \<Longrightarrow> shim_keeps self env env'"
  by (rule keeps_frame) (auto simp: cuda_tma_encode_def Let_def split: if_splits)

lemma keeps_tma_release: "raw = 0 \<or> map_of (ch_tmaps (e_hw env)) raw \<noteq> None \<Longrightarrow> cuda_tma_release raw env = (s, env')
    \<Longrightarrow> shim_keeps self env env'"
  by (rule keeps_frame) (auto simp: cuda_tma_release_def split: if_splits option.splits)

lemma keeps_submit:
  assumes "cuda_dma_submit cu self r env = (s, ev, env')" shows "shim_keeps self env env'"
  by (rule keeps_with_state [where cu = cu])
    (use assms in \<open>auto simp: cuda_dma_submit_def Let_def split: option.splits prod.splits dma_kind.splits
      intro: keeps_call keeps_refl keeps_gds_read keeps_gds_write\<close>)

lemma keeps_wait: "cuda_dma_wait cu ev ms env = (s, env') \<Longrightarrow> shim_keeps self env env'"
  by (auto simp: cuda_dma_wait_def intro: keeps_intros split: prod.splits if_splits)

lemmas keeps_ops = keeps_lock_clocks keeps_reserve keeps_map_pool keeps_release keeps_create_stream
  keeps_destroy_stream keeps_sync_stream keeps_load_module keeps_launch keeps_alloc keeps_free keeps_prefetch
  keeps_gds_grdma keeps_gds_read keeps_gds_write keeps_resolve keeps_tma_encode keeps_tma_release keeps_submit keeps_wait

lemma shim_step_keeps: "shim_step hopper cu self env env' \<Longrightarrow> shim_keeps self env env'"
  by (erule shim_step.cases) (simp_all only: keeps_ops)

lemma shim_path_keeps: "(shim_step hopper cu self)\<^sup>*\<^sup>* env env' \<Longrightarrow> shim_keeps self env env'"
  by (induction rule: rtranclp_induct) (auto intro: keeps_refl keeps_trans dest: shim_step_keeps)

subsection \<open>A driver for the witnesses\<close>

text \<open>A driver that accepts every call: memory is a function of addresses, handles and pointers
  come from a counter.  It is not part of the program.\<close>

record demo_drv =
  dr_next :: u64
  dr_held :: "ptr list"
  dr_ranges :: "(ptr \<times> u64) list"
  dr_mem :: "ptr \<Rightarrow> 8 word"

definition demo_new :: "demo_drv \<Rightarrow> cu_result \<times> ptr \<times> demo_drv" where
  "demo_new d = (CUDA_SUCCESS, dr_next d, d\<lparr>dr_next := dr_next d + 1\<rparr>)"

definition demo_create :: "u64 \<Rightarrow> int \<Rightarrow> demo_drv \<Rightarrow> cu_result \<times> ptr \<times> demo_drv" where
  "demo_create n dev d = (if dr_next d \<in> set (dr_held d) then (CUDA_ERROR_OUT_OF_MEMORY, 0, d)
     else (CUDA_SUCCESS, dr_next d, d\<lparr>dr_next := dr_next d + 1, dr_held := dr_next d # dr_held d\<rparr>))"

definition demo_reserve :: "u64 \<Rightarrow> demo_drv \<Rightarrow> cu_result \<times> ptr \<times> demo_drv" where
  "demo_reserve n d = (if (dr_next d, n) \<in> set (dr_ranges d) then (CUDA_ERROR_OUT_OF_MEMORY, 0, d)
     else (CUDA_SUCCESS, dr_next d, d\<lparr>dr_next := dr_next d + 1, dr_ranges := (dr_next d, n) # dr_ranges d\<rparr>))"

definition demo_peek :: "demo_drv \<Rightarrow> ptr \<Rightarrow> nat \<Rightarrow> byte_list" where
  "demo_peek d p n = map (\<lambda>i. dr_mem d (p + of_nat i)) [0..<n]"

definition demo_poke :: "ptr \<Rightarrow> byte_list \<Rightarrow> demo_drv \<Rightarrow> demo_drv" where
  "demo_poke p buf d = d\<lparr>dr_mem := (\<lambda>a. if unat (a - p) < length buf then buf ! unat (a - p) else dr_mem d a)\<rparr>"

definition demo_cuda :: "demo_drv cuda_driver" where
  "demo_cuda = \<lparr>cu_code = (\<lambda>r. case r of CUDA_SUCCESS \<Rightarrow> 0 | _ \<Rightarrow> 1), cuInit = (\<lambda>d. (CUDA_SUCCESS, d)), cuDeviceGetCount = (\<lambda>d. (CUDA_SUCCESS, 1)),
     cuDeviceGet = (\<lambda>i d. (CUDA_SUCCESS, Some 0)), cuDeviceGetName = (\<lambda>i d. ''demo''),
     cuDeviceGetAttribute = (\<lambda>a i d. case a of COMPUTE_CAPABILITY_MAJOR \<Rightarrow> Some 9 | _ \<Rightarrow> Some 0),
     cuDeviceTotalMem = (\<lambda>i d. Some 0x100000), cuDeviceSetMemPool = (\<lambda>i d. (CUDA_SUCCESS, d)),
     cuDevicePrimaryCtxRetain = (\<lambda>i. demo_new), cuCtxSetCurrent = (\<lambda>c d. (CUDA_SUCCESS, d)),
     cuMemAddressReserve = demo_reserve,
     cuMemAddressFree = (\<lambda>p n d. (CUDA_SUCCESS, d\<lparr>dr_ranges := removeAll (p, n) (dr_ranges d)\<rparr>)),
     cuMemCreate = demo_create, cuMemCreateCompressed = demo_create,
     cuMemRelease = (\<lambda>h d. (CUDA_SUCCESS, d\<lparr>dr_held := removeAll h (dr_held d)\<rparr>)),
     cuMemMap = (\<lambda>p n h d. (CUDA_SUCCESS, d)), cuMemUnmap = (\<lambda>p n d. (CUDA_SUCCESS, d)),
     cuMemSetAccess = (\<lambda>p n dev d. (CUDA_SUCCESS, d)), cuCtxGetStreamPriorityRange = (\<lambda>d. Some (0, -5)),
     cuStreamCreateWithPriority = (\<lambda>p. demo_new), cuStreamDestroy = (\<lambda>s d. (CUDA_SUCCESS, d)),
     cuStreamSynchronize = (\<lambda>s d. (CUDA_SUCCESS, d)), cuModuleLoad = (\<lambda>p. demo_new), cuModuleLoadData = (\<lambda>p. demo_new),
     cuFuncSetMaxDynamicShared = (\<lambda>f n d. (CUDA_SUCCESS, d)), cuLaunchKernel = (\<lambda>f g b n s args d. (CUDA_SUCCESS, d)),
     cuMemAlloc = (\<lambda>n. demo_new), cuMemFree = (\<lambda>p d. (CUDA_SUCCESS, d)), cuMemPrefetchAsync = (\<lambda>p n dev d. (CUDA_SUCCESS, d)),
     cuMemAllocHost = (\<lambda>n. demo_new), cuMemFreeHost = (\<lambda>p d. (CUDA_SUCCESS, d)),
     cuMemcpyHtoD = (\<lambda>p buf d. (CUDA_SUCCESS, demo_poke p buf d)),
     cuMemcpyDtoH = (\<lambda>p n d. (CUDA_SUCCESS, demo_peek d p (unat n), d)),
     cuMemcpyHtoDAsync = (\<lambda>p q n s d. (CUDA_SUCCESS, d)), cuMemcpyDtoHAsync = (\<lambda>p q n s d. (CUDA_SUCCESS, d)),
     cuMemcpyDtoDAsync = (\<lambda>p q n s d. (CUDA_SUCCESS, d)), cuTensorMapEncodeTiled = (\<lambda>t p sh str box sw d. (CUDA_SUCCESS, [p]))\<rparr>"

definition demo_cenv :: "demo_drv cuda_env" where
  "demo_cenv = \<lparr>e_device = device_desc_default\<lparr>dd_vendor := Nvidia, dd_arch := Ampere\<rparr>, e_hbm_pool_bytes = 0x1000,
     e_plat = platform_handle_default\<lparr>ph_vaddress_base := 0x10000\<rparr>,
     e_hw = \<lparr>ch_drv = \<lparr>dr_next = 1, dr_held = [], dr_ranges = [], dr_mem = (\<lambda>a. ucast a)\<rparr>, ch_states = [(7, cuda_state_default)],
       ch_tmaps = [], ch_next = 1, ch_files = [(''f'', [9, 9, 9, 9])], ch_crashed = False\<rparr>\<rparr>"

subsection \<open>Modules\<close>

lemma cuda_load_functions:
  "cuda_load_module cu self nm src m env = (s, m', env') \<Longrightarrow> km_functions m' = km_functions m"
  by (auto simp: cuda_load_module_def Let_def split: prod.splits option.splits if_splits)

interpretation cul: functionless_loader "cuda_backend hopper cu self" for hopper cu self
  by unfold_locales (auto simp: cuda_backend_def dest: cuda_load_functions)

text \<open>No kernel can be launched on CUDA.  The shim's \<open>load_module\<close> stores the module but never a
  function, so after any sequence of loads into a fresh micro-kernel every launch, whatever
  module and function it names, answers \<open>InvalidArgument\<close> and no call reaches the driver.\<close>

theorem cuda_never_launches:
  assumes "load_modules (cuda_backend hopper cu self) ms env (mk_create d) = (env', mk)"
  shows "mk_launch (cuda_backend hopper cu self) m f g b sm sh args env2 mk = (InvalidArgument, env2)"
  using assms by (rule cul.never_launches)

theorem cuda_never_launches_witness:
  "\<exists>env' mk. load_modules (cuda_backend False demo_cuda 7) [(''k'', ''.version 8.0'')] demo_cenv (mk_create device_desc_default) = (env', mk)
    \<and> find_module mk ''k'' \<noteq> None
    \<and> (\<forall>sh. mk_launch (cuda_backend False demo_cuda 7) ''k'' ''main'' (1, 1, 1) (1, 1, 1) 0 sh [] env' mk = (InvalidArgument, env'))"
proof -
  have "\<exists>env' mk. load_modules (cuda_backend False demo_cuda 7) [(''k'', ''.version 8.0'')] demo_cenv (mk_create device_desc_default) = (env', mk)
    \<and> find_module mk ''k'' \<noteq> None"
    by (simp add: load_module_def mk_create_def cuda_backend_def cuda_load_module_def cu_state_def demo_cenv_def
        is_binary_path_def drv_new_def demo_cuda_def demo_new_def find_module_def)
  then obtain env' mk where l: "load_modules (cuda_backend False demo_cuda 7) [(''k'', ''.version 8.0'')] demo_cenv
      (mk_create device_desc_default) = (env', mk)" "find_module mk ''k'' \<noteq> None" by blast
  show ?thesis using l cuda_never_launches [OF l(1)] by blast
qed

subsection \<open>Storage\<close>

text \<open>Enabling GPUDirect storage changes nothing on CUDA.  Once the context has its state, a DMA
  engine with the path enabled does in every environment exactly what one without does: the
  bounce copy through host memory, with the same status, file and device contents.\<close>

theorem gds_paths_agree:
  assumes "map_of (ch_states (e_hw env)) self = Some s"
  shows "gds_read (cuda_backend hopper cu self) de path off dst n env = cuda_gds_read_fallback cu self path off dst n env
    \<and> gds_write (cuda_backend hopper cu self) de path off src n env = cuda_gds_write_fallback cu self path off src n env"
  by (simp add: gds_read_def gds_write_def dma_submit_def dma_wait_def cuda_backend_def cuda_dma_submit_def
      cuda_dma_wait_def cu_state_ready [OF assms] dma_request_default_def Let_def split: prod.split)

theorem gds_paths_agree_witness:
  "gds_read (cuda_backend False demo_cuda 7) ((dma_create device_desc_default)\<lparr>de_gds_enabled := True\<rparr>) ''f'' 1 0x100 2 demo_cenv
    = gds_read (cuda_backend False demo_cuda 7) (dma_create device_desc_default) ''f'' 1 0x100 2 demo_cenv"
  using gds_paths_agree [of demo_cenv 7 cuda_state_default] by (simp add: demo_cenv_def)

text \<open>What the code relies on of the copies: a copy from the device yields what is there and
  changes no device memory, a copy to it is seen afterwards, and host buffers are not device
  memory.\<close>

definition memcpy_law :: "'d cuda_driver \<Rightarrow> ('d \<Rightarrow> ptr \<Rightarrow> nat \<Rightarrow> byte_list) \<Rightarrow> bool" where
  "memcpy_law cu mem =
     ((\<forall>d p n r buf d'. cuMemcpyDtoH cu p n d = (r, buf, d') \<longrightarrow>
         mem d' = mem d \<and> (r = CUDA_SUCCESS \<longrightarrow> buf = mem d p (unat n)))
    \<and> (\<forall>d p buf d'. length buf < 2 ^ 64 \<longrightarrow> cuMemcpyHtoD cu p buf d = (CUDA_SUCCESS, d') \<longrightarrow> mem d' p (length buf) = buf)
    \<and> (\<forall>d n r h d'. cuMemAllocHost cu n d = (r, h, d') \<longrightarrow> mem d' = mem d)
    \<and> (\<forall>d h r d'. cuMemFreeHost cu h d = (r, d') \<longrightarrow> mem d' = mem d)
    \<and> (\<forall>d p n. length (mem d p n) = n))"

lemma memcpy_lawD:
  assumes "memcpy_law cu mem"
  shows "cuMemcpyDtoH cu p n d = (r, buf, d') \<Longrightarrow> mem d' = mem d \<and> (r = CUDA_SUCCESS \<longrightarrow> buf = mem d p (unat n))"
    and "length buf < 2 ^ 64 \<Longrightarrow> cuMemcpyHtoD cu p buf d = (CUDA_SUCCESS, d') \<Longrightarrow> mem d' p (length buf) = buf"
    and "cuMemAllocHost cu n d = (r, h, d') \<Longrightarrow> mem d' = mem d"
    and "cuMemFreeHost cu h d = (r, d') \<Longrightarrow> mem d' = mem d"
    and "length (mem d p k) = k"
proof -
  note l = assms [unfolded memcpy_law_def]
  show "cuMemcpyDtoH cu p n d = (r, buf, d') \<Longrightarrow> mem d' = mem d \<and> (r = CUDA_SUCCESS \<longrightarrow> buf = mem d p (unat n))"
    by (rule l [THEN conjunct1, rule_format])
  show "length buf < 2 ^ 64 \<Longrightarrow> cuMemcpyHtoD cu p buf d = (CUDA_SUCCESS, d') \<Longrightarrow> mem d' p (length buf) = buf"
    by (rule l [THEN conjunct2, THEN conjunct1, rule_format])
  show "cuMemAllocHost cu n d = (r, h, d') \<Longrightarrow> mem d' = mem d"
    by (rule l [THEN conjunct2, THEN conjunct2, THEN conjunct1, rule_format])
  show "cuMemFreeHost cu h d = (r, d') \<Longrightarrow> mem d' = mem d"
    by (rule l [THEN conjunct2, THEN conjunct2, THEN conjunct2, THEN conjunct1, rule_format])
  show "length (mem d p k) = k"
    by (rule l [THEN conjunct2, THEN conjunct2, THEN conjunct2, THEN conjunct2, rule_format])
qed

lemma cu_to_status_ok [simp]: "cu_to_status x = Ok \<longleftrightarrow> x = CUDA_SUCCESS"
  by (cases x) (simp_all add: cu_to_status_def)

lemma gds_write_ok:
  assumes law: "memcpy_law cu mem" and w: "cuda_gds_write_fallback cu self path off src n env = (Ok, env1)"
  shows "\<exists>c. map_of (ch_files (e_hw env)) (c_str path) = Some c
    \<and> ch_files (e_hw env1) = AList.update (c_str path) (file_write (file_pos off) (mem (drv_of env) src (unat n)) c) (ch_files (e_hw env))
    \<and> mem (drv_of env1) = mem (drv_of env) \<and> ch_states (e_hw env1) = ch_states (e_hw env)"
proof -
  obtain r h d1 where a: "cuMemAllocHost cu n (drv_of env) = (r, h, d1)" using prod_cases3 by blast
  obtain cr buf d2 where c: "cuMemcpyDtoH cu src n d1 = (cr, buf, d2)" using prod_cases3 by blast
  obtain fr d3 where f: "cuMemFreeHost cu h d2 = (fr, d3)" by force
  have r1: "r = CUDA_SUCCESS"
  proof (rule ccontr)
    assume "r \<noteq> CUDA_SUCCESS"
    then show False using w by (simp add: cuda_gds_write_fallback_def drv_new_def a)
  qed
  have "cr = CUDA_SUCCESS"
  proof (rule ccontr)
    assume "cr \<noteq> CUDA_SUCCESS"
    then show False using w r1 by (simp add: cuda_gds_write_fallback_def drv_new_def a c)
  qed
  with r1 have r: "r = CUDA_SUCCESS" "cr = CUDA_SUCCESS" by simp_all
  have m: "mem d1 = mem (drv_of env)" "buf = mem d1 src (unat n)" "mem d2 = mem d1" "mem d3 = mem d2"
    using memcpy_lawD(3) [OF law a] memcpy_lawD(1) [OF law c] memcpy_lawD(4) [OF law f] r by simp_all
  show ?thesis
    using w r f m by (auto simp: cuda_gds_write_fallback_def drv_new_def drv_do_def a c split: option.splits if_splits)
qed

lemma gds_read_ok:
  assumes law: "memcpy_law cu mem" and st: "map_of (ch_states (e_hw env)) self = Some s"
    and rd: "cuda_gds_read_fallback cu self path off dst n env = (Ok, env1)"
  shows "\<exists>c. map_of (ch_files (e_hw env)) (c_str path) = Some c \<and> ch_files (e_hw env1) = ch_files (e_hw env)
    \<and> mem (drv_of env1) dst (unat n) = file_read (file_pos off) (unat n) c"
proof -
  obtain r h d1 where a: "cuMemAllocHost cu n (drv_of env) = (r, h, d1)" using prod_cases3 by blast
  have st1: "map_of (ch_states (e_hw (put_drv d1 env))) self = Some s" using st by simp
  have r: "r = CUDA_SUCCESS" using rd by (auto simp: cuda_gds_read_fallback_def drv_new_def a split: if_splits)
  show ?thesis
  proof (cases "map_of (ch_files (e_hw env)) (c_str path)")
    case None
    then show ?thesis using rd r by (simp add: cuda_gds_read_fallback_def drv_new_def a)
  next
    case (Some c)
    let ?buf = "file_read (file_pos off) (unat n) c"
    obtain cr d2 where c: "cuMemcpyHtoD cu dst ?buf d1 = (cr, d2)" by force
    obtain fr d3 where f: "cuMemFreeHost cu h d2 = (fr, d3)" by force
    have l: "length ?buf = unat n"
      using rd r Some by (auto simp: cuda_gds_read_fallback_def drv_new_def a Let_def split: if_splits)
    have e: "env1 = put_drv d3 (put_drv d2 (put_drv d1 env))" "cr = CUDA_SUCCESS"
      using rd r Some l by (auto simp: cuda_gds_read_fallback_def drv_new_def drv_do_def drv_call_def a c f cu_state_ready [OF st1])
    have b: "length ?buf < 2 ^ 64" using unsigned_less [of n] by (simp add: l)
    have "mem d2 dst (length ?buf) = ?buf" "mem d3 = mem d2"
      using memcpy_lawD(2) [OF law b] memcpy_lawD(4) [OF law f] c e(2) by simp_all
    then show ?thesis using Some e(1) l by simp
  qed
qed

text \<open>C13: A storage write followed by a storage read of the same range moves device memory to
  device memory unchanged.  The write replaces exactly the bytes of its window, extending the
  file when the window passes its end, and touches no other file; the read changes no file.  An
  offset of \<open>2 ^ 63\<close> or more is not refused: its window starts at the file's first byte.\<close>

theorem cuda_storage_roundtrip:
  assumes law: "memcpy_law cu mem" and st: "map_of (ch_states (e_hw env)) self = Some s"
    and w: "cuda_gds_write_fallback cu self path off src n env = (Ok, env1)"
    and rd: "cuda_gds_read_fallback cu self path off dst n env1 = (Ok, env2)"
  shows "mem (drv_of env2) dst (unat n) = mem (drv_of env) src (unat n)
    \<and> (\<forall>p. p \<noteq> c_str path \<longrightarrow> map_of (ch_files (e_hw env2)) p = map_of (ch_files (e_hw env)) p)
    \<and> (\<exists>c c'. map_of (ch_files (e_hw env)) (c_str path) = Some c \<and> map_of (ch_files (e_hw env2)) (c_str path) = Some c'
        \<and> (n \<noteq> 0 \<longrightarrow> length c' = max (length c) (file_pos off + unat n))
        \<and> (\<forall>i < length c. i < file_pos off \<or> file_pos off + unat n \<le> i \<longrightarrow> c' ! i = c ! i))
    \<and> (2 ^ 63 \<le> unat off \<longrightarrow> file_pos off = 0)"
proof -
  obtain c where c: "map_of (ch_files (e_hw env)) (c_str path) = Some c"
    "ch_files (e_hw env1) = AList.update (c_str path) (file_write (file_pos off) (mem (drv_of env) src (unat n)) c) (ch_files (e_hw env))"
    "ch_states (e_hw env1) = ch_states (e_hw env)"
    using gds_write_ok [OF law w] by blast
  have len: "length (mem (drv_of env) src (unat n)) = unat n" by (rule memcpy_lawD(5) [OF law])
  let ?data = "mem (drv_of env) src (unat n)"
  have st1: "map_of (ch_states (e_hw env1)) self = Some s" using st c(3) by simp
  have r: "ch_files (e_hw env2) = ch_files (e_hw env1)"
    "mem (drv_of env2) dst (unat n) = file_read (file_pos off) (unat n) (file_write (file_pos off) ?data c)"
    using gds_read_ok [OF law st1 rd] c(2) by auto
  have e: "n \<noteq> 0 \<longrightarrow> ?data \<noteq> []" using len unat_eq_0 [of n] by auto
  note p = file_pos_high [of off]
  show ?thesis
    using r c e p len file_write_read [of "file_pos off" ?data c] file_write_length [of ?data "file_pos off" c]
      file_write_outside [of _ c "file_pos off" ?data] by simp
qed

lemma demo_law: "memcpy_law demo_cuda demo_peek"
proof -
  have "demo_peek (demo_poke p buf d) p (length buf) = buf" if "length buf < 2 ^ 64" for p buf d
  proof (rule nth_equalityI)
    fix i assume "i < length (demo_peek (demo_poke p buf d) p (length buf))"
    then have i: "i < length buf" by (simp add: demo_peek_def)
    then have "unat (of_nat i :: u64) = i" using that by (simp add: unat_of_nat take_bit_nat_eq_self)
    then show "demo_peek (demo_poke p buf d) p (length buf) ! i = buf ! i"
      using i by (simp add: demo_peek_def demo_poke_def)
  qed (simp add: demo_peek_def)
  then show ?thesis
    by (auto simp: memcpy_law_def demo_cuda_def demo_new_def) (simp_all add: demo_peek_def fun_eq_iff)
qed

theorem cuda_storage_roundtrip_witness:
  "\<exists>env1 env2. cuda_gds_write_fallback demo_cuda 7 ''f'' 2 0x100 4 demo_cenv = (Ok, env1)
    \<and> cuda_gds_read_fallback demo_cuda 7 ''f'' 2 0x200 4 env1 = (Ok, env2)
    \<and> demo_peek (drv_of env2) 0x200 4 = [0, 1, 2, 3] \<and> map_of (ch_files (e_hw env2)) ''f'' = Some [9, 9, 0, 1, 2, 3]"
proof -
  have p: "file_pos 2 = 2" by (simp add: file_pos_def)
  have c: "c_str ''f'' = ''f''" by (simp add: c_str_def)
  have src: "demo_peek (drv_of demo_cenv) 0x100 4 = [0, 1, 2, 3]"
    by (simp add: demo_peek_def demo_cenv_def upt_rec)
  have st: "map_of (ch_states (e_hw demo_cenv)) 7 = Some cuda_state_default" by (simp add: demo_cenv_def)
  obtain env1 where w: "cuda_gds_write_fallback demo_cuda 7 ''f'' 2 0x100 4 demo_cenv = (Ok, env1)"
    by (simp add: cuda_gds_write_fallback_def drv_new_def drv_do_def demo_cuda_def demo_new_def c demo_peek_def
        demo_cenv_def [THEN arg_cong [of _ _ "\<lambda>e. map_of (ch_files (e_hw e)) ''f''"]])
  have f1: "map_of (ch_files (e_hw env1)) ''f'' = Some [9, 9, 0, 1, 2, 3]"
    using gds_write_ok [OF demo_law w] src by (auto simp: c p file_write_def demo_cenv_def)
  have st1: "map_of (ch_states (e_hw env1)) 7 = Some cuda_state_default" using gds_write_ok [OF demo_law w] st by auto
  obtain env2 where r: "cuda_gds_read_fallback demo_cuda 7 ''f'' 2 0x200 4 env1 = (Ok, env2)"
    using f1 st1 by (simp add: cuda_gds_read_fallback_def drv_new_def drv_do_def drv_call_def demo_cuda_def demo_new_def c p
        file_read_def cu_state_ready Let_def)
  have f2: "map_of (ch_files (e_hw env2)) ''f'' = Some [9, 9, 0, 1, 2, 3]"
    using gds_read_ok [OF demo_law st1 r] f1 by auto
  show ?thesis
    using cuda_storage_roundtrip [OF demo_law st w r] w r src f2 by auto
qed

subsection \<open>DMA\<close>

text \<open>Asynchronous copies are never awaited on CUDA.  From a process that has made no state yet,
  whatever calls of the shim came before, every submitted request hands back the null event, as
  the DMA stream is never created, and waiting for it answers \<open>Ok\<close> at once without
  synchronising anything.\<close>

theorem cuda_dma_never_waits:
  assumes start: "ch_states (e_hw env0) = []" and path: "(shim_step hopper cu self)\<^sup>*\<^sup>* env0 env"
    and sub: "cuda_dma_submit cu self r env = (s, ev, env1)"
  shows "ev = 0 \<and> cuda_dma_wait cu ev ms env1 = (Ok, env1)"
proof -
  have rn: "roots_null env" using shim_path_keeps [OF path] start by (simp add: shim_keeps_def roots_null_def)
  have "ev = 0"
  proof (cases "cu_state cu self env")
    case (Pair st e)
    show ?thesis
    proof (cases st)
      case None
      then show ?thesis using sub Pair by (simp add: cuda_dma_submit_def)
    next
      case (Some c)
      then have "st_dma_root c = 0" using cu_state_some(2) [of cu self env c e] Pair rn by simp
      then show ?thesis using sub Pair Some by (auto simp: cuda_dma_submit_def Let_def split: dma_kind.splits prod.splits)
    qed
  qed
  then show ?thesis by (simp add: cuda_dma_wait_def)
qed

theorem cuda_dma_never_waits_witness:
  "\<exists>env s env1. (shim_step False demo_cuda 8)\<^sup>*\<^sup>* (demo_cenv\<lparr>e_hw := (e_hw demo_cenv)\<lparr>ch_states := []\<rparr>\<rparr>) env
    \<and> cuda_dma_submit demo_cuda 8 (dma_request_default\<lparr>dr_kind := H2D, dr_dst := 0x100, dr_src := 0x200, dr_bytes := 4\<rparr>) env = (s, 0, env1)
    \<and> cuda_dma_wait demo_cuda 0 30000 env1 = (Ok, env1)"
proof -
  let ?e0 = "demo_cenv\<lparr>e_hw := (e_hw demo_cenv)\<lparr>ch_states := []\<rparr>\<rparr>"
  let ?r = "dma_request_default\<lparr>dr_kind := H2D, dr_dst := 0x100, dr_src := 0x200, dr_bytes := 4\<rparr>"
  obtain s env where l: "cuda_lock_clocks demo_cuda 8 device_desc_default ?e0 = (s, env)" by force
  have p: "(shim_step False demo_cuda 8)\<^sup>*\<^sup>* ?e0 env" by (rule r_into_rtranclp) (rule shim_step.lock_clocks [OF l])
  obtain s1 ev env1 where d: "cuda_dma_submit demo_cuda 8 ?r env = (s1, ev, env1)" using prod_cases3 by blast
  show ?thesis using cuda_dma_never_waits [OF _ p d, of 30000] p d by auto
qed

subsection \<open>The physical memory of the pool\<close>

text \<open>The observable set of physical allocation handles: only \<open>cuMemCreate\<close> adds one, a new one, and
  only \<open>cuMemRelease\<close> gives one up.\<close>

definition handle_law :: "'d cuda_driver \<Rightarrow> ('d \<Rightarrow> ptr set) \<Rightarrow> bool" where
  "handle_law cu held =
     ((\<forall>n dev d h d'. cuMemCreate cu n dev d = (CUDA_SUCCESS, h, d') \<longrightarrow> h \<notin> held d \<and> held d' = insert h (held d))
    \<and> (\<forall>p n h d r d'. cuMemMap cu p n h d = (r, d') \<longrightarrow> held d' = held d)
    \<and> (\<forall>p n dev d r d'. cuMemSetAccess cu p n dev d = (r, d') \<longrightarrow> held d' = held d)
    \<and> (\<forall>p n d r d'. cuMemUnmap cu p n d = (r, d') \<longrightarrow> held d' = held d)
    \<and> (\<forall>p n d r d'. cuMemAddressFree cu p n d = (r, d') \<longrightarrow> held d' = held d))"

lemma handle_lawD:
  assumes "handle_law cu held"
  shows "cuMemCreate cu n dev d = (CUDA_SUCCESS, h, d') \<Longrightarrow> h \<notin> held d \<and> held d' = insert h (held d)"
    and "cuMemMap cu p n h d = (r, d') \<Longrightarrow> held d' = held d"
    and "cuMemSetAccess cu p n dev d = (r, d') \<Longrightarrow> held d' = held d"
    and "cuMemUnmap cu p n d = (r, d') \<Longrightarrow> held d' = held d"
    and "cuMemAddressFree cu p n d = (r, d') \<Longrightarrow> held d' = held d"
proof -
  note l = assms [unfolded handle_law_def]
  show "cuMemCreate cu n dev d = (CUDA_SUCCESS, h, d') \<Longrightarrow> h \<notin> held d \<and> held d' = insert h (held d)"
    using l [THEN conjunct1] by blast
  show "cuMemMap cu p n h d = (r, d') \<Longrightarrow> held d' = held d"
    by (rule l [THEN conjunct2, THEN conjunct1, rule_format])
  show "cuMemSetAccess cu p n dev d = (r, d') \<Longrightarrow> held d' = held d"
    by (rule l [THEN conjunct2, THEN conjunct2, THEN conjunct1, rule_format])
  show "cuMemUnmap cu p n d = (r, d') \<Longrightarrow> held d' = held d"
    by (rule l [THEN conjunct2, THEN conjunct2, THEN conjunct2, THEN conjunct1, rule_format])
  show "cuMemAddressFree cu p n d = (r, d') \<Longrightarrow> held d' = held d"
    by (rule l [THEN conjunct2, THEN conjunct2, THEN conjunct2, THEN conjunct2, rule_format])
qed

lemma release_held:
  assumes law: "handle_law cu held" and r: "cuda_release_vaddress cu env = (s, env')"
  shows "held (drv_of env') = held (drv_of env) \<and> s = Ok \<and> ph_vaddress_base (e_plat env') = 0"
proof (cases "ph_vaddress_base (e_plat env) = 0")
  case False
  let ?b = "ph_vaddress_base (e_plat env)" and ?n = "e_hbm_pool_bytes env"
  obtain r1 d1 where u: "cuMemUnmap cu ?b ?n (drv_of env) = (r1, d1)" by force
  obtain r2 d2 where f: "cuMemAddressFree cu ?b ?n d1 = (r2, d2)" by force
  show ?thesis
    using r False handle_lawD(4) [OF law u] handle_lawD(5) [OF law f]
    by (auto simp: cuda_release_vaddress_def drv_do_def u f put_vaddress_def)
qed (use r in \<open>simp add: cuda_release_vaddress_def\<close>)

text \<open>The pool's physical memory is never given back.  When the pool is mapped, or when mapping it
  fails at the last step, the access rights, the handle of the physical allocation stays held; the
  later release unmaps and frees the address range, reports \<open>Ok\<close>, and still holds the handle.\<close>

theorem pool_memory_leaks:
  assumes law: "handle_law cu held" and st: "map_of (ch_states (e_hw env)) self = Some c"
    and nz: "ph_vaddress_base (e_plat env) \<noteq> 0" "e_hbm_pool_bytes env \<noteq> 0"
    and mp: "cuMemCreate cu (e_hbm_pool_bytes env) (st_device c) (drv_of env) = (CUDA_SUCCESS, h, d1)"
      "fst (cuMemMap cu (ph_vaddress_base (e_plat env)) (e_hbm_pool_bytes env) h d1) = CUDA_SUCCESS"
    and run: "cuda_map_hbm_pool cu self env = (s, env1)" and rel: "cuda_release_vaddress cu env1 = (s2, env2)"
  shows "h \<notin> held (drv_of env) \<and> h \<in> held (drv_of env2) \<and> s2 = Ok \<and> ph_vaddress_base (e_plat env2) = 0"
proof -
  let ?b = "ph_vaddress_base (e_plat env)" and ?n = "e_hbm_pool_bytes env"
  obtain d2 where m: "cuMemMap cu ?b ?n h d1 = (CUDA_SUCCESS, d2)" using mp(2) by (cases "cuMemMap cu ?b ?n h d1") auto
  obtain r3 d3 where a: "cuMemSetAccess cu ?b ?n (st_device c) d2 = (r3, d3)" by force
  have "drv_of env1 = d3"
    using run nz by (auto simp: cuda_map_hbm_pool_def cu_state_ready [OF st] Let_def drv_new_def drv_call_def mp(1) m a)
  then show ?thesis
    using handle_lawD(1) [OF law mp(1)] handle_lawD(2) [OF law m] handle_lawD(3) [OF law a] release_held [OF law rel] by simp
qed

lemma demo_handle_law: "handle_law demo_cuda (\<lambda>d. set (dr_held d))"
  by (auto simp: handle_law_def demo_cuda_def demo_create_def split: if_splits)

theorem pool_memory_leaks_witness:
  "\<exists>env1 env2. cuda_map_hbm_pool demo_cuda 7 demo_cenv = (Ok, env1) \<and> cuda_release_vaddress demo_cuda env1 = (Ok, env2)
    \<and> 1 \<in> set (dr_held (drv_of env2)) \<and> ph_vaddress_base (e_plat env2) = 0"
proof -
  have st: "map_of (ch_states (e_hw demo_cenv)) 7 = Some cuda_state_default" by (simp add: demo_cenv_def)
  have nz: "ph_vaddress_base (e_plat demo_cenv) \<noteq> 0" "e_hbm_pool_bytes demo_cenv \<noteq> 0" by (simp_all add: demo_cenv_def)
  obtain d1 where c: "cuMemCreate demo_cuda (e_hbm_pool_bytes demo_cenv) (st_device cuda_state_default) (drv_of demo_cenv) = (CUDA_SUCCESS, 1, d1)"
    by (simp add: demo_cuda_def demo_create_def demo_cenv_def)
  have m: "fst (cuMemMap demo_cuda (ph_vaddress_base (e_plat demo_cenv)) (e_hbm_pool_bytes demo_cenv) 1 d1) = CUDA_SUCCESS"
    by (simp add: demo_cuda_def)
  obtain env1 where r: "cuda_map_hbm_pool demo_cuda 7 demo_cenv = (Ok, env1)"
    using nz by (simp add: cuda_map_hbm_pool_def cu_state_ready [OF st] drv_new_def drv_call_def c Let_def)
      (simp add: demo_cuda_def drv_call_def)
  obtain s2 env2 where l: "cuda_release_vaddress demo_cuda env1 = (s2, env2)" by force
  show ?thesis using pool_memory_leaks [OF demo_handle_law st nz c m r l] r l by blast
qed

subsection \<open>Boot on CUDA\<close>

text \<open>The stream priorities of the pool: 0 for compute and -1 for copies, both clamped to the
  greatest priority of the device.\<close>

lemma pool_priorities_equal: "clamp_priority lg (-1) = clamp_priority lg 0"
  by (simp add: clamp_priority_def split: prod.split)

lemma keeps_safe: "shim_keeps self env env' \<Longrightarrow> cuda_ready self env \<and> \<not> ch_crashed (e_hw env)
    \<Longrightarrow> cuda_ready self env' \<and> \<not> ch_crashed (e_hw env')"
  by (auto simp: shim_keeps_def)

lemma cu_state_crash: "cu_state cu self env = (s, env') \<Longrightarrow> ch_crashed (e_hw env') = ch_crashed (e_hw env)"
  by (auto simp: cu_state_def Let_def put_state_def split: option.splits prod.splits if_splits)

lemma drv_crash [simp]: "ch_crashed (e_hw (drv_do f env)) = ch_crashed (e_hw env)"
  "drv_call f env = (r2, env') \<Longrightarrow> ch_crashed (e_hw env') = ch_crashed (e_hw env)"
  "drv_new g env = (r, x, env') \<Longrightarrow> ch_crashed (e_hw env') = ch_crashed (e_hw env)"
  by (auto simp: drv_do_def drv_call_def drv_new_def split: prod.splits)

lemma lock_clocks_crash: "cuda_lock_clocks cu self d env = (s, env') \<Longrightarrow> ch_crashed (e_hw env') = ch_crashed (e_hw env)"
  by (auto simp: cuda_lock_clocks_def dest!: cu_state_crash split: prod.splits option.splits if_splits)

lemma reserve_safe:
  assumes "cuda_reserve_vaddress cu self n env = (s, env')"
  shows "ch_crashed (e_hw env') = ch_crashed (e_hw env) \<and> (s = Ok \<longrightarrow> cuda_ready self env')"
proof (cases "cu_state cu self env")
  case (Pair st e)
  note c = cu_state_crash [OF Pair]
  show ?thesis
  proof (cases st)
    case None
    then show ?thesis using assms Pair c by (simp add: cuda_reserve_vaddress_def)
  next
    case (Some x)
    have r: "cuda_ready self e" using cu_state_some(1) [of cu self env x e] Pair Some by (simp add: cuda_ready_def)
    then have k: "cuda_ready self e'" if "drv_new f e = (y, z, e')" for f y z e'
      using keeps_new [OF that, of self] by (simp add: shim_keeps_def)
    show ?thesis
      using assms Pair Some c r k by (auto simp: cuda_reserve_vaddress_def cuda_ready_def split: prod.splits if_splits)
  qed
qed

lemma init_hbm_safe:
  assumes "init_hbm (cuda_backend hopper cu self) d fw = (s, fw')" and "\<not> ch_crashed (e_hw (fw_env fw))"
  shows "\<not> ch_crashed (e_hw (fw_env fw')) \<and> (s = Ok \<longrightarrow> cuda_ready self (fw_env fw'))"
proof -
  let ?e = "(fw_env fw)\<lparr>e_hbm_pool_bytes := hbm_pool_size d\<rparr>"
  obtain s1 e1 where 1: "cuda_reserve_vaddress cu self (hbm_pool_size d) ?e = (s1, e1)" by force
  obtain s2 e2 where 2: "cuda_map_hbm_pool cu self e1 = (s2, e2)" by force
  note r = reserve_safe [OF 1]
  show ?thesis
  proof (cases "s1 = Ok")
    case True
    then have "cuda_ready self e2 \<and> \<not> ch_crashed (e_hw e2)"
      using keeps_safe [OF keeps_map_pool [OF 2]] r assms(2) by simp
    then show ?thesis using assms(1) 1 2 True by (auto simp: init_hbm_def cuda_backend_def)
  next
    case False
    then show ?thesis using assms 1 r by (auto simp: init_hbm_def cuda_backend_def)
  qed
qed

end
