(* ===== verification/CudaProcess.thy ===== *)
theory CudaProcess
  imports SoleBackend CudaShim
begin

text \<open>
  The whole program over the CUDA backend: a process that registers the backend at its start
  (\<^verbatim>\<open>AutoRegister\<close>) and is driven by the C interface.
\<close>

subsection \<open>The shim as a backend with a frame\<close>

lemma keeps_result:
  "(\<And>s env'. r = (s, env') \<Longrightarrow> shim_keeps self env env') \<Longrightarrow> shim_keeps self env (snd r)"
  "(\<And>s x env'. q = (s, x, env') \<Longrightarrow> shim_keeps self env env') \<Longrightarrow> shim_keeps self env (snd (snd q))"
  by (metis surjective_pairing)+

interpretation shim: backend_frame "cuda_backend hopper cu self" "shim_keeps self"
  for hopper cu self
  by unfold_locales
    (auto simp: cuda_backend_def cuda_install_fault_buffer_def cuda_uninstall_fault_buffer_def cuda_ilc_tag_def
      cuda_ilc_untag_def keeps_refl intro: keeps_trans keeps_result(2) [OF keeps_alloc] keeps_result(2) [OF keeps_create_stream]
      keeps_result(1) [OF keeps_free] keeps_result(1) [OF keeps_prefetch] keeps_result(1) [OF keeps_destroy_stream]
      keeps_result(1) [OF keeps_sync_stream] keeps_result(1) [OF keeps_launch] keeps_result(1) [OF keeps_release]
      keeps_result(1) [OF keeps_gds_grdma(1)] keeps_result(1) [OF keeps_gds_grdma(2)]
      keeps_result(1) [OF keeps_gds_grdma(3)] keeps_result(1) [OF keeps_gds_grdma(4)])

subsection \<open>Boot\<close>

text \<open>What boot leaves behind: a context whose CUDA state exists, or one that failed before any
  subsystem was made.\<close>

lemma boot_leaves:
  assumes safe: "\<not> ch_crashed (e_hw (fw_env fw))"
    and bare: "fw_mk fw = None" "fw_dma fw = None" "fw_tma fw = None" "fw_faults fw = None" "fw_ilc fw = None" "fw_mem fw = None"
    and run: "boot_ctx (cuda_backend hopper cu self) clk opts d fw ev = (r, ev')" and c: "br_ctx r = Some c"
  shows "\<not> ch_crashed (e_hw (fw_env c)) \<and> fw_tma c = None
    \<and> (cuda_ready self (fw_env c) \<or> br_status r \<noteq> Ok \<and> fw_destroy (cuda_backend hopper cu self) c = fw_env c)"
proof -
  let ?pf = "cuda_backend hopper cu self"
  let ?ok = "\<lambda>fw. \<not> ch_crashed (e_hw (fw_env fw)) \<and> cuda_ready self (fw_env fw) \<and> fw_tma fw = None"
  have n2: "\<not> ch_crashed (e_hw (fw_env fw2))" if "lock_clocks ?pf d fw = (s2, fw2)" for s2 fw2
    using that safe by (auto simp: lock_clocks_def cuda_backend_def dest!: lock_clocks_crash split: prod.splits)
  have t3: "\<exists>e. fw3 = fw\<lparr>fw_env := e\<rparr>" if "lock_clocks ?pf d fw = (s2, fw2)" "init_hbm ?pf d fw2 = (s3, fw3)" for s2 fw2 s3 fw3
    using lock_clocks_fields [OF that(1)] init_hbm_fields [OF that(2)] by auto
  have n3: "?ok fw3" if "lock_clocks ?pf d fw = (s2, fw2)" "init_hbm ?pf d fw2 = (Ok, fw3)" for s2 fw2 fw3
    using init_hbm_safe [OF that(2) n2 [OF that(1)]] t3 [OF that] bare(3) by auto
  have n4: "?ok fw4" if "?ok fw3" "register_dma ?pf d opts fw3 = (s4, fw4)" for fw3 s4 fw4
    using that(1) keeps_safe [OF shim.register_dma_keeps [OF that(2)]] register_dma_fields [OF that(2)] by auto
  have n5: "?ok fw5" if "?ok fw4" "spawn_scheduler ?pf d opts fw4 = (s5, fw5)" for fw4 s5 fw5
    using that(1) keeps_safe [OF shim.spawn_scheduler_keeps [OF that(2)]] spawn_scheduler_fields(5) [OF that(2)] by simp
  have n6: "?ok fw6" if "?ok fw5" "attach_fault_handler ?pf opts fw5 = (s6, fw6)" for fw5 s6 fw6
    using that(1) keeps_safe [OF shim.attach_keeps [OF that(2)]] attach_fields [OF that(2)] by auto
  from run show ?thesis
  proof (cases rule: boot_ctx_cases)
    case (hbm s2 fw2 s fw3)
    obtain e where e: "fw3 = fw\<lparr>fw_env := e\<rparr>" using t3 [OF hbm(1,2)] by blast
    have "c = fw3" "br_status r = s" using hbm(4) c by (simp_all add: boot_fail_def)
    moreover have "fw_destroy ?pf fw3 = fw_env fw3" by (simp add: e fw_destroy_def bare)
    ultimately show ?thesis using init_hbm_safe [OF hbm(2) n2 [OF hbm(1)]] hbm(3) bare(3) e by simp
  next
    case (dma s2 fw2 fw3 s fw4)
    then show ?thesis using n4 [OF n3 [OF dma(1,2)] dma(3)] c by (simp add: boot_fail_def)
  next
    case (sched s2 fw2 fw3 fw4 s fw5)
    then show ?thesis using n5 [OF n4 [OF n3 [OF sched(1,2)] sched(3)] sched(4)] c by (simp add: boot_fail_def)
  next
    case (faults s2 fw2 fw3 fw4 fw5 s fw6)
    then show ?thesis
      using n6 [OF n5 [OF n4 [OF n3 [OF faults(1,2)] faults(3)] faults(4)] faults(5)] c by (simp add: boot_fail_def)
  next
    case (up s2 fw2 fw3 fw4 fw5 fw6 s7 fw7)
    have "?ok fw6" using n6 [OF n5 [OF n4 [OF n3 [OF up(1,2)] up(3)] up(4)] up(5)] .
    then show ?thesis using init_ilc_fields [OF up(6)] up(7) c by auto
  qed
qed

subsection \<open>The process\<close>

definition cuda_good :: "ptr \<Rightarrow> 'd cuda_hw fw \<Rightarrow> bool" where
  "cuda_good self fw = (\<not> ch_crashed (e_hw (fw_env fw)) \<and> cuda_ready self (fw_env fw) \<and> fw_tma fw = None)"

lemma describe_hw: "snd (cuda_describe_device cu prof hw) = hw"
  by (simp add: cuda_describe_device_def Let_def split: prod.split)

lemma cuda_good_env: "cuda_good self a \<Longrightarrow> shim_keeps self (fw_env a) (fw_env b) \<Longrightarrow> fw_tma b = fw_tma a \<Longrightarrow> cuda_good self b"
  using keeps_safe [of self "fw_env a" "fw_env b"] by (auto simp: cuda_good_def)

lemma cuda_destroy_safe:
  assumes "cuda_good self c"
  shows "\<not> ch_crashed (e_hw (fw_destroy (cuda_backend hopper cu self) c))"
  using assms keeps_safe [OF shim.fw_destroy_keeps [of c self hopper cu]] by (auto simp: cuda_good_def)

interpretation cup: sole_backend Nvidia "cuda_backend hopper cu self" self "\<lambda>hw. \<not> ch_crashed hw" "cuda_good self"
  for hopper cu self
proof
  let ?pf = "cuda_backend hopper cu self"
  show "Nvidia = Nvidia \<or> Nvidia = Apple" by simp
  show "\<not> ch_crashed hw \<Longrightarrow> \<not> ch_crashed (snd (b_probe ?pf hw))" for hw
    by (auto simp: cuda_backend_def cuda_probe_def Let_def split: prod.splits if_splits)
  show "\<not> ch_crashed hw \<Longrightarrow> \<not> ch_crashed (snd (b_describe_device ?pf prof hw))" for hw prof
    by (simp add: cuda_backend_def describe_hw)
  show "if br_status r = Ok then cuda_good self c else \<not> ch_crashed (e_hw (fw_destroy ?pf c))"
    if "\<not> ch_crashed (e_hw (fw_env fw))" "bare fw" "boot_ctx ?pf clk opts d fw ev = (r, ev')" "br_ctx r = Some c"
    for fw clk opts d ev r ev' c
    using boot_leaves [OF that(1) _ _ _ _ _ _ that(3,4)] bareD [OF that(2)] cuda_destroy_safe [of self c hopper cu]
    by (auto simp: cuda_good_def)
  show "\<not> ch_crashed (e_hw (fw_destroy ?pf (snd (shutdown ?pf fw))))" if g: "cuda_good self fw" for fw
    using shim.shutdown_keeps [of self fw hopper cu] by (intro cuda_destroy_safe cuda_good_env [OF g]) simp_all
  show "ctx_moves (\<lambda>a b. cuda_good self a \<longrightarrow> cuda_good self b) disp hw pr pr'"
    if "dispatch_backend (pr_dispatch pr) (pr_hw pr) = (?pf, disp, hw)" "abi_exec ck cl pr = Some (code, pr')"
      "\<And>p a. cl \<noteq> Firmware_init p a" "\<And>h. cl \<noteq> Firmware_shutdown h" for ck pr disp hw cl code pr'
    by (rule ctx_moves_mono [OF shim.call_moves [OF that]]) (auto simp: env_moves_def intro: cuda_good_env)
qed

definition cuda_reach :: "bool \<Rightarrow> 'd cuda_driver \<Rightarrow> ptr \<Rightarrow> clocks \<Rightarrow> 'd cuda_hw proc \<Rightarrow> bool" where
  "cuda_reach hopper cu self = sole_reach Nvidia (cuda_backend hopper cu self) self (\<lambda>hw. \<not> ch_crashed hw)"

text \<open>C7: No sequence of C calls makes the CUDA shim dereference a null state or delete an object
  it does not own.  Whatever libcuda answers, in every process that registers the backend and is
  driven through the C interface the shim has not crashed, a registered context has its state,
  and the next call returns, again without a crash.\<close>

theorem cuda_process_safe:
  assumes "cuda_reach hopper cu self ck pr"
  shows "\<not> ch_crashed (pr_hw pr)
    \<and> (\<forall>h fw. lookup_handle (pr_reg pr) h = Some fw \<longrightarrow> h = self \<and> map_of (ch_states (pr_hw pr)) self \<noteq> None)
    \<and> (fresh_handle c pr \<and> own_address self c \<longrightarrow>
         (\<exists>code pr'. abi_exec ck c pr = Some (code, pr') \<and> cuda_reach hopper cu self ck pr' \<and> \<not> ch_crashed (pr_hw pr')))"
proof -
  note r = assms [unfolded cuda_reach_def]
  have safe: "\<not> ch_crashed (pr_hw p)" if "cuda_reach hopper cu self ck p" for p
  proof (cases "lookup_handle (pr_reg p) self")
    case None
    then show ?thesis by (rule cup.reach_good(2) [OF that [unfolded cuda_reach_def]])
  next
    case (Some fw)
    then show ?thesis using cup.reach_good(1) [OF that [unfolded cuda_reach_def]] by (simp add: cuda_good_def hw_in_def)
  qed
  have "h = self \<and> map_of (ch_states (pr_hw pr)) self \<noteq> None" if "lookup_handle (pr_reg pr) h = Some fw" for h fw
    using cup.reach_good(1) [OF r that] by (simp add: cuda_good_def cuda_ready_def hw_in_def)
  moreover have "\<exists>code pr'. abi_exec ck c pr = Some (code, pr') \<and> cuda_reach hopper cu self ck pr' \<and> \<not> ch_crashed (pr_hw pr')"
    if c: "fresh_handle c pr \<and> own_address self c"
  proof -
    obtain code pr' where "abi_exec ck c pr = Some (code, pr')" "cuda_reach hopper cu self ck pr'"
      using cup.reach_next [OF r, of c] c unfolding cuda_reach_def by blast
    then show ?thesis using safe by blast
  qed
  ultimately show ?thesis using safe [OF assms] by blast
qed

text \<open>A driver that grants every range and handle, for the witness.\<close>

definition plain_cuda :: "demo_drv cuda_driver" where
  "plain_cuda = demo_cuda\<lparr>cuMemAddressReserve := \<lambda>n. demo_new, cuMemCreate := \<lambda>n dev. demo_new\<rparr>"

lemma plain_state: obtains s e where "cu_state plain_cuda self env = (Some s, e)"
  using that by (cases "map_of (ch_states (e_hw env)) self")
    (auto simp: cu_state_def plain_cuda_def demo_cuda_def demo_new_def Let_def)

lemma plain_accepting: "accepting (cuda_backend False plain_cuda self)"
proof -
  have r: "fst (cuda_reserve_vaddress plain_cuda self n env) = Ok" for n env
    by (rule plain_state [of self env])
      (simp add: cuda_reserve_vaddress_def drv_new_def plain_cuda_def demo_new_def)
  have m: "fst (cuda_map_hbm_pool plain_cuda self env) = Ok" for env
    by (rule plain_state [of self env])
      (simp add: cuda_map_hbm_pool_def drv_new_def drv_call_def plain_cuda_def demo_cuda_def demo_new_def cu_to_status_def Let_def)
  have g: "fst (cuda_gds_init plain_cuda self env) = Ok" "fst (cuda_grdma_init plain_cuda self env) = Ok" for env
    by (rule plain_state [of self env], simp add: cuda_gds_init_def cuda_grdma_init_def)+
  have s: "fst (cuda_create_stream plain_cuda self k prio env) = Ok" for k prio env
    by (rule plain_state [of self env])
      (simp add: cuda_create_stream_def drv_new_def plain_cuda_def demo_cuda_def demo_new_def Let_def)
  have a: "fst (cuda_alloc_hbm plain_cuda self n env) = Ok" for n env
    by (rule plain_state [of self env])
      (simp add: cuda_alloc_hbm_def drv_new_def plain_cuda_def demo_cuda_def demo_new_def)
  show ?thesis unfolding accepting_def cuda_backend_def by (simp add: r m g s a)
qed

definition demo_cproc :: "demo_drv cuda_hw proc" where
  "demo_cproc = \<lparr>pr_dispatch = cuda_auto_register False plain_cuda 16 dispatch_init,
     pr_hw = (e_hw demo_cenv)\<lparr>ch_states := []\<rparr>, pr_reg = []\<rparr>"

lemma demo_cproc_boots: "\<exists>fw pr. cuda_reach False plain_cuda 16 ck pr \<and> lookup_handle (pr_reg pr) 16 = Some fw"
proof -
  let ?D = "sole_dispatch Nvidia (cuda_backend False plain_cuda 16)" and ?A = "sole_active Nvidia (cuda_backend False plain_cuda 16)" and ?hw = "pr_hw demo_cproc"
  let ?boot = "boot (ck_boot ck) boot_options_default"
  have p: "cuda_probe plain_cuda ?hw = (True, ?hw)"
    by (simp add: cuda_probe_def plain_cuda_def demo_cuda_def demo_cproc_def)
  have "dispatch_probe ?D ?hw = (True, ?A, ?hw)" "dispatch_probe ?A ?hw = (True, ?A, ?hw)"
    using cuda_selected [OF p, of False 16]
    by (simp_all add: sole_dispatch_def sole_active_def cuda_auto_register_def dispatch_probe_def)
  then have same: "?boot ?D ?hw = ?boot ?A ?hw" by (simp add: boot_def probe_driver_def)
  have "dd_vendor (fst (cuda_describe_device plain_cuda prof h)) = Nvidia" for prof h
    by (simp add: cuda_describe_device_def Let_def split: prod.split)
  then have "boot_status (ck_boot ck) boot_options_default ?A ?hw = Ok"
    by (intro boot_accepting(1) [OF plain_accepting]) (simp_all add: sole_active_def cuda_backend_def)
  moreover obtain r ev disp hw where b: "?boot ?D ?hw = (r, ev, disp, hw)" using prod_cases4 by blast
  ultimately have ok: "br_status r = Ok" by (simp add: boot_status_def flip: same)
  then obtain c where c: "br_ctx r = Some c" using booted_ready [OF b] by blast
  let ?pr = "\<lparr>pr_dispatch = disp, pr_hw = hw, pr_reg = register_handle 16 c []\<rparr>"
  have e: "abi_exec ck (Firmware_init None 16) demo_cproc = Some (0, ?pr)"
    using b ok c by (simp add: nexusrt_firmware_init_def demo_cproc_def sole_dispatch_def cuda_auto_register_def Let_def)
  have "cuda_reach False plain_cuda 16 ck ?pr"
    unfolding cuda_reach_def
  proof (rule sole_reach.call [OF _ _ _ e])
    show "sole_reach Nvidia (cuda_backend False plain_cuda 16) 16 (\<lambda>hw. \<not> ch_crashed hw) ck demo_cproc"
      by (rule sole_reach.start) (simp_all add: demo_cproc_def demo_cenv_def sole_dispatch_def cuda_auto_register_def)
  qed (simp_all add: fresh_handle_def own_address_def demo_cproc_def lookup_handle_def)
  then show ?thesis by (intro exI conjI) (auto simp: hm.find_register)
qed

theorem cuda_process_safe_witness:
  "\<exists>pr fw. cuda_reach False plain_cuda 16 \<lparr>ck_boot = (\<lambda>_. 0), ck_page = (\<lambda>_. 0), ck_stage = (\<lambda>_. (0, 0))\<rparr> pr
    \<and> lookup_handle (pr_reg pr) 16 = Some fw \<and> map_of (ch_states (pr_hw pr)) 16 \<noteq> None
    \<and> (\<exists>code pr'. abi_exec \<lparr>ck_boot = (\<lambda>_. 0), ck_page = (\<lambda>_. 0), ck_stage = (\<lambda>_. (0, 0))\<rparr> (Mem_alloc 16 4096 1) pr = Some (code, pr')
         \<and> \<not> ch_crashed (pr_hw pr'))"
proof -
  let ?ck = "\<lparr>ck_boot = (\<lambda>_. 0), ck_page = (\<lambda>_. 0), ck_stage = (\<lambda>_. (0, 0))\<rparr>"
  obtain fw pr where r: "cuda_reach False plain_cuda 16 ?ck pr" "lookup_handle (pr_reg pr) 16 = Some fw"
    using demo_cproc_boots by blast
  have "fresh_handle (Mem_alloc 16 4096 1) pr \<and> own_address 16 (Mem_alloc 16 4096 1)"
    by (simp add: fresh_handle_def own_address_def)
  with cuda_process_safe [OF r(1), of "Mem_alloc 16 4096 1"] r show ?thesis by blast
qed

end
