(* ===== verification/MetalShim.thy ===== *)
theory MetalShim
  imports TaskGraph Boot HostFiles
begin

text \<open>
  The Metal backend (\<^verbatim>\<open>src/firmware/metal_shim.mm\<close>).  The Metal framework and the memory of
  the process are not part of the repository: they are a record of functions over a driver state,
  which the shim's operations take as an argument.  An object is a pointer, a message to nil does
  nothing and answers nil, and a call that never returns answers \<^term>\<open>None\<close>.  The shim's own
  state is the side table of \<^verbatim>\<open>MetalState\<close>, keyed by the address of the context, and the
  files it opens; \<open>mh_stuck\<close> records a wait that never returned.  \<open>self\<close> is the address of the
  context that calls.  The build sets no \<^verbatim>\<open>-fobjc-arc\<close>, and the explicit \<^verbatim>\<open>retain\<close>
  would not compile with it, so the bridged casts transfer nothing.  What an autorelease pool drops
  at its end is outside the model.
\<close>

subsection \<open>The Metal framework\<close>

type_synonym mtl_size = "u64 \<times> u64 \<times> u64"

record 'd metal_api =
  mtlCreateSystemDefaultDevice :: "'d \<Rightarrow> ptr \<times> 'd"
  mtlName :: "ptr \<Rightarrow> 'd \<Rightarrow> string"
  mtlRecommendedMaxWorkingSetSize :: "ptr \<Rightarrow> 'd \<Rightarrow> u64"
  mtlNewCommandQueue :: "ptr \<Rightarrow> 'd \<Rightarrow> ptr \<times> 'd"
  mtlCommandBuffer :: "ptr \<Rightarrow> 'd \<Rightarrow> ptr \<times> 'd"
  mtlWaitUntilCompleted :: "ptr \<Rightarrow> 'd \<Rightarrow> 'd option"
  mtlNewLibraryWithSource :: "ptr \<Rightarrow> string \<Rightarrow> 'd \<Rightarrow> ptr \<times> bool \<times> 'd"
  mtlComputeCommandEncoder :: "ptr \<Rightarrow> 'd \<Rightarrow> ptr \<times> 'd"
  mtlSetComputePipelineState :: "ptr \<Rightarrow> ptr \<Rightarrow> 'd \<Rightarrow> 'd"
  mtlDispatchThreads :: "ptr \<Rightarrow> mtl_size \<Rightarrow> mtl_size \<Rightarrow> 'd \<Rightarrow> 'd"
  mtlEndEncoding :: "ptr \<Rightarrow> 'd \<Rightarrow> 'd"
  mtlCommit :: "ptr \<Rightarrow> 'd \<Rightarrow> 'd"
  mtlNewBufferWithLength :: "ptr \<Rightarrow> u64 \<Rightarrow> 'd \<Rightarrow> ptr \<times> 'd"
  mtlContents :: "ptr \<Rightarrow> 'd \<Rightarrow> ptr"
  objRetain :: "ptr \<Rightarrow> 'd \<Rightarrow> 'd"
  objRelease :: "ptr \<Rightarrow> 'd \<Rightarrow> 'd"
  hostPeek :: "ptr \<Rightarrow> nat \<Rightarrow> 'd \<Rightarrow> byte_list"
  hostPoke :: "ptr \<Rightarrow> byte_list \<Rightarrow> 'd \<Rightarrow> 'd"

definition msg_new :: "ptr \<Rightarrow> ('d \<Rightarrow> ptr \<times> 'd) \<Rightarrow> 'd \<Rightarrow> ptr \<times> 'd" where
  "msg_new obj m d = (if obj = 0 then (0, d) else m d)"

definition msg_do :: "ptr \<Rightarrow> ('d \<Rightarrow> 'd) \<Rightarrow> 'd \<Rightarrow> 'd" where
  "msg_do obj m d = (if obj = 0 then d else m d)"

subsection \<open>The state of the shim\<close>

record metal_state =
  mt_device :: ptr
  mt_queue :: ptr
  mt_buffers :: "ptr list"

record 'd metal_hw =
  mh_drv :: 'd
  mh_states :: "(ptr, metal_state) umap"
  mh_files :: "(string, byte_list) umap"
  mh_stuck :: bool

type_synonym 'd metal_env = "'d metal_hw env"

abbreviation mdrv_of :: "'d metal_env \<Rightarrow> 'd" where
  "mdrv_of env \<equiv> mh_drv (e_hw env)"

definition put_mdrv :: "'d \<Rightarrow> 'd metal_env \<Rightarrow> 'd metal_env" where
  "put_mdrv d env = env\<lparr>e_hw := (e_hw env)\<lparr>mh_drv := d\<rparr>\<rparr>"

definition put_mstate :: "ptr \<Rightarrow> metal_state \<Rightarrow> 'd metal_env \<Rightarrow> 'd metal_env" where
  "put_mstate self s env = env\<lparr>e_hw := (e_hw env)\<lparr>mh_states := AList.update self s (mh_states (e_hw env))\<rparr>\<rparr>"

definition put_mfile :: "string \<Rightarrow> byte_list \<Rightarrow> 'd metal_env \<Rightarrow> 'd metal_env" where
  "put_mfile path content env = env\<lparr>e_hw := (e_hw env)\<lparr>mh_files := AList.update path content (mh_files (e_hw env))\<rparr>\<rparr>"

text \<open>\<^verbatim>\<open>state\<close>: the entry of the context, made on first use; null without a device.\<close>

definition mt_state :: "'d metal_api \<Rightarrow> ptr \<Rightarrow> 'd metal_env \<Rightarrow> metal_state option \<times> 'd metal_env" where
  "mt_state mt self env =
     (case map_of (mh_states (e_hw env)) self of
        Some s \<Rightarrow> (Some s, env)
      | None \<Rightarrow>
          (let (device, d1) = mtlCreateSystemDefaultDevice mt (mdrv_of env)
           in if device = 0 then (None, put_mdrv d1 env)
              else (let (queue, d2) = mtlNewCommandQueue mt device d1;
                        p = \<lparr>mt_device = device, mt_queue = queue, mt_buffers = []\<rparr>
                    in (Some p, put_mstate self p (put_mdrv d2 env)))))"

subsection \<open>Probing and describing\<close>

definition metal_probe :: "'d metal_api \<Rightarrow> 'd metal_hw \<Rightarrow> bool \<times> 'd metal_hw" where
  "metal_probe mt hw =
     (let (device, d) = mtlCreateSystemDefaultDevice mt (mh_drv hw) in (device \<noteq> 0, hw\<lparr>mh_drv := d\<rparr>))"

definition metal_describe_device :: "'d metal_api \<Rightarrow> string \<Rightarrow> 'd metal_hw \<Rightarrow> device_desc \<times> 'd metal_hw" where
  "metal_describe_device mt profile hw =
     (let d0 = device_desc_default\<lparr>dd_vendor := Apple, dd_arch := AppleSilicon\<rparr>;
          (device, d) = mtlCreateSystemDefaultDevice mt (mh_drv hw);
          hw1 = hw\<lparr>mh_drv := d\<rparr>
      in if device = 0 then (d0, hw1)
         else (d0\<lparr>dd_name := c_str (mtlName mt device d),
                  dd_hbm_capacity_bytes := mtlRecommendedMaxWorkingSetSize mt device d,
                  dd_hbm_bandwidth_bps := 200 * 1024 * 1024 * 1024,
                  dd_sm_count := 16,
                  dd_smem_per_sm_bytes := 32 * 1024,
                  dd_features := (dd_features d0)\<lparr>ff_unified_native := True, ff_gds := False, ff_grdma := False,
                    ff_tma := False, ff_ilc := False, ff_dsm := False\<rparr>\<rparr>, hw1))"

definition metal_lock_clocks :: "device_desc \<Rightarrow> 'd metal_env \<Rightarrow> status \<times> 'd metal_env" where
  "metal_lock_clocks d env = (Ok, env)"

subsection \<open>The address space\<close>

definition metal_reserve_vaddress :: "u64 \<Rightarrow> 'd metal_env \<Rightarrow> status \<times> 'd metal_env" where
  "metal_reserve_vaddress bytes env =
     (Ok, env\<lparr>e_plat := (e_plat env)\<lparr>ph_vaddress_base := 0xDEADBEEF, ph_vaddress_size := 0\<rparr>\<rparr>)"

definition metal_map_hbm_pool :: "'d metal_env \<Rightarrow> status \<times> 'd metal_env" where
  "metal_map_hbm_pool env = (Ok, env)"

definition metal_release_vaddress :: "'d metal_env \<Rightarrow> status \<times> 'd metal_env" where
  "metal_release_vaddress env = (Ok, env\<lparr>e_plat := (e_plat env)\<lparr>ph_vaddress_base := 0\<rparr>\<rparr>)"

subsection \<open>Streams, modules, launches\<close>

text \<open>A stream is a command buffer; the class and the priority are ignored.\<close>

definition new_command_buffer :: "'d metal_api \<Rightarrow> metal_state \<Rightarrow> 'd metal_env \<Rightarrow> ptr \<times> 'd metal_env" where
  "new_command_buffer mt s env =
     (let (cb, d1) = msg_new (mt_queue s) (mtlCommandBuffer mt (mt_queue s)) (mdrv_of env)
      in (cb, put_mdrv (msg_do cb (objRetain mt cb) d1) env))"

definition metal_create_stream :: "'d metal_api \<Rightarrow> ptr \<Rightarrow> stream_class \<Rightarrow> int \<Rightarrow> 'd metal_env \<Rightarrow> status \<times> ptr \<times> 'd metal_env" where
  "metal_create_stream mt self klass priority env =
     (case mt_state mt self env of
        (None, env1) \<Rightarrow> (InvalidArgument, 0, env1)
      | (Some s, env1) \<Rightarrow> (Ok, new_command_buffer mt s env1))"

definition metal_destroy_stream :: "ptr \<Rightarrow> 'd metal_env \<Rightarrow> status \<times> 'd metal_env" where
  "metal_destroy_stream stream env = (Ok, env)"

definition wait_completed :: "'d metal_api \<Rightarrow> ptr \<Rightarrow> 'd metal_env \<Rightarrow> 'd metal_env" where
  "wait_completed mt cb env = (case mtlWaitUntilCompleted mt cb (mdrv_of env) of
     None \<Rightarrow> env\<lparr>e_hw := (e_hw env)\<lparr>mh_stuck := True\<rparr>\<rparr>
   | Some d \<Rightarrow> put_mdrv d env)"

definition metal_sync_stream :: "'d metal_api \<Rightarrow> ptr \<Rightarrow> 'd metal_env \<Rightarrow> status \<times> 'd metal_env" where
  "metal_sync_stream mt stream env = (Ok, if stream = 0 then env else wait_completed mt stream env)"

definition metal_load_module :: "'d metal_api \<Rightarrow> ptr \<Rightarrow> string \<Rightarrow> string \<Rightarrow> kernel_module \<Rightarrow> 'd metal_env
    \<Rightarrow> status \<times> kernel_module \<times> 'd metal_env" where
  "metal_load_module mt self name src out env =
     (case mt_state mt self env of
        (None, env1) \<Rightarrow> (InvalidArgument, out, env1)
      | (Some s, env1) \<Rightarrow>
          (let (lib, err, d) = mtlNewLibraryWithSource mt (mt_device s) (c_str src) (mdrv_of env1);
               env2 = put_mdrv d env1
           in if err then (DriverError, out, env2) else (Ok, out\<lparr>km_raw_module := lib\<rparr>, env2)))"

text \<open>The products are taken in 32 bits before they become the sizes of the grid.\<close>

definition mtl_grid :: "u32 \<times> u32 \<times> u32 \<Rightarrow> u32 \<times> u32 \<times> u32 \<Rightarrow> mtl_size" where
  "mtl_grid g b = (case (g, b) of ((gx, gy, gz), (bx, by, bz)) \<Rightarrow> (ucast (gx * bx), ucast (gy * by), ucast (gz * bz)))"

definition mtl_group :: "u32 \<times> u32 \<times> u32 \<Rightarrow> mtl_size" where
  "mtl_group b = (case b of (bx, by, bz) \<Rightarrow> (ucast bx, ucast by, ucast bz))"

definition metal_launch_kernel :: "'d metal_api \<Rightarrow> ptr \<Rightarrow> ptr \<Rightarrow> u32 \<times> u32 \<times> u32 \<Rightarrow> u32 \<times> u32 \<times> u32 \<Rightarrow> u32 \<Rightarrow> ptr
    \<Rightarrow> ptr list \<Rightarrow> 'd metal_env \<Rightarrow> status \<times> 'd metal_env" where
  "metal_launch_kernel mt self fn grid block smem stream args env =
     (case mt_state mt self env of
        (None, env1) \<Rightarrow> (InvalidArgument, env1)
      | (Some s, env1) \<Rightarrow>
          (let (enc, d1) = msg_new stream (mtlComputeCommandEncoder mt stream) (mdrv_of env1);
               d2 = msg_do enc (mtlSetComputePipelineState mt enc fn) d1;
               d3 = msg_do enc (mtlDispatchThreads mt enc (mtl_grid grid block) (mtl_group block)) d2;
               d4 = msg_do enc (mtlEndEncoding mt enc) d3;
               d5 = msg_do stream (mtlCommit mt stream) d4
           in (Ok, put_mdrv d5 env1)))"

subsection \<open>Memory\<close>

definition metal_alloc_hbm :: "'d metal_api \<Rightarrow> ptr \<Rightarrow> u64 \<Rightarrow> 'd metal_env \<Rightarrow> status \<times> ptr \<times> 'd metal_env" where
  "metal_alloc_hbm mt self bytes env =
     (case mt_state mt self env of
        (None, env1) \<Rightarrow> (InvalidArgument, 0, env1)
      | (Some s, env1) \<Rightarrow>
          (let (buf, d1) = mtlNewBufferWithLength mt (mt_device s) bytes (mdrv_of env1)
           in if buf = 0 then (OutOfMemory, 0, put_mdrv d1 env1)
              else (let d2 = objRetain mt buf d1
                    in (Ok, mtlContents mt buf d2,
                        put_mstate self (s\<lparr>mt_buffers := mt_buffers s @ [buf]\<rparr>) (put_mdrv d2 env1)))))"

text \<open>The loop over the buffers: the first one that passes the test, and the list without it.\<close>

fun erase_first :: "('a \<Rightarrow> bool) \<Rightarrow> 'a list \<Rightarrow> ('a \<times> 'a list) option" where
  "erase_first P [] = None"
| "erase_first P (x # xs) = (if P x then Some (x, xs) else map_option (map_prod id ((#) x)) (erase_first P xs))"

definition metal_free_hbm :: "'d metal_api \<Rightarrow> ptr \<Rightarrow> ptr \<Rightarrow> 'd metal_env \<Rightarrow> status \<times> 'd metal_env" where
  "metal_free_hbm mt self p env =
     (case mt_state mt self env of
        (None, env1) \<Rightarrow> (Ok, env1)
      | (Some s, env1) \<Rightarrow>
          if p = 0 then (Ok, env1)
          else (case erase_first (\<lambda>b. mtlContents mt b (mdrv_of env1) = p) (mt_buffers s) of
                  None \<Rightarrow> (InvalidArgument, env1)
                | Some (b, rest) \<Rightarrow>
                    (Ok, put_mstate self (s\<lparr>mt_buffers := rest\<rparr>) (put_mdrv (objRelease mt b (mdrv_of env1)) env1))))"

definition metal_prefetch_range :: "u64 \<Rightarrow> u64 \<Rightarrow> 'd metal_env \<Rightarrow> status \<times> 'd metal_env" where
  "metal_prefetch_range vaddr bytes env = (Ok, env)"

subsection \<open>Storage\<close>

definition metal_gds_init :: "'d metal_env \<Rightarrow> status \<times> 'd metal_env" where
  "metal_gds_init env = (NotImplemented, env)"

definition metal_gds_fini :: "'d metal_env \<Rightarrow> status \<times> 'd metal_env" where
  "metal_gds_fini env = (Ok, env)"

definition metal_grdma_init :: "'d metal_env \<Rightarrow> status \<times> 'd metal_env" where
  "metal_grdma_init env = (NotImplemented, env)"

definition metal_grdma_fini :: "'d metal_env \<Rightarrow> status \<times> 'd metal_env" where
  "metal_grdma_fini env = (Ok, env)"

definition metal_gds_read_fallback :: "'d metal_api \<Rightarrow> string \<Rightarrow> u64 \<Rightarrow> ptr \<Rightarrow> u64 \<Rightarrow> 'd metal_env \<Rightarrow> status \<times> 'd metal_env" where
  "metal_gds_read_fallback mt path off dst bytes env =
     (case map_of (mh_files (e_hw env)) (c_str path) of
        None \<Rightarrow> (IoError, env)
      | Some content \<Rightarrow>
          (let buf = file_read (file_pos off) (unat bytes) content
           in (if length buf = unat bytes then Ok else IoError, put_mdrv (hostPoke mt dst buf (mdrv_of env)) env)))"

definition metal_gds_write_fallback :: "'d metal_api \<Rightarrow> string \<Rightarrow> u64 \<Rightarrow> ptr \<Rightarrow> u64 \<Rightarrow> 'd metal_env \<Rightarrow> status \<times> 'd metal_env" where
  "metal_gds_write_fallback mt path off src bytes env =
     (case map_of (mh_files (e_hw env)) (c_str path) of
        None \<Rightarrow> (IoError, env)
      | Some content \<Rightarrow>
          (let buf = hostPeek mt src (unat bytes) (mdrv_of env)
           in (if length buf = unat bytes then Ok else IoError,
               put_mfile (c_str path) (file_write (file_pos off) buf content) env)))"

subsection \<open>Faults, tensor maps, compression\<close>

definition metal_install_fault_buffer :: "ptr \<Rightarrow> u32 \<Rightarrow> 'd metal_env \<Rightarrow> status \<times> 'd metal_env" where
  "metal_install_fault_buffer buf slots env = (Ok, env)"

definition metal_uninstall_fault_buffer :: "ptr \<Rightarrow> 'd metal_env \<Rightarrow> status \<times> 'd metal_env" where
  "metal_uninstall_fault_buffer buf env = (Ok, env)"

definition metal_resolve_fault :: "u64 \<Rightarrow> 'd metal_env \<Rightarrow> status \<times> 'd metal_env" where
  "metal_resolve_fault vaddr env = (Ok, env)"

definition metal_tma_encode :: "tma_descriptor \<Rightarrow> 'd metal_env \<Rightarrow> status \<times> tma_descriptor \<times> 'd metal_env" where
  "metal_tma_encode d env = (NotImplemented, d, env)"

definition metal_tma_issue_copy :: "tma_descriptor \<Rightarrow> ptr \<Rightarrow> u64 \<Rightarrow> u64 \<Rightarrow> ptr \<Rightarrow> 'd metal_env \<Rightarrow> status \<times> 'd metal_env" where
  "metal_tma_issue_copy d smem x y stream env = (NotImplemented, env)"

definition metal_tma_release :: "ptr \<Rightarrow> 'd metal_env \<Rightarrow> status \<times> 'd metal_env" where
  "metal_tma_release raw env = (Ok, env)"

definition metal_ilc_tag :: "ptr \<Rightarrow> 'd metal_env \<Rightarrow> status \<times> 'd metal_env" where
  "metal_ilc_tag p env = (NotImplemented, env)"

definition metal_ilc_untag :: "ptr \<Rightarrow> 'd metal_env \<Rightarrow> status \<times> 'd metal_env" where
  "metal_ilc_untag p env = (Ok, env)"

subsection \<open>DMA\<close>

text \<open>The request is not looked at.\<close>

definition metal_dma_submit :: "'d metal_api \<Rightarrow> ptr \<Rightarrow> dma_request \<Rightarrow> 'd metal_env \<Rightarrow> status \<times> ptr \<times> 'd metal_env" where
  "metal_dma_submit mt self r env =
     (case mt_state mt self env of
        (None, env1) \<Rightarrow> (InvalidArgument, 0, env1)
      | (Some s, env1) \<Rightarrow> (Ok, new_command_buffer mt s env1))"

definition metal_dma_wait :: "'d metal_api \<Rightarrow> ptr \<Rightarrow> u32 \<Rightarrow> 'd metal_env \<Rightarrow> status \<times> 'd metal_env" where
  "metal_dma_wait mt ev ms env = (Ok, if ev = 0 then env else wait_completed mt ev env)"

subsection \<open>The backend\<close>

definition metal_backend :: "'d metal_api \<Rightarrow> ptr \<Rightarrow> 'd metal_hw backend" where
  "metal_backend mt self = \<lparr>
     b_probe = metal_probe mt,
     b_describe_device = metal_describe_device mt,
     b_lock_clocks = metal_lock_clocks,
     b_reserve_vaddress = metal_reserve_vaddress,
     b_map_hbm_pool = metal_map_hbm_pool,
     b_release_vaddress = metal_release_vaddress,
     b_alloc_hbm = metal_alloc_hbm mt self,
     b_free_hbm = metal_free_hbm mt self,
     b_prefetch_range = metal_prefetch_range,
     b_create_stream = metal_create_stream mt self,
     b_destroy_stream = metal_destroy_stream,
     b_sync_stream = metal_sync_stream mt,
     b_load_module = metal_load_module mt self,
     b_launch_kernel = metal_launch_kernel mt self,
     b_gds_init = metal_gds_init,
     b_gds_fini = metal_gds_fini,
     b_gds_read_fallback = metal_gds_read_fallback mt,
     b_gds_write_fallback = metal_gds_write_fallback mt,
     b_grdma_init = metal_grdma_init,
     b_grdma_fini = metal_grdma_fini,
     b_install_fault_buffer = metal_install_fault_buffer,
     b_uninstall_fault_buffer = metal_uninstall_fault_buffer,
     b_resolve_fault = metal_resolve_fault,
     b_tma_encode = metal_tma_encode,
     b_tma_issue_copy = metal_tma_issue_copy,
     b_tma_release = metal_tma_release,
     b_ilc_tag = metal_ilc_tag,
     b_ilc_untag = metal_ilc_untag,
     b_dma_submit = metal_dma_submit mt self,
     b_dma_wait = metal_dma_wait mt\<rparr>"

text \<open>The static initialiser registers the backend for Apple when the process starts.\<close>

definition metal_auto_register :: "'d metal_api \<Rightarrow> ptr \<Rightarrow> 'd metal_hw dispatch \<Rightarrow> 'd metal_hw dispatch" where
  "metal_auto_register mt self disp = register_backend Apple (metal_backend mt self) disp"

subsection \<open>What the framework promises\<close>

text \<open>Two observers of the framework's state: the retain count of a buffer, which is 0 where there
  is none, and whether a command buffer is held but not committed.\<close>

record 'd metal_view =
  mv_refs :: "'d \<Rightarrow> ptr \<Rightarrow> nat"
  mv_open :: "'d \<Rightarrow> ptr \<Rightarrow> bool"

definition keeps_open :: "'d metal_view \<Rightarrow> 'd \<Rightarrow> 'd \<Rightarrow> bool" where
  "keeps_open v d d' = (\<forall>c. mv_open v d c \<longrightarrow> mv_open v d' c)"

text \<open>A buffer stays where it is as long as someone retains it.\<close>

definition keeps_place :: "'d metal_api \<Rightarrow> 'd metal_view \<Rightarrow> 'd \<Rightarrow> 'd \<Rightarrow> bool" where
  "keeps_place mt v d d' = (\<forall>b. 0 < mv_refs v d b \<longrightarrow> 0 < mv_refs v d' b \<longrightarrow> mtlContents mt b d' = mtlContents mt b d)"

definition mtl_quiet :: "'d metal_api \<Rightarrow> 'd metal_view \<Rightarrow> 'd \<Rightarrow> 'd \<Rightarrow> bool" where
  "mtl_quiet mt v d d' = (mv_refs v d' = mv_refs v d \<and> keeps_place mt v d d' \<and> keeps_open v d d')"

text \<open>Calls that are not about buffers neither retain nor release one, and commit nothing.\<close>

definition law_quiet :: "'d metal_api \<Rightarrow> 'd metal_view \<Rightarrow> bool" where
  "law_quiet mt v = (\<forall>d. mtl_quiet mt v d (snd (mtlCreateSystemDefaultDevice mt d))
     \<and> (\<forall>p. mtl_quiet mt v d (snd (mtlNewCommandQueue mt p d)))
     \<and> (\<forall>q. mtl_quiet mt v d (snd (mtlCommandBuffer mt q d)))
     \<and> (\<forall>p buf. mtl_quiet mt v d (hostPoke mt p buf d)))"

text \<open>A new command buffer is open, and a wait returns only for one that is not.\<close>

definition law_commands :: "'d metal_api \<Rightarrow> 'd metal_view \<Rightarrow> bool" where
  "law_commands mt v = (\<forall>d. (\<forall>q c d'. mtlCommandBuffer mt q d = (c, d') \<longrightarrow> c \<noteq> 0 \<longrightarrow> mv_open v d' c)
     \<and> (\<forall>c d'. mtlWaitUntilCompleted mt c d = Some d' \<longrightarrow> \<not> mv_open v d c \<and> mtl_quiet mt v d d'))"

text \<open>A new buffer has one owner and memory of its own; \<^verbatim>\<open>retain\<close> and \<^verbatim>\<open>release\<close> count.\<close>

definition law_buffers :: "'d metal_api \<Rightarrow> 'd metal_view \<Rightarrow> bool" where
  "law_buffers mt v = (\<forall>d.
     (\<forall>p n d'. mtlNewBufferWithLength mt p n d = (0, d') \<longrightarrow> mtl_quiet mt v d d')
   \<and> (\<forall>p n b d'. mtlNewBufferWithLength mt p n d = (b, d') \<longrightarrow> b \<noteq> 0 \<longrightarrow>
         mv_refs v d b = 0 \<and> mv_refs v d' = (mv_refs v d)(b := 1) \<and> keeps_place mt v d d' \<and> keeps_open v d d'
         \<and> mtlContents mt b d' \<noteq> 0 \<and> (\<forall>x. 0 < mv_refs v d x \<longrightarrow> mtlContents mt x d \<noteq> mtlContents mt b d'))
   \<and> (\<forall>p. mv_refs v (objRetain mt p d) = (mv_refs v d)(p := if mv_refs v d p = 0 then 0 else mv_refs v d p + 1)
         \<and> keeps_place mt v d (objRetain mt p d) \<and> keeps_open v d (objRetain mt p d))
   \<and> (\<forall>p. 0 < mv_refs v d p \<longrightarrow> mv_refs v (objRelease mt p d) = (mv_refs v d)(p := mv_refs v d p - 1)
         \<and> keeps_place mt v d (objRelease mt p d) \<and> keeps_open v d (objRelease mt p d)))"

definition metal_law :: "'d metal_api \<Rightarrow> 'd metal_view \<Rightarrow> bool" where
  "metal_law mt v = (law_quiet mt v \<and> law_commands mt v \<and> law_buffers mt v)"

text \<open>Memory of the process holds what was put there.\<close>

definition host_law :: "'d metal_api \<Rightarrow> bool" where
  "host_law mt = (\<forall>d p. (\<forall>n. length (hostPeek mt p n d) = n)
     \<and> (\<forall>buf. length buf < 2 ^ 64 \<longrightarrow> hostPeek mt p (length buf) (hostPoke mt p buf d) = buf))"

lemma quiet_refl [simp, intro]: "mtl_quiet mt v d d"
  by (simp add: mtl_quiet_def keeps_place_def keeps_open_def)

lemma quiet_trans: "mtl_quiet mt v a b \<Longrightarrow> mtl_quiet mt v b c \<Longrightarrow> mtl_quiet mt v a c"
  by (simp add: mtl_quiet_def keeps_place_def keeps_open_def)

lemma law_quietD:
  assumes "metal_law mt v"
  shows "mtlCreateSystemDefaultDevice mt d = (x, d') \<Longrightarrow> mtl_quiet mt v d d'"
    "mtlNewCommandQueue mt p d = (x, d') \<Longrightarrow> mtl_quiet mt v d d'"
    "mtlCommandBuffer mt p d = (x, d') \<Longrightarrow> mtl_quiet mt v d d'"
    "mtlCommandBuffer mt p d = (c, d') \<Longrightarrow> c \<noteq> 0 \<Longrightarrow> mv_open v d' c"
    "mtlWaitUntilCompleted mt c d = Some d' \<Longrightarrow> \<not> mv_open v d c \<and> mtl_quiet mt v d d'"
    "mtlNewBufferWithLength mt p n d = (0, d') \<Longrightarrow> mtl_quiet mt v d d'"
  using assms unfolding metal_law_def law_quiet_def law_commands_def law_buffers_def by (metis snd_conv)+

lemma law_newbuffer:
  assumes "metal_law mt v" and "mtlNewBufferWithLength mt p n d = (b, d')" and "b \<noteq> 0"
  shows "mv_refs v d b = 0" "mv_refs v d' = (mv_refs v d)(b := 1)" "keeps_place mt v d d'" "keeps_open v d d'"
    "mtlContents mt b d' \<noteq> 0" "0 < mv_refs v d x \<Longrightarrow> mtlContents mt x d \<noteq> mtlContents mt b d'"
  using assms unfolding metal_law_def law_buffers_def by blast+

lemma law_retain:
  assumes "metal_law mt v"
  shows "mv_refs v (objRetain mt p d) = (mv_refs v d)(p := if mv_refs v d p = 0 then 0 else mv_refs v d p + 1)"
    "keeps_place mt v d (objRetain mt p d)" "keeps_open v d (objRetain mt p d)"
  using assms unfolding metal_law_def law_buffers_def by blast+

lemma law_release:
  assumes "metal_law mt v" and "0 < mv_refs v d p"
  shows "mv_refs v (objRelease mt p d) = (mv_refs v d)(p := mv_refs v d p - 1)"
    "keeps_place mt v d (objRelease mt p d)" "keeps_open v d (objRelease mt p d)"
  using assms unfolding metal_law_def law_buffers_def by blast+

subsection \<open>The shelf of buffers\<close>

text \<open>What every call but the release of a buffer keeps: buffers stay held and in place, command
  buffers stay open.\<close>

definition mtl_kept :: "'d metal_api \<Rightarrow> 'd metal_view \<Rightarrow> 'd \<Rightarrow> 'd \<Rightarrow> bool" where
  "mtl_kept mt v d d' = ((\<forall>b. 0 < mv_refs v d b \<longrightarrow> 0 < mv_refs v d' b \<and> mtlContents mt b d' = mtlContents mt b d)
     \<and> keeps_open v d d')"

lemma kept_refl [simp, intro]: "mtl_kept mt v d d"
  by (simp add: mtl_kept_def keeps_open_def)

lemma kept_trans: "mtl_kept mt v a b \<Longrightarrow> mtl_kept mt v b c \<Longrightarrow> mtl_kept mt v a c"
  by (simp add: mtl_kept_def keeps_open_def)

lemma kept_quiet: "mtl_quiet mt v d d' \<Longrightarrow> mtl_kept mt v d d'"
  by (simp add: mtl_kept_def mtl_quiet_def keeps_place_def)

lemma kept_retain: "metal_law mt v \<Longrightarrow> mtl_kept mt v d (objRetain mt p d)"
  using law_retain [where p = p and d = d] by (auto simp: mtl_kept_def keeps_place_def)

lemma kept_open: "mtl_kept mt v d d' \<Longrightarrow> keeps_open v d d'"
  by (simp add: mtl_kept_def)

lemma open_refl [simp, intro]: "keeps_open v d d"
  by (simp add: keeps_open_def)

lemma open_trans: "keeps_open v a b \<Longrightarrow> keeps_open v b c \<Longrightarrow> keeps_open v a c"
  by (simp add: keeps_open_def)

text \<open>The buffers on a list hold exactly the blocks \<open>S\<close>, each its own.\<close>

definition on_shelf :: "'d metal_api \<Rightarrow> 'd metal_view \<Rightarrow> 'd \<Rightarrow> ptr list \<Rightarrow> ptr set \<Rightarrow> bool" where
  "on_shelf mt v d bufs S = ((\<forall>b \<in> set bufs. 0 < mv_refs v d b) \<and> distinct (map (\<lambda>b. mtlContents mt b d) bufs)
     \<and> (\<lambda>b. mtlContents mt b d) ` set bufs = S \<and> 0 \<notin> S)"

definition shelf :: "'d metal_api \<Rightarrow> 'd metal_view \<Rightarrow> ptr \<Rightarrow> 'd metal_hw \<Rightarrow> ptr set \<Rightarrow> bool" where
  "shelf mt v self hw S = (case map_of (mh_states hw) self of
     None \<Rightarrow> S = {} | Some s \<Rightarrow> on_shelf mt v (mh_drv hw) (mt_buffers s) S)"

lemma on_shelf_nil [simp]: "on_shelf mt v d [] S = (S = {})"
  by (auto simp: on_shelf_def)

lemma on_shelf_kept:
  assumes k: "mtl_kept mt v d d'" and s: "on_shelf mt v d bufs S"
  shows "on_shelf mt v d' bufs S"
proof -
  have c: "\<forall>b \<in> set bufs. 0 < mv_refs v d' b \<and> mtlContents mt b d' = mtlContents mt b d"
    using k s by (simp add: mtl_kept_def on_shelf_def)
  then have "map (\<lambda>b. mtlContents mt b d') bufs = map (\<lambda>b. mtlContents mt b d) bufs"
    "(\<lambda>b. mtlContents mt b d') ` set bufs = (\<lambda>b. mtlContents mt b d) ` set bufs" by simp_all
  then show ?thesis using c s unfolding on_shelf_def by metis
qed

lemma mdrv_frame [simp]:
  "mh_states (e_hw (put_mdrv d env)) = mh_states (e_hw env)" "mh_stuck (e_hw (put_mdrv d env)) = mh_stuck (e_hw env)"
  "mh_files (e_hw (put_mdrv d env)) = mh_files (e_hw env)" "mdrv_of (put_mdrv d env) = d"
  "e_device (put_mdrv d env) = e_device env" "e_plat (put_mdrv d env) = e_plat env"
  by (simp_all add: put_mdrv_def)

lemma mstate_frame [simp]:
  "mh_states (e_hw (put_mstate self s env)) = AList.update self s (mh_states (e_hw env))"
  "mh_stuck (e_hw (put_mstate self s env)) = mh_stuck (e_hw env)" "mdrv_of (put_mstate self s env) = mdrv_of env"
  "mh_files (e_hw (put_mstate self s env)) = mh_files (e_hw env)" "e_device (put_mstate self s env) = e_device env"
  by (simp_all add: put_mstate_def)

lemma mfile_frame [simp]:
  "mh_states (e_hw (put_mfile p c env)) = mh_states (e_hw env)" "mh_stuck (e_hw (put_mfile p c env)) = mh_stuck (e_hw env)"
  "mdrv_of (put_mfile p c env) = mdrv_of env" "mh_files (e_hw (put_mfile p c env)) = AList.update p c (mh_files (e_hw env))"
  by (simp_all add: put_mfile_def)

lemma shelf_kept: "mtl_kept mt v (mh_drv hw) (mh_drv hw') \<Longrightarrow> mh_states hw' = mh_states hw \<Longrightarrow> shelf mt v self hw S
    \<Longrightarrow> shelf mt v self hw' S"
  by (auto simp: shelf_def intro: on_shelf_kept split: option.splits)

text \<open>Looking the state up makes it if need be, with an empty shelf.\<close>

lemma mt_state_some: "mt_state mt self env = (Some s, env') \<Longrightarrow> map_of (mh_states (e_hw env')) self = Some s"
  by (auto simp: mt_state_def Let_def split: option.splits prod.splits if_splits)

lemma mt_state_kept:
  assumes law: "metal_law mt v" and st: "mt_state mt self env = (r, env')"
  shows "mtl_kept mt v (mdrv_of env) (mdrv_of env')" "mh_stuck (e_hw env') = mh_stuck (e_hw env)"
    "mh_files (e_hw env') = mh_files (e_hw env)" "e_device env' = e_device env"
    "shelf mt v self (e_hw env) S \<Longrightarrow> shelf mt v self (e_hw env') S"
    "shelf mt v self (e_hw env) S \<Longrightarrow> r = None \<Longrightarrow> S = {}"
proof -
  obtain dev d1 where c: "mtlCreateSystemDefaultDevice mt (mdrv_of env) = (dev, d1)" by force
  obtain q d2 where q: "mtlNewCommandQueue mt dev d1 = (q, d2)" by force
  note k1 = kept_quiet [OF law_quietD(1) [OF law c]]
  note k2 = kept_trans [OF k1 kept_quiet [OF law_quietD(2) [OF law q]]]
  show "mtl_kept mt v (mdrv_of env) (mdrv_of env')" "mh_stuck (e_hw env') = mh_stuck (e_hw env)"
    "mh_files (e_hw env') = mh_files (e_hw env)" "e_device env' = e_device env"
    "shelf mt v self (e_hw env) S \<Longrightarrow> shelf mt v self (e_hw env') S"
    "shelf mt v self (e_hw env) S \<Longrightarrow> r = None \<Longrightarrow> S = {}"
    using st k1 k2 by (auto simp: mt_state_def c q shelf_def Let_def split: option.splits if_splits)
qed

lemma new_command_buffer_kept:
  assumes law: "metal_law mt v" and n: "new_command_buffer mt s env = (cb, env')"
  shows "mtl_kept mt v (mdrv_of env) (mdrv_of env')" "mh_states (e_hw env') = mh_states (e_hw env)"
    "mh_stuck (e_hw env') = mh_stuck (e_hw env)" "cb \<noteq> 0 \<Longrightarrow> mv_open v (mdrv_of env') cb"
proof -
  obtain c d1 where m: "msg_new (mt_queue s) (mtlCommandBuffer mt (mt_queue s)) (mdrv_of env) = (c, d1)" by force
  have k: "mtl_kept mt v (mdrv_of env) d1" "c \<noteq> 0 \<Longrightarrow> mv_open v d1 c"
    using m law_quietD(3,4) [OF law] by (auto simp: msg_new_def intro: kept_quiet split: if_splits)
  note r = kept_retain [OF law, of d1 c]
  have e: "cb = c" "env' = put_mdrv (msg_do c (objRetain mt c) d1) env"
    using n by (auto simp: new_command_buffer_def m)
  show "mtl_kept mt v (mdrv_of env) (mdrv_of env')" "mh_states (e_hw env') = mh_states (e_hw env)"
    "mh_stuck (e_hw env') = mh_stuck (e_hw env)"
    using k(1) kept_trans [OF k(1) r] by (auto simp: e msg_do_def)
  show "cb \<noteq> 0 \<Longrightarrow> mv_open v (mdrv_of env') cb"
    using k(2) kept_open [OF r] by (auto simp: e msg_do_def keeps_open_def)
qed

subsection \<open>Allocation and release\<close>

lemma metal_alloc_shelf:
  assumes law: "metal_law mt v" and sh: "shelf mt v self (e_hw env) S"
    and a: "metal_alloc_hbm mt self n env = (s, p, env')"
  shows "s = Ok \<Longrightarrow> p \<noteq> 0 \<and> p \<notin> S \<and> shelf mt v self (e_hw env') (insert p S)"
    "s \<noteq> Ok \<Longrightarrow> shelf mt v self (e_hw env') S" "mtl_kept mt v (mdrv_of env) (mdrv_of env')"
    "mh_stuck (e_hw env') = mh_stuck (e_hw env)"
proof -
  have all: "(s = Ok \<longrightarrow> p \<noteq> 0 \<and> p \<notin> S \<and> shelf mt v self (e_hw env') (insert p S))
    \<and> (s \<noteq> Ok \<longrightarrow> shelf mt v self (e_hw env') S) \<and> mtl_kept mt v (mdrv_of env) (mdrv_of env')
    \<and> mh_stuck (e_hw env') = mh_stuck (e_hw env)"
  proof (cases "fst (mt_state mt self env)")
    case None
    then obtain env1 where st: "mt_state mt self env = (None, env1)" by (metis prod.collapse)
    then show ?thesis using a mt_state_kept [OF law st] sh by (simp add: metal_alloc_hbm_def)
  next
    case (Some x)
    then obtain env1 where st: "mt_state mt self env = (Some x, env1)" by (metis prod.collapse)
    note k = mt_state_kept [OF law st]
    have on: "on_shelf mt v (mdrv_of env1) (mt_buffers x) S"
      using k(5) [OF sh] mt_state_some [OF st] by (simp add: shelf_def)
    obtain b d1 where nb: "mtlNewBufferWithLength mt (mt_device x) n (mdrv_of env1) = (b, d1)" by force
    show ?thesis
    proof (cases "b = 0")
      case True
      then have "env' = put_mdrv d1 env1" "s = OutOfMemory" using a st nb by (auto simp: metal_alloc_hbm_def)
      moreover have "mtl_kept mt v (mdrv_of env1) d1" using law_quietD(6) [OF law] nb True by (auto intro: kept_quiet)
      ultimately show ?thesis using k(1,2) k(5) [OF sh] by (auto intro: kept_trans shelf_kept)
    next
      case False
      note nw = law_newbuffer [OF law nb False]
      let ?d2 = "objRetain mt b d1"
      have e: "s = Ok" "p = mtlContents mt b ?d2"
        "env' = put_mstate self (x\<lparr>mt_buffers := mt_buffers x @ [b]\<rparr>) (put_mdrv ?d2 env1)"
        using a st nb False by (auto simp: metal_alloc_hbm_def Let_def)
      have k1: "mtl_kept mt v (mdrv_of env1) d1" using nw(2-4) by (auto simp: mtl_kept_def keeps_place_def)
      note k2 = kept_retain [OF law, of d1 b] and k3 = kept_trans [OF k1 kept_retain [OF law, of d1 b]]
      have p: "p = mtlContents mt b d1" "0 < mv_refs v ?d2 b" using k2 nw(2) by (auto simp: e mtl_kept_def)
      have "p \<notin> S" using on nw(6) unfolding on_shelf_def p(1) by force
      moreover have "on_shelf mt v ?d2 (mt_buffers x @ [b]) (insert p S)"
        using on_shelf_kept [OF k3 on] p nw(5) \<open>p \<notin> S\<close> e(2) by (auto simp: on_shelf_def)
      ultimately show ?thesis using e(1,3) k(2) p nw(5) kept_trans [OF k(1) k3] by (simp add: shelf_def)
    qed
  qed
  then show "s = Ok \<Longrightarrow> p \<noteq> 0 \<and> p \<notin> S \<and> shelf mt v self (e_hw env') (insert p S)"
    "s \<noteq> Ok \<Longrightarrow> shelf mt v self (e_hw env') S" "mtl_kept mt v (mdrv_of env) (mdrv_of env')"
    "mh_stuck (e_hw env') = mh_stuck (e_hw env)" by blast+
qed

lemma erase_first_split: "erase_first P xs = Some (x, ys) \<Longrightarrow> \<exists>as bs. xs = as @ x # bs \<and> ys = as @ bs \<and> P x"
proof (induction xs arbitrary: ys)
  case (Cons a xs)
  show ?case
  proof (cases "P a")
    case False
    then obtain zs where "erase_first P xs = Some (x, zs)" "ys = a # zs" using Cons.prems by auto
    then show ?thesis using Cons.IH by (metis append_Cons)
  qed (use Cons.prems in auto)
qed simp

lemma erase_first_none: "erase_first P xs = None \<longleftrightarrow> (\<forall>x \<in> set xs. \<not> P x)"
  by (induction xs) auto

lemma metal_free_shelf:
  assumes law: "metal_law mt v" and sh: "shelf mt v self (e_hw env) S" and f: "metal_free_hbm mt self p env = (s, env')"
  shows "p \<in> S \<Longrightarrow> s = Ok" "shelf mt v self (e_hw env') (S - {p})" "keeps_open v (mdrv_of env) (mdrv_of env')"
    "mh_stuck (e_hw env') = mh_stuck (e_hw env)"
proof -
  obtain r env1 where st: "mt_state mt self env = (r, env1)" by force
  note k = mt_state_kept [OF law st]
  have o: "keeps_open v (mdrv_of env) (mdrv_of env1)" using k(1) by (rule kept_open)
  have z: "0 \<notin> S" using sh by (auto simp: shelf_def on_shelf_def split: option.splits)
  have all: "(p \<in> S \<longrightarrow> s = Ok) \<and> shelf mt v self (e_hw env') (S - {p}) \<and> keeps_open v (mdrv_of env) (mdrv_of env')
    \<and> mh_stuck (e_hw env') = mh_stuck (e_hw env)"
  proof (cases r)
    case None
    then show ?thesis using f st k(2) k(5) [OF sh] k(6) [OF sh] o by (simp add: metal_free_hbm_def)
  next
    case (Some x)
    have m: "map_of (mh_states (e_hw env1)) self = Some x" using mt_state_some st Some by blast
    have on: "on_shelf mt v (mdrv_of env1) (mt_buffers x) S" using k(5) [OF sh] m by (simp add: shelf_def)
    let ?P = "\<lambda>b. mtlContents mt b (mdrv_of env1) = p"
    show ?thesis
    proof (cases "p = 0 \<or> erase_first ?P (mt_buffers x) = None")
      case True
      then have "p \<notin> S" using on z by (auto simp: erase_first_none on_shelf_def)
      moreover have "env' = env1" using f st Some True by (auto simp: metal_free_hbm_def split: if_splits)
      ultimately show ?thesis using k(2) k(5) [OF sh] o by simp
    next
      case False
      then obtain b rest where er: "erase_first ?P (mt_buffers x) = Some (b, rest)" by auto
      obtain as bs where sp: "mt_buffers x = as @ b # bs" "rest = as @ bs" "?P b" using erase_first_split [OF er] by blast
      have e: "s = Ok" "env' = put_mstate self (x\<lparr>mt_buffers := rest\<rparr>) (put_mdrv (objRelease mt b (mdrv_of env1)) env1)"
        using f st Some False er by (auto simp: metal_free_hbm_def)
      have rb: "0 < mv_refs v (mdrv_of env1) b" using on sp(1) by (simp add: on_shelf_def)
      note rl = law_release [OF law rb]
      have ne: "b \<notin> set rest" using on sp by (auto simp: on_shelf_def)
      have c: "\<forall>y \<in> set rest. 0 < mv_refs v (objRelease mt b (mdrv_of env1)) y
          \<and> mtlContents mt y (objRelease mt b (mdrv_of env1)) = mtlContents mt y (mdrv_of env1)"
      proof
        fix y assume y: "y \<in> set rest"
        then have "0 < mv_refs v (mdrv_of env1) y" "y \<noteq> b" using on sp ne by (auto simp: on_shelf_def)
        then show "0 < mv_refs v (objRelease mt b (mdrv_of env1)) y
            \<and> mtlContents mt y (objRelease mt b (mdrv_of env1)) = mtlContents mt y (mdrv_of env1)"
          using rl(1,2) by (simp add: keeps_place_def)
      qed
      have "S = insert p ((\<lambda>b. mtlContents mt b (mdrv_of env1)) ` set rest)"
        "p \<notin> (\<lambda>b. mtlContents mt b (mdrv_of env1)) ` set rest"
        using on sp unfolding on_shelf_def by (simp_all add: image_Un)
      then have im: "(\<lambda>b. mtlContents mt b (mdrv_of env1)) ` set rest = S - {p}" by simp
      have d: "distinct (map (\<lambda>b. mtlContents mt b (mdrv_of env1)) rest)" using on sp by (simp add: on_shelf_def)
      have mp: "map (\<lambda>y. mtlContents mt y (objRelease mt b (mdrv_of env1))) rest = map (\<lambda>y. mtlContents mt y (mdrv_of env1)) rest"
        "(\<lambda>y. mtlContents mt y (objRelease mt b (mdrv_of env1))) ` set rest = (\<lambda>y. mtlContents mt y (mdrv_of env1)) ` set rest"
        using c by simp_all
      have "distinct (map (\<lambda>y. mtlContents mt y (objRelease mt b (mdrv_of env1))) rest)" unfolding mp(1) by (rule d)
      moreover have "(\<lambda>y. mtlContents mt y (objRelease mt b (mdrv_of env1))) ` set rest = S - {p}" unfolding mp(2) by (rule im)
      ultimately have "on_shelf mt v (objRelease mt b (mdrv_of env1)) rest (S - {p})"
        unfolding on_shelf_def using c z by blast
      then show ?thesis using e k(2) open_trans [OF o rl(3)] by (simp add: shelf_def)
    qed
  qed
  then show "p \<in> S \<Longrightarrow> s = Ok" "shelf mt v self (e_hw env') (S - {p})" "keeps_open v (mdrv_of env) (mdrv_of env')"
    "mh_stuck (e_hw env') = mh_stuck (e_hw env)" by blast+
qed

subsection \<open>What the calls keep\<close>

text \<open>The calls that neither allocate nor release leave the shelf as it is.  All but launches leave
  a shelf behind and command buffers open, and a wait that never returned stays one.\<close>

definition metal_keeps :: "'d metal_api \<Rightarrow> 'd metal_view \<Rightarrow> ptr \<Rightarrow> 'd metal_env \<Rightarrow> 'd metal_env \<Rightarrow> bool" where
  "metal_keeps mt v self env env' = (metal_law mt v \<longrightarrow>
     (\<forall>S. shelf mt v self (e_hw env) S \<longrightarrow> shelf mt v self (e_hw env') S))"

definition metal_opens :: "'d metal_api \<Rightarrow> 'd metal_view \<Rightarrow> ptr \<Rightarrow> 'd metal_env \<Rightarrow> 'd metal_env \<Rightarrow> bool" where
  "metal_opens mt v self env env' = (metal_law mt v \<longrightarrow> (\<forall>S. shelf mt v self (e_hw env) S \<longrightarrow>
     (\<exists>T. shelf mt v self (e_hw env') T) \<and> keeps_open v (mdrv_of env) (mdrv_of env')
     \<and> (mh_stuck (e_hw env) \<longrightarrow> mh_stuck (e_hw env'))))"

lemma metal_opens_trans: "metal_opens mt v self a b \<Longrightarrow> metal_opens mt v self b c \<Longrightarrow> metal_opens mt v self a c"
  unfolding metal_opens_def by (meson open_trans)

lemma metal_create_keeps:
  assumes law: "metal_law mt v" and c: "metal_create_stream mt self k prio env = (s, cb, env')"
  shows "shelf mt v self (e_hw env) S \<Longrightarrow> shelf mt v self (e_hw env') S" "mtl_kept mt v (mdrv_of env) (mdrv_of env')"
    "mh_stuck (e_hw env') = mh_stuck (e_hw env)" "cb \<noteq> 0 \<Longrightarrow> mv_open v (mdrv_of env') cb"
proof -
  obtain r env1 where st: "mt_state mt self env = (r, env1)" by force
  note k = mt_state_kept [OF law st]
  have all: "(shelf mt v self (e_hw env) S \<longrightarrow> shelf mt v self (e_hw env') S) \<and> mtl_kept mt v (mdrv_of env) (mdrv_of env')
    \<and> mh_stuck (e_hw env') = mh_stuck (e_hw env) \<and> (cb \<noteq> 0 \<longrightarrow> mv_open v (mdrv_of env') cb)"
  proof (cases r)
    case None
    then show ?thesis using c st k by (simp add: metal_create_stream_def)
  next
    case (Some x)
    then have n: "new_command_buffer mt x env1 = (cb, env')" using c st by (simp add: metal_create_stream_def)
    note nb = new_command_buffer_kept [OF law n]
    have "shelf mt v self (e_hw env) S \<longrightarrow> shelf mt v self (e_hw env') S"
      using k(5) shelf_kept [OF nb(1,2)] by blast
    then show ?thesis using kept_trans [OF k(1) nb(1)] nb(3,4) k(2) by blast
  qed
  then show "shelf mt v self (e_hw env) S \<Longrightarrow> shelf mt v self (e_hw env') S" "mtl_kept mt v (mdrv_of env) (mdrv_of env')"
    "mh_stuck (e_hw env') = mh_stuck (e_hw env)" "cb \<noteq> 0 \<Longrightarrow> mv_open v (mdrv_of env') cb" by blast+
qed

text \<open>A wait on an open command buffer does not return; any other leaves everything in place.\<close>

lemma wait_completed_keeps:
  assumes law: "metal_law mt v"
  shows "mtl_kept mt v (mdrv_of env) (mdrv_of (wait_completed mt cb env))"
    "mh_states (e_hw (wait_completed mt cb env)) = mh_states (e_hw env)"
    "mh_stuck (e_hw env) \<Longrightarrow> mh_stuck (e_hw (wait_completed mt cb env))"
    "mv_open v (mdrv_of env) cb \<Longrightarrow> mh_stuck (e_hw (wait_completed mt cb env))"
proof -
  have w: "\<not> mv_open v (mdrv_of env) cb \<and> mtl_kept mt v (mdrv_of env) d"
    if "mtlWaitUntilCompleted mt cb (mdrv_of env) = Some d" for d
    using law_quietD(5) [OF law that] by (simp add: kept_quiet)
  show "mtl_kept mt v (mdrv_of env) (mdrv_of (wait_completed mt cb env))"
    "mh_states (e_hw (wait_completed mt cb env)) = mh_states (e_hw env)"
    "mh_stuck (e_hw env) \<Longrightarrow> mh_stuck (e_hw (wait_completed mt cb env))"
    "mv_open v (mdrv_of env) cb \<Longrightarrow> mh_stuck (e_hw (wait_completed mt cb env))"
    using w by (auto simp: wait_completed_def split: option.split)
qed

lemma metal_sync_keeps:
  assumes law: "metal_law mt v" and r: "metal_sync_stream mt h env = (s, env')"
  shows "s = Ok" "shelf mt v self (e_hw env) S \<Longrightarrow> shelf mt v self (e_hw env') S"
    "keeps_open v (mdrv_of env) (mdrv_of env')" "mh_stuck (e_hw env) \<Longrightarrow> mh_stuck (e_hw env')"
    "h \<noteq> 0 \<Longrightarrow> mv_open v (mdrv_of env) h \<Longrightarrow> mh_stuck (e_hw env')"
proof -
  note w = wait_completed_keeps [OF law, where env = env and cb = h]
  have e: "s = Ok" "env' = (if h = 0 then env else wait_completed mt h env)"
    using r by (auto simp: metal_sync_stream_def)
  show "s = Ok" by (rule e(1))
  show "shelf mt v self (e_hw env) S \<Longrightarrow> shelf mt v self (e_hw env') S"
    using shelf_kept [OF w(1,2)] by (auto simp: e(2))
  show "keeps_open v (mdrv_of env) (mdrv_of env')" using kept_open [OF w(1)] by (auto simp: e(2))
  show "mh_stuck (e_hw env) \<Longrightarrow> mh_stuck (e_hw env')" using w(3) by (auto simp: e(2))
  show "h \<noteq> 0 \<Longrightarrow> mv_open v (mdrv_of env) h \<Longrightarrow> mh_stuck (e_hw env')" using w(4) by (auto simp: e(2))
qed

lemmas metal_inert = metal_prefetch_range_def metal_destroy_stream_def metal_gds_init_def metal_gds_fini_def
  metal_grdma_init_def metal_grdma_fini_def metal_install_fault_buffer_def metal_uninstall_fault_buffer_def
  metal_ilc_tag_def metal_ilc_untag_def metal_release_vaddress_def

lemma metal_moves:
  "metal_keeps mt v self env (snd (snd (metal_create_stream mt self k prio env)))"
  "metal_opens mt v self env (snd (snd (metal_create_stream mt self k prio env)))"
  "metal_keeps mt v self env (snd (metal_sync_stream mt h env))"
  "metal_opens mt v self env (snd (metal_sync_stream mt h env))"
  "metal_opens mt v self env (snd (snd (metal_alloc_hbm mt self n env)))"
  "metal_opens mt v self env (snd (metal_free_hbm mt self p env))"
proof -
  obtain s1 cb e1 where c: "metal_create_stream mt self k prio env = (s1, cb, e1)" using prod_cases3 by blast
  obtain s2 e2 where y: "metal_sync_stream mt h env = (s2, e2)" by force
  obtain s3 q e3 where a: "metal_alloc_hbm mt self n env = (s3, q, e3)" using prod_cases3 by blast
  obtain s4 e4 where f: "metal_free_hbm mt self p env = (s4, e4)" by force
  note 1 = metal_create_keeps [OF _ c] and 2 = metal_sync_keeps [OF _ y]
    and 3 = metal_alloc_shelf [OF _ _ a] and 4 = metal_free_shelf [OF _ _ f]
  show "metal_keeps mt v self env (snd (snd (metal_create_stream mt self k prio env)))"
    using 1(1) by (simp add: metal_keeps_def c)
  show "metal_opens mt v self env (snd (snd (metal_create_stream mt self k prio env)))"
    using 1(1,3) kept_open [OF 1(2)] unfolding metal_opens_def c snd_conv by metis
  show "metal_keeps mt v self env (snd (metal_sync_stream mt h env))"
    using 2(2) by (simp add: metal_keeps_def y)
  show "metal_opens mt v self env (snd (metal_sync_stream mt h env))"
    using 2(2-4) unfolding metal_opens_def y snd_conv by metis
  show "metal_opens mt v self env (snd (snd (metal_alloc_hbm mt self n env)))"
    using 3(1,2,4) kept_open [OF 3(3)] unfolding metal_opens_def a snd_conv by metis
  show "metal_opens mt v self env (snd (metal_free_hbm mt self p env))"
    using 4(2-4) unfolding metal_opens_def f snd_conv by metis
qed

lemma metal_keeps_refl [simp, intro]: "metal_keeps mt v self env env" "metal_opens mt v self env env"
  by (auto simp: metal_keeps_def metal_opens_def)

subsection \<open>A framework for the witnesses\<close>

text \<open>A framework whose buffers come from a counter and are their own memory, with one object for
  all devices, queues and command buffers.  It is not part of the program.\<close>

record demo_mtl =
  dm_next :: u64
  dm_refs :: "ptr \<Rightarrow> nat"
  dm_open :: "ptr \<Rightarrow> bool"
  dm_mem :: "ptr \<Rightarrow> 8 word"

definition demo_buffer :: "demo_mtl \<Rightarrow> ptr \<times> demo_mtl" where
  "demo_buffer d = (if dm_next d = 0 \<or> 0 < dm_refs d (dm_next d) then (0, d)
     else (dm_next d, d\<lparr>dm_next := dm_next d + 1, dm_refs := (dm_refs d)(dm_next d := 1)\<rparr>))"

definition demo_metal :: "demo_mtl metal_api" where
  "demo_metal = \<lparr>mtlCreateSystemDefaultDevice = (\<lambda>d. (1, d)), mtlName = (\<lambda>p d. ''demo''),
     mtlRecommendedMaxWorkingSetSize = (\<lambda>p d. 0x100000), mtlNewCommandQueue = (\<lambda>p d. (1, d)),
     mtlCommandBuffer = (\<lambda>q d. (1, d\<lparr>dm_open := (dm_open d)(1 := True)\<rparr>)),
     mtlWaitUntilCompleted = (\<lambda>c d. if dm_open d c then None else Some d),
     mtlNewLibraryWithSource = (\<lambda>p src d. (1, False, d)), mtlComputeCommandEncoder = (\<lambda>c d. (1, d)),
     mtlSetComputePipelineState = (\<lambda>e p d. d), mtlDispatchThreads = (\<lambda>e g b d. d), mtlEndEncoding = (\<lambda>e d. d),
     mtlCommit = (\<lambda>c d. d\<lparr>dm_open := (dm_open d)(c := False)\<rparr>), mtlNewBufferWithLength = (\<lambda>p n. demo_buffer),
     mtlContents = (\<lambda>b d. b),
     objRetain = (\<lambda>p d. d\<lparr>dm_refs := (dm_refs d)(p := if dm_refs d p = 0 then 0 else dm_refs d p + 1)\<rparr>),
     objRelease = (\<lambda>p d. d\<lparr>dm_refs := (dm_refs d)(p := dm_refs d p - 1)\<rparr>),
     hostPeek = (\<lambda>p n d. map (\<lambda>i. dm_mem d (p + of_nat i)) [0..<n]),
     hostPoke = (\<lambda>p buf d. d\<lparr>dm_mem := (\<lambda>a. if unat (a - p) < length buf then buf ! unat (a - p) else dm_mem d a)\<rparr>)\<rparr>"

definition demo_view :: "demo_mtl metal_view" where
  "demo_view = \<lparr>mv_refs = dm_refs, mv_open = dm_open\<rparr>"

definition demo_mhw :: "demo_mtl metal_hw" where
  "demo_mhw = \<lparr>mh_drv = \<lparr>dm_next = 2, dm_refs = (\<lambda>_. 0), dm_open = (\<lambda>_. False), dm_mem = (\<lambda>a. ucast a)\<rparr>,
     mh_states = [], mh_files = [(''f'', [9, 9, 9, 9])], mh_stuck = False\<rparr>"

definition demo_menv :: "demo_mtl metal_env" where
  "demo_menv = \<lparr>e_device = device_desc_default\<lparr>dd_vendor := Apple, dd_arch := AppleSilicon\<rparr>, e_hbm_pool_bytes = 0x1000,
     e_plat = platform_handle_default, e_hw = demo_mhw\<rparr>"

lemma demo_metal_law: "metal_law demo_metal demo_view"
proof -
  have "law_quiet demo_metal demo_view" "law_commands demo_metal demo_view"
    by (simp_all add: law_quiet_def law_commands_def mtl_quiet_def keeps_place_def keeps_open_def demo_metal_def demo_view_def)
  moreover have "law_buffers demo_metal demo_view"
    by (auto simp: law_buffers_def mtl_quiet_def keeps_place_def keeps_open_def demo_metal_def demo_view_def demo_buffer_def)
  ultimately show ?thesis by (simp add: metal_law_def)
qed

lemma demo_host_law: "host_law demo_metal"
proof -
  have "hostPeek demo_metal p (length buf) (hostPoke demo_metal p buf d) = buf" if "length buf < 2 ^ 64" for p buf d
  proof (rule nth_equalityI)
    show "length (hostPeek demo_metal p (length buf) (hostPoke demo_metal p buf d)) = length buf"
      by (simp add: demo_metal_def)
    fix i assume "i < length (hostPeek demo_metal p (length buf) (hostPoke demo_metal p buf d))"
    then have i: "i < length buf" by (simp add: demo_metal_def)
    then have "unat (of_nat i :: u64) = i" using that by (simp add: unat_of_nat take_bit_nat_eq_self)
    then show "hostPeek demo_metal p (length buf) (hostPoke demo_metal p buf d) ! i = buf ! i"
      using i by (simp add: demo_metal_def)
  qed
  then show ?thesis by (auto simp: host_law_def) (simp add: demo_metal_def)
qed

subsection \<open>Modules and grids\<close>

interpretation mtl: functionless_loader "metal_backend mt self" for mt self
  by unfold_locales
    (auto simp: metal_backend_def metal_load_module_def Let_def split: option.splits prod.splits if_splits)

text \<open>The number of threads of a launch is the product of the sizes modulo \<open>2 ^ 32\<close>.\<close>

lemma mtl_grid_value:
  "unat (fst (mtl_grid (gx, gy, gz) (bx, by, bz))) = unat gx * unat bx mod 2 ^ 32"
  "unat (fst (snd (mtl_grid (gx, gy, gz) (bx, by, bz)))) = unat gy * unat by mod 2 ^ 32"
  "unat (snd (snd (mtl_grid (gx, gy, gz) (bx, by, bz)))) = unat gz * unat bz mod 2 ^ 32"
  by (simp_all add: mtl_grid_def unat_word_ariths)

subsection \<open>Waiting\<close>

text \<open>A command buffer that the shim hands out is never committed: the calls that make one only
  retain it.  Waiting for the event of a submission therefore never returns.\<close>

theorem metal_dma_hangs:
  assumes law: "metal_law mt v" and sub: "metal_dma_submit mt self r env = (s, ev, env1)" and ev: "ev \<noteq> 0"
    and path: "metal_opens mt v self env1 env2" "\<exists>S. shelf mt v self (e_hw env1) S"
  shows "s = Ok \<and> mh_stuck (e_hw (snd (metal_dma_wait mt ev ms env2)))"
proof -
  have c: "metal_create_stream mt self Dma 0 env = (s, ev, env1)"
    using sub by (simp add: metal_dma_submit_def metal_create_stream_def)
  have "mv_open v (mdrv_of env1) ev" using metal_create_keeps(4) [OF law c ev] .
  then have "mv_open v (mdrv_of env2) ev" using path law by (auto simp: metal_opens_def keeps_open_def)
  then have "mh_stuck (e_hw (snd (metal_dma_wait mt ev ms env2)))"
    using wait_completed_keeps(4) [OF law] ev by (simp add: metal_dma_wait_def)
  moreover have "s = Ok" using sub ev by (auto simp: metal_dma_submit_def split: option.splits prod.splits)
  ultimately show ?thesis by blast
qed

text \<open>Synchronising a list of streams one of which is not null never returns, when their command
  buffers are open.\<close>

lemma sync_list_stuck:
  assumes law: "metal_law mt v"
  shows "\<forall>h \<in> set hs. sh_raw h \<noteq> 0 \<longrightarrow> mv_open v (mdrv_of env) (sh_raw h) \<Longrightarrow>
    sync_list (metal_backend mt self) hs env = (s, env') \<Longrightarrow>
    s = Ok \<and> keeps_open v (mdrv_of env) (mdrv_of env') \<and> (mh_stuck (e_hw env) \<or> (\<exists>h \<in> set hs. sh_raw h \<noteq> 0) \<longrightarrow> mh_stuck (e_hw env'))"
proof (induction hs arbitrary: env)
  case (Cons h hs)
  obtain s1 e1 where y: "metal_sync_stream mt (sh_raw h) env = (s1, e1)" by force
  note k = metal_sync_keeps [OF law y]
  have o: "\<forall>h \<in> set hs. sh_raw h \<noteq> 0 \<longrightarrow> mv_open v (mdrv_of e1) (sh_raw h)"
    using Cons.prems(1) k(3) by (simp add: keeps_open_def)
  have "sync_list (metal_backend mt self) hs e1 = (s, env')"
    using Cons.prems(2) y k(1) by (simp add: metal_backend_def)
  note i = Cons.IH [OF o this]
  have "sh_raw h \<noteq> 0 \<Longrightarrow> mh_stuck (e_hw e1)" using k(5) Cons.prems(1) by simp
  then show ?case using i k(4) open_trans [OF k(3)] by auto
qed simp

definition pool_open :: "'d metal_view \<Rightarrow> 'd \<Rightarrow> microkernel \<Rightarrow> bool" where
  "pool_open v d mk = (\<forall>h \<in> set (mk_pool mk). sh_raw h \<noteq> 0 \<longrightarrow> mv_open v d (sh_raw h))"

lemma sync_all_stuck:
  assumes law: "metal_law mt v" and o: "pool_open v (mdrv_of env) mk" and ne: "\<exists>h \<in> set (mk_pool mk). sh_raw h \<noteq> 0"
  shows "mh_stuck (e_hw (snd (sync_all (metal_backend mt self) env mk)))"
proof -
  let ?pf = "metal_backend mt self"
  obtain s1 e1 where 1: "sync_list ?pf (mk_free_compute mk) env = (s1, e1)" by force
  obtain s2 e2 where 2: "sync_list ?pf (mk_free_dma mk) e1 = (s2, e2)" by force
  obtain s3 e3 where 3: "sync_list ?pf (mk_free_fence mk) e2 = (s3, e3)" by force
  have o1: "\<forall>h \<in> set (mk_free_compute mk). sh_raw h \<noteq> 0 \<longrightarrow> mv_open v (mdrv_of env) (sh_raw h)"
    using o by (auto simp: pool_open_def mk_pool_def)
  note k1 = sync_list_stuck [OF law o1 1]
  have o2: "\<forall>h \<in> set (mk_free_dma mk). sh_raw h \<noteq> 0 \<longrightarrow> mv_open v (mdrv_of e1) (sh_raw h)"
    using o k1 by (auto simp: pool_open_def mk_pool_def keeps_open_def)
  note k2 = sync_list_stuck [OF law o2 2]
  have o3: "\<forall>h \<in> set (mk_free_fence mk). sh_raw h \<noteq> 0 \<longrightarrow> mv_open v (mdrv_of e2) (sh_raw h)"
    using o k1 k2 by (auto simp: pool_open_def mk_pool_def keeps_open_def)
  note k3 = sync_list_stuck [OF law o3 3]
  have "mh_stuck (e_hw e3)" using ne k1 k2 k3 by (auto simp: mk_pool_def)
  then show ?thesis using k1 k2 k3 by (simp add: sync_all_def 1 2 3)
qed

subsection \<open>Leaks\<close>

definition shim_buffers :: "ptr \<Rightarrow> 'd metal_env \<Rightarrow> ptr list" where
  "shim_buffers self env = (case map_of (mh_states (e_hw env)) self of None \<Rightarrow> [] | Some s \<Rightarrow> mt_buffers s)"

text \<open>\<open>n\<close> rounds of an allocation that is freed again, as long as the device grants them.\<close>

fun metal_churn :: "'d metal_api \<Rightarrow> ptr \<Rightarrow> u64 \<Rightarrow> nat \<Rightarrow> 'd metal_env \<Rightarrow> 'd metal_env option" where
  "metal_churn mt self bytes 0 env = Some env"
| "metal_churn mt self bytes (Suc n) env =
     (case metal_alloc_hbm mt self bytes env of (s, p, env1) \<Rightarrow>
        if s \<noteq> Ok then None
        else (case metal_free_hbm mt self p env1 of (s2, env2) \<Rightarrow>
                if s2 \<noteq> Ok then None else metal_churn mt self bytes n env2))"

lemma mt_state_refs:
  assumes law: "metal_law mt v" and st: "mt_state mt self env = (Some x, env1)"
  shows "mv_refs v (mdrv_of env1) = mv_refs v (mdrv_of env) \<and> mt_buffers x = shim_buffers self env"
proof -
  obtain dev d1 where c: "mtlCreateSystemDefaultDevice mt (mdrv_of env) = (dev, d1)" by force
  obtain q d2 where q: "mtlNewCommandQueue mt dev d1 = (q, d2)" by force
  have "mv_refs v d2 = mv_refs v (mdrv_of env)"
    using law_quietD(1) [OF law c] law_quietD(2) [OF law q] by (simp add: mtl_quiet_def)
  then show ?thesis using st by (auto simp: mt_state_def c q shim_buffers_def Let_def split: option.splits if_splits)
qed

lemma erase_last: "(\<forall>x \<in> set xs. \<not> P x) \<Longrightarrow> P y \<Longrightarrow> erase_first P (xs @ [y]) = Some (y, xs)"
  by (induction xs) auto

text \<open>One round: the buffer is off the shelf, but retained once for ever.\<close>

lemma churn_round:
  assumes law: "metal_law mt v" and sh: "shelf mt v self (e_hw env) S"
    and a: "metal_alloc_hbm mt self n env = (Ok, p, env1)" and f: "metal_free_hbm mt self p env1 = (s, env2)"
  shows "s = Ok \<and> shim_buffers self env2 = shim_buffers self env \<and> shelf mt v self (e_hw env2) S
    \<and> (\<exists>b. mv_refs v (mdrv_of env) b = 0 \<and> mv_refs v (mdrv_of env2) = (mv_refs v (mdrv_of env))(b := 1))"
proof -
  note al = metal_alloc_shelf [OF law sh a]
  have sh1: "shelf mt v self (e_hw env1) (insert p S)" and p: "p \<noteq> 0" "p \<notin> S" using al(1) by simp_all
  note fr = metal_free_shelf [OF law sh1 f]
  have s: "s = Ok" "shelf mt v self (e_hw env2) S" using fr(1,2) p(2) by simp_all
  obtain x e0 where st: "mt_state mt self env = (Some x, e0)"
    using a by (auto simp: metal_alloc_hbm_def split: option.splits prod.splits)
  note r0 = mt_state_refs [OF law st]
  obtain b d1 where nb: "mtlNewBufferWithLength mt (mt_device x) n (mdrv_of e0) = (b, d1)" by force
  have b: "b \<noteq> 0" using a st nb by (auto simp: metal_alloc_hbm_def)
  note nw = law_newbuffer [OF law nb b]
  let ?d2 = "objRetain mt b d1" and ?x = "x\<lparr>mt_buffers := mt_buffers x @ [b]\<rparr>"
  have e1: "p = mtlContents mt b ?d2" "env1 = put_mstate self ?x (put_mdrv ?d2 e0)"
    using a st nb b by (auto simp: metal_alloc_hbm_def Let_def)
  have st1: "mt_state mt self env1 = (Some ?x, env1)" by (simp add: mt_state_def e1(2))
  have "on_shelf mt v ?d2 (mt_buffers x @ [b]) (insert p S)" using sh1 by (simp add: shelf_def e1(2))
  then have "p \<notin> (\<lambda>y. mtlContents mt y ?d2) ` set (mt_buffers x)" by (simp add: on_shelf_def e1(1))
  then have o: "\<forall>y \<in> set (mt_buffers x). mtlContents mt y ?d2 \<noteq> p" by force
  have er: "erase_first (\<lambda>y. mtlContents mt y ?d2 = p) (mt_buffers x @ [b]) = Some (b, mt_buffers x)"
    using o e1(1) by (intro erase_last) simp_all
  have e2: "env2 = put_mstate self x (put_mdrv (objRelease mt b ?d2) env1)"
  proof -
    have "env2 = put_mstate self (?x\<lparr>mt_buffers := mt_buffers x\<rparr>) (put_mdrv (objRelease mt b (mdrv_of env1)) env1)"
      using f st1 p(1) er by (simp add: metal_free_hbm_def e1(2))
    then show ?thesis by (simp add: e1(2))
  qed
  have r2: "mv_refs v ?d2 = (mv_refs v (mdrv_of env))(b := Suc 1)"
    using law_retain(1) [OF law, where p = b and d = d1] nw(2) r0 by simp
  then have "mv_refs v (objRelease mt b ?d2) = (mv_refs v (mdrv_of env))(b := 1)"
    using law_release(1) [OF law, where p = b and d = ?d2] by simp
  moreover have "mv_refs v (mdrv_of env) b = 0" using nw(1) r0 by simp
  ultimately have "\<exists>b. mv_refs v (mdrv_of env) b = 0 \<and> mv_refs v (mdrv_of env2) = (mv_refs v (mdrv_of env))(b := 1)"
    unfolding e2 by auto
  moreover have "shim_buffers self env2 = shim_buffers self env" using r0 by (simp add: e2 shim_buffers_def)
  ultimately show ?thesis using s by blast
qed

text \<open>C26: Every freed Metal allocation leaks.  \<open>newBufferWithLength\<close> hands out an owned buffer, the shim
  retains it once more and releases it once, so after any number of rounds of allocating and
  freeing, each of which answers \<open>Ok\<close>, that many new buffers still have one owner, and none of
  them is on the shim's list any more.\<close>

theorem metal_free_leaks:
  assumes law: "metal_law mt v" and sh: "shelf mt v self (e_hw env) S"
    and run: "metal_churn mt self bytes n env = Some env'"
  shows "\<exists>lost. finite lost \<and> card lost = n \<and> lost \<inter> set (shim_buffers self env') = {}
    \<and> (\<forall>b \<in> lost. mv_refs v (mdrv_of env) b = 0 \<and> mv_refs v (mdrv_of env') b = 1)
    \<and> (\<forall>b. b \<notin> lost \<longrightarrow> mv_refs v (mdrv_of env') b = mv_refs v (mdrv_of env) b)"
proof -
  have "shelf mt v self (e_hw env) S \<Longrightarrow> metal_churn mt self bytes n env = Some env' \<Longrightarrow>
    \<exists>lost. finite lost \<and> card lost = n \<and> shim_buffers self env' = shim_buffers self env
      \<and> (\<forall>b \<in> lost. mv_refs v (mdrv_of env) b = 0 \<and> mv_refs v (mdrv_of env') b = 1)
      \<and> (\<forall>b. b \<notin> lost \<longrightarrow> mv_refs v (mdrv_of env') b = mv_refs v (mdrv_of env) b)"
  proof (induction n arbitrary: env)
    case 0
    then show ?case by (intro exI [of _ "{}"]) simp
  next
    case (Suc n)
    obtain p e1 where a: "metal_alloc_hbm mt self bytes env = (Ok, p, e1)"
      using Suc.prems(2) by (auto split: prod.splits if_splits)
    obtain e2 where f: "metal_free_hbm mt self p e1 = (Ok, e2)" and c: "metal_churn mt self bytes n e2 = Some env'"
      using Suc.prems(2) a by (auto split: prod.splits if_splits)
    obtain b where b: "mv_refs v (mdrv_of env) b = 0" "mv_refs v (mdrv_of e2) = (mv_refs v (mdrv_of env))(b := 1)"
      "shim_buffers self e2 = shim_buffers self env" "shelf mt v self (e_hw e2) S"
      using churn_round [OF law Suc.prems(1) a f] by blast
    obtain lost where l: "finite lost" "card lost = n" "shim_buffers self env' = shim_buffers self e2"
      "\<forall>x \<in> lost. mv_refs v (mdrv_of e2) x = 0 \<and> mv_refs v (mdrv_of env') x = 1"
      "\<forall>x. x \<notin> lost \<longrightarrow> mv_refs v (mdrv_of env') x = mv_refs v (mdrv_of e2) x"
      using Suc.IH [OF b(4) c] by blast
    have nb: "b \<notin> lost" using l(4) b(2) by auto
    show ?case
    proof (intro exI [of _ "insert b lost"] conjI ballI allI impI)
      fix x assume "x \<in> insert b lost"
      then show "mv_refs v (mdrv_of env) x = 0" "mv_refs v (mdrv_of env') x = 1"
        using b(1,2) l(4,5) nb by (auto split: if_splits)
    next
      fix x assume "x \<notin> insert b lost"
      then show "mv_refs v (mdrv_of env') x = mv_refs v (mdrv_of env) x" using b(2) l(5) by simp
    qed (use l b nb in auto)
  qed
  then obtain lost where l: "finite lost" "card lost = n" "shim_buffers self env' = shim_buffers self env"
    "\<forall>b \<in> lost. mv_refs v (mdrv_of env) b = 0 \<and> mv_refs v (mdrv_of env') b = 1"
    "\<forall>b. b \<notin> lost \<longrightarrow> mv_refs v (mdrv_of env') b = mv_refs v (mdrv_of env) b" using sh run by blast
  have "0 < mv_refs v (mdrv_of env) b" if "b \<in> set (shim_buffers self env)" for b
    using sh that by (auto simp: shelf_def shim_buffers_def on_shelf_def split: option.splits)
  then have "lost \<inter> set (shim_buffers self env') = {}" using l(3,4) by fastforce
  then show ?thesis using l by blast
qed

theorem metal_free_leaks_witness:
  "\<exists>env' lost. metal_churn demo_metal 7 4096 2 demo_menv = Some env' \<and> card lost = 2 \<and> (\<forall>b \<in> lost. dm_refs (mdrv_of env') b = 1)"
proof -
  obtain env' where "metal_churn demo_metal 7 4096 (Suc (Suc 0)) demo_menv = Some env'"
    by (simp add: metal_alloc_hbm_def metal_free_hbm_def mt_state_def demo_metal_def demo_menv_def demo_mhw_def
        demo_buffer_def put_mstate_def put_mdrv_def Let_def)
  then have run: "metal_churn demo_metal 7 4096 2 demo_menv = Some env'" by (simp only: numeral_2_eq_2)
  have "shelf demo_metal demo_view 7 (e_hw demo_menv) {}" by (simp add: shelf_def demo_menv_def demo_mhw_def)
  from metal_free_leaks [OF demo_metal_law this run] obtain lost where "card lost = 2"
    "\<forall>b \<in> lost. mv_refs demo_view (mdrv_of env') b = 1" by blast
  then show ?thesis using run by (auto simp: demo_view_def)
qed

subsection \<open>Storage\<close>

text \<open>On Metal, a storage write followed by a storage read of the same range moves memory to memory
  unchanged, without a bounce buffer.  The write replaces exactly the bytes of its window, extending
  the file when the window passes its end; no other file changes.  A read that comes up short
  answers \<open>IoError\<close> but has overwritten the destination with what it got.\<close>

theorem metal_storage_roundtrip:
  assumes law: "host_law mt" and w: "metal_gds_write_fallback mt path off src n env = (Ok, env1)"
    and rd: "metal_gds_read_fallback mt path off dst n env1 = (s, env2)"
  shows "s = Ok \<and> hostPeek mt dst (unat n) (mdrv_of env2) = hostPeek mt src (unat n) (mdrv_of env)
    \<and> (\<forall>p. p \<noteq> c_str path \<longrightarrow> map_of (mh_files (e_hw env2)) p = map_of (mh_files (e_hw env)) p)
    \<and> (\<exists>c c'. map_of (mh_files (e_hw env)) (c_str path) = Some c \<and> map_of (mh_files (e_hw env2)) (c_str path) = Some c'
        \<and> (n \<noteq> 0 \<longrightarrow> length c' = max (length c) (file_pos off + unat n))
        \<and> (\<forall>i < length c. i < file_pos off \<or> file_pos off + unat n \<le> i \<longrightarrow> c' ! i = c ! i)
        \<and> (\<forall>off' k. length (file_read (file_pos off') (unat k) c') < unat k \<longrightarrow>
             metal_gds_read_fallback mt path off' dst k env2
               = (IoError, put_mdrv (hostPoke mt dst (file_read (file_pos off') (unat k) c') (mdrv_of env2)) env2)))"
proof -
  let ?data = "hostPeek mt src (unat n) (mdrv_of env)"
  have len: "length ?data = unat n" using law by (simp add: host_law_def)
  obtain c where c: "map_of (mh_files (e_hw env)) (c_str path) = Some c"
    "env1 = put_mfile (c_str path) (file_write (file_pos off) ?data c) env"
    using w by (auto simp: metal_gds_write_fallback_def Let_def split: option.splits)
  let ?c' = "file_write (file_pos off) ?data c"
  have r: "file_read (file_pos off) (unat n) ?c' = ?data" using file_write_read [of "file_pos off" ?data c] len by simp
  have e: "s = Ok" "env2 = put_mdrv (hostPoke mt dst ?data (mdrv_of env)) env1"
    using rd len by (auto simp: metal_gds_read_fallback_def c(2) r Let_def)
  have f: "mh_files (e_hw env2) = AList.update (c_str path) ?c' (mh_files (e_hw env))" by (simp add: e(2) c(2))
  have "length ?data < 2 ^ 64" using unsigned_less [of n] by (simp add: len)
  then have "hostPeek mt dst (length ?data) (hostPoke mt dst ?data (mdrv_of env)) = ?data"
    using law unfolding host_law_def by blast
  then have m: "hostPeek mt dst (unat n) (mdrv_of env2) = ?data" using len e(2) by simp
  have ne: "n \<noteq> 0 \<longrightarrow> ?data \<noteq> []" using len unat_eq_0 [of n] by auto
  have win: "(n \<noteq> 0 \<longrightarrow> length ?c' = max (length c) (file_pos off + unat n))
      \<and> (\<forall>i < length c. i < file_pos off \<or> file_pos off + unat n \<le> i \<longrightarrow> ?c' ! i = c ! i)"
    using ne len file_write_length [of ?data "file_pos off" c] file_write_outside by auto
  show ?thesis
    using e(1) m win c(1) by (auto simp: f metal_gds_read_fallback_def)
qed

theorem metal_storage_roundtrip_witness:
  "\<exists>env1 s env2. metal_gds_write_fallback demo_metal ''f'' 1 0x40 2 demo_menv = (Ok, env1)
    \<and> metal_gds_read_fallback demo_metal ''f'' 1 0x80 2 env1 = (s, env2) \<and> s = Ok
    \<and> hostPeek demo_metal 0x80 2 (mdrv_of env2) = [0x40, 0x41]"
proof -
  obtain env1 where w: "metal_gds_write_fallback demo_metal ''f'' 1 0x40 2 demo_menv = (Ok, env1)"
    by (simp add: metal_gds_write_fallback_def c_str_def demo_menv_def demo_mhw_def demo_metal_def)
  obtain s env2 where r: "metal_gds_read_fallback demo_metal ''f'' 1 0x80 2 env1 = (s, env2)" by force
  have "hostPeek demo_metal 0x40 2 (mdrv_of demo_menv) = [0x40, 0x41]"
    by (simp add: demo_metal_def demo_menv_def demo_mhw_def upt_rec)
  then show ?thesis using w r metal_storage_roundtrip [OF demo_host_law w r] by auto
qed

end
