(* ===== verification/MetalProcess.thy ===== *)
theory MetalProcess
  imports SoleBackend CudaShim MetalShim
begin

text \<open>
  The whole program over the Metal backend: what the shim's list of buffers holds in every process
  that the C interface can drive it to, and what becomes of a wait.
\<close>

subsection \<open>The shim as a backend\<close>

definition metal_calm :: "'d metal_api \<Rightarrow> 'd metal_view \<Rightarrow> ptr \<Rightarrow> 'd metal_env \<Rightarrow> 'd metal_env \<Rightarrow> bool" where
  "metal_calm mt v self env env' = (metal_keeps mt v self env env' \<and> metal_opens mt v self env env')"

lemma metal_keeps_trans: "metal_keeps mt v self a b \<Longrightarrow> metal_keeps mt v self b c \<Longrightarrow> metal_keeps mt v self a c"
  by (simp add: metal_keeps_def)

text \<open>A change of the handle the context keeps on the platform is none of the hardware.\<close>

lemma metal_same_hw: "e_hw env' = e_hw env \<Longrightarrow> metal_keeps mt v self env env'" "e_hw env' = e_hw env \<Longrightarrow> metal_opens mt v self env env'"
  by (auto simp: metal_keeps_def metal_opens_def)

interpretation mcalm: backend_calm "metal_backend mt self" "metal_calm mt v self" for mt v self
  by unfold_locales
    (auto simp: metal_backend_def metal_inert metal_calm_def metal_moves intro: metal_keeps_trans metal_opens_trans metal_same_hw)

interpretation mmem: backend_memory "metal_backend mt self" "metal_opens mt v self" for mt v self
  by unfold_locales
    (auto simp: metal_backend_def metal_inert metal_moves intro: metal_opens_trans metal_same_hw)

lemma calm_shelf: "metal_calm mt v self env env' \<Longrightarrow> metal_law mt v \<Longrightarrow> shelf mt v self (e_hw env) S \<Longrightarrow> shelf mt v self (e_hw env') S"
  by (simp add: metal_calm_def metal_keeps_def)

lemma calm_opens: "metal_calm mt v self env env' \<Longrightarrow> metal_opens mt v self env env'"
  by (simp add: metal_calm_def)

lemma opens_pool: "metal_opens mt v self env env' \<Longrightarrow> metal_law mt v \<Longrightarrow> shelf mt v self (e_hw env) S
    \<Longrightarrow> pool_open v (mdrv_of env) mk \<Longrightarrow> pool_open v (mdrv_of env') mk"
  unfolding metal_opens_def pool_open_def keeps_open_def by blast

lemma metal_alloc_b: "b_alloc_hbm (metal_backend mt self) = metal_alloc_hbm mt self"
  "b_free_hbm (metal_backend mt self) = metal_free_hbm mt self"
  "b_create_stream (metal_backend mt self) = metal_create_stream mt self"
  "b_probe (metal_backend mt self) = metal_probe mt"
  "b_describe_device (metal_backend mt self) = metal_describe_device mt"
  by (simp_all add: metal_backend_def)

subsection \<open>Blocks of the memory manager\<close>

definition live_keys :: "(ptr, allocation) umap \<Rightarrow> ptr set" where
  "live_keys m = fst ` set m"

definition live_named :: "(ptr, allocation) umap \<Rightarrow> bool" where
  "live_named m = list_all (\<lambda>(p, a). al_hbm_ptr a = p) m"

lemma live_keys_simps [simp]: "live_keys [] = {}" "live_keys (AList.update p a m) = insert p (live_keys m)"
  "live_keys (AList.delete p m) = live_keys m - {p}"
  using dom_update [of p a m] by (auto simp: live_keys_def dom_map_of_conv_image_fst [symmetric] delete_conv)

lemma mm_alloc_shelf:
  assumes law: "metal_law mt v" and sh: "shelf mt v self (e_hw (ms_env st)) S"
    and run: "mm_alloc (metal_backend mt self) clk bytes hints out st = Some (s, a, st')"
  shows "(if s = Ok then al_hbm_ptr a \<noteq> 0 \<and> al_hbm_ptr a \<notin> S \<and> shelf mt v self (e_hw (ms_env st')) (insert (al_hbm_ptr a) S)
        \<and> mm_live (ms_mm st') = AList.update (al_hbm_ptr a) a (mm_live (ms_mm st))
      else shelf mt v self (e_hw (ms_env st')) S \<and> mm_live (ms_mm st') = mm_live (ms_mm st))"
proof (cases "bytes = 0")
  case True
  then show ?thesis using run sh by (simp add: mm_alloc_def)
next
  case False
  obtain s1 p e1 where b: "metal_alloc_hbm mt self bytes (ms_env st) = (s1, p, e1)" using prod_cases3 by blast
  note al = metal_alloc_shelf [OF law sh b]
  show ?thesis
  proof (cases "s1 = Ok")
    case True
    let ?o = "out\<lparr>al_vaddr := p, al_bytes := bytes, al_hints := hints, al_hbm_ptr := p\<rparr>"
    obtain o2 st2 where t: "mm_tag (metal_backend mt self) hints p bytes ?o (st\<lparr>ms_env := e1\<rparr>) = (o2, st2)" by force
    have sh2: "shelf mt v self (e_hw (ms_env st2)) (insert p S)"
      using calm_shelf [OF mcalm.mm_tag_keeps [of mt v self "st\<lparr>ms_env := e1\<rparr>" hints p bytes ?o] law] al(1) True by (simp add: t)
    have "s = Ok" "ms_env st' = ms_env st2" "a = o2" "mm_live (ms_mm st') = AList.update p o2 (mm_live (ms_mm st2))"
      using run False b True t
      by (auto simp: mm_alloc_def metal_alloc_b bind_eq_Some_conv mm_map_def advise_read_mostly_def split: if_splits)
    then show ?thesis using sh2 al(1) True mm_tag_frame [OF t] by simp
  next
    case no: False
    then show ?thesis using run False b al(2) by (auto simp: mm_alloc_def metal_alloc_b)
  qed
qed

lemma mm_free_shelf:
  assumes law: "metal_law mt v" and sh: "shelf mt v self (e_hw (ms_env st)) S"
    and own: "live_keys (mm_live (ms_mm st)) \<subseteq> S"
    and run: "mm_free (metal_backend mt self) a st = Some (s, st')"
  shows "(if al_hbm_ptr a \<in> live_keys (mm_live (ms_mm st))
      then s = Ok \<and> shelf mt v self (e_hw (ms_env st')) (S - {al_hbm_ptr a})
        \<and> mm_live (ms_mm st') = AList.delete (al_hbm_ptr a) (mm_live (ms_mm st))
      else s = InvalidArgument \<and> st' = st)"
proof (cases "map_of (mm_live (ms_mm st)) (al_hbm_ptr a)")
  case None
  then show ?thesis using run by (simp add: mm_free_def live_keys_def dom_map_of_conv_image_fst [symmetric] domIff)
next
  case (Some x)
  then have k: "al_hbm_ptr a \<in> live_keys (mm_live (ms_mm st))"
    by (auto simp: live_keys_def dom_map_of_conv_image_fst [symmetric])
  let ?st1 = "mm_untag (metal_backend mt self) a st"
  have sh1: "shelf mt v self (e_hw (ms_env ?st1)) S" by (rule calm_shelf [OF mcalm.mm_untag_keeps law sh])
  obtain s2 e2 where f: "metal_free_hbm mt self (al_hbm_ptr a) (ms_env ?st1) = (s2, e2)" by force
  note fr = metal_free_shelf [OF law sh1 f]
  have "s2 = Ok" using fr(1) own k by blast
  then have "s = Ok" "ms_env st' = e2" "mm_live (ms_mm st') = AList.delete (al_hbm_ptr a) (mm_live (ms_mm st))"
    using run Some f by (auto simp: mm_free_def metal_alloc_b Let_def bind_eq_Some_conv split: prod.splits)
  then show ?thesis using k fr(2) by simp
qed

text \<open>The destructor takes every live block off the shelf.\<close>

lemma destroy_one_shelf:
  assumes law: "metal_law mt v" and sh: "shelf mt v self (e_hw (ms_env st)) S"
  shows "shelf mt v self (e_hw (ms_env (destroy_one (metal_backend mt self) a st))) (S - {al_hbm_ptr a})"
proof -
  have z: "0 \<notin> S" using sh by (auto simp: shelf_def on_shelf_def split: option.splits)
  let ?st = "if al_hbm_ptr a \<noteq> 0 then st\<lparr>ms_env := snd (metal_free_hbm mt self (al_hbm_ptr a) (ms_env st))\<rparr> else st"
  have "shelf mt v self (e_hw (ms_env ?st)) (S - {al_hbm_ptr a})"
    using metal_free_shelf(2) [OF law sh, where p = "al_hbm_ptr a"] sh z by (simp add: prod_eq_iff)
  then show ?thesis
    unfolding destroy_one_def Let_def metal_alloc_b by (rule calm_shelf [OF mcalm.mm_untag_keeps law])
qed

lemma destroy_all_shelf:
  assumes law: "metal_law mt v"
  shows "live_named ls \<Longrightarrow> shelf mt v self (e_hw (ms_env st)) S \<Longrightarrow>
    shelf mt v self (e_hw (ms_env (fold (\<lambda>(p, a). destroy_one (metal_backend mt self) a) ls st))) (S - live_keys ls)"
proof (induction ls arbitrary: st S)
  case (Cons l ls)
  obtain p a where l: "l = (p, a)" by force
  have a: "al_hbm_ptr a = p" "live_named ls" using Cons.prems(1) by (simp_all add: l live_named_def)
  have "S - live_keys (l # ls) = S - {al_hbm_ptr a} - live_keys ls" by (auto simp: l a(1) live_keys_def)
  then show ?case using Cons.IH [OF a(2) destroy_one_shelf [OF law Cons.prems(2), of a]] by (simp add: l)
qed simp

subsection \<open>The context\<close>

text \<open>What a context owns: its fault buffer and its live blocks.\<close>

definition fault_block :: "fault_handler \<Rightarrow> ptr set" where
  "fault_block fh = (if fh_buffer fh = 0 then {} else {fh_buffer fh})"

definition fw_fault_block :: "'p fw \<Rightarrow> ptr set" where
  "fw_fault_block fw = (case fw_faults fw of None \<Rightarrow> {} | Some fh \<Rightarrow> fault_block fh)"

definition owned :: "'p fw \<Rightarrow> ptr set" where
  "owned fw = fw_fault_block fw \<union> live_keys (fw_live fw)"

definition ledger :: "'d metal_api \<Rightarrow> 'd metal_view \<Rightarrow> ptr \<Rightarrow> 'd metal_hw fw \<Rightarrow> bool" where
  "ledger mt v self fw = (shelf mt v self (e_hw (fw_env fw)) (owned fw) \<and> fw_fault_block fw \<inter> live_keys (fw_live fw) = {}
     \<and> live_named (fw_live fw))"

definition streams_open :: "'d metal_view \<Rightarrow> 'd metal_hw fw \<Rightarrow> bool" where
  "streams_open v fw = (case fw_mk fw of None \<Rightarrow> True | Some mk \<Rightarrow> pool_open v (mdrv_of (fw_env fw)) mk)"

definition metal_good :: "'d metal_api \<Rightarrow> 'd metal_view \<Rightarrow> ptr \<Rightarrow> 'd metal_hw fw \<Rightarrow> bool" where
  "metal_good mt v self fw = (metal_law mt v \<longrightarrow> ledger mt v self fw \<and> streams_open v fw \<and> fw_tma fw = None)"

lemma live_named_update: "live_named m \<Longrightarrow> al_hbm_ptr a = p \<Longrightarrow> live_named (AList.update p a m)"
  by (induction m) (auto simp: live_named_def)

lemma live_named_delete: "live_named m \<Longrightarrow> live_named (AList.delete p m)"
  by (induction m) (auto simp: live_named_def)

lemma fw_fault_block_put [simp]: "fw_fault_block (fw_put_memory fw st) = fw_fault_block fw"
  "fw_fault_block (fw\<lparr>fw_env := e\<rparr>) = fw_fault_block fw" "fw_fault_block (hw_in hw fw) = fw_fault_block fw"
  by (simp_all add: fw_fault_block_def fw_put_memory_def hw_in_def)

lemma owned_env [simp]: "owned (fw\<lparr>fw_env := e\<rparr>) = owned fw"
  by (simp add: owned_def)

lemma fw_live_ilc [simp]: "fw_live (fw\<lparr>fw_ilc := x\<rparr>) = fw_live fw"
  by (simp add: fw_live_def fw_memory_def mm_create_def split: option.split)

lemma calm_good:
  assumes m: "calm_moves (metal_calm mt v self) a b" and g: "metal_good mt v self a"
  shows "metal_good mt v self b"
  unfolding metal_good_def
proof
  assume law: "metal_law mt v"
  have a: "ledger mt v self a" "streams_open v a" "fw_tma a = None" using g law by (simp_all add: metal_good_def)
  have k: "metal_calm mt v self (fw_env a) (fw_env b)" and e: "fw_tma b = fw_tma a" "fw_mk b = fw_mk a"
    "fw_faults b = fw_faults a" "fw_live b = fw_live a" using m by (simp_all add: moves_defs)
  have sh: "shelf mt v self (e_hw (fw_env a)) (owned a)" using a(1) by (simp add: ledger_def)
  have o: "owned b = owned a" "fw_fault_block b = fw_fault_block a" by (simp_all add: owned_def fw_fault_block_def e)
  have "ledger mt v self b" using a(1) calm_shelf [OF k law sh] by (simp add: ledger_def o e)
  moreover have "streams_open v b"
    using a(2) opens_pool [OF calm_opens [OF k] law sh] by (simp add: streams_open_def e split: option.splits)
  ultimately show "ledger mt v self b \<and> streams_open v b \<and> fw_tma b = None" using a(3) e by simp
qed

text \<open>Allocation and release keep the ledger, through the memory manager.\<close>

lemma alloc_good:
  assumes run: "mm_alloc (metal_backend mt self) clk n hints out (fw_memory fw) = Some (s, a, st)" and g: "metal_good mt v self fw"
  shows "metal_good mt v self (fw_put_memory fw st)"
  unfolding metal_good_def
proof
  assume law: "metal_law mt v"
  have a: "ledger mt v self fw" "streams_open v fw" "fw_tma fw = None" using g law by (simp_all add: metal_good_def)
  have sh: "shelf mt v self (e_hw (ms_env (fw_memory fw))) (owned fw)" using a(1) by (simp add: ledger_def fw_memory_env)
  note al = mm_alloc_shelf [OF law sh run]
  have "ledger mt v self (fw_put_memory fw st)"
  proof (cases "s = Ok")
    case True
    then have k: "al_hbm_ptr a \<notin> owned fw" "shelf mt v self (e_hw (ms_env st)) (insert (al_hbm_ptr a) (owned fw))"
      "mm_live (ms_mm st) = AList.update (al_hbm_ptr a) a (fw_live fw)" using al by (simp_all add: fw_live_def)
    have "insert (al_hbm_ptr a) (owned fw) = fw_fault_block fw \<union> live_keys (mm_live (ms_mm st))" by (simp add: owned_def k(3))
    then show ?thesis using k a(1) by (auto simp: ledger_def owned_def fw_memory_env live_named_update)
  next
    case False
    then show ?thesis using al a(1) by (simp add: ledger_def owned_def fw_memory_env fw_live_def)
  qed
  moreover have "memory_moves (metal_opens mt v self) fw (fw_put_memory fw st)"
    by (rule fw_put_memory_moves(1)) (rule mmem.mm_alloc_keeps [OF run])
  then have "streams_open v (fw_put_memory fw st) \<and> fw_tma (fw_put_memory fw st) = None"
    using opens_pool [OF _ law] sh a(2,3) by (auto simp: moves_defs streams_open_def fw_memory_env split: option.splits)
  ultimately show "ledger mt v self (fw_put_memory fw st) \<and> streams_open v (fw_put_memory fw st) \<and> fw_tma (fw_put_memory fw st) = None"
    by blast
qed

lemma free_good:
  assumes run: "mm_free (metal_backend mt self) a (fw_memory fw) = Some (s, st)" and g: "metal_good mt v self fw"
  shows "metal_good mt v self (fw_put_memory fw st)" "metal_law mt v \<Longrightarrow> al_hbm_ptr a \<in> live_keys (fw_live fw) \<Longrightarrow> s = Ok"
proof -
  have all: "ledger mt v self (fw_put_memory fw st) \<and> streams_open v (fw_put_memory fw st) \<and> fw_tma (fw_put_memory fw st) = None
      \<and> (al_hbm_ptr a \<in> live_keys (fw_live fw) \<longrightarrow> s = Ok)" if law: "metal_law mt v"
  proof -
    have a: "ledger mt v self fw" "streams_open v fw" "fw_tma fw = None" using g law by (simp_all add: metal_good_def)
    have sh: "shelf mt v self (e_hw (ms_env (fw_memory fw))) (owned fw)" using a(1) by (simp add: ledger_def fw_memory_env)
    have own: "live_keys (mm_live (ms_mm (fw_memory fw))) \<subseteq> owned fw" by (simp add: owned_def fw_live_def)
    note fr = mm_free_shelf [OF law sh own run]
    have "ledger mt v self (fw_put_memory fw st) \<and> (al_hbm_ptr a \<in> live_keys (fw_live fw) \<longrightarrow> s = Ok)"
    proof (cases "al_hbm_ptr a \<in> live_keys (fw_live fw)")
      case True
      then have k: "s = Ok" "shelf mt v self (e_hw (ms_env st)) (owned fw - {al_hbm_ptr a})"
        "mm_live (ms_mm st) = AList.delete (al_hbm_ptr a) (fw_live fw)" using fr by (simp_all add: fw_live_def)
      have "al_hbm_ptr a \<notin> fw_fault_block fw" using a(1) True by (auto simp: ledger_def)
      then have "owned fw - {al_hbm_ptr a} = fw_fault_block fw \<union> live_keys (mm_live (ms_mm st))" by (auto simp: owned_def k(3))
      then show ?thesis using k a(1) by (auto simp: ledger_def owned_def fw_memory_env live_named_delete)
    next
      case False
      then have "st = fw_memory fw" using fr by (simp add: fw_live_def)
      then show ?thesis using False a(1) sh by (simp add: ledger_def owned_def fw_memory_env fw_live_def)
    qed
    moreover have "memory_moves (metal_opens mt v self) fw (fw_put_memory fw st)"
      by (rule fw_put_memory_moves(1)) (rule mmem.mm_free_keeps [OF run])
    then have "streams_open v (fw_put_memory fw st) \<and> fw_tma (fw_put_memory fw st) = None"
      using opens_pool [OF _ law] sh a(2,3) by (auto simp: moves_defs streams_open_def fw_memory_env split: option.splits)
    ultimately show ?thesis by blast
  qed
  then show "metal_good mt v self (fw_put_memory fw st)" "metal_law mt v \<Longrightarrow> al_hbm_ptr a \<in> live_keys (fw_live fw) \<Longrightarrow> s = Ok"
    by (auto simp: metal_good_def)
qed

subsection \<open>Boot\<close>

lemma push_free_pool: "set (mk_pool (push_free h mk)) \<subseteq> insert h (set (mk_pool mk))"
  by (cases "sh_klass h") (auto simp: mk_pool_def)

lemma spawn_one_open:
  assumes law: "metal_law mt v" and o: "pool_open v (mdrv_of env) mk"
    and run: "spawn_one (metal_backend mt self) k prio env mk = (s, env', mk')"
  shows "pool_open v (mdrv_of env') mk'"
proof -
  obtain s1 raw e1 where c: "metal_create_stream mt self k prio env = (s1, raw, e1)" using prod_cases3 by blast
  note k = metal_create_keeps [OF law c]
  let ?h = "stream_handle_default\<lparr>sh_id := mk_next_id mk, sh_raw := raw, sh_klass := k\<rparr>" and ?mk = "mk\<lparr>mk_next_id := mk_next_id mk + 1\<rparr>"
  have o1: "pool_open v (mdrv_of e1) ?mk"
    using o kept_open [OF k(2)] by (auto simp: pool_open_def mk_pool_def keeps_open_def)
  have "pool_open v (mdrv_of e1) (push_free ?h ?mk)"
    unfolding pool_open_def
  proof (intro ballI impI)
    fix h assume "h \<in> set (mk_pool (push_free ?h ?mk))" and nz: "sh_raw h \<noteq> 0"
    then have "h = ?h \<or> h \<in> set (mk_pool ?mk)" using push_free_pool by blast
    then show "mv_open v (mdrv_of e1) (sh_raw h)" using k(4) nz o1 unfolding pool_open_def by auto
  qed
  then show ?thesis using run c o1 by (auto simp: spawn_one_def Let_def metal_alloc_b simp del: push_free.simps split: if_splits)
qed

lemma spawn_n_open:
  assumes law: "metal_law mt v"
  shows "pool_open v (mdrv_of env) mk \<Longrightarrow> spawn_n (metal_backend mt self) k prio n env mk = (s, env', mk')
    \<Longrightarrow> pool_open v (mdrv_of env') mk'"
proof (induction n arbitrary: env mk)
  case (Suc n)
  obtain s1 e1 mk1 where o: "spawn_one (metal_backend mt self) k prio env mk = (s1, e1, mk1)" using prod_cases3 by blast
  show ?case using Suc.IH spawn_one_open [OF law Suc.prems(1) o] Suc.prems(2) by (auto simp: o split: if_splits)
qed simp

lemma spawn_pool_open:
  assumes law: "metal_law mt v" and run: "spawn_stream_pool (metal_backend mt self) nc nd env (mk_create d) = (s, env', mk')"
  shows "pool_open v (mdrv_of env') mk'"
proof -
  let ?pf = "metal_backend mt self"
  obtain s1 e1 m1 where 1: "spawn_n ?pf Compute 0 (unat nc) env (mk_create d) = (s1, e1, m1)" using prod_cases3 by blast
  obtain s2 e2 m2 where 2: "spawn_n ?pf Dma (-1) (unat nd) e1 m1 = (s2, e2, m2)" using prod_cases3 by blast
  obtain s3 e3 m3 where 3: "spawn_one ?pf Fence 1 e2 m2 = (s3, e3, m3)" using prod_cases3 by blast
  have "pool_open v (mdrv_of env) (mk_create d)" by (simp add: pool_open_def mk_pool_def mk_create_def)
  note o1 = spawn_n_open [OF law this 1]
  note o2 = spawn_n_open [OF law o1 2]
  note o3 = spawn_one_open [OF law o2 3]
  show ?thesis using run o1 o2 o3 by (auto simp: spawn_stream_pool_def 1 2 3 split: if_splits)
qed

text \<open>The context while it is being made owns nothing.\<close>

definition metal_fresh :: "'d metal_api \<Rightarrow> 'd metal_view \<Rightarrow> ptr \<Rightarrow> 'd metal_hw fw \<Rightarrow> bool" where
  "metal_fresh mt v self fw = (shelf mt v self (e_hw (fw_env fw)) {} \<and> fw_faults fw = None \<and> fw_mem fw = None
     \<and> fw_tma fw = None \<and> streams_open v fw)"

lemma no_memory [simp]: "fw_mem fw = None \<Longrightarrow> fw_live fw = []"
  by (simp add: fw_live_def fw_memory_def mm_create_def)

lemma fresh_ledger: "metal_fresh mt v self fw \<Longrightarrow> ledger mt v self fw"
  by (simp add: metal_fresh_def ledger_def owned_def fw_fault_block_def live_named_def)

lemma metal_same_steps:
  "lock_clocks (metal_backend mt self) d fw = (s, fw') \<Longrightarrow> fw' = fw"
  "init_hbm (metal_backend mt self) d fw = (s, fw') \<Longrightarrow> \<exists>e. fw' = fw\<lparr>fw_env := e\<rparr> \<and> e_hw e = e_hw (fw_env fw) \<and> s = Ok"
  by (auto simp: lock_clocks_def init_hbm_def metal_backend_def metal_lock_clocks_def metal_reserve_vaddress_def
      metal_map_hbm_pool_def Let_def)

lemma attach_ledger:
  assumes law: "metal_law mt v" and f: "metal_fresh mt v self fw"
    and run: "attach_fault_handler (metal_backend mt self) opts fw = (s, fw')"
  shows "ledger mt v self fw' \<and> streams_open v fw' \<and> fw_tma fw' = None"
proof -
  let ?pf = "metal_backend mt self" and ?n = "ucast (bo_fault_buffer_slots opts) * sizeof_fault_record"
  obtain s1 p e1 where a: "metal_alloc_hbm mt self ?n (fw_env fw) = (s1, p, e1)" using prod_cases3 by blast
  have sh: "shelf mt v self (e_hw (fw_env fw)) {}" using f by (simp add: metal_fresh_def)
  note al = metal_alloc_shelf [OF law sh a]
  have i: "b_install_fault_buffer ?pf b sl e = (Ok, e)" for b sl e by (simp add: metal_backend_def metal_install_fault_buffer_def)
  have s: "streams_open v (fw\<lparr>fw_env := e1, fw_faults := Some fh\<rparr>)" "streams_open v (fw\<lparr>fw_faults := Some fh\<rparr>)" for fh
    using f kept_open [OF al(3)] by (auto simp: metal_fresh_def streams_open_def pool_open_def keeps_open_def split: option.splits)
  show ?thesis
  proof (cases "dd_vendor (e_device (fw_env fw)) = Nvidia")
    case True
    then have "fw' = fw\<lparr>fw_faults := Some (fh_create (bo_fault_buffer_slots opts))\<rparr>"
      using run by (simp add: attach_fault_handler_def fh_install_def)
    then show ?thesis using f s(2)
      by (simp add: metal_fresh_def ledger_def owned_def fw_fault_block_def fault_block_def fh_create_def live_named_def)
  next
    case False
    obtain s2 e2 fh where h: "fh_install ?pf (fw_env fw) (fh_create (bo_fault_buffer_slots opts)) = (s2, e2, fh)" using prod_cases3 by blast
    have e: "e2 = e1" "fault_block fh = (if s1 = Ok then {p} else {})"
      using h False a al(1) by (auto simp: fh_install_def metal_alloc_b i Let_def fh_create_def fault_block_def split: if_splits)
    have "fw' = fw\<lparr>fw_env := e1, fw_faults := Some fh\<rparr>" using run by (simp add: attach_fault_handler_def h e(1))
    then show ?thesis using f s(1) al(1,2) e(2)
      by (simp add: metal_fresh_def ledger_def owned_def fw_fault_block_def live_named_def)
  qed
qed

lemma metal_boot_leaves:
  assumes law: "metal_law mt v" and sh: "shelf mt v self (e_hw (fw_env fw)) {}" and b: "bare fw"
    and run: "boot_ctx (metal_backend mt self) clk opts d fw ev = (r, ev')" and c: "br_ctx r = Some c"
  shows "ledger mt v self c \<and> streams_open v c \<and> fw_tma c = None"
proof -
  let ?pf = "metal_backend mt self" and ?fresh = "metal_fresh mt v self"
  have f0: "?fresh fw" using sh b by (simp add: metal_fresh_def bare_def streams_open_def)
  have f3: "?fresh fw3" if "lock_clocks ?pf d fw = (s2, fw2)" "init_hbm ?pf d fw2 = (s3, fw3)" for s2 fw2 s3 fw3
    using metal_same_steps(1) [OF that(1)] metal_same_steps(2) [OF that(2)] f0
    by (auto simp: metal_fresh_def streams_open_def split: option.splits)
  have f4: "?fresh fw4" if "?fresh fw3" "fw_mk fw3 = None" "register_dma ?pf d opts fw3 = (s4, fw4)" for fw3 s4 fw4
    using that(1,2) calm_shelf [OF mcalm.register_dma_keeps [OF that(3)] law] register_dma_fields [OF that(3)]
    by (auto simp: metal_fresh_def streams_open_def)
  have f5: "?fresh fw5" if "?fresh fw4" "spawn_scheduler ?pf d opts fw4 = (s5, fw5)" for fw4 s5 fw5
  proof -
    obtain s1 e1 m1 where p: "spawn_stream_pool ?pf (bo_stream_pool_compute opts) (bo_stream_pool_dma opts) (fw_env fw4) (mk_create d)
      = (s1, e1, m1)" using prod_cases3 by blast
    then have e: "fw5 = fw4\<lparr>fw_env := e1, fw_mk := Some m1\<rparr>" using that(2) by (simp add: spawn_scheduler_def)
    show ?thesis
      using that(1) calm_shelf [OF mcalm.spawn_scheduler_keeps [OF that(2)] law] spawn_pool_open [OF law p]
      by (simp add: metal_fresh_def streams_open_def e)
  qed
  have m3: "fw_mk fw3 = None" if "lock_clocks ?pf d fw = (s2, fw2)" "init_hbm ?pf d fw2 = (s3, fw3)" for s2 fw2 s3 fw3
    using metal_same_steps(1) [OF that(1)] metal_same_steps(2) [OF that(2)] b by (auto simp: bare_def)
  have fin: "?fresh c \<Longrightarrow> ?thesis" by (simp add: fresh_ledger) (simp add: metal_fresh_def)
  from run show ?thesis
  proof (cases rule: boot_ctx_cases)
    case (hbm s2 fw2 s fw3)
    then show ?thesis using f3 [OF hbm(1,2)] c fin by (simp add: boot_fail_def)
  next
    case (dma s2 fw2 fw3 s fw4)
    then show ?thesis using f4 [OF f3 m3 dma(3), OF dma(1,2) dma(1,2)] c fin by (simp add: boot_fail_def)
  next
    case (sched s2 fw2 fw3 fw4 s fw5)
    then show ?thesis using f5 [OF f4 [OF f3 m3 sched(3), OF sched(1,2) sched(1,2)] sched(4)] c fin by (simp add: boot_fail_def)
  next
    case (faults s2 fw2 fw3 fw4 fw5 s fw6)
    then show ?thesis
      using attach_ledger [OF law f5 [OF f4 [OF f3 m3 faults(3), OF faults(1,2) faults(1,2)] faults(4)] faults(5)] c
      by (simp add: boot_fail_def)
  next
    case (up s2 fw2 fw3 fw4 fw5 fw6 s7 fw7)
    have l: "ledger mt v self fw6 \<and> streams_open v fw6 \<and> fw_tma fw6 = None"
      using attach_ledger [OF law f5 [OF f4 [OF f3 m3 up(3), OF up(1,2) up(1,2)] up(4)] up(5)] .
    obtain ic where "c = fw6\<lparr>fw_ilc := ic\<rparr>" using init_ilc_fields [OF up(6)] up(7) c by auto
    then show ?thesis using l by (simp add: ledger_def owned_def fw_fault_block_def streams_open_def split: option.splits)
  qed
qed

subsection \<open>Shutdown and destruction\<close>

lemma fh_uninstall_shelf:
  assumes law: "metal_law mt v" and sh: "shelf mt v self (e_hw env) (fault_block fh \<union> L)" and d: "fault_block fh \<inter> L = {}"
    and run: "fh_uninstall (metal_backend mt self) env fh = (s, env', fh')"
  shows "shelf mt v self (e_hw env') L \<and> fault_block fh' = {}"
proof (cases "fh_buffer fh = 0")
  case True
  then show ?thesis using run sh by (simp add: fh_uninstall_def fault_block_def)
next
  case False
  obtain s1 e1 where f: "metal_free_hbm mt self (fh_buffer fh) env = (s1, e1)" by force
  have "b_uninstall_fault_buffer (metal_backend mt self) b e = (Ok, e)" for b e
    by (simp add: metal_backend_def metal_uninstall_fault_buffer_def)
  then have "env' = e1" "fh_buffer fh' = 0" using run False f by (auto simp: fh_uninstall_def metal_alloc_b Let_def)
  moreover have "fault_block fh \<union> L - {fh_buffer fh} = L" using d False by (auto simp: fault_block_def)
  ultimately show ?thesis using metal_free_shelf(2) [OF law sh f] by (simp add: fault_block_def)
qed

lemma metal_shutdown_ledger:
  assumes law: "metal_law mt v" and l: "ledger mt v self fw" and tma: "fw_tma fw = None"
  shows "ledger mt v self (snd (shutdown (metal_backend mt self) fw)) \<and> fw_tma (snd (shutdown (metal_backend mt self) fw)) = None"
proof -
  let ?pf = "metal_backend mt self"
  let ?ok = "\<lambda>fw. ledger mt v self fw \<and> fw_tma fw = None"
  have calm: "?ok b" if "?ok a" "metal_calm mt v self (fw_env a) (fw_env b)" "fw_faults b = fw_faults a"
    "fw_live b = fw_live a" "fw_tma b = fw_tma a" for a b
    using that calm_shelf [OF that(2) law] by (simp add: ledger_def owned_def fw_fault_block_def)
  obtain last0 fw1 where 1: "(case fw_faults fw of None \<Rightarrow> (Ok, fw)
      | Some fh \<Rightarrow> (let (s, env, fh') = fh_uninstall ?pf (fw_env fw) fh in (s, fw\<lparr>fw_env := env, fw_faults := Some fh'\<rparr>))) = (last0, fw1)"
    by force
  obtain fw2 where 2: "(case fw_mk fw1 of None \<Rightarrow> fw1
      | Some mk \<Rightarrow> (let (s, env, mk') = drain_streams ?pf (fw_env fw1) mk in fw1\<lparr>fw_env := env, fw_mk := Some mk'\<rparr>)) = fw2"
    by simp
  obtain fw3 where 3: "(case fw_dma fw2 of None \<Rightarrow> fw2
      | Some de \<Rightarrow> (let (env, de') = dma_shutdown ?pf (fw_env fw2) de in fw2\<lparr>fw_env := env, fw_dma := Some de'\<rparr>)) = fw3"
    by simp
  obtain fw4 where 4: "(case fw_ilc fw3 of None \<Rightarrow> fw3
      | Some ic \<Rightarrow> (let (s, env, ic') = ilc_disable ?pf (fw_env fw3) ic in fw3\<lparr>fw_env := env, fw_ilc := Some ic'\<rparr>)) = fw4"
    by simp
  have f: "fw_live (fw\<lparr>fw_env := e, fw_faults := x\<rparr>) = fw_live fw" "fw_live (fw'\<lparr>fw_env := e, fw_mk := y\<rparr>) = fw_live fw'"
    "fw_live (fw'\<lparr>fw_env := e, fw_dma := z\<rparr>) = fw_live fw'" "fw_live (fw'\<lparr>fw_env := e, fw_ilc := w\<rparr>) = fw_live fw'"
    for e x y z w and fw' :: "'a metal_hw fw"
    by (simp_all add: fw_live_def fw_memory_def mm_create_def split: option.split)
  have o1: "?ok fw1"
  proof (cases "fw_faults fw")
    case None
    then show ?thesis using 1 l tma by simp
  next
    case (Some fh)
    obtain s e fh' where u: "fh_uninstall ?pf (fw_env fw) fh = (s, e, fh')" using prod_cases3 by blast
    have "shelf mt v self (e_hw (fw_env fw)) (fault_block fh \<union> live_keys (fw_live fw))" "fault_block fh \<inter> live_keys (fw_live fw) = {}"
      using l Some by (simp_all add: ledger_def owned_def fw_fault_block_def)
    note sh = fh_uninstall_shelf [OF law this u]
    have "fw1 = fw\<lparr>fw_env := e, fw_faults := Some fh'\<rparr>" using 1 Some u by simp
    then show ?thesis using sh l tma by (simp add: ledger_def owned_def fw_fault_block_def f)
  qed
  have o2: "?ok fw2"
  proof (cases "fw_mk fw1")
    case (Some mk)
    then obtain e m where "fw2 = fw1\<lparr>fw_env := e, fw_mk := Some m\<rparr>" "metal_calm mt v self (fw_env fw1) e"
      using 2 mcalm.drain_keeps [of mt v self "fw_env fw1" mk] by (auto simp: Let_def case_prod_unfold)
    then show ?thesis using calm [OF o1, where b = fw2] f(2) by simp
  qed (use 2 o1 in simp)
  have o3: "?ok fw3"
  proof (cases "fw_dma fw2")
    case (Some de)
    then obtain e d where "fw3 = fw2\<lparr>fw_env := e, fw_dma := Some d\<rparr>" "metal_calm mt v self (fw_env fw2) e"
      using 3 mcalm.dma_shutdown_keeps [of mt v self "fw_env fw2" de] by (auto simp: Let_def case_prod_unfold)
    then show ?thesis using calm [OF o2, where b = fw3] f(3) by simp
  qed (use 3 o2 in simp)
  have o4: "?ok fw4"
  proof (cases "fw_ilc fw3")
    case (Some ic)
    then obtain e i where "fw4 = fw3\<lparr>fw_env := e, fw_ilc := Some i\<rparr>" "metal_calm mt v self (fw_env fw3) e"
      using 4 mcalm.ilc_disable_keeps [of mt v self "fw_env fw3" ic] by (auto simp: Let_def case_prod_unfold)
    then show ?thesis using calm [OF o3, where b = fw4] f(4) by simp
  qed (use 4 o3 in simp)
  have "snd (shutdown ?pf fw) = fw4\<lparr>fw_env := snd (b_release_vaddress ?pf (fw_env fw4))\<rparr>"
    unfolding shutdown_def Let_def prod.case 1 [unfolded Let_def] 2 [unfolded Let_def] 3 [unfolded Let_def] 4 [unfolded Let_def]
    by (simp add: case_prod_unfold)
  moreover have "?ok (fw4\<lparr>fw_env := snd (b_release_vaddress ?pf (fw_env fw4))\<rparr>)"
  proof (rule calm [OF o4])
    show "metal_calm mt v self (fw_env fw4) (fw_env (fw4\<lparr>fw_env := snd (b_release_vaddress ?pf (fw_env fw4))\<rparr>))"
      using mcalm.release [of mt v self "fw_env fw4"] by simp
  qed (simp_all add: fw_live_def fw_memory_def mm_create_def split: option.split)
  ultimately show ?thesis by simp
qed

lemma metal_destroy_idle:
  assumes law: "metal_law mt v" and l: "ledger mt v self fw" and tma: "fw_tma fw = None"
  shows "shelf mt v self (e_hw (fw_destroy (metal_backend mt self) fw)) {}"
proof -
  let ?pf = "metal_backend mt self"
  obtain fw1 where 1: "(case fw_mem fw of None \<Rightarrow> fw | Some m \<Rightarrow> fw_put_memory fw (mm_destroy ?pf (fw_memory fw))) = fw1" by simp
  obtain env2 where 2: "(case fw_ilc fw1 of None \<Rightarrow> fw_env fw1 | Some ic \<Rightarrow> fst (snd (ilc_disable ?pf (fw_env fw1) ic))) = env2" by simp
  obtain env3 where 3: "(case fw_faults fw1 of None \<Rightarrow> env2 | Some fh \<Rightarrow> fst (snd (fh_uninstall ?pf env2 fh))) = env3" by simp
  obtain env5 where 5: "(case fw_dma fw1 of None \<Rightarrow> env3 | Some de \<Rightarrow> fst (dma_shutdown ?pf env3 de)) = env5" by simp
  have t: "fw_tma fw1 = None" "fw_faults fw1 = fw_faults fw" using 1 tma by (cases "fw_mem fw"; auto simp: fw_put_memory_def)+
  have s1: "shelf mt v self (e_hw (fw_env fw1)) (fw_fault_block fw)"
  proof (cases "fw_mem fw")
    case None
    then show ?thesis using 1 l by (simp add: ledger_def owned_def)
  next
    case (Some m)
    have "shelf mt v self (e_hw (ms_env (fw_memory fw))) (owned fw)" "live_named (mm_live (ms_mm (fw_memory fw)))"
      using l by (simp_all add: ledger_def fw_memory_env flip: fw_live_def)
    note d = destroy_all_shelf [OF law this(2,1)]
    have "fw_env fw1 = ms_env (mm_destroy ?pf (fw_memory fw))" using 1 Some by (auto simp: fw_put_memory_def)
    moreover have "owned fw - live_keys (fw_live fw) = fw_fault_block fw" using l by (auto simp: ledger_def owned_def)
    ultimately show ?thesis using d by (simp add: mm_destroy_def Let_def flip: fw_live_def)
  qed
  have "metal_calm mt v self (fw_env fw1) env2" using 2 by (cases "fw_ilc fw1") (auto simp: mcalm.ilc_disable_keeps)
  note s2 = calm_shelf [OF this law s1]
  have s3: "shelf mt v self (e_hw env3) {}"
  proof (cases "fw_faults fw")
    case None
    then show ?thesis using 3 s2 by (simp add: t(2) fw_fault_block_def)
  next
    case (Some fh)
    obtain s e fh' where u: "fh_uninstall ?pf env2 fh = (s, e, fh')" using prod_cases3 by blast
    have "shelf mt v self (e_hw env2) (fault_block fh \<union> {})" using s2 Some by (simp add: fw_fault_block_def)
    then show ?thesis using fh_uninstall_shelf [OF law _ _ u, where L = "{}"] 3 Some by (simp add: t(2) u)
  qed
  have "metal_calm mt v self env3 env5" using 5 by (cases "fw_dma fw1") (auto simp: mcalm.dma_shutdown_keeps)
  note s5 = calm_shelf [OF this law s3]
  have "metal_calm mt v self env5 (fw_destroy ?pf fw)"
    unfolding fw_destroy_def Let_def 1 2 3 t(1) option.case 5
    by (cases "fw_mk fw1") (simp_all add: mcalm.drain_keeps)
  then show ?thesis using calm_shelf law s5 by blast
qed

subsection \<open>The process\<close>

definition metal_idle :: "'d metal_api \<Rightarrow> 'd metal_view \<Rightarrow> ptr \<Rightarrow> 'd metal_hw \<Rightarrow> bool" where
  "metal_idle mt v self hw = (metal_law mt v \<longrightarrow> shelf mt v self hw {})"

lemma device_idle:
  assumes "metal_idle mt v self hw" and "mtlCreateSystemDefaultDevice mt (mh_drv hw) = (x, d)"
  shows "metal_idle mt v self (hw\<lparr>mh_drv := d\<rparr>)"
  unfolding metal_idle_def
proof
  assume law: "metal_law mt v"
  have "mtl_kept mt v (mh_drv hw) d" by (rule kept_quiet [OF law_quietD(1) [OF law assms(2)]])
  then show "shelf mt v self (hw\<lparr>mh_drv := d\<rparr>) {}" using assms(1) law shelf_kept [of mt v hw "hw\<lparr>mh_drv := d\<rparr>" self "{}"]
    by (simp add: metal_idle_def)
qed

lemma metal_call_good:
  assumes reach: "abi_reach ck pr" and b: "dispatch_backend (pr_dispatch pr) (pr_hw pr) = (metal_backend mt self, disp, hw)"
    and run: "abi_exec ck c pr = Some (code, pr')" and c: "\<And>p a. c \<noteq> Firmware_init p a" "\<And>h. c \<noteq> Firmware_shutdown h"
  shows "ctx_moves (\<lambda>a b. metal_good mt v self a \<longrightarrow> metal_good mt v self b) disp hw pr pr'"
proof (cases c)
  case (Mem_alloc h n fl)
  then obtain x where "nexusrt_mem_alloc (ck_page ck) h n fl pr = Some (code, x, pr')" using run by auto
  from this [unfolded nexusrt_mem_alloc_def] show ?thesis by (rule with_ctx_moves [OF _ b]) (auto intro: alloc_good)
next
  case (Mem_free h p)
  then obtain x where "nexusrt_mem_free h p pr = Some (code, x, pr')" using run by auto
  from this [unfolded nexusrt_mem_free_def] show ?thesis by (rule with_ctx_moves [OF _ b]) (auto intro: free_good)
next
  case (Firmware_task_submit h m f g bl sm args k prio)
  then have "submission c" by (simp add: submission_def)
  then show ?thesis by (rule ctx_moves_mono [OF submission_inert [OF reach _ run b]]) simp
next
  case (Submit_stage h sc)
  then have "submission c" by (simp add: submission_def)
  then show ?thesis by (rule ctx_moves_mono [OF submission_inert [OF reach _ run b]]) simp
qed (rule ctx_moves_mono [OF mcalm.calm_call_moves [OF b run]],
    use c in \<open>auto simp: submission_def intro: calm_good\<close>)+

interpretation mtp: sole_backend Apple "metal_backend mt self" self "metal_idle mt v self" "metal_good mt v self"
  for mt v self
proof
  let ?pf = "metal_backend mt self"
  show "Apple = Nvidia \<or> Apple = Apple" by simp
  show "metal_idle mt v self hw \<Longrightarrow> metal_idle mt v self (snd (b_probe ?pf hw))" for hw
    by (auto simp: metal_alloc_b metal_probe_def device_idle split: prod.split)
  show "metal_idle mt v self hw \<Longrightarrow> metal_idle mt v self (snd (b_describe_device ?pf prof hw))" for hw prof
    by (auto simp: metal_alloc_b metal_describe_device_def Let_def device_idle split: prod.split)
  show "if br_status r = Ok then metal_good mt v self c else metal_idle mt v self (e_hw (fw_destroy ?pf c))"
    if that': "metal_idle mt v self (e_hw (fw_env fw))" "bare fw" "boot_ctx ?pf clk opts d fw ev = (r, ev')" "br_ctx r = Some c"
    for fw clk opts d ev r ev' c
  proof -
    have "ledger mt v self c \<and> streams_open v c \<and> fw_tma c = None" if law: "metal_law mt v"
      using metal_boot_leaves [OF law _ that'(2-4)] that'(1) law by (simp add: metal_idle_def)
    then show ?thesis using metal_destroy_idle [of mt v self c] by (auto simp: metal_idle_def metal_good_def)
  qed
  show "metal_idle mt v self (e_hw (fw_destroy ?pf (snd (shutdown ?pf fw))))" if "metal_good mt v self fw" for fw
    using that metal_destroy_idle [of mt v self "snd (shutdown ?pf fw)"] metal_shutdown_ledger [of mt v self fw]
    by (auto simp: metal_idle_def metal_good_def)
  show "ctx_moves (\<lambda>a b. metal_good mt v self a \<longrightarrow> metal_good mt v self b) disp hw pr pr'"
    if "abi_reach ck pr" "dispatch_backend (pr_dispatch pr) (pr_hw pr) = (?pf, disp, hw)" "abi_exec ck cl pr = Some (code, pr')"
      "\<And>p a. cl \<noteq> Firmware_init p a" "\<And>h. cl \<noteq> Firmware_shutdown h" for ck pr disp hw cl code pr'
    by (rule metal_call_good [OF that])
qed

text \<open>A process starts with an empty side table.\<close>

definition metal_reach :: "'d metal_api \<Rightarrow> ptr \<Rightarrow> clocks \<Rightarrow> 'd metal_hw proc \<Rightarrow> bool" where
  "metal_reach mt self = sole_reach Apple (metal_backend mt self) self (\<lambda>hw. mh_states hw = [])"

lemma metal_reach_idle: "metal_reach mt self ck pr \<Longrightarrow> sole_reach Apple (metal_backend mt self) self (metal_idle mt v self) ck pr"
  unfolding metal_reach_def
  by (erule sole_reach_mono) (simp add: metal_idle_def shelf_def)

lemma metal_reach_good:
  assumes law: "metal_law mt v" and r: "metal_reach mt self ck pr"
  shows "lookup_handle (pr_reg pr) h = Some fw \<Longrightarrow> h = self \<and> ledger mt v self (hw_in (pr_hw pr) fw) \<and> streams_open v (hw_in (pr_hw pr) fw)
      \<and> metal_good mt v self (hw_in (pr_hw pr) fw)
      \<and> dispatch_backend (pr_dispatch pr) (pr_hw pr) = (metal_backend mt self, pr_dispatch pr, pr_hw pr)"
    and "lookup_handle (pr_reg pr) self = None \<Longrightarrow> shelf mt v self (pr_hw pr) {}"
  using mtp.reach_good [OF metal_reach_idle [OF r, where v = v]] law by (auto simp: metal_good_def metal_idle_def)

definition shim_memory :: "'d metal_api \<Rightarrow> ptr \<Rightarrow> 'd metal_hw \<Rightarrow> ptr list" where
  "shim_memory mt self hw = (case map_of (mh_states hw) self of
     None \<Rightarrow> [] | Some s \<Rightarrow> map (\<lambda>b. mtlContents mt b (mh_drv hw)) (mt_buffers s))"

lemma shelf_memory: "shelf mt v self hw S \<Longrightarrow> distinct (shim_memory mt self hw) \<and> set (shim_memory mt self hw) = S \<and> 0 \<notin> S"
  by (auto simp: shelf_def on_shelf_def shim_memory_def split: option.splits)

text \<open>C8: The Metal shim's list of buffers is the program's own books.  In every process that the C
  interface can drive over a framework that keeps its promises, the list is empty while no context is
  registered; with a context it holds distinct buffers, whose memory is exactly the context's fault
  buffer and the live blocks of its memory manager; and freeing any live block answers success and
  takes that block, and no other, off the list.\<close>

theorem metal_ledger:
  assumes law: "metal_law mt v" and r: "metal_reach mt self ck pr"
  shows "(lookup_handle (pr_reg pr) self = None \<longrightarrow> shim_memory mt self (pr_hw pr) = [])
    \<and> (\<forall>h fw. lookup_handle (pr_reg pr) h = Some fw \<longrightarrow> h = self \<and> distinct (shim_memory mt self (pr_hw pr))
        \<and> set (shim_memory mt self (pr_hw pr)) = fw_fault_block fw \<union> live_keys (fw_live fw)
        \<and> fw_fault_block fw \<inter> live_keys (fw_live fw) = {}
        \<and> (\<forall>p \<in> live_keys (fw_live fw). \<exists>pr'. abi_exec ck (Mem_free self p) pr = Some (0, pr')
             \<and> set (shim_memory mt self (pr_hw pr')) = set (shim_memory mt self (pr_hw pr)) - {p}))"
proof (intro conjI allI impI)
  assume "lookup_handle (pr_reg pr) self = None"
  then show "shim_memory mt self (pr_hw pr) = []"
    using shelf_memory [OF metal_reach_good(2) [OF law r]] by simp
next
  fix h fw assume l: "lookup_handle (pr_reg pr) h = Some fw"
  let ?fw = "hw_in (pr_hw pr) fw"
  note g = metal_reach_good(1) [OF law r l]
  have n: "fw_live ?fw = fw_live fw" "owned ?fw = fw_fault_block fw \<union> live_keys (fw_live fw)" by (simp_all add: owned_def)
  have sh: "shelf mt v self (pr_hw pr) (fw_fault_block fw \<union> live_keys (fw_live fw))"
    using g by (simp add: ledger_def hw_in_def flip: owned_def)
  show h: "h = self" using g by blast
  show "distinct (shim_memory mt self (pr_hw pr))"
    and all: "set (shim_memory mt self (pr_hw pr)) = fw_fault_block fw \<union> live_keys (fw_live fw)"
    using shelf_memory [OF sh] by blast+
  show d: "fw_fault_block fw \<inter> live_keys (fw_live fw) = {}" using g by (simp add: ledger_def n)
  show "\<forall>p \<in> live_keys (fw_live fw). \<exists>pr'. abi_exec ck (Mem_free self p) pr = Some (0, pr')
             \<and> set (shim_memory mt self (pr_hw pr')) = set (shim_memory mt self (pr_hw pr)) - {p}"
  proof
    fix p assume p: "p \<in> live_keys (fw_live fw)"
    let ?a = "allocation_default\<lparr>al_hbm_ptr := p\<rparr>"
    have sh': "shelf mt v self (e_hw (ms_env (fw_memory ?fw))) (fw_fault_block fw \<union> live_keys (fw_live fw))"
      using sh by (simp add: fw_memory_env) (simp add: hw_in_def)
    obtain code pr1 where "abi_exec ck (Mem_free self p) pr = Some (code, pr1)"
      using abi_exec_ok [OF abi_reach_ok [OF sole_reach_abi [OF r [unfolded metal_reach_def]]], where c = "Mem_free self p" and ck = ck]
      by (auto simp: fresh_handle_def)
    then obtain s st where f: "mm_free (metal_backend mt self) ?a (fw_memory ?fw) = Some (s, st)"
      using l g by (auto simp: nexusrt_mem_free_def with_ctx_def h)
    have k: "s = Ok" "shelf mt v self (e_hw (ms_env st)) (fw_fault_block fw \<union> live_keys (fw_live fw) - {p})"
      using mm_free_shelf [OF law sh' _ f] p by (simp_all add: n(1) flip: fw_live_def)
    have "abi_exec ck (Mem_free self p) pr = Some (0, pr\<lparr>pr_hw := e_hw (ms_env st),
        pr_reg := register_handle self (fw_put_memory ?fw st) (pr_reg pr)\<rparr>)"
      using l g f k(1) by (simp add: nexusrt_mem_free_def with_ctx_def h status_code_def fw_memory_env)
    then show "\<exists>pr'. abi_exec ck (Mem_free self p) pr = Some (0, pr')
             \<and> set (shim_memory mt self (pr_hw pr')) = set (shim_memory mt self (pr_hw pr)) - {p}"
      using shelf_memory [OF k(2)] all by auto
  qed
qed

text \<open>C32: Waiting for a barrier on Metal never returns.  The command buffers that stand for the streams
  are never committed, so in every process that the C interface can drive, \<open>nexusrt_wait_barrier\<close> on
  a context whose pool holds a stream that is not null waits for ever.\<close>

theorem metal_barrier_hangs:
  assumes law: "metal_law mt v" and r: "metal_reach mt self ck pr" and l: "lookup_handle (pr_reg pr) h = Some fw"
    and mk: "fw_mk fw = Some mk" and ne: "\<exists>x \<in> set (mk_pool mk). sh_raw x \<noteq> 0"
  shows "\<exists>code pr'. abi_exec ck (Wait_barrier h name ms) pr = Some (code, pr') \<and> mh_stuck (pr_hw pr')"
proof -
  note g = metal_reach_good(1) [OF law r l]
  let ?env = "fw_env (hw_in (pr_hw pr) fw)"
  have "pool_open v (mdrv_of ?env) mk" using g mk by (simp add: streams_open_def)
  note st = sync_all_stuck [OF law this ne, of self]
  obtain s env where e: "sync_all (metal_backend mt self) ?env mk = (s, env)" by force
  then have "mh_stuck (e_hw env)" using st by simp
  with e show ?thesis using l g mk by (simp add: nexusrt_wait_barrier_def with_ctx_def)
qed

subsection \<open>Booting on Metal\<close>

text \<open>A property of the framework's state under which it grants a device, a queue and command
  buffers, and which the calls of a boot keep until it asks for memory.\<close>

definition metal_grants :: "'d metal_api \<Rightarrow> ('d \<Rightarrow> bool) \<Rightarrow> bool" where
  "metal_grants mt Q = (\<forall>d. Q d \<longrightarrow>
     fst (mtlCreateSystemDefaultDevice mt d) \<noteq> 0 \<and> Q (snd (mtlCreateSystemDefaultDevice mt d))
   \<and> (\<forall>p. fst (mtlNewCommandQueue mt p d) \<noteq> 0 \<and> Q (snd (mtlNewCommandQueue mt p d)))
   \<and> (\<forall>q. fst (mtlCommandBuffer mt q d) \<noteq> 0 \<and> Q (snd (mtlCommandBuffer mt q d)))
   \<and> (\<forall>p. Q (objRetain mt p d)))"

lemma grantsD:
  assumes "metal_grants mt Q" and "Q d"
  shows "mtlCreateSystemDefaultDevice mt d = (x, d') \<Longrightarrow> x \<noteq> 0 \<and> Q d'"
    "mtlNewCommandQueue mt p d = (x, d') \<Longrightarrow> x \<noteq> 0 \<and> Q d'"
    "mtlCommandBuffer mt p d = (x, d') \<Longrightarrow> x \<noteq> 0 \<and> Q d'"
    "Q (objRetain mt p d)"
  using assms unfolding metal_grants_def by (metis fst_conv snd_conv)+

definition granting :: "('d \<Rightarrow> bool) \<Rightarrow> ptr \<Rightarrow> device_desc \<Rightarrow> 'd metal_env \<Rightarrow> bool" where
  "granting Q self dv env = (Q (mdrv_of env) \<and> (\<forall>s. map_of (mh_states (e_hw env)) self = Some s \<longrightarrow> mt_queue s \<noteq> 0)
     \<and> e_device env = dv)"

lemma granting_state:
  assumes g: "metal_grants mt Q" and e: "granting Q self dv env"
  obtains s env1 where "mt_state mt self env = (Some s, env1)" "mt_queue s \<noteq> 0" "granting Q self dv env1"
proof (cases "map_of (mh_states (e_hw env)) self")
  case None
  obtain dev d1 where 1: "mtlCreateSystemDefaultDevice mt (mdrv_of env) = (dev, d1)" by force
  obtain q d2 where 2: "mtlNewCommandQueue mt dev d1 = (q, d2)" by force
  have k: "dev \<noteq> 0" "q \<noteq> 0" "Q d2" "e_device env = dv"
    using grantsD(1) [OF g _ 1] grantsD(2) [OF g _ 2] e by (auto simp: granting_def)
  show ?thesis
    by (rule that [of "\<lparr>mt_device = dev, mt_queue = q, mt_buffers = []\<rparr>" "put_mstate self \<lparr>mt_device = dev, mt_queue = q, mt_buffers = []\<rparr> (put_mdrv d2 env)"])
      (use None k in \<open>simp_all add: mt_state_def 1 2 granting_def Let_def\<close>)
next
  case (Some s)
  show ?thesis by (rule that [of s env]) (use Some e in \<open>simp_all add: mt_state_def granting_def\<close>)
qed

lemma granting_stream:
  assumes g: "metal_grants mt Q" and e: "granting Q self dv env"
  obtains cb env' where "metal_create_stream mt self k prio env = (Ok, cb, env')" "cb \<noteq> 0" "granting Q self dv env'"
proof -
  obtain s env1 where s: "mt_state mt self env = (Some s, env1)" "mt_queue s \<noteq> 0" "granting Q self dv env1"
    using granting_state [OF g e] .
  obtain cb d1 where c: "mtlCommandBuffer mt (mt_queue s) (mdrv_of env1) = (cb, d1)" by force
  have q: "cb \<noteq> 0" "Q d1" using grantsD(3) [OF g _ c] s(3) by (auto simp: granting_def)
  show ?thesis
    by (rule that [of cb "put_mdrv (objRetain mt cb d1) env1"])
      (use q s c grantsD(4) [OF g q(2)] in \<open>simp_all add: metal_create_stream_def new_command_buffer_def msg_new_def msg_do_def granting_def\<close>)
qed

definition pool_live :: "microkernel \<Rightarrow> bool" where
  "pool_live mk = (\<forall>h \<in> set (mk_pool mk). sh_raw h \<noteq> 0)"

lemma granting_spawn_one:
  assumes g: "metal_grants mt Q" and e: "granting Q self dv env" and p: "pool_live mk"
  obtains env' mk' where "spawn_one (metal_backend mt self) k prio env mk = (Ok, env', mk')" "granting Q self dv env'" "pool_live mk'"
proof -
  obtain cb env' where c: "metal_create_stream mt self k prio env = (Ok, cb, env')" "cb \<noteq> 0" "granting Q self dv env'"
    using granting_stream [OF g e] .
  let ?h = "stream_handle_default\<lparr>sh_id := mk_next_id mk, sh_raw := cb, sh_klass := k\<rparr>"
  have "pool_live (push_free ?h (mk\<lparr>mk_next_id := mk_next_id mk + 1\<rparr>))"
    using p c(2) by (cases k) (auto simp: pool_live_def mk_pool_def)
  then show ?thesis using that c by (simp add: spawn_one_def metal_alloc_b del: push_free.simps)
qed

lemma granting_spawn_n:
  assumes g: "metal_grants mt Q"
  shows "granting Q self dv env \<Longrightarrow> pool_live mk \<Longrightarrow>
    \<exists>env' mk'. spawn_n (metal_backend mt self) k prio n env mk = (Ok, env', mk') \<and> granting Q self dv env' \<and> pool_live mk'"
proof (induction n arbitrary: env mk)
  case (Suc n)
  obtain env1 mk1 where "spawn_one (metal_backend mt self) k prio env mk = (Ok, env1, mk1)" "granting Q self dv env1" "pool_live mk1"
    using granting_spawn_one [OF g Suc.prems] .
  then show ?case using Suc.IH by simp
qed simp

lemma granting_scheduler:
  assumes g: "metal_grants mt Q" and e: "granting Q self dv (fw_env fw)"
  obtains env mk where "spawn_scheduler (metal_backend mt self) d opts fw = (Ok, fw\<lparr>fw_env := env, fw_mk := Some mk\<rparr>)"
    "granting Q self dv env" "pool_live mk"
proof -
  let ?pf = "metal_backend mt self"
  have "pool_live (mk_create d)" by (simp add: pool_live_def mk_pool_def mk_create_def)
  then obtain e1 m1 where 1: "spawn_n ?pf Compute 0 (unat (bo_stream_pool_compute opts)) (fw_env fw) (mk_create d) = (Ok, e1, m1)"
    "granting Q self dv e1" "pool_live m1" using granting_spawn_n [OF g e] by blast
  obtain e2 m2 where 2: "spawn_n ?pf Dma (-1) (unat (bo_stream_pool_dma opts)) e1 m1 = (Ok, e2, m2)"
    "granting Q self dv e2" "pool_live m2" using granting_spawn_n [OF g 1(2,3)] by blast
  obtain e3 m3 where 3: "spawn_one ?pf Fence 1 e2 m2 = (Ok, e3, m3)" "granting Q self dv e3" "pool_live m3"
    using granting_spawn_one [OF g 2(2,3)] .
  show ?thesis
    by (cases "has_fence_stream (dd_arch (mk_device m2))")
      (use that 1 2 3 in \<open>auto simp: spawn_scheduler_def spawn_stream_pool_def\<close>)
qed

lemma metal_boot_result:
  assumes g: "metal_grants mt Q" and q: "Q (mh_drv hw)" and fresh: "mh_states hw = []"
    and act: "d_active disp = Some (metal_backend mt self)"
    and run: "boot clk opts disp hw = (r, ev, disp', hw')"
  shows "\<exists>dev d b d'. Q d \<and> mtlNewBufferWithLength mt dev (ucast (bo_fault_buffer_slots opts) * sizeof_fault_record) d = (b, d')
    \<and> br_status r = (if b = 0 then OutOfMemory else Ok)
    \<and> (b \<noteq> 0 \<longrightarrow> br_device r = fst (metal_describe_device mt (bo_profile opts) hw)
        \<and> (\<exists>c mk fh. br_ctx r = Some c \<and> fw_mk c = Some mk \<and> pool_live mk \<and> fw_faults c = Some fh
            \<and> fh_buffer fh = mtlContents mt b (objRetain mt b d') \<and> fw_dma c = Some (dma_create (br_device r))))"
proof -
  let ?pf = "metal_backend mt self"
  have p: "dispatch_probe disp h = (True, disp, h)" "dispatch_backend disp h = (?pf, disp, h)" for h
    using act by (simp_all add: dispatch_probe_def dispatch_backend_def)
  obtain dv hw1 where d: "metal_describe_device mt (bo_profile opts) hw = (dv, hw1)" by force
  obtain dev d1 where c: "mtlCreateSystemDefaultDevice mt (mh_drv hw) = (dev, d1)" by force
  have dv: "dd_vendor dv = Apple" "\<not> ff_gds (dd_features dv)" "\<not> ff_grdma (dd_features dv)" "hw1 = hw\<lparr>mh_drv := d1\<rparr>" "Q d1"
    using d grantsD(1) [OF g q c] by (auto simp: metal_describe_device_def c Let_def)
  let ?fw = "fw_create dv opts hw1"
  have 2: "lock_clocks ?pf dv ?fw = (Ok, ?fw)" by (simp add: lock_clocks_def metal_backend_def metal_lock_clocks_def)
  obtain fw3 where 3: "init_hbm ?pf dv ?fw = (Ok, fw3)" "e_hw (fw_env fw3) = hw1" "e_device (fw_env fw3) = dv"
    by (simp add: init_hbm_def metal_backend_def metal_reserve_vaddress_def metal_map_hbm_pool_def Let_def fw_create_def)
  obtain fw4 where 4: "register_dma ?pf dv opts fw3 = (Ok, fw4)" "fw_env fw4 = fw_env fw3" "fw_dma fw4 = Some (dma_create dv)"
    by (simp add: register_dma_def dv)
  have "granting Q self dv (fw_env fw4)" using dv(4,5) 3(2,3) 4(2) fresh by (simp add: granting_def)
  from granting_scheduler [OF g this, where opts = opts and d = dv]
  obtain env mk where sp: "spawn_scheduler ?pf dv opts fw4 = (Ok, fw4\<lparr>fw_env := env, fw_mk := Some mk\<rparr>)"
    and e5: "granting Q self dv env" and live: "pool_live mk" by blast
  obtain fw5 where 5: "spawn_scheduler ?pf dv opts fw4 = (Ok, fw5)" "fw_env fw5 = env" "fw_mk fw5 = Some mk"
    "fw_dma fw5 = Some (dma_create dv)" using sp 4(3) by simp
  let ?n = "ucast (bo_fault_buffer_slots opts) * sizeof_fault_record :: u64"
  obtain s env1 where s: "mt_state mt self env = (Some s, env1)" "granting Q self dv env1" using granting_state [OF g e5] .
  obtain b d' where b: "mtlNewBufferWithLength mt (mt_device s) ?n (mdrv_of env1) = (b, d')" by force
  have r: "r = fst (boot_ctx ?pf clk opts dv ?fw (emit clk opts DriverProbe Ok ''driver found'' (emit clk opts PreInit Ok ''boot started'' [])))"
    using run by (simp add: boot_def probe_driver_def p metal_alloc_b d dv(1) Let_def split: prod.splits)
  have nv: "dd_vendor (e_device env) = Apple" using e5 dv(1) by (simp add: granting_def)
  have i: "b_install_fault_buffer ?pf x sl e = (Ok, e)" for x sl e by (simp add: metal_backend_def metal_install_fault_buffer_def)
  show ?thesis
  proof (cases "b = 0")
    case True
    then have "fst (attach_fault_handler ?pf opts fw5) = OutOfMemory"
      using s(1) b nv 5(2) by (simp add: attach_fault_handler_def fh_install_def fh_create_def metal_alloc_b metal_alloc_hbm_def Let_def)
    then obtain fw6 where 6: "attach_fault_handler ?pf opts fw5 = (OutOfMemory, fw6)" by (metis prod.collapse)
    have "br_status r = OutOfMemory" by (simp add: r boot_ctx_def 2 3(1) 4(1) 5(1) 6 Let_def boot_fail_def)
    then show ?thesis using True b s(2) by (auto simp: granting_def)
  next
    case False
    let ?d2 = "objRetain mt b d'"
    obtain fw6 fh where 6: "attach_fault_handler ?pf opts fw5 = (Ok, fw6)"
      "fw_faults fw6 = Some fh" "fh_buffer fh = mtlContents mt b ?d2" "fw_mk fw6 = Some mk" "fw_dma fw6 = Some (dma_create dv)"
      using s(1) b nv False 5(2-)
      by (simp add: attach_fault_handler_def fh_install_def fh_create_def metal_alloc_b metal_alloc_hbm_def Let_def i)
    obtain s7 fw7 where 7: "init_ilc dv opts fw6 = (s7, fw7)" by force
    have r': "r = \<lparr>br_status = Ok, br_device = dv, br_events = [], br_ctx = Some fw7\<rparr>"
      by (simp add: r boot_ctx_def 2 3(1) 4(1) 5(1) 6(1) 7 Let_def)
    have "fw_mk fw7 = Some mk" "fw_faults fw7 = Some fh" "fw_dma fw7 = Some (dma_create dv)"
      using init_ilc_fields [OF 7] 6(2-) by auto
    then show ?thesis using False b s(2) live 6(3) d by (auto simp: granting_def r')
  qed
qed

text \<open>C22: Booting on Metal fails only for want of the fault buffer.  When the framework grants the
  device, the queue and the command buffers, boot asks for exactly one buffer, the fault ring of
  \<open>slots\<close> records; it answers \<open>OutOfMemory\<close> when that is refused, and otherwise \<open>Ok\<close> with the
  device description that reports the working-set size and no copy engine, and a context all of
  whose streams are command buffers and whose fault buffer is the memory of that buffer.\<close>

theorem metal_boot_outcome:
  assumes g: "metal_grants mt Q" and q: "Q (mh_drv hw)" and fresh: "mh_states hw = []"
    and act: "d_active disp = Some (metal_backend mt self)"
    and run: "boot clk opts disp hw = (r, ev, disp', hw')"
  shows "\<exists>dev d b d'. Q d \<and> mtlNewBufferWithLength mt dev (ucast (bo_fault_buffer_slots opts) * sizeof_fault_record) d = (b, d')
    \<and> br_status r = (if b = 0 then OutOfMemory else Ok)
    \<and> (b \<noteq> 0 \<longrightarrow> br_device r = fst (metal_describe_device mt (bo_profile opts) hw)
        \<and> (\<exists>c mk fh. br_ctx r = Some c \<and> fw_mk c = Some mk \<and> pool_live mk \<and> fw_faults c = Some fh
            \<and> fh_buffer fh = mtlContents mt b (objRetain mt b d') \<and> fw_dma c = Some (dma_create (br_device r))))"
  by (rule metal_boot_result [OF assms])

definition demo_untouched :: "demo_mtl \<Rightarrow> bool" where
  "demo_untouched d = (dm_next d = 2 \<and> dm_refs d = (\<lambda>_. 0))"

lemma demo_grants: "metal_grants demo_metal demo_untouched"
  by (auto simp: metal_grants_def demo_untouched_def demo_metal_def)

lemma demo_first_buffer: "demo_untouched d \<Longrightarrow> mtlNewBufferWithLength demo_metal dev n d = (b, d') \<Longrightarrow> b = 2"
  by (auto simp: demo_untouched_def demo_metal_def demo_buffer_def)

lemma demo_hw: "demo_untouched (mh_drv demo_mhw)" "mh_states demo_mhw = []"
  by (simp_all add: demo_untouched_def demo_mhw_def)

theorem metal_boot_outcome_witness:
  "\<exists>r ev disp' hw' c mk. boot (\<lambda>_. 0) boot_options_default (sole_active Apple (metal_backend demo_metal 16)) demo_mhw = (r, ev, disp', hw')
    \<and> br_status r = Ok \<and> br_ctx r = Some c \<and> fw_fault_block c = {2} \<and> fw_mk c = Some mk \<and> pool_live mk"
proof -
  let ?D = "sole_active Apple (metal_backend demo_metal 16)"
  obtain r ev disp' hw' where run: "boot (\<lambda>_. 0) boot_options_default ?D demo_mhw = (r, ev, disp', hw')" using prod_cases4 by blast
  have act: "d_active ?D = Some (metal_backend demo_metal 16)" by (simp add: sole_active_def)
  obtain dev d b d' where q: "demo_untouched d" "mtlNewBufferWithLength demo_metal dev
      (ucast (bo_fault_buffer_slots boot_options_default) * sizeof_fault_record) d = (b, d')"
    and r: "br_status r = (if b = 0 then OutOfMemory else Ok)"
    "b \<noteq> 0 \<longrightarrow> (\<exists>c mk fh. br_ctx r = Some c \<and> fw_mk c = Some mk \<and> pool_live mk \<and> fw_faults c = Some fh
            \<and> fh_buffer fh = mtlContents demo_metal b (objRetain demo_metal b d'))"
    using metal_boot_outcome [OF demo_grants demo_hw act run] by blast
  have b: "b = 2" by (rule demo_first_buffer [OF q])
  then obtain c mk fh where "br_ctx r = Some c" "fw_mk c = Some mk" "pool_live mk" "fw_faults c = Some fh" "fh_buffer fh = 2"
    using r(2) by (auto simp: demo_metal_def)
  then show ?thesis using run r(1) b by (auto simp: fw_fault_block_def fault_block_def)
qed

subsection \<open>A process on the demonstration framework\<close>

definition demo_mproc :: "demo_mtl metal_hw proc" where
  "demo_mproc = \<lparr>pr_dispatch = metal_auto_register demo_metal 16 dispatch_init, pr_hw = demo_mhw, pr_reg = []\<rparr>"

lemma demo_mproc_boots:
  "\<exists>fw mk pr. metal_reach demo_metal 16 ck pr \<and> lookup_handle (pr_reg pr) 16 = Some fw \<and> fw_fault_block fw = {2}
    \<and> fw_mk fw = Some mk \<and> pool_live mk \<and> length (mk_free_compute mk) = 8"
proof -
  let ?D = "sole_dispatch Apple (metal_backend demo_metal 16)" and ?A = "sole_active Apple (metal_backend demo_metal 16)"
  let ?boot = "boot (ck_boot ck) boot_options_default"
  have "dispatch_probe ?D demo_mhw = (True, ?A, demo_mhw)" "dispatch_probe ?A demo_mhw = (True, ?A, demo_mhw)"
    by (simp_all add: sole_dispatch_def sole_active_def dispatch_probe_def register_backend_def dispatch_init_def
        metal_alloc_b metal_probe_def demo_metal_def)
  then have same: "?boot ?D demo_mhw = ?boot ?A demo_mhw" by (simp add: boot_def probe_driver_def)
  obtain r ev disp hw where b: "?boot ?D demo_mhw = (r, ev, disp, hw)" using prod_cases4 by blast
  have act: "d_active ?A = Some (metal_backend demo_metal 16)" by (simp add: sole_active_def)
  obtain dev d buf d' where q: "demo_untouched d" "mtlNewBufferWithLength demo_metal dev
      (ucast (bo_fault_buffer_slots boot_options_default) * sizeof_fault_record) d = (buf, d')"
    and r: "br_status r = (if buf = 0 then OutOfMemory else Ok)"
    "buf \<noteq> 0 \<longrightarrow> (\<exists>c mk fh. br_ctx r = Some c \<and> fw_mk c = Some mk \<and> pool_live mk \<and> fw_faults c = Some fh
            \<and> fh_buffer fh = mtlContents demo_metal buf (objRetain demo_metal buf d'))"
    using metal_boot_result [OF demo_grants demo_hw act b [unfolded same]] by blast
  have two: "buf = 2" by (rule demo_first_buffer [OF q])
  then obtain c mk fh where c: "br_ctx r = Some c" "fw_mk c = Some mk" "pool_live mk" "fw_faults c = Some fh" "fh_buffer fh = 2"
    using r(2) by (auto simp: demo_metal_def)
  have ok: "br_status r = Ok" using r(1) two by simp
  have "fw_ready (br_device r) boot_options_default c" using booted_ready [OF b ok] c(1) by simp
  then have len: "length (mk_free_compute mk) = 8" by (simp add: fw_ready_def c(2) boot_options_default_def)
  let ?pr = "\<lparr>pr_dispatch = disp, pr_hw = hw, pr_reg = register_handle 16 c []\<rparr>"
  have e: "abi_exec ck (Firmware_init None 16) demo_mproc = Some (0, ?pr)"
    using b ok c(1) by (simp add: nexusrt_firmware_init_def demo_mproc_def sole_dispatch_def metal_auto_register_def Let_def)
  have "metal_reach demo_metal 16 ck ?pr"
    unfolding metal_reach_def
  proof (rule sole_reach.call [OF _ _ _ e])
    show "sole_reach Apple (metal_backend demo_metal 16) 16 (\<lambda>hw. mh_states hw = []) ck demo_mproc"
      by (rule sole_reach.start) (simp_all add: demo_mproc_def demo_mhw_def sole_dispatch_def metal_auto_register_def)
  qed (simp_all add: fresh_handle_def own_address_def demo_mproc_def lookup_handle_def)
  then show ?thesis using c len
    by (intro exI [of _ c] exI [of _ mk] exI [of _ ?pr]) (simp add: hm.find_register fw_fault_block_def fault_block_def)
qed

theorem metal_ledger_witness:
  "\<exists>pr fw. metal_reach demo_metal 16 \<lparr>ck_boot = (\<lambda>_. 0), ck_page = (\<lambda>_. 0), ck_stage = (\<lambda>_. (0, 0))\<rparr> pr
    \<and> lookup_handle (pr_reg pr) 16 = Some fw \<and> 2 \<in> set (shim_memory demo_metal 16 (pr_hw pr))"
proof -
  let ?ck = "\<lparr>ck_boot = (\<lambda>_. 0), ck_page = (\<lambda>_. 0), ck_stage = (\<lambda>_. (0, 0))\<rparr>"
  obtain fw pr where r: "metal_reach demo_metal 16 ?ck pr" "lookup_handle (pr_reg pr) 16 = Some fw" "fw_fault_block fw = {2}"
    using demo_mproc_boots by blast
  show ?thesis using metal_ledger [OF demo_metal_law r(1)] r by blast
qed

theorem metal_barrier_hangs_witness:
  "\<exists>pr code pr'. metal_reach demo_metal 16 \<lparr>ck_boot = (\<lambda>_. 0), ck_page = (\<lambda>_. 0), ck_stage = (\<lambda>_. (0, 0))\<rparr> pr
    \<and> abi_exec \<lparr>ck_boot = (\<lambda>_. 0), ck_page = (\<lambda>_. 0), ck_stage = (\<lambda>_. (0, 0))\<rparr> (Wait_barrier 16 ''s'' 5) pr = Some (code, pr')
    \<and> mh_stuck (pr_hw pr')"
proof -
  let ?ck = "\<lparr>ck_boot = (\<lambda>_. 0), ck_page = (\<lambda>_. 0), ck_stage = (\<lambda>_. (0, 0))\<rparr>"
  obtain fw mk pr where r: "metal_reach demo_metal 16 ?ck pr" "lookup_handle (pr_reg pr) 16 = Some fw" "fw_mk fw = Some mk"
    "pool_live mk" "length (mk_free_compute mk) = 8" using demo_mproc_boots by blast
  have "hd (mk_free_compute mk) \<in> set (mk_pool mk)" using r(5) by (cases "mk_free_compute mk") (auto simp: mk_pool_def)
  then have "\<exists>x \<in> set (mk_pool mk). sh_raw x \<noteq> 0" using r(4) by (auto simp: pool_live_def)
  from metal_barrier_hangs [OF demo_metal_law r(1-3) this] r(1) show ?thesis by blast
qed

subsection \<open>Launches on either backend\<close>

text \<open>C40: No kernel can be launched on either backend.  Both shims' \<open>load_module\<close> stores the module but
  never a function, so after any sequence of loads into a fresh micro-kernel every launch, whatever
  module and function it names, answers \<open>InvalidArgument\<close> and no call reaches the driver.\<close>

theorem backends_never_launch:
  "mk_launch (cuda_backend hopper cu self) m f g b sm sh args env2 (snd (load_modules (cuda_backend hopper cu self) ms env (mk_create d)))
      = (InvalidArgument, env2)
    \<and> mk_launch (metal_backend mt self) m f g b sm sh args menv2 (snd (load_modules (metal_backend mt self) ms menv (mk_create d)))
      = (InvalidArgument, menv2)"
proof (rule conjI)
  show "mk_launch (cuda_backend hopper cu self) m f g b sm sh args env2 (snd (load_modules (cuda_backend hopper cu self) ms env (mk_create d)))
      = (InvalidArgument, env2)" by (rule cul.never_launches [OF surjective_pairing])
  show "mk_launch (metal_backend mt self) m f g b sm sh args menv2 (snd (load_modules (metal_backend mt self) ms menv (mk_create d)))
      = (InvalidArgument, menv2)" by (rule mtl.never_launches [OF surjective_pairing])
qed

end
