(* ===== verification/CudaHelpers.thy ===== *)
theory CudaHelpers
  imports CudaShim
begin

text \<open>
  The exported CUDA helpers beside the backend: compressed allocations
  (\<^verbatim>\<open>src/firmware/ilc_allocations.cu\<close>) and two-dimensional tensor maps
  (\<^verbatim>\<open>src/firmware/tma_descriptor.cu\<close>), over the libcuda record of \<^verbatim>\<open>CudaShim\<close>.
\<close>

subsection \<open>Compressed allocations\<close>

definition nexusrt_ilc_alloc :: "'d cuda_driver \<Rightarrow> ptr \<Rightarrow> u64 \<Rightarrow> 'd \<Rightarrow> int \<times> ptr option \<times> 'd" where
  "nexusrt_ilc_alloc cu ctx bytes d =
     (if ctx = 0 then (-1, None, d)
      else (let (r, h, d1) = cuMemCreateCompressed cu bytes 0 d
            in if r \<noteq> CUDA_SUCCESS then (cu_code cu r, None, d1)
               else (let (r, addr, d2) = cuMemAddressReserve cu bytes d1
                     in if r \<noteq> CUDA_SUCCESS then (cu_code cu r, None, snd (cuMemRelease cu h d2))
                        else (let (r, d3) = cuMemMap cu addr bytes h d2
                              in if r \<noteq> CUDA_SUCCESS
                                 then (cu_code cu r, None, snd (cuMemRelease cu h (snd (cuMemAddressFree cu addr bytes d3))))
                                 else (let d4 = snd (cuMemSetAccess cu addr bytes 0 d3) in (0, Some addr, d4))))))"

definition nexusrt_ilc_free :: "'d cuda_driver \<Rightarrow> ptr \<Rightarrow> u64 \<Rightarrow> 'd \<Rightarrow> int \<times> 'd" where
  "nexusrt_ilc_free cu p bytes d =
     (if p = 0 then (0, d)
      else (let d1 = snd (cuMemUnmap cu p bytes d); d2 = snd (cuMemAddressFree cu p bytes d1) in (0, d2)))"

text \<open>What the code relies on of the driver: the handles it holds and the address ranges it has
  reserved change only by the calls that make and give them up.\<close>

definition alloc_law :: "'d cuda_driver \<Rightarrow> ('d \<Rightarrow> ptr set) \<Rightarrow> ('d \<Rightarrow> (ptr \<times> u64) set) \<Rightarrow> bool" where
  "alloc_law cu held ranges =
     ((\<forall>n dev d r h d'. cuMemCreateCompressed cu n dev d = (r, h, d') \<longrightarrow> ranges d' = ranges d \<and>
         (if r = CUDA_SUCCESS then h \<notin> held d \<and> held d' = insert h (held d) else held d' = held d))
    \<and> (\<forall>n d r p d'. cuMemAddressReserve cu n d = (r, p, d') \<longrightarrow> held d' = held d \<and>
         (if r = CUDA_SUCCESS then (p, n) \<notin> ranges d \<and> ranges d' = insert (p, n) (ranges d) else ranges d' = ranges d))
    \<and> (\<forall>p n h d. held (snd (cuMemMap cu p n h d)) = held d \<and> ranges (snd (cuMemMap cu p n h d)) = ranges d)
    \<and> (\<forall>p n dev d. held (snd (cuMemSetAccess cu p n dev d)) = held d \<and> ranges (snd (cuMemSetAccess cu p n dev d)) = ranges d)
    \<and> (\<forall>p n d. held (snd (cuMemUnmap cu p n d)) = held d \<and> ranges (snd (cuMemUnmap cu p n d)) = ranges d)
    \<and> (\<forall>h d. held (snd (cuMemRelease cu h d)) = held d - {h} \<and> ranges (snd (cuMemRelease cu h d)) = ranges d)
    \<and> (\<forall>p n d. held (snd (cuMemAddressFree cu p n d)) = held d \<and> ranges (snd (cuMemAddressFree cu p n d)) = ranges d - {(p, n)})
    \<and> (\<forall>r. cu_code cu r = 0 \<longleftrightarrow> r = CUDA_SUCCESS))"

lemma alloc_lawD:
  assumes "alloc_law cu held ranges"
  shows "cuMemCreateCompressed cu n dev d = (r, h, d') \<Longrightarrow> ranges d' = ranges d \<and>
         (if r = CUDA_SUCCESS then h \<notin> held d \<and> held d' = insert h (held d) else held d' = held d)"
    and "cuMemAddressReserve cu n d = (r, p, d') \<Longrightarrow> held d' = held d \<and>
         (if r = CUDA_SUCCESS then (p, n) \<notin> ranges d \<and> ranges d' = insert (p, n) (ranges d) else ranges d' = ranges d)"
    and "held (snd (cuMemMap cu p n h d)) = held d \<and> ranges (snd (cuMemMap cu p n h d)) = ranges d"
    and "held (snd (cuMemSetAccess cu p n dev d)) = held d \<and> ranges (snd (cuMemSetAccess cu p n dev d)) = ranges d"
    and "held (snd (cuMemUnmap cu p n d)) = held d \<and> ranges (snd (cuMemUnmap cu p n d)) = ranges d"
    and "held (snd (cuMemRelease cu h d)) = held d - {h} \<and> ranges (snd (cuMemRelease cu h d)) = ranges d"
    and "held (snd (cuMemAddressFree cu p n d)) = held d \<and> ranges (snd (cuMemAddressFree cu p n d)) = ranges d - {(p, n)}"
    and "cu_code cu r = 0 \<longleftrightarrow> r = CUDA_SUCCESS"
proof -
  note l = assms [unfolded alloc_law_def]
  show "cuMemCreateCompressed cu n dev d = (r, h, d') \<Longrightarrow> ranges d' = ranges d \<and>
      (if r = CUDA_SUCCESS then h \<notin> held d \<and> held d' = insert h (held d) else held d' = held d)"
    by (rule l [THEN conjunct1, rule_format])
  show "cuMemAddressReserve cu n d = (r, p, d') \<Longrightarrow> held d' = held d \<and>
      (if r = CUDA_SUCCESS then (p, n) \<notin> ranges d \<and> ranges d' = insert (p, n) (ranges d) else ranges d' = ranges d)"
    by (rule l [THEN conjunct2, THEN conjunct1, rule_format])
  note l = l [THEN conjunct2, THEN conjunct2]
  show "held (snd (cuMemMap cu p n h d)) = held d \<and> ranges (snd (cuMemMap cu p n h d)) = ranges d"
    by (rule l [THEN conjunct1, rule_format])
  show "held (snd (cuMemSetAccess cu p n dev d)) = held d \<and> ranges (snd (cuMemSetAccess cu p n dev d)) = ranges d"
    by (rule l [THEN conjunct2, THEN conjunct1, rule_format])
  show "held (snd (cuMemUnmap cu p n d)) = held d \<and> ranges (snd (cuMemUnmap cu p n d)) = ranges d"
    by (rule l [THEN conjunct2, THEN conjunct2, THEN conjunct1, rule_format])
  show "held (snd (cuMemRelease cu h d)) = held d - {h} \<and> ranges (snd (cuMemRelease cu h d)) = ranges d"
    by (rule l [THEN conjunct2, THEN conjunct2, THEN conjunct2, THEN conjunct1, rule_format])
  show "held (snd (cuMemAddressFree cu p n d)) = held d \<and> ranges (snd (cuMemAddressFree cu p n d)) = ranges d - {(p, n)}"
    by (rule l [THEN conjunct2, THEN conjunct2, THEN conjunct2, THEN conjunct2, THEN conjunct1, rule_format])
  show "cu_code cu r = 0 \<longleftrightarrow> r = CUDA_SUCCESS"
    by (rule l [THEN conjunct2, THEN conjunct2, THEN conjunct2, THEN conjunct2, THEN conjunct2, rule_format])
qed

text \<open>C36: A compressed allocation cleans up behind itself, but freeing it does not.  On every failing
  path the driver holds the same handles and the same address ranges as before; on success one new
  handle and one new range are held, and \<open>nexusrt_ilc_free\<close> gives back the range only: the
  physical memory stays allocated.\<close>

theorem ilc_alloc_cleanup:
  assumes law: "alloc_law cu held ranges" and run: "nexusrt_ilc_alloc cu ctx n d = (code, out, d1)"
  shows "if code \<noteq> 0 then out = None \<and> held d1 = held d \<and> ranges d1 = ranges d
    else (\<exists>h p. out = Some p \<and> h \<notin> held d \<and> held d1 = insert h (held d)
      \<and> (p, n) \<notin> ranges d \<and> ranges d1 = insert (p, n) (ranges d)
      \<and> (p \<noteq> 0 \<longrightarrow> (\<exists>d2. nexusrt_ilc_free cu p n d1 = (0, d2) \<and> ranges d2 = ranges d \<and> h \<in> held d2)))"
proof (cases "ctx = 0")
  case False
  obtain r h d1' where c: "cuMemCreateCompressed cu n 0 d = (r, h, d1')" using prod_cases3 by blast
  obtain r2 p d2 where a: "cuMemAddressReserve cu n d1' = (r2, p, d2)" using prod_cases3 by blast
  obtain r3 d3 where m: "cuMemMap cu p n h d2 = (r3, d3)" by force
  note lc = alloc_lawD(1) [OF law c] and la = alloc_lawD(2) [OF law a] and lm = alloc_lawD(3) [OF law, of p n h d2, unfolded m snd_conv]
  note laws = alloc_lawD(4-8) [OF law]
  consider (create) "r \<noteq> CUDA_SUCCESS" | (reserve) "r = CUDA_SUCCESS" "r2 \<noteq> CUDA_SUCCESS"
    | (mapping) "r = CUDA_SUCCESS" "r2 = CUDA_SUCCESS" "r3 \<noteq> CUDA_SUCCESS"
    | (success) "r = CUDA_SUCCESS" "r2 = CUDA_SUCCESS" "r3 = CUDA_SUCCESS" by blast
  then show ?thesis
  proof cases
    case create
    then show ?thesis using run False lc laws by (auto simp: nexusrt_ilc_alloc_def c)
  next
    case reserve
    then show ?thesis using run False lc la laws by (auto simp: nexusrt_ilc_alloc_def c a)
  next
    case mapping
    then show ?thesis using run False lc la lm laws by (auto simp: nexusrt_ilc_alloc_def c a m)
  next
    case success
    then have "code = 0" "out = Some p" "d1 = snd (cuMemSetAccess cu p n 0 d3)"
      using run False by (auto simp: nexusrt_ilc_alloc_def c a m)
    then show ?thesis using success lc la lm laws by (simp add: nexusrt_ilc_free_def) (rule exI [of _ h], simp)
  qed
qed (use run in \<open>simp add: nexusrt_ilc_alloc_def\<close>)

theorem ilc_alloc_cleanup_witness:
  "\<exists>d1 d2. nexusrt_ilc_alloc demo_cuda 1 4096 (drv_of demo_cenv) = (0, Some 2, d1) \<and> nexusrt_ilc_free demo_cuda 2 4096 d1 = (0, d2)
    \<and> set (dr_ranges d2) = {} \<and> set (dr_held d2) \<noteq> {}"
proof -
  have law: "alloc_law demo_cuda (\<lambda>d. set (dr_held d)) (\<lambda>d. set (dr_ranges d))"
    by (auto simp: alloc_law_def demo_cuda_def demo_create_def demo_reserve_def split: if_splits cu_result.splits)
  obtain d1 where a: "nexusrt_ilc_alloc demo_cuda 1 4096 (drv_of demo_cenv) = (0, Some 2, d1)"
    by (simp add: nexusrt_ilc_alloc_def demo_cuda_def demo_create_def demo_reserve_def demo_cenv_def)
  have z: "set (dr_ranges (drv_of demo_cenv)) = {}" by (simp add: demo_cenv_def)
  show ?thesis using ilc_alloc_cleanup [OF law a] a z by auto
qed

subsection \<open>Tensor maps\<close>

text \<open>\<open>device_arch\<close> is the value of \<^verbatim>\<open>__CUDA_ARCH__\<close> where the macro is defined: in the
  compilation pass for the device, not in the one for the host that builds this function.\<close>

definition nexusrt_tma_encode_2d :: "nat option \<Rightarrow> 'd cuda_driver \<Rightarrow> ptr \<Rightarrow> u64 \<Rightarrow> u64 \<Rightarrow> u32 \<Rightarrow> u32 \<Rightarrow> u32 \<Rightarrow> int
    \<Rightarrow> 'd cuda_hw \<Rightarrow> int \<times> ptr option \<times> 'd cuda_hw" where
  "nexusrt_tma_encode_2d device_arch cu host_ptr rows cols elem_size tile_rows tile_cols swizzle hw =
     (if (case device_arch of None \<Rightarrow> False | Some a \<Rightarrow> a \<ge> 900)
      then (let (r, m) = cuTensorMapEncodeTiled cu (tmap_dtype elem_size) host_ptr [cols, rows] [cols * ucast elem_size]
                           [tile_cols, tile_rows] swizzle (ch_drv hw)
            in if r \<noteq> CUDA_SUCCESS then (cu_code cu r, None, hw)
               else (0, Some (ch_next hw), hw\<lparr>ch_next := ch_next hw + 1, ch_tmaps := AList.update (ch_next hw) m (ch_tmaps hw)\<rparr>))
      else (-1, None, hw))"

definition nexusrt_tma_release :: "ptr \<Rightarrow> 'd cuda_hw \<Rightarrow> 'd cuda_hw" where
  "nexusrt_tma_release descriptor hw =
     (if descriptor = 0 then hw
      else (case map_of (ch_tmaps hw) descriptor of
              None \<Rightarrow> hw\<lparr>ch_crashed := True\<rparr>
            | Some _ \<Rightarrow> hw\<lparr>ch_tmaps := AList.delete descriptor (ch_tmaps hw)\<rparr>))"

lemma tma_encode_2d_host:
  "nexusrt_tma_encode_2d None cu host_ptr rows cols elem_size tile_rows tile_cols swizzle hw = (-1, None, hw)"
  by (simp add: nexusrt_tma_encode_2d_def)

lemma tma_encode_2d_release:
  assumes "nexusrt_tma_encode_2d a cu p rows cols es tr tc sw hw = (0, Some raw, hw')"
    and "map_of (ch_tmaps hw) (ch_next hw) = None" and "ch_next hw \<noteq> 0" and "um_wf (ch_tmaps hw)"
  shows "map_of (ch_tmaps (nexusrt_tma_release raw hw')) = map_of (ch_tmaps hw)
    \<and> ch_crashed (nexusrt_tma_release raw hw') = ch_crashed hw"
  using assms by (auto simp: nexusrt_tma_encode_2d_def nexusrt_tma_release_def delete_conv' fun_eq_iff split: prod.splits if_splits)

end
