(* ===== verification/Kernels.thy ===== *)
theory Kernels
  imports Pipeline
begin

text \<open>
  The device kernels of the pipeline (\<^verbatim>\<open>src/pipeline/kernels/*.cu\<close>).  A thread is its block
  and thread number; its body maps the state of the buffers to the next, or to \<^term>\<open>None\<close>
  where it reads or writes outside a buffer or divides by zero.  A launch runs the body of every
  thread of the grid once, in an order that the device chooses: an argument of the model.  The
  half-precision type of the weights is left open.
\<close>

subsection \<open>Grids\<close>

type_synonym thread = "u32 \<times> u32"

definition threads :: "u32 \<Rightarrow> u32 \<Rightarrow> thread list" where
  "threads grid block = map (\<lambda>(b, t). (of_nat b, of_nat t)) (List.product [0..<unat grid] [0..<unat block])"

fun run_threads :: "(thread \<Rightarrow> 's \<Rightarrow> 's option) \<Rightarrow> thread list \<Rightarrow> 's \<Rightarrow> 's option" where
  "run_threads body [] st = Some st"
| "run_threads body (t # ts) st = Option.bind (body t st) (run_threads body ts)"

text \<open>\<^verbatim>\<open>(uint64_t)blockIdx.x * blockDim.x + threadIdx.x\<close>, and the same in 32 bits.\<close>

definition global_id :: "u32 \<Rightarrow> thread \<Rightarrow> u64" where
  "global_id block t = ucast (fst t) * ucast block + ucast (snd t)"

definition global_id32 :: "u32 \<Rightarrow> thread \<Rightarrow> u32" where
  "global_id32 block t = fst t * block + snd t"

definition load_at :: "'a list \<Rightarrow> nat \<Rightarrow> 'a option" where
  "load_at xs i = (if i < length xs then Some (xs ! i) else None)"

definition store_at :: "'a list \<Rightarrow> nat \<Rightarrow> 'a \<Rightarrow> 'a list option" where
  "store_at xs i x = (if i < length xs then Some (xs[i := x]) else None)"

subsection \<open>The kernels\<close>

definition tokenize_bpe_u8 :: "8 word list \<Rightarrow> u64 \<Rightarrow> u32 \<Rightarrow> u32 \<Rightarrow> thread \<Rightarrow> i32 list \<Rightarrow> i32 list option" where
  "tokenize_bpe_u8 raw n_bytes vocab_size block t tokens =
     (let i = global_id block t
      in if i \<ge> n_bytes then Some tokens
         else Option.bind (load_at raw (unat i)) (\<lambda>b.
              if vocab_size = 0 then None else store_at tokens (unat i) (ucast b mod vocab_size)))"

definition detokenize_format :: "i32 list \<Rightarrow> u64 \<Rightarrow> u32 \<Rightarrow> thread \<Rightarrow> 8 word list \<Rightarrow> 8 word list option" where
  "detokenize_format tokens n_tokens block t out_bytes =
     (let i = global_id block t
      in if i \<ge> n_tokens then Some out_bytes
         else Option.bind (load_at tokens (unat i)) (\<lambda>x.
              store_at out_bytes (unat i) (if sint x \<ge> 32 \<and> sint x < 127 then ucast x else 32)))"

definition transformer_fwd_bwd :: "'h \<Rightarrow> 'h list \<Rightarrow> u64 \<Rightarrow> u32 \<Rightarrow> thread \<Rightarrow> 'h list \<times> 'h list \<Rightarrow> ('h list \<times> 'h list) option" where
  "transformer_fwd_bwd zero weights n_elements block t st =
     (let i = global_id block t; (activations, grads) = st
      in if i \<ge> n_elements then Some st
         else Option.bind (load_at weights (unat i)) (\<lambda>w.
              Option.bind (store_at activations (unat i) w) (\<lambda>a.
              Option.bind (store_at grads (unat i) zero) (\<lambda>g. Some (a, g)))))"

definition decode_step :: "'h list \<Rightarrow> i32 list \<Rightarrow> u32 \<Rightarrow> u32 \<Rightarrow> u32 \<Rightarrow> thread \<Rightarrow> 'h list \<Rightarrow> 'h list option" where
  "decode_step weights last_token d vocab block t logits =
     (let tid = global_id32 block t
      in if tid \<ge> vocab then Some logits
         else Option.bind (load_at last_token 0) (\<lambda>x.
              if d = 0 then None
              else (let row = x mod d
                    in Option.bind (load_at weights (unat (row * vocab + tid))) (\<lambda>w. store_at logits (unat tid) w))))"

subsection \<open>The launchers\<close>

text \<open>A launch runs the threads in some order: any list with the threads of the grid, each once.\<close>

definition schedule_of :: "u32 \<Rightarrow> u32 \<Rightarrow> thread list \<Rightarrow> bool" where
  "schedule_of grid block ts = (distinct ts \<and> set ts = set (threads grid block))"

definition nexusrt_launch_tokenize_bpe_u8 :: "thread list \<Rightarrow> 8 word list \<Rightarrow> i32 list \<Rightarrow> u64 \<Rightarrow> u32 \<Rightarrow> u32 \<Rightarrow> i32 list option" where
  "nexusrt_launch_tokenize_bpe_u8 order raw tokens n_bytes vocab_size block =
     run_threads (tokenize_bpe_u8 raw n_bytes vocab_size block) order tokens"

definition nexusrt_launch_detokenize_format :: "thread list \<Rightarrow> i32 list \<Rightarrow> 8 word list \<Rightarrow> u64 \<Rightarrow> u32 \<Rightarrow> 8 word list option" where
  "nexusrt_launch_detokenize_format order tokens out_bytes n_tokens block =
     run_threads (detokenize_format tokens n_tokens block) order out_bytes"

definition nexusrt_launch_transformer_fwd_bwd :: "thread list \<Rightarrow> 'h \<Rightarrow> 'h list \<Rightarrow> 'h list \<Rightarrow> 'h list \<Rightarrow> u64 \<Rightarrow> u32
    \<Rightarrow> ('h list \<times> 'h list) option" where
  "nexusrt_launch_transformer_fwd_bwd order zero weights activations grads n_elements block =
     run_threads (transformer_fwd_bwd zero weights n_elements block) order (activations, grads)"

definition nexusrt_launch_decode_step :: "thread list \<Rightarrow> 'h list \<Rightarrow> i32 list \<Rightarrow> 'h list \<Rightarrow> u32 \<Rightarrow> u32 \<Rightarrow> u32 \<Rightarrow> 'h list option" where
  "nexusrt_launch_decode_step order weights last_token logits d vocab block =
     run_threads (decode_step weights last_token d vocab block) order logits"

subsection \<open>Element-wise kernels\<close>

lemma unat32: "unat (x :: u32) < 2 ^ 32"
  using unsigned_less [of x] by simp

lemma of_nat32: "k < 2 ^ 32 \<Longrightarrow> unat (of_nat k :: u32) = k"
  by (simp add: unat_of_nat take_bit_nat_eq_self)

lemma set_threads: "(b, t) \<in> set (threads grid block) \<longleftrightarrow> b < grid \<and> t < block"
proof
  assume "(b, t) \<in> set (threads grid block)"
  then obtain i j where ij: "i < unat grid" "j < unat block" "b = of_nat i" "t = of_nat j"
    by (auto simp: threads_def)
  have "unat b = i" "unat t = j"
    using ij of_nat32 [of i] of_nat32 [of j] unat32 [of grid] unat32 [of block] by simp_all
  then show "b < grid \<and> t < block" using ij(1,2) by (simp add: word_less_nat_alt)
next
  assume l: "b < grid \<and> t < block"
  then have "(unat b, unat t) \<in> set (List.product [0..<unat grid] [0..<unat block])"
    by (simp add: word_less_nat_alt)
  then have "(of_nat (unat b), of_nat (unat t)) \<in> set (threads grid block)"
    unfolding threads_def set_map by (rule rev_image_eqI) simp
  then show "(b, t) \<in> set (threads grid block)" by simp
qed

lemma unat_global_id: "unat (global_id block t) = unat (fst t) * unat block + unat (snd t)"
proof -
  have b: "unat (fst t) \<le> 2 ^ 32 - 1" "unat block \<le> 2 ^ 32 - 1" "unat (snd t) \<le> 2 ^ 32 - 1"
    using unat32 [of "fst t"] unat32 [of block] unat32 [of "snd t"] by linarith+
  then have "unat (fst t) * unat block \<le> (2 ^ 32 - 1) * (2 ^ 32 - 1)" by (intro mult_le_mono)
  with b have s: "unat (fst t) * unat block + unat (snd t) < 2 ^ 64" by simp
  have u: "unat (ucast x :: u64) = unat x" for x :: u32
    using unat32 [of x] by (simp add: unsigned_ucast_eq take_bit_nat_eq_self)
  have m: "unat (ucast (fst t) * ucast block :: u64) = unat (fst t) * unat block"
    using s by (subst unat_mult_lem [THEN iffD1]) (simp_all add: u)
  show ?thesis unfolding global_id_def using s by (subst unat_add_lem [THEN iffD1]) (simp_all add: u m)
qed

lemma global_id_covers:
  assumes "k < unat grid * unat block"
  shows "\<exists>t \<in> set (threads grid block). unat (global_id block t) = k"
proof -
  let ?b = "unat block"
  have pos: "0 < ?b" using assms by (cases "?b") auto
  have d: "k div ?b < unat grid" using assms by (simp add: less_mult_imp_div_less)
  have m: "k mod ?b < ?b" using pos by simp
  let ?t = "(of_nat (k div ?b), of_nat (k mod ?b)) :: thread"
  have u: "unat (fst ?t) = k div ?b" "unat (snd ?t) = k mod ?b"
    using d m unat32 [of grid] unat32 [of block] of_nat32 [of "k div ?b"] of_nat32 [of "k mod ?b"] by simp_all
  have "?t \<in> set (threads grid block)" using u d m by (simp add: set_threads word_less_nat_alt)
  moreover have "unat (global_id block ?t) = k" unfolding unat_global_id u by simp
  ultimately show ?thesis by blast
qed

lemma global_id_bound: "t \<in> set (threads grid block) \<Longrightarrow> unat (global_id block t) < unat grid * unat block"
proof -
  assume "t \<in> set (threads grid block)"
  then have t: "unat (fst t) < unat grid" "unat (snd t) < unat block"
    using set_threads [of "fst t" "snd t" grid block] by (simp_all add: word_less_nat_alt)
  then have "Suc (unat (fst t)) * unat block \<le> unat grid * unat block" by (intro mult_le_mono1) simp
  then show ?thesis using t by (simp add: unat_global_id)
qed

text \<open>A kernel whose thread stores \<open>f i\<close> at its own index: whatever the order, the result has \<open>f\<close>
  at the indices of the threads and is unchanged elsewhere.\<close>

lemma run_elementwise:
  assumes body: "\<And>t (st :: 'a list). t \<in> set ts \<Longrightarrow> length st = m \<Longrightarrow>
      body t st = Some (if g t < n then st[g t := f (g t)] else st)"
    and len: "length st = m"
  shows "\<exists>st'. run_threads body ts st = Some st' \<and> length st' = m
    \<and> (\<forall>j < m. st' ! j = (if j < n \<and> j \<in> g ` set ts then f j else st ! j))"
  using assms
proof (induction ts arbitrary: st)
  case (Cons t ts)
  let ?st = "if g t < n then st[g t := f (g t)] else st"
  have b: "body t st = Some ?st" using Cons.prems by simp
  have l: "length ?st = m" using Cons.prems by simp
  obtain st' where r: "run_threads body ts ?st = Some st'" "length st' = m"
    "\<forall>j < m. st' ! j = (if j < n \<and> j \<in> g ` set ts then f j else ?st ! j)"
    using Cons.IH [OF Cons.prems(1) l] by auto
  have "\<forall>j < m. st' ! j = (if j < n \<and> j \<in> g ` set (t # ts) then f j else st ! j)"
    using r(3) Cons.prems(2) by (auto simp: nth_list_update)
  then show ?case using b r(1,2) by simp
qed simp

definition byte_char :: "8 word \<Rightarrow> char" where
  "byte_char b = char_of (unat b)"

definition detok_byte :: "i32 \<Rightarrow> 8 word" where
  "detok_byte x = (if sint x \<ge> 32 \<and> sint x < 127 then ucast x else 32)"

lemma sint_small: "k < 128 \<Longrightarrow> sint (of_nat k :: i32) = int k"
  by (simp add: signed_of_nat signed_take_bit_int_eq_self)

lemma detok_byte_char: "byte_char (detok_byte x) = detok_char x"
proof (cases "sint x \<ge> 32 \<and> sint x < 127")
  case True
  have "x = of_nat (nat (sint x))" using True by simp
  then have "unat x = nat (sint x)" using True of_nat32 [of "nat (sint x)"] by (simp add: nat_less_iff)
  then have l: "unat x < 127" and s: "sint x = int (unat x)" using True by (simp_all add: nat_less_iff)
  then have "unat (ucast x :: 8 word) = unat x"
    by (simp add: unsigned_ucast_eq take_bit_nat_eq_self)
  then show ?thesis using True s by (simp add: byte_char_def detok_byte_def detok_char_def)
next
  case False
  have "char_of (32 :: nat) = CHR '' ''" by code_simp
  then show ?thesis using False by (auto simp: byte_char_def detok_byte_def detok_char_def)
qed

lemma ids_of_schedule:
  "schedule_of grid block ts \<Longrightarrow> (j \<in> (\<lambda>t. unat (global_id block t)) ` set ts) = (j < unat grid * unat block)"
  using global_id_covers [of j grid block] global_id_bound by (fastforce simp: schedule_of_def image_iff)

lemma launch_elementwise:
  assumes sch: "schedule_of grid block ts" and len: "length st = m" and n: "unat n \<le> m"
    and body: "\<And>t (st :: 'a list). length st = m \<Longrightarrow> body t st =
      (if n \<le> global_id block t then Some st else Some (st[unat (global_id block t) := f (unat (global_id block t))]))"
  shows "\<exists>st'. run_threads body ts st = Some st' \<and> length st' = m
    \<and> (\<forall>j < m. st' ! j = (if j < unat n \<and> j < unat grid * unat block then f j else st ! j))"
proof -
  have b: "body t st = Some (if unat (global_id block t) < unat n
      then st[unat (global_id block t) := f (unat (global_id block t))] else st)" if "length st = m" for t and st :: "'a list"
    using body [OF that] by (simp add: word_le_nat_alt)
  from run_elementwise [where g = "\<lambda>t. unat (global_id block t)" and n = "unat n" and f = f, OF b len]
  obtain st' where "run_threads body ts st = Some st'" "length st' = m"
    "\<forall>j < m. st' ! j = (if j < unat n \<and> j \<in> (\<lambda>t. unat (global_id block t)) ` set ts then f j else st ! j)" by blast
  then show ?thesis unfolding ids_of_schedule [OF sch] by blast
qed

lemma detok_launch:
  assumes sch: "schedule_of grid block ts" and len: "unat n \<le> length tokens" "unat n \<le> length out"
  shows "\<exists>out'. nexusrt_launch_detokenize_format ts tokens out n block = Some out' \<and> length out' = length out
    \<and> (\<forall>j < length out. out' ! j = (if j < unat n \<and> j < unat grid * unat block then detok_byte (tokens ! j) else out ! j))"
  unfolding nexusrt_launch_detokenize_format_def
proof (rule launch_elementwise [OF sch refl len(2)])
  fix t and st :: "8 word list" assume l: "length st = length out"
  show "detokenize_format tokens n block t st = (if n \<le> global_id block t then Some st
      else Some (st[unat (global_id block t) := detok_byte (tokens ! unat (global_id block t))]))"
    using len l by (auto simp: detokenize_format_def load_at_def store_at_def detok_byte_def Let_def word_le_nat_alt)
qed

lemma tok_launch:
  assumes sch: "schedule_of grid block ts" and len: "unat n \<le> length raw" "unat n \<le> length tokens" and v: "vocab \<noteq> 0"
  shows "\<exists>tokens'. nexusrt_launch_tokenize_bpe_u8 ts raw tokens n vocab block = Some tokens' \<and> length tokens' = length tokens
    \<and> (\<forall>j < length tokens. tokens' ! j = (if j < unat n \<and> j < unat grid * unat block then ucast (raw ! j) mod vocab else tokens ! j))"
  unfolding nexusrt_launch_tokenize_bpe_u8_def
proof (rule launch_elementwise [OF sch refl len(2)])
  fix t and st :: "i32 list" assume l: "length st = length tokens"
  show "tokenize_bpe_u8 raw n vocab block t st = (if n \<le> global_id block t then Some st
      else Some (st[unat (global_id block t) := ucast (raw ! unat (global_id block t)) mod vocab]))"
    using len l v by (auto simp: tokenize_bpe_u8_def load_at_def store_at_def Let_def word_le_nat_alt)
qed

text \<open>C28: The detokenising kernel computes what the host does, in every order the device runs its
  threads.  No thread leaves the buffers; the bytes of the tokens that the grid covers are the
  text that \<open>run_postprocess\<close> gives for these tokens; the bytes after them are untouched, so a
  grid smaller than the token count silently drops the rest.\<close>

theorem detokenize_kernel_is_host:
  assumes sch: "schedule_of grid block ts" and len: "unat n \<le> length tokens" "unat n \<le> length out"
    and k: "k = min (unat n) (unat grid * unat block)"
  shows "\<exists>out'. nexusrt_launch_detokenize_format ts tokens out n block = Some out'
    \<and> map byte_char (take k out') = snd (pl_run_postprocess (take k tokens)) \<and> drop k out' = drop k out"
proof -
  obtain out' where o: "nexusrt_launch_detokenize_format ts tokens out n block = Some out'" "length out' = length out"
    "\<forall>j < length out. out' ! j = (if j < unat n \<and> j < unat grid * unat block then detok_byte (tokens ! j) else out ! j)"
    using detok_launch [OF sch len] by blast
  have "map byte_char (take k out') = map detok_char (take k tokens)"
    using o(2,3) len k by (intro nth_equalityI) (auto simp: detok_byte_char)
  moreover have "drop k out' = drop k out"
    using o(2,3) len k by (intro nth_equalityI) (auto simp: nth_drop)
  ultimately show ?thesis using o(1) by (simp add: pl_run_postprocess_def)
qed

text \<open>C29: Tokenising and detokenising on the device gives printable text back.  For every byte of the
  printable range, a vocabulary of at least 127 ids and grids that cover the text, the two kernels
  reproduce it, whatever the orders of their threads.\<close>

theorem tokenize_detokenize:
  assumes sch: "schedule_of grid1 block1 ts1" "schedule_of grid2 block2 ts2"
    and cover: "unat n \<le> unat grid1 * unat block1" "unat n \<le> unat grid2 * unat block2"
    and len: "length raw = unat n" "length tokens = unat n" "length out = unat n"
    and printable: "\<forall>b \<in> set raw. 32 \<le> unat b \<and> unat b < 127" and v: "127 \<le> vocab"
  shows "\<exists>tokens'. nexusrt_launch_tokenize_bpe_u8 ts1 raw tokens n vocab block1 = Some tokens'
    \<and> nexusrt_launch_detokenize_format ts2 tokens' out n block2 = Some raw"
proof -
  have v0: "vocab \<noteq> 0" using v by (auto simp: word_le_nat_alt)
  obtain tokens' where t: "nexusrt_launch_tokenize_bpe_u8 ts1 raw tokens n vocab block1 = Some tokens'"
    "length tokens' = unat n" "\<forall>j < unat n. tokens' ! j = ucast (raw ! j) mod vocab"
    using tok_launch [OF sch(1) _ _ v0, of n raw tokens] len cover(1) by auto
  obtain out' where o: "nexusrt_launch_detokenize_format ts2 tokens' out n block2 = Some out'" "length out' = unat n"
    "\<forall>j < unat n. out' ! j = detok_byte (tokens' ! j)"
    using detok_launch [OF sch(2), of n tokens' out] len cover(2) t(2) by auto
  have byte: "detok_byte (ucast b mod vocab) = b" if "32 \<le> unat b" "unat b < 127" for b :: "8 word"
  proof -
    have u: "unat (ucast b :: i32) = unat b" using that(2) by (simp add: unsigned_ucast_eq take_bit_nat_eq_self)
    have m: "ucast b mod vocab = (ucast b :: i32)"
      using that(2) v u by (intro mod_word_less) (simp add: word_less_nat_alt word_le_nat_alt)
    have s: "sint (ucast b :: i32) = int (unat b)"
      using sint_small [of "unat b"] that(2) by simp
    have i: "ucast (ucast b :: i32) = b" by (rule bit_word_eqI) (auto simp: bit_simps)
    have "32 \<le> int (unat b) \<and> int (unat b) < 127" using that by linarith
    then show ?thesis unfolding m detok_byte_def s i by (rule if_P)
  qed
  have "out' = raw"
    using o(2,3) t(3) len(1) printable byte by (intro nth_equalityI) auto
  then show ?thesis using t(1) o(1) by blast
qed

definition demo_order :: "thread list" where
  "demo_order = rev (threads 2 2)"

lemma demo_schedule: "schedule_of 2 2 demo_order"
  by (auto simp: schedule_of_def demo_order_def threads_def upt_rec)

theorem detokenize_kernel_is_host_witness:
  "\<exists>out'. nexusrt_launch_detokenize_format demo_order [72, 105, 7, 33, 34] [1, 2, 3, 4, 5] 5 2 = Some out'
    \<and> map byte_char (take 4 out') = ''Hi !'' \<and> drop 4 out' = [5]"
proof -
  have k: "(4 :: nat) = min (unat (5 :: u64)) (unat (2 :: u32) * unat (2 :: u32))" by simp
  have h: "snd (pl_run_postprocess (take 4 [72, 105, 7, 33, 34])) = ''Hi !''"
    by code_simp
  from detokenize_kernel_is_host [OF demo_schedule _ _ k, of "[72, 105, 7, 33, 34]" "[1, 2, 3, 4, 5]"] h
  show ?thesis by simp
qed

theorem tokenize_detokenize_witness:
  "\<exists>tokens'. nexusrt_launch_tokenize_bpe_u8 demo_order [72, 105] [0, 0] 2 256 2 = Some tokens'
    \<and> nexusrt_launch_detokenize_format demo_order tokens' [0, 0] 2 2 = Some [72, 105]"
  using tokenize_detokenize [OF demo_schedule demo_schedule, of 2 "[72, 105]" "[0, 0]" "[0, 0]" 256] by simp

subsection \<open>The placeholder kernels\<close>

lemma transformer_launch:
  assumes sch: "schedule_of grid block ts" and len: "unat n \<le> length weights" "unat n \<le> length acts" "length grads = length acts"
    and cover: "unat n \<le> unat grid * unat block"
  shows "nexusrt_launch_transformer_fwd_bwd ts zero weights acts grads n block
    = Some (take (unat n) weights @ drop (unat n) acts, replicate (unat n) zero @ drop (unat n) grads)"
proof -
  let ?g = "\<lambda>t. unat (global_id block t)"
  have both: "run_threads (transformer_fwd_bwd zero weights n block) us (a, g) = Some (a', g')"
    if "run_threads (\<lambda>t st. if n \<le> global_id block t then Some st else Some (st[?g t := weights ! ?g t])) us a = Some a'"
      "run_threads (\<lambda>t st. if n \<le> global_id block t then Some st else Some (st[?g t := zero])) us g = Some g'"
      "length a = length acts" "length g = length acts" for us a g a' g'
    using that
  proof (induction us arbitrary: a g)
    case (Cons u us)
    have "?g u < length weights \<and> ?g u < length acts" if "\<not> n \<le> global_id block u"
      using that len by (simp add: word_le_nat_alt)
    then show ?case
      using Cons by (cases "n \<le> global_id block u") (simp_all add: transformer_fwd_bwd_def load_at_def store_at_def Let_def)
  qed simp
  obtain a' where a: "run_threads (\<lambda>t st. if n \<le> global_id block t then Some st else Some (st[?g t := weights ! ?g t])) ts acts = Some a'"
    "length a' = length acts" "\<forall>j < length acts. a' ! j = (if j < unat n \<and> j < unat grid * unat block then weights ! j else acts ! j)"
    using launch_elementwise [OF sch refl len(2), where f = "\<lambda>j. weights ! j"
        and body = "\<lambda>t st. if n \<le> global_id block t then Some st else Some (st[?g t := weights ! ?g t])"] by auto
  obtain g' where g: "run_threads (\<lambda>t st. if n \<le> global_id block t then Some st else Some (st[?g t := zero])) ts grads = Some g'"
    "length g' = length acts" "\<forall>j < length acts. g' ! j = (if j < unat n \<and> j < unat grid * unat block then zero else grads ! j)"
    using launch_elementwise [OF sch len(3) len(2), where f = "\<lambda>j. zero"
        and body = "\<lambda>t st. if n \<le> global_id block t then Some st else Some (st[?g t := zero])"] by auto
  have "a' = take (unat n) weights @ drop (unat n) acts"
    using a(2,3) len cover by (intro nth_equalityI) (auto simp: nth_append)
  moreover have "g' = replicate (unat n) zero @ drop (unat n) grads"
    using g(2,3) len cover by (intro nth_equalityI) (auto simp: nth_append)
  ultimately show ?thesis
    using both [OF a(1) g(1)] len(3) by (simp add: nexusrt_launch_transformer_fwd_bwd_def)
qed

lemma run_threads_fault: "t \<in> set ts \<Longrightarrow> (\<And>st. body t st = None) \<Longrightarrow> run_threads body ts st = None"
proof (induction ts arbitrary: st)
  case (Cons u us)
  then show ?case by (cases "body u st") auto
qed simp

lemma global_id32_eq: "unat (global_id32 block t) = unat (global_id block t) mod 2 ^ 32"
  by (simp add: global_id32_def unat_global_id unat_word_ariths mod_add_left_eq)

text \<open>C27: The decoding step stays inside its buffers when the weights hold \<open>d\<close> rows of \<open>vocab\<close> entries and
  their number fits 32 bits: on any grid that covers the vocabulary, even one whose thread numbers
  wrap, and in any order of the threads, every logit below \<open>vocab\<close> gets the weight of its column in
  the row of the last token, and the rest of the buffer is untouched.\<close>

theorem decode_in_bounds:
  assumes sch: "schedule_of grid block ts" and d: "d \<noteq> 0" and tok: "last_token \<noteq> []"
    and w: "unat d * unat vocab \<le> length weights" "unat d * unat vocab < 2 ^ 32" and l: "unat vocab \<le> length logits"
    and cover: "unat vocab \<le> unat grid * unat block"
  shows "\<exists>out. nexusrt_launch_decode_step ts weights last_token logits d vocab block = Some out \<and> length out = length logits
    \<and> (\<forall>j < unat vocab. out ! j = weights ! (unat (hd last_token mod d) * unat vocab + j))
    \<and> drop (unat vocab) out = drop (unat vocab) logits"
proof -
  let ?row = "hd last_token mod d"
  let ?g = "\<lambda>t. unat (global_id32 block t)"
  let ?f = "\<lambda>j. weights ! (unat ?row * unat vocab + j)"
  have row: "unat ?row < unat d" using d by (simp add: unat_mod unat_gt_0)
  have idx: "unat (?row * vocab + i) = unat ?row * unat vocab + unat i \<and> unat ?row * unat vocab + unat i < unat d * unat vocab"
    if i: "unat i < unat vocab" for i
  proof -
    have "Suc (unat ?row) * unat vocab \<le> unat d * unat vocab" using row by (intro mult_le_mono1) simp
    then have lt: "unat ?row * unat vocab + unat i < unat d * unat vocab" using i by simp
    then show ?thesis using w(2) by (simp add: unat_word_ariths)
  qed
  have h: "load_at last_token 0 = Some (hd last_token)" using tok by (simp add: load_at_def hd_conv_nth)
  have body: "decode_step weights last_token d vocab block t st =
      Some (if ?g t < unat vocab then st[?g t := ?f (?g t)] else st)" if st: "length st = length logits" for t and st :: "'a list"
  proof (cases "?g t < unat vocab")
    case True
    have r: "unat (?row * vocab + global_id32 block t) = unat ?row * unat vocab + ?g t"
      and b: "unat ?row * unat vocab + ?g t < length weights" using idx [OF True] w(1) by linarith+
    have "?g t < length st" using True l st by linarith
    then show ?thesis using True d b by (simp add: decode_step_def h Let_def r load_at_def [of weights] store_at_def word_le_nat_alt)
  qed (simp add: decode_step_def word_le_nat_alt)
  from run_elementwise [where g = ?g and n = "unat vocab" and f = ?f, OF body refl]
  obtain out where o: "nexusrt_launch_decode_step ts weights last_token logits d vocab block = Some out"
    "length out = length logits"
    "\<forall>j < length logits. out ! j = (if j < unat vocab \<and> j \<in> ?g ` set ts then ?f j else logits ! j)"
    unfolding nexusrt_launch_decode_step_def by blast
  have "j \<in> ?g ` set ts" if j: "j < unat vocab" for j
  proof -
    have "j < unat grid * unat block" using j cover by simp
    then obtain t where t: "t \<in> set ts" "unat (global_id block t) = j"
      using global_id_covers [of j grid block] sch by (auto simp: schedule_of_def)
    have "?g t = j" using t(2) j unat32 [of vocab] by (simp add: global_id32_eq)
    then show ?thesis using t(1) by blast
  qed
  then have "\<forall>j < unat vocab. out ! j = ?f j" using o(3) l by auto
  moreover have "drop (unat vocab) out = drop (unat vocab) logits"
    using o(2,3) l by (intro nth_equalityI) auto
  ultimately show ?thesis using o(1,2) by blast
qed

theorem decode_in_bounds_witness:
  "\<exists>out. nexusrt_launch_decode_step demo_order [10, 11, 12, 20, 21, 22 :: nat] [5] [0, 0, 0, 7] 2 3 2 = Some out
    \<and> (\<forall>j < 3. out ! j = [20, 21, 22] ! j) \<and> drop 3 out = [7]"
proof -
  let ?w = "[10, 11, 12, 20, 21, 22 :: nat]"
  have r: "unat (hd [5 :: i32] mod 2) * unat (3 :: u32) = 3" by simp
  have "\<exists>out. nexusrt_launch_decode_step demo_order ?w [5] [0, 0, 0, 7] 2 3 2 = Some out
    \<and> length out = length [0, 0, 0, 7 :: nat]
    \<and> (\<forall>j < unat (3 :: u32). out ! j = ?w ! (unat (hd [5 :: i32] mod 2) * unat (3 :: u32) + j))
    \<and> drop (unat (3 :: u32)) out = drop (unat (3 :: u32)) [0, 0, 0, 7]"
    by (rule decode_in_bounds [OF demo_schedule]) simp_all
  then obtain out where o: "nexusrt_launch_decode_step demo_order ?w [5] [0, 0, 0, 7] 2 3 2 = Some out"
    and f: "\<forall>j < 3. out ! j = ?w ! (3 + j)" and d: "drop 3 out = [7]"
    unfolding r by auto
  have "out ! j = [20, 21, 22] ! j" if "j < 3" for j
  proof -
    have "?w ! (3 + j) = [20, 21, 22] ! j" by (simp add: numeral_3_eq_3)
    then show ?thesis using f that by simp
  qed
  then show ?thesis using o d by blast
qed

text \<open>With the square weights that the comment on the parameter names, a vocabulary larger than
  \<open>d\<close> and a last token in the last row, a covering grid reads past the weights.\<close>

lemma decode_square_weights_fault:
  assumes sch: "schedule_of grid block ts" and w: "length weights = unat d * unat d" and dv: "unat d < unat vocab" "d \<noteq> 0"
    and small: "unat d * unat vocab < 2 ^ 32" and tok: "last_token \<noteq> []" "hd last_token mod d = d - 1"
    and cover: "unat vocab \<le> unat grid * unat block"
  shows "nexusrt_launch_decode_step ts weights last_token logits d vocab block = None"
proof -
  have "unat vocab - 1 < unat grid * unat block" using dv cover by linarith
  then obtain t where t: "t \<in> set ts" "unat (global_id block t) = unat vocab - 1"
    using global_id_covers [of "unat vocab - 1" grid block] sch by (auto simp: schedule_of_def)
  have g: "unat (global_id32 block t) = unat vocab - 1" using t(2) unat32 [of vocab] by (simp add: global_id32_eq)
  have d1: "unat (d - 1) = unat d - 1" using dv(2) by (simp add: unat_minus_one)
  have pos: "0 < unat d" using dv(2) by (simp add: unat_gt_0)
  have m: "(unat d - 1) * unat vocab + (unat vocab - 1) = unat d * unat vocab - 1"
    using pos dv(1) by (cases "unat d") auto
  have "unat ((d - 1) * vocab + global_id32 block t) = unat d * unat vocab - 1"
    using small m by (simp add: unat_word_ariths(1,2) d1 g)
  moreover have "unat d * unat d \<le> unat d * unat vocab - 1"
  proof -
    have "unat d * unat d < unat d * unat vocab" using pos dv(1) by simp
    then show ?thesis by linarith
  qed
  moreover have h: "load_at last_token 0 = Some (hd last_token)" using tok(1) by (simp add: load_at_def hd_conv_nth)
  ultimately have "decode_step weights last_token d vocab block t st = None" for st
    using g dv h w by (auto simp: decode_step_def load_at_def [of weights] Let_def tok(2) word_le_nat_alt)
  then show ?thesis
    unfolding nexusrt_launch_decode_step_def by (intro run_threads_fault [where t = t]) (simp_all add: t(1))
qed

end
