(* ===== verification/Spec2Isabelle.thy ===== *)
theory Spec2Isabelle
  imports Dispatch SelfTests UnitTests Abi Returns Pipeline Prefetcher KvCache CudaProcess MetalProcess CudaHelpers Kernels
begin

text \<open>
  A verification development for the NexusRT runtime.

  \<^bold>\<open>The program.\<close>  NexusRT is a user-space runtime for one GPU.  Its C++ code under
  \<^verbatim>\<open>src/src/\<close> has five layers.  At the bottom, \<^verbatim>\<open>platform/dispatch\<close> selects a
  backend, an implementation of \<^verbatim>\<open>PlatformInterface\<close>: \<^verbatim>\<open>firmware/cuda_driver_shim.cu\<close>
  is the one for NVIDIA, over libcuda, and \<^verbatim>\<open>firmware/metal_shim.mm\<close> the one for Apple, over
  the Metal framework.  The firmware layer (\<^verbatim>\<open>firmware/\<close>) boots the device into
  a \<^verbatim>\<open>FirmwareContext\<close>, which owns the micro-kernel with its pool of streams, the DMA engine,
  the fault handler, the ILC manager and, lazily, the memory manager.  Over the context stand
  memory (\<^verbatim>\<open>memory/\<close>: allocations and the page table), scheduling (\<^verbatim>\<open>scheduler/\<close>: the
  task graph), token optimisation (\<^verbatim>\<open>token_opt/\<close>: layer budgets, KV cache, prefetcher) and the
  pipeline (\<^verbatim>\<open>pipeline/\<close>: four canonical stages and their device kernels).  Clients reach all
  of it through the C functions of \<^verbatim>\<open>platform/abi.h\<close>, which name a context by a handle.

  \<^bold>\<open>How the model follows the code.\<close>  A class is a record of its members; an operation is a
  definition of the same name that takes the record and returns it updated, with the result code
  as a value of \<^typ>\<open>status\<close>; an output parameter is a component of the result.  What an
  operation reaches through its \<^verbatim>\<open>FirmwareContext&\<close> is a further argument.  A backend is a
  record of functions over the state of the hardware, and every component is proved for an
  arbitrary one: a hypothesis on it is stated in the property.  Integers have the width of the
  code and wrap; pointers are 64-bit words with 0 for null.  A \<^verbatim>\<open>std::unordered_map\<close> is an
  association list in an arbitrary iteration order.  The clock and the duration of a resolution
  are function arguments.  A result of \<^term>\<open>None\<close> is a call that never returns or that
  dereferences a null pointer; that it does not occur, or when it does, is a property each time.
  The clearing of a null fault buffer is instead the flag \<open>fh_crashed\<close>, and a driver call that
  never returns a mark on the state of the hardware.
\<close>

text \<open>
  \<^bold>\<open>The theories and the sources.\<close>

  \<^item> \<open>Prelude\<close>: machine integers, association lists, page arithmetic and the loop over pages.
  \<^item> \<open>FwTypes\<close>: \<^verbatim>\<open>firmware/types.hpp\<close> and the plain structures that cross the platform
    boundary.
  \<^item> \<open>Platform\<close>: \<^verbatim>\<open>platform/dispatch.hpp\<close> and \<^verbatim>\<open>dispatch.cpp\<close>: the interface, the null
    backend, registration, probing and selection; a simulated backend for the witnesses.
  \<^item> \<open>Dispatch\<close>: the forwarding methods of \<^verbatim>\<open>PlatformDispatch\<close>.
  \<^item> \<open>Interfaces\<close>: the contracts between components, as locales.
  \<^item> \<open>PageTable\<close>: \<^verbatim>\<open>memory/page_table\<close>.  \<open>Ilc\<close>: \<^verbatim>\<open>firmware/ilc_manager\<close>.
    \<open>MemManager\<close>: \<^verbatim>\<open>memory/manager\<close>, \<^verbatim>\<open>memory/coalescer\<close>.
  \<^item> \<open>MicroKernel\<close>: \<^verbatim>\<open>firmware/microkernel\<close>, \<^verbatim>\<open>scheduler/stream_pool.hpp\<close>,
    \<^verbatim>\<open>scheduler/warp_specialization.hpp\<close>.
  \<^item> \<open>TaskGraph\<close>: \<^verbatim>\<open>scheduler/graph\<close>.  \<open>FaultHandler\<close>: \<^verbatim>\<open>firmware/fault_handler\<close>.
  \<^item> \<open>DmaEngine\<close>: \<^verbatim>\<open>firmware/dma_engine\<close>, \<^verbatim>\<open>memory/gds_router.cpp\<close>,
    \<^verbatim>\<open>memory/grdma_router.cpp\<close>.  \<open>TmaEngine\<close>: \<^verbatim>\<open>firmware/tma_engine\<close>.
  \<^item> \<open>Boot\<close>: \<^verbatim>\<open>firmware/boot\<close> and \<^verbatim>\<open>firmware/context\<close>.
  \<^item> \<open>TokenScope\<close>: \<^verbatim>\<open>token_opt/scope\<close>.  \<open>KvCache\<close>: \<^verbatim>\<open>token_opt/kv_cache\<close>.
    \<open>Prefetcher\<close>: \<^verbatim>\<open>token_opt/prefetcher\<close>.
  \<^item> \<open>Pipeline\<close>: \<^verbatim>\<open>pipeline/orchestrator\<close> and the stage classes.  \<open>Kernels\<close>: the device
    kernels of \<^verbatim>\<open>pipeline/kernels/\<close> and their launchers.
  \<^item> \<open>Abi\<close>: the handle registry of \<^verbatim>\<open>firmware/context.cpp\<close> and every exported function of
    \<^verbatim>\<open>platform/abi.h\<close>.
  \<^item> \<open>CudaShim\<close>: \<^verbatim>\<open>firmware/cuda_driver_shim.cu\<close>.  \<open>CudaHelpers\<close>:
    \<^verbatim>\<open>firmware/ilc_allocations.cu\<close>, \<^verbatim>\<open>firmware/tma_descriptor.cu\<close>.
    \<open>MetalShim\<close>: \<^verbatim>\<open>firmware/metal_shim.mm\<close>.  \<open>HostFiles\<close>: the files both shims open.
  \<^item> \<open>Frames\<close>: what every call of a backend keeps, the program keeps.  \<open>Returns\<close>: over drivers
    whose calls return, the C interface returns.  \<open>SoleBackend\<close>: a process
    with one backend, registered at its start and driven through the C interface.
    \<open>CudaProcess\<close> and \<open>MetalProcess\<close>: that process over either shim.
  \<^item> \<open>SelfTests\<close>: the five \<^verbatim>\<open>selftest.cpp\<close> suites.  \<open>UnitTests\<close>: the tests of
    the four GoogleTest files of \<^verbatim>\<open>tests/unit/\<close>.

  \<^bold>\<open>Interfaces.\<close>  Each locale states what a client relies on, its lemmas are proved once, and it
  is interpreted on the model of the code: \<open>page_mapper\<close> (mapping, unmapping and looking up
  ranges) on the page table, for the memory manager; \<open>pinned_eviction\<close> (a cache whose evictions
  spare pinned members, over any history) on the page table and on the KV cache; \<open>stream_pool\<close>
  (acquire and release) on the micro-kernel, for scoped streams and the executor; \<open>token_meter\<close>
  on the context scope; \<open>handle_map\<close> on the registry; \<open>backend_sim\<close> (one backend does on the
  image of a state what another does on the state) on the dispatcher and the backend it selected;
  \<open>backend_calm\<close>, \<open>backend_memory\<close> and \<open>backend_frame\<close> (a relation in which the calls of a
  backend stay: those that neither allocate nor launch, those that do not launch, all of them) on
  both shims, as far as each goes; \<open>functionless_loader\<close> (a backend whose modules have no
  functions) on both shims; \<open>sole_backend\<close> (what a shim shows for an invariant of the one context
  of a process) on both shims.
\<close>

text \<open>
  \<^bold>\<open>What is shown.\<close>

  \<^item> \<^bold>\<open>Memory.\<close>  Mapping a range makes each of its bytes resident and leaves the other pages
    alone, but maps nothing when it reaches into the last page of the address space; unmapping never removes a pinned page and reports one; eviction spills exactly the
    unpinned pages the watermarks call for, oldest first.  The manager's byte counter is in every
    reachable state the sum of its live blocks and of what releases through records other than
    the returned ones left in it; allocation is all or nothing, and freeing what
    it returned restores the accounting.
  \<^item> \<^bold>\<open>Scheduling.\<close>  \<open>validate\<close>, Kahn's algorithm on a queue, is equivalent to a statement
    about the dependency relation (existing, duplicate-free, acyclic) and the footprints.
    \<open>tg_run\<close> follows the step relation \<open>exec\<close>, which launches a stage only after its
    dependencies; it restores the stream pool on every path, completes on \<open>Ok\<close> exactly the
    pending stages that wait for no failed one, stops otherwise in one of the ways stated, and
    completes every stage when the driver accepts the launches.  \<open>Pipeline\<close> instantiates
    this for the four canonical stages.
  \<^item> \<^bold>\<open>Boot.\<close>  A successful boot is a complete context with the requested pool; the events are
    those of the phases in order, up to the phase of the step that failed, with its status; a driver that accepts the steps suffices
    for success.
  \<^item> \<^bold>\<open>The C interface.\<close>  \<open>abi_reach\<close> is the set of process states that clients reach by any
    sequence of calls.  In all of them each call keeps every registered context well-formed, a call
    on a registered context answers exactly the status stated for it, and one on an unregistered
    handle is inert.  Each call returns over drivers whose own calls return (\<open>sound_reach\<close>): the
    driver calls of the model are functions, so a driver call that hangs is a mark on the state
    of the hardware, as \<open>mh_stuck\<close> is for Metal.
  \<^item> \<^bold>\<open>The backends.\<close>  Over the CUDA backend and any libcuda, no sequence of C calls dereferences
    a null context state.  Over the Metal backend and any framework that counts references, the
    shim's list of buffers is after every sequence exactly the fault buffer and the live blocks
    of the context; boot fails only when the fault buffer is refused.  A storage write is read
    back on either.
  \<^item> \<^bold>\<open>Faults, tokens, caches.\<close>  Fault counters balance under every interleaving of the device,
    the polling thread and its owner; the token meter charges each token once; the KV cache
    evicts the least attended pages; the prefetcher hints the best slots; the descriptor cache
    releases what it encodes.
  \<^item> \<^bold>\<open>Kernels.\<close>  Each kernel is a function of one thread over the buffers, and a launch runs the
    threads of the grid in an arbitrary order.  The launches stay in bounds and compute the
    host's function in every order.
  \<^item> \<^bold>\<open>Dispatch and self tests.\<close>  Boot, allocation and pool behave through the dispatcher as on
    the backend itself.  The verdicts of the self tests and of the unit tests are determined, on an
    arbitrary driver where they do not depend on it: among them, the GDS unit test fails on every
    machine that boots, and the tests that fill a KV cache never return.
  \<^item> \<^bold>\<open>Defects.\<close>  Where the code does not do what it means to, the theorem states what it does:
    the C function that frees leaves the accounting behind, no backend ever launches, waiting
    for a barrier on Metal never returns and a block freed there is not given back, a touch of a full KV cache locks a mutex twice, a fresh fault buffer counts phantom faults.

  \<^bold>\<open>Loops and fuel.\<close>  No definition takes fuel.  The page loops and the chunk loop of
  \<open>gds_stream\<close> advance a wrapping 64-bit counter and are \<^term>\<open>while_option\<close>; they are proved to
  return (\<open>page_loop_returns\<close>, from which each range operation equals a fold over its pages; for
  the stream, under the condition that the last chunk does not wrap).  Kahn's loop terminates by
  the length of the queue plus the number of positive in-degrees, the executor by the number of
  pending stages.  Witnesses run on pools of a few streams and tables of a few pages.
\<close>

text \<open>
  \<^bold>\<open>Not modelled.\<close>

  \<^item> libcuda and the Metal framework are records of functions.  What a property needs of them
    (handles they hold, address ranges reserved, copies performed, references counted, command
    buffers that are not committed) is a hypothesis, with a concrete driver in the witness.  A
    shim's table of states is followed at one context address.  What the autorelease pools of the
    Metal shim drop is outside; the shim retains what it keeps.
  \<^item> Threads: the mutexes make each operation atomic, and operations are sequences.  The polling
    thread alone interleaves, in \<open>fh_step\<close>.  The relaxed reads of atomic counters and the
    installation of a second poller, which ends the process, are outside.
  \<^item> NaN and the rounding of attention scores: scores and weights are elements of a linear order,
    with addition where they are summed.
  \<^item> Null strings and a null \<^verbatim>\<open>out_ptr\<close> given to a C function that does not check them, and a
    null \<^verbatim>\<open>out_ctx\<close> of \<^verbatim>\<open>nexusrt_firmware_init\<close>, which is refused before anything
    happens; GoogleTest's runner; the YAML files named in \<^verbatim>\<open>PipelineConfig\<close>, which no code reads; trace output.
  \<^item> The loader glue (\<^verbatim>\<open>cuda_driver_loader.cpp\<close>, \<^verbatim>\<open>metal_loader.mm\<close>,
    \<^verbatim>\<open>cuda_include.h\<close>) has no operation; \<open>cuda_auto_register\<close> and \<open>metal_auto_register\<close> are the
    static initialisers it pulls in.  The Python package with
    its tests is a driver over the C interface.
\<close>

end
